(* ===== verification/Prelude.thy ===== *)
theory Prelude
  imports Main "HOL-Library.Word"
begin

text \<open>
  What every component shares: the names of the machine types, bounds-checked slices,
  "remove the first match" on lists (the shape of most deletions in the Go code),
  reachability over an explicit step relation, and the two locales every stateful
  component uses: \<open>safety\<close> (an inductive invariant holds in every reachable state) and
  \<open>simulation\<close> (a detailed machine implements an abstract one).
\<close>

unbundle bit_operations_syntax

type_synonym byte = "8 word"
type_synonym u16 = "16 word"
type_synonym u32 = "32 word"
type_synonym u64 = "64 word"
type_synonym bytes = "byte list"

named_theorems wire_simps \<open>layout of encoded messages: lengths, takes and drops\<close>
named_theorems no_panic \<open>operations that cannot panic\<close>
named_theorems machine_simps \<open>definitions of a component's operations\<close>

lemma unat_bound: "unat (w :: 'a::len word) < 2 ^ LENGTH('a)"
  by (rule unsigned_less)

lemma unat_byte_bound [simp]: "unat (b :: byte) < 256"
  using unat_bound [of b] by simp

section \<open>Slices\<close>

text \<open>
  \<open>slice xs i j\<close> is Go's \<open>xs[i:j]\<close> where the run time accepts it; an index outside
  \<open>0 \<le> i \<le> j \<le> len xs\<close> panics, which is None here.
\<close>

definition slice :: "'a list \<Rightarrow> nat \<Rightarrow> nat \<Rightarrow> 'a list option" where
  "slice xs i j = (if i \<le> j \<and> j \<le> length xs then Some (take (j - i) (drop i xs)) else None)"

lemma slice_Some_iff:
  "slice xs i j = Some ys \<longleftrightarrow> i \<le> j \<and> j \<le> length xs \<and> ys = take (j - i) (drop i xs)"
  by (auto simp: slice_def)

lemma slice_length: "slice xs i j = Some ys \<Longrightarrow> length ys = j - i"
  by (auto simp: slice_Some_iff)

lemma slice_middle:
  "length xs = i \<Longrightarrow> length xs + length ys = j \<Longrightarrow> slice (xs @ ys @ zs) i j = Some ys"
  by (auto simp: slice_def)

text \<open>
  The outcome of a Go function: a value, an error value, or a run-time panic. \<open>at_index\<close> and
  \<open>cut\<close> are the index and slice expressions, with the rest of the function as their
  continuation, so that an access out of range is a panic of the whole function.
\<close>

datatype ('e, 'a) result = Ok 'a | Fail 'e | Panic

definition at_index :: "'a list \<Rightarrow> nat \<Rightarrow> ('a \<Rightarrow> ('e, 'b) result) \<Rightarrow> ('e, 'b) result" where
  "at_index xs i k = (if i < length xs then k (xs ! i) else Panic)"

definition cut ::
  "'a list \<Rightarrow> nat \<Rightarrow> nat \<Rightarrow> ('a list \<Rightarrow> ('e, 'b) result) \<Rightarrow> ('e, 'b) result" where
  "cut xs i j k = (if i \<le> j \<and> j \<le> length xs then k (take (j - i) (drop i xs)) else Panic)"

fun and_then :: "('e, 'a) result \<Rightarrow> ('a \<Rightarrow> ('e, 'b) result) \<Rightarrow> ('e, 'b) result" where
  "and_then (Ok x) k = k x"
| "and_then (Fail e) k = Fail e"
| "and_then Panic k = Panic"

lemma at_index_in [simp]: "i < length xs \<Longrightarrow> at_index xs i k = k (xs ! i)"
  by (simp add: at_index_def)

lemma cut_in [simp]: "i \<le> j \<Longrightarrow> j \<le> length xs \<Longrightarrow> cut xs i j k = k (take (j - i) (drop i xs))"
  by (simp add: cut_def)

text \<open>Inside a recursion an access hands on what it has checked.\<close>

lemma at_index_cong [fundef_cong]:
  "xs = ys \<Longrightarrow> i = j \<Longrightarrow> (j < length ys \<Longrightarrow> k (ys ! j) = k' (ys ! j)) \<Longrightarrow>
     at_index xs i k = at_index ys j k'"
  by (simp add: at_index_def)

lemma cut_cong [fundef_cong]:
  "xs = ys \<Longrightarrow> i = i' \<Longrightarrow> j = j' \<Longrightarrow>
     (i' \<le> j' \<Longrightarrow> j' \<le> length ys \<Longrightarrow> k (take (j' - i') (drop i' ys)) = k' (take (j' - i') (drop i' ys))) \<Longrightarrow>
     cut xs i j k = cut ys i' j' k'"
  by (simp add: cut_def)

lemma and_then_cong [fundef_cong]:
  "r = r' \<Longrightarrow> (\<And>x. r' = Ok x \<Longrightarrow> k x = k' x) \<Longrightarrow> and_then r k = and_then r' k'"
  by (cases r') simp_all

lemma and_then_Ok_iff: "and_then r k = Ok y \<longleftrightarrow> (\<exists>x. r = Ok x \<and> k x = Ok y)"
  by (cases r) auto

lemma and_then_Panic_iff: "and_then r k = Panic \<longleftrightarrow> r = Panic \<or> (\<exists>x. r = Ok x \<and> k x = Panic)"
  by (cases r) auto

text \<open>When a function built from checked accesses cannot panic.\<close>

lemma and_then_no_panic [no_panic]:
  "r \<noteq> Panic \<Longrightarrow> (\<And>x. r = Ok x \<Longrightarrow> k x \<noteq> Panic) \<Longrightarrow> and_then r k \<noteq> Panic"
  by (cases r) auto

lemma Ok_no_panic [no_panic]: "Ok x \<noteq> Panic" and Fail_no_panic [no_panic]: "Fail e \<noteq> Panic"
  by simp_all

lemma if_no_panic [no_panic]:
  "(c \<Longrightarrow> r \<noteq> Panic) \<Longrightarrow> (\<not> c \<Longrightarrow> s \<noteq> Panic) \<Longrightarrow> (if c then r else s) \<noteq> Panic"
  by simp

lemma cut_no_panic [no_panic]:
  "i \<le> j \<Longrightarrow> j \<le> length b \<Longrightarrow> (\<And>x. length x = j - i \<Longrightarrow> k x \<noteq> Panic) \<Longrightarrow> cut b i j k \<noteq> Panic"
  by (simp add: cut_def)

lemma at_index_no_panic [no_panic]:
  "i < length b \<Longrightarrow> (\<And>x. k x \<noteq> Panic) \<Longrightarrow> at_index b i k \<noteq> Panic"
  by (simp add: at_index_def)

lemma prod_no_panic [no_panic]:
  "(\<And>x y. p = (x, y) \<Longrightarrow> f x y \<noteq> Panic) \<Longrightarrow> (case p of (x, y) \<Rightarrow> f x y) \<noteq> Panic"
  by (cases p) simp

lemma case_result_no_panic [no_panic]:
  "r \<noteq> Panic \<Longrightarrow> (\<And>x. r = Ok x \<Longrightarrow> f x \<noteq> Panic) \<Longrightarrow> (\<And>e. r = Fail e \<Longrightarrow> g e \<noteq> Panic) \<Longrightarrow>
     (case r of Ok x \<Rightarrow> f x | Fail e \<Rightarrow> g e | Panic \<Rightarrow> Panic) \<noteq> Panic"
  by (cases r) auto

section \<open>Removing the first match\<close>

fun remove_first :: "('a \<Rightarrow> bool) \<Rightarrow> 'a list \<Rightarrow> ('a \<times> 'a list) option" where
  "remove_first P [] = None"
| "remove_first P (x # xs) =
     (if P x then Some (x, xs)
      else (case remove_first P xs of None \<Rightarrow> None | Some (y, ys) \<Rightarrow> Some (y, x # ys)))"

lemma remove_first_None_iff: "remove_first P xs = None \<longleftrightarrow> (\<forall>x \<in> set xs. \<not> P x)"
  by (induction xs) (auto split: option.splits)

lemma remove_first_SomeD:
  "remove_first P xs = Some (y, ys) \<Longrightarrow>
     \<exists>us vs. xs = us @ y # vs \<and> ys = us @ vs \<and> P y \<and> (\<forall>u \<in> set us. \<not> P u)"
proof (induction xs arbitrary: ys)
  case Nil
  then show ?case by simp
next
  case (Cons x xs)
  show ?case
  proof (cases "P x")
    case True
    with Cons.prems have "x # xs = [] @ y # xs" "ys = [] @ xs" "P y" by auto
    then show ?thesis by (metis empty_iff list.set(1))
  next
    case False
    with Cons.prems obtain zs where zs: "remove_first P xs = Some (y, zs)" and ys: "ys = x # zs"
      by (auto split: option.splits)
    from Cons.IH [OF zs] obtain us vs where
      "xs = us @ y # vs" "zs = us @ vs" "P y" "\<forall>u \<in> set us. \<not> P u" by blast
    with ys False have "x # xs = (x # us) @ y # vs" "ys = (x # us) @ vs" "P y"
      "\<forall>u \<in> set (x # us). \<not> P u" by auto
    then show ?thesis by blast
  qed
qed

lemma remove_first_SomeI:
  "P y \<Longrightarrow> \<forall>u \<in> set us. \<not> P u \<Longrightarrow> remove_first P (us @ y # vs) = Some (y, us @ vs)"
  by (induction us) auto

lemma remove_first_set_sub: "remove_first P xs = Some (y, ys) \<Longrightarrow> set ys \<subseteq> set xs"
  by (auto dest: remove_first_SomeD)

lemma remove_first_in: "remove_first P xs = Some (y, ys) \<Longrightarrow> y \<in> set xs \<and> P y"
  by (auto dest: remove_first_SomeD)

lemma remove_first_length: "remove_first P xs = Some (y, ys) \<Longrightarrow> length xs = Suc (length ys)"
  by (auto dest: remove_first_SomeD)

lemma remove_first_mset:
  "remove_first P xs = Some (y, ys) \<Longrightarrow> x \<in> set xs \<Longrightarrow> x = y \<or> x \<in> set ys"
  by (auto dest: remove_first_SomeD)

text \<open>When a key identifies the elements, what is left no longer holds the key removed.\<close>

lemma remove_first_distinct:
  assumes "remove_first (\<lambda>x. f x = k) xs = Some (y, ys)" and "distinct (map f xs)"
  shows "f y = k" and "distinct (map f ys)" and "set (map f ys) = set (map f xs) - {k}"
  using assms by (auto dest!: remove_first_SomeD simp: image_iff) force+

lemma remove_first_set:
  assumes "remove_first P xs = Some (y, ys)" and "distinct (map f xs)"
  shows "set ys = set xs - {y}"
proof -
  obtain us vs where xs: "xs = us @ y # vs" and ys: "ys = us @ vs"
    using remove_first_SomeD [OF assms(1)] by blast
  have "distinct xs" using assms(2) by (simp add: distinct_map)
  with xs ys show ?thesis by auto
qed

lemma remove_first_filter:
  "distinct (map f xs) \<Longrightarrow>
     remove_first (\<lambda>x. f x = k) xs =
       (case find (\<lambda>x. f x = k) xs of
          None \<Rightarrow> None | Some y \<Rightarrow> Some (y, filter (\<lambda>x. f x \<noteq> k) xs))"
proof (induction xs)
  case Nil
  then show ?case by simp
next
  case (Cons x xs)
  show ?case
  proof (cases "f x = k")
    case True
    have "f y \<noteq> k" if "y \<in> set xs" for y using Cons.prems True that by simp (metis imageI)
    then have "filter (\<lambda>x. f x \<noteq> k) xs = xs" by (intro filter_True) blast
    with True show ?thesis by simp
  next
    case False
    with Cons show ?thesis by (auto split: option.splits)
  qed
qed

lemma filter_neq_id: "find (\<lambda>x. f x = k) xs = None \<Longrightarrow> filter (\<lambda>x. f x \<noteq> k) xs = xs"
  by (auto simp: find_None_iff filter_id_conv)

lemma length_filter_neq:
  "distinct (map f xs) \<Longrightarrow> x \<in> set xs \<Longrightarrow> Suc (length (filter (\<lambda>y. f y \<noteq> f x) xs)) = length xs"
proof (induction xs)
  case Nil
  then show ?case by simp
next
  case (Cons y ys)
  show ?case
  proof (cases "x = y")
    case True
    have "f z \<noteq> f x" if "z \<in> set ys" for z using Cons.prems True that by simp (metis imageI)
    then have "filter (\<lambda>z. f z \<noteq> f x) ys = ys" by (intro filter_True) blast
    with True show ?thesis by simp
  next
    case False
    with Cons show ?thesis by (force simp: image_iff)
  qed
qed

text \<open>A machine counter that has not reached its last value grows.\<close>

lemma next_word:
  fixes n :: "'a::len word"
  assumes "n \<noteq> - 1"
  shows "n < n + 1" and "0 < n + 1" and "i \<le> n \<Longrightarrow> i < n + 1"
proof -
  have "unat n \<noteq> 2 ^ LENGTH('a) - 1"
  proof
    assume "unat n = 2 ^ LENGTH('a) - 1"
    then have "unat n = unat (- 1 :: 'a word)"
      by (simp add: unsigned_minus_1_eq_mask mask_eq_exp_minus_1)
    with assms show False by (simp only: word_unat_eq_iff [symmetric])
  qed
  then have "unat n + 1 < 2 ^ LENGTH('a)" using unat_bound [of n] by linarith
  then have u: "unat (n + 1) = unat n + 1" by (simp add: unat_word_ariths)
  show "n < n + 1" and "0 < n + 1" and "i \<le> n \<Longrightarrow> i < n + 1"
    using u by (auto simp: word_less_nat_alt word_le_nat_alt)
qed

section \<open>Reachability, invariants and simulation\<close>

inductive reachable :: "('s \<Rightarrow> bool) \<Rightarrow> ('s \<Rightarrow> 's \<Rightarrow> bool) \<Rightarrow> 's \<Rightarrow> bool"
  for init :: "'s \<Rightarrow> bool" and step :: "'s \<Rightarrow> 's \<Rightarrow> bool" where
  reachable_init: "init s \<Longrightarrow> reachable init step s"
| reachable_step: "reachable init step s \<Longrightarrow> step s t \<Longrightarrow> reachable init step t"

locale safety =
  fixes init :: "'s \<Rightarrow> bool"
    and step :: "'s \<Rightarrow> 's \<Rightarrow> bool"
    and good :: "'s \<Rightarrow> bool"
  assumes init_good: "init s \<Longrightarrow> good s"
    and step_good: "good s \<Longrightarrow> step s t \<Longrightarrow> good t"
begin

lemma always_good: "reachable init step s \<Longrightarrow> good s"
  by (induction rule: reachable.induct) (auto intro: init_good step_good)

end

locale simulation =
  fixes init :: "'s \<Rightarrow> bool"
    and step :: "'s \<Rightarrow> 's \<Rightarrow> bool"
    and good :: "'s \<Rightarrow> bool"
    and ainit :: "'a \<Rightarrow> bool"
    and astep :: "'a \<Rightarrow> 'a \<Rightarrow> bool"
    and abs :: "'s \<Rightarrow> 'a"
  assumes good_reachable: "reachable init step s \<Longrightarrow> good s"
    and sim_init: "init s \<Longrightarrow> ainit (abs s)"
    and sim_step: "good s \<Longrightarrow> step s t \<Longrightarrow> abs t = abs s \<or> astep (abs s) (abs t)"
begin

lemma simulated: "reachable init step s \<Longrightarrow> reachable ainit astep (abs s)"
proof (induction rule: reachable.induct)
  case (reachable_init s)
  then show ?case by (auto intro: reachable.reachable_init sim_init)
next
  case (reachable_step s t)
  from sim_step [OF good_reachable [OF reachable_step.hyps(1)] reachable_step.hyps(2)]
  show ?case using reachable_step.IH by (auto intro: reachable.reachable_step)
qed

end

end
