(* ===== verification/Go_Bytes.thy ===== *)
theory Go_Bytes
  imports Prelude
begin

text \<open>
  The parts of the standard library that the wire code rests on: little-endian integers of
  \<open>encoding/binary\<close>, and the codec interface. The locale \<open>prefix_codec\<close> states what the
  users of an encoder/decoder pair rely on: decoding what was encoded, with anything
  behind it, gives the value back and leaves the rest.
\<close>

section \<open>Little-endian integers\<close>

text \<open>
  \<open>binary.LittleEndian.PutUint16/32/64\<close>: the value's base-256 digits, low byte first, and
  \<open>Uint16/32/64\<close>, the value of the first 2, 4 or 8 bytes (the callers check that they exist).
\<close>

fun le_digits :: "nat \<Rightarrow> nat \<Rightarrow> bytes" where
  "le_digits 0 v = []"
| "le_digits (Suc n) v = of_nat v # le_digits n (v div 256)"

fun le_value :: "bytes \<Rightarrow> nat" where
  "le_value [] = 0"
| "le_value (b # bs) = unat b + 256 * le_value bs"

definition le16_bytes :: "u16 \<Rightarrow> bytes" where "le16_bytes w = le_digits 2 (unat w)"
definition le32_bytes :: "u32 \<Rightarrow> bytes" where "le32_bytes w = le_digits 4 (unat w)"
definition le64_bytes :: "u64 \<Rightarrow> bytes" where "le64_bytes w = le_digits 8 (unat w)"

definition le16 :: "bytes \<Rightarrow> u16" where "le16 bs = of_nat (le_value (take 2 bs))"
definition le32 :: "bytes \<Rightarrow> u32" where "le32 bs = of_nat (le_value (take 4 bs))"
definition le64 :: "bytes \<Rightarrow> u64" where "le64 bs = of_nat (le_value (take 8 bs))"

lemma le_digits_length [simp]: "length (le_digits n v) = n"
  by (induction n arbitrary: v) auto

lemma le_value_digits: "le_value (le_digits n v) = v mod 256 ^ n"
proof (induction n arbitrary: v)
  case 0
  then show ?case by simp
next
  case (Suc n)
  have "unat (of_nat v :: byte) = v mod 256"
    by (simp add: unat_of_nat take_bit_eq_mod)
  then show ?case
    by (simp add: Suc.IH mod_mult2_eq add.commute)
qed

lemma le_value_bound: "le_value bs < 256 ^ length bs"
proof (induction bs)
  case Nil
  then show ?case by simp
next
  case (Cons b bs)
  have "unat b < 256" by simp
  moreover have "256 * Suc (le_value bs) \<le> 256 * 256 ^ length bs"
    using Cons by (intro mult_le_mono2) simp
  ultimately show ?case by (simp del: unat_byte_bound)
qed

lemma le_digits_value: "le_digits (length bs) (le_value bs) = bs"
proof (induction bs)
  case Nil
  then show ?case by simp
next
  case (Cons b bs)
  have b: "unat b < 256" by simp
  then have "(unat b + 256 * le_value bs) div 256 = le_value bs" by simp
  moreover have "(of_nat (unat b + 256 * le_value bs) :: byte) = b"
    using b by (intro unsigned_word_eqI [where 'a = nat])
      (simp add: unat_of_nat take_bit_eq_mod del: of_nat_add)
  ultimately show ?case using Cons.IH by simp
qed

lemma le16_bytes_length [simp, wire_simps]: "length (le16_bytes w) = 2"
  by (simp add: le16_bytes_def)

lemma le32_bytes_length [simp, wire_simps]: "length (le32_bytes w) = 4"
  by (simp add: le32_bytes_def)

lemma le64_bytes_length [simp, wire_simps]: "length (le64_bytes w) = 8"
  by (simp add: le64_bytes_def)

lemma le16_put [simp, wire_simps]: "le16 (le16_bytes w @ rest) = w"
  using unat_bound [of w] by (simp add: le16_def le16_bytes_def le_value_digits)

lemma le32_put [simp, wire_simps]: "le32 (le32_bytes w @ rest) = w"
  using unat_bound [of w] by (simp add: le32_def le32_bytes_def le_value_digits)

lemma le64_put [simp, wire_simps]: "le64 (le64_bytes w @ rest) = w"
  using unat_bound [of w] by (simp add: le64_def le64_bytes_def le_value_digits)

lemma le32_get: "4 \<le> length bs \<Longrightarrow> le32_bytes (le32 bs) = take 4 bs"
proof -
  assume n: "4 \<le> length bs"
  then have l: "length (take 4 bs) = 4" by simp
  from le_value_bound [of "take 4 bs"] l have "le_value (take 4 bs) < 2 ^ 32" by simp
  then have "unat (le32 bs) = le_value (take 4 bs)"
    by (simp add: le32_def unat_of_nat take_bit_eq_mod)
  with le_digits_value [of "take 4 bs"] l show ?thesis by (simp add: le32_bytes_def)
qed

section \<open>The codec interface\<close>

text \<open>
  \<open>enc\<close> writes a value, \<open>dec\<close> reads one from the front of a buffer. A client proves its own
  round trips from the law alone; the providers are the integers here, the RP address of
  SMS_Rp and the TLV of SIM_Tlv.
\<close>

locale prefix_codec =
  fixes enc :: "'a \<Rightarrow> bytes"
    and dec :: "bytes \<Rightarrow> ('a \<times> bytes) option"
    and valid :: "'a \<Rightarrow> bool"
  assumes dec_enc: "valid x \<Longrightarrow> dec (enc x @ rest) = Some (x, rest)"
begin

lemma enc_injective: "valid x \<Longrightarrow> valid y \<Longrightarrow> enc x = enc y \<Longrightarrow> x = y"
  using dec_enc [of x "[]"] dec_enc [of y "[]"] by simp

text \<open>No valid encoding is a proper prefix of another: streams of them parse one way only.\<close>

lemma enc_prefix_free:
  assumes "valid x" and "valid y" and "enc x = enc y @ zs"
  shows "x = y \<and> zs = []"
proof -
  have "Some (x, []) = dec (enc x)" using dec_enc [OF assms(1), of "[]"] by simp
  also have "\<dots> = Some (y, zs)" unfolding assms(3) by (rule dec_enc [OF assms(2)])
  finally show ?thesis by simp
qed

fun dec_many :: "nat \<Rightarrow> bytes \<Rightarrow> ('a list \<times> bytes) option" where
  "dec_many 0 bs = Some ([], bs)"
| "dec_many (Suc n) bs =
     (case dec bs of None \<Rightarrow> None
      | Some (x, r) \<Rightarrow> (case dec_many n r of None \<Rightarrow> None | Some (xs, r') \<Rightarrow> Some (x # xs, r')))"

lemma dec_many_enc:
  "\<forall>x \<in> set xs. valid x \<Longrightarrow>
     dec_many (length xs) (concat (map enc xs) @ rest) = Some (xs, rest)"
proof (induction xs)
  case Nil
  then show ?case by simp
next
  case (Cons x xs)
  then have "dec (enc x @ concat (map enc xs) @ rest) = Some (x, concat (map enc xs) @ rest)"
    by (intro dec_enc) simp
  with Cons show ?case by simp
qed

end

definition le32_read :: "bytes \<Rightarrow> (u32 \<times> bytes) option" where
  "le32_read bs = (if length bs < 4 then None else Some (le32 bs, drop 4 bs))"

interpretation le32_codec: prefix_codec le32_bytes le32_read "\<lambda>_. True"
  by unfold_locales (simp add: le32_read_def)

section \<open>Checked reads\<close>

text \<open>
  \<open>binary.LittleEndian.Uint32(b[i:])\<close> and its siblings inside a function: a buffer too short
  is a panic.
\<close>

definition get_u16 :: "bytes \<Rightarrow> nat \<Rightarrow> (u16 \<Rightarrow> ('e, 'a) result) \<Rightarrow> ('e, 'a) result" where
  "get_u16 b i k = (if i + 2 \<le> length b then k (le16 (drop i b)) else Panic)"

definition get_u32 :: "bytes \<Rightarrow> nat \<Rightarrow> (u32 \<Rightarrow> ('e, 'a) result) \<Rightarrow> ('e, 'a) result" where
  "get_u32 b i k = (if i + 4 \<le> length b then k (le32 (drop i b)) else Panic)"

definition get_u64 :: "bytes \<Rightarrow> nat \<Rightarrow> (u64 \<Rightarrow> ('e, 'a) result) \<Rightarrow> ('e, 'a) result" where
  "get_u64 b i k = (if i + 8 \<le> length b then k (le64 (drop i b)) else Panic)"

lemma get_u16_in [simp]: "i + 2 \<le> length b \<Longrightarrow> get_u16 b i k = k (le16 (drop i b))"
  by (simp add: get_u16_def)

lemma get_u32_in [simp]: "i + 4 \<le> length b \<Longrightarrow> get_u32 b i k = k (le32 (drop i b))"
  by (simp add: get_u32_def)

lemma get_u64_in [simp]: "i + 8 \<le> length b \<Longrightarrow> get_u64 b i k = k (le64 (drop i b))"
  by (simp add: get_u64_def)

lemma get_no_panic [no_panic]:
  "i + 2 \<le> length b \<Longrightarrow> (\<And>x. k16 x \<noteq> Panic) \<Longrightarrow> get_u16 b i k16 \<noteq> Panic"
  "i + 4 \<le> length b \<Longrightarrow> (\<And>x. k32 x \<noteq> Panic) \<Longrightarrow> get_u32 b i k32 \<noteq> Panic"
  "i + 8 \<le> length b \<Longrightarrow> (\<And>x. k64 x \<noteq> Panic) \<Longrightarrow> get_u64 b i k64 \<noteq> Panic"
  by simp_all

lemma get_cong [fundef_cong]:
  "b = c \<Longrightarrow> i = j \<Longrightarrow> (j + 2 \<le> length c \<Longrightarrow> k16 (le16 (drop j c)) = l16 (le16 (drop j c))) \<Longrightarrow>
     get_u16 b i k16 = get_u16 c j l16"
  "b = c \<Longrightarrow> i = j \<Longrightarrow> (j + 4 \<le> length c \<Longrightarrow> k32 (le32 (drop j c)) = l32 (le32 (drop j c))) \<Longrightarrow>
     get_u32 b i k32 = get_u32 c j l32"
  by (simp_all add: get_u16_def get_u32_def)

text \<open>Reading a field of a message laid out as a list of parts.\<close>

lemma le32_at: "length a = i \<Longrightarrow> le32 (drop i (a @ le32_bytes w @ rest)) = w"
  by simp

definition zeros :: "nat \<Rightarrow> bytes" where
  "zeros n = replicate n 0"

lemma zeros_length [simp, wire_simps]: "length (zeros n) = n"
  by (simp add: zeros_def)

text \<open>\<open>copy\<close> into a fresh buffer of \<open>n\<close> bytes: cut off or padded with zeros.\<close>

definition fit :: "nat \<Rightarrow> bytes \<Rightarrow> bytes" where
  "fit n b = take n b @ zeros (n - length b)"

lemma fit_length [simp, wire_simps]: "length (fit n b) = n"
  by (simp add: fit_def)

lemma fit_exact: "length b = n \<Longrightarrow> fit n b = b"
  by (simp add: fit_def zeros_def)

end
