(* ===== verification/Go_Strings.thy ===== *)
theory Go_Strings
  imports Prelude
begin

text \<open>
  The functions of package \<open>strings\<close> the code uses, on byte strings: a Go string is its
  UTF-8 bytes, and \<open>char\<close> is a byte. \<open>trim_space\<close> removes the encodings of all Unicode
  white space, as \<open>strings.TrimSpace\<close> does. Case mapping is on ASCII letters, which is
  every string the code maps (modes, hexadecimal, AT response tags); a non-ASCII letter is
  left as it is, where Go would map it.
\<close>

definition string_of_bytes :: "bytes \<Rightarrow> string" where
  "string_of_bytes bs = map (\<lambda>b. char_of (unat b)) bs"

definition bytes_of_string :: "string \<Rightarrow> bytes" where
  "bytes_of_string s = map (\<lambda>c. of_nat (of_char c)) s"

lemma string_of_bytes_of_string [simp]: "string_of_bytes (bytes_of_string s) = s"
proof -
  have "char_of (unat (of_nat (of_char c) :: byte)) = c" for c :: char
  proof -
    have "(of_char c :: nat) < 256" by (simp add: of_char_def char_of_def) 
    then have "unat (of_nat (of_char c) :: byte) = of_char c"
      by (simp add: unat_of_nat take_bit_eq_mod)
    then show ?thesis by simp
  qed
  then show ?thesis by (simp add: string_of_bytes_def bytes_of_string_def comp_def)
qed

section \<open>White space\<close>

text \<open>\<open>unicode.IsSpace\<close>: the UTF-8 encodings of the code points with property White_Space.\<close>

definition space_codes :: "string list" where
  "space_codes =
     [[CHR 0x09], [CHR 0x0A], [CHR 0x0B], [CHR 0x0C], [CHR 0x0D], [CHR 0x20],
      [CHR 0xC2, CHR 0x85], [CHR 0xC2, CHR 0xA0],
      [CHR 0xE1, CHR 0x9A, CHR 0x80],
      [CHR 0xE2, CHR 0x80, CHR 0x80], [CHR 0xE2, CHR 0x80, CHR 0x81],
      [CHR 0xE2, CHR 0x80, CHR 0x82], [CHR 0xE2, CHR 0x80, CHR 0x83],
      [CHR 0xE2, CHR 0x80, CHR 0x84], [CHR 0xE2, CHR 0x80, CHR 0x85],
      [CHR 0xE2, CHR 0x80, CHR 0x86], [CHR 0xE2, CHR 0x80, CHR 0x87],
      [CHR 0xE2, CHR 0x80, CHR 0x88], [CHR 0xE2, CHR 0x80, CHR 0x89],
      [CHR 0xE2, CHR 0x80, CHR 0x8A], [CHR 0xE2, CHR 0x80, CHR 0xA8],
      [CHR 0xE2, CHR 0x80, CHR 0xA9], [CHR 0xE2, CHR 0x80, CHR 0xAF],
      [CHR 0xE2, CHR 0x81, CHR 0x9F], [CHR 0xE3, CHR 0x80, CHR 0x80]]"

fun strip_code :: "string \<Rightarrow> string \<Rightarrow> string option" where
  "strip_code [] s = Some s"
| "strip_code (w # ws) [] = None"
| "strip_code (w # ws) (c # s) = (if c = w then strip_code ws s else None)"

fun strip_any :: "string list \<Rightarrow> string \<Rightarrow> string option" where
  "strip_any [] s = None"
| "strip_any (w # ws) s = (case strip_code w s of Some r \<Rightarrow> Some r | None \<Rightarrow> strip_any ws s)"

lemma strip_code_length: "strip_code ns s = Some r \<Longrightarrow> length s = length ns + length r"
  by (induction ns s rule: strip_code.induct) (auto split: if_splits)

lemma strip_any_shorter:
  "strip_any ws s = Some r \<Longrightarrow> [] \<notin> set ws \<Longrightarrow> length r < length s"
proof (induction ws)
  case Nil
  then show ?case by simp
next
  case (Cons w ws)
  then show ?case
    by (cases "strip_code w s") (auto dest: strip_code_length)
qed

function trim_codes :: "string list \<Rightarrow> string \<Rightarrow> string" where
  "trim_codes ws s =
     (if [] \<in> set ws then s
      else (case strip_any ws s of None \<Rightarrow> s | Some r \<Rightarrow> trim_codes ws r))"
  by pat_completeness auto
termination
  by (relation "measure (\<lambda>(ws, s). length s)") (auto dest: strip_any_shorter)

declare trim_codes.simps [simp del]

definition trim_left_space :: "string \<Rightarrow> string" where
  "trim_left_space s = trim_codes space_codes s"

definition trim_right_space :: "string \<Rightarrow> string" where
  "trim_right_space s = rev (trim_codes (map rev space_codes) (rev s))"

definition trim_space :: "string \<Rightarrow> string" where
  "trim_space s = trim_right_space (trim_left_space s)"

lemma trim_codes_fixed:
  "[] \<notin> set ws \<Longrightarrow> strip_any ws (trim_codes ws s) = None"
proof (induction ws s rule: trim_codes.induct)
  case (1 ws s)
  then show ?case
    by (simp add: trim_codes.simps [of ws s] split: option.splits)
qed

lemma trim_codes_none: "strip_any ws s = None \<Longrightarrow> trim_codes ws s = s"
  by (simp add: trim_codes.simps [of ws s])

text \<open>A string that begins and ends with bytes of no white space is trimmed already.\<close>

lemma strip_any_other_head:
  "\<forall>w \<in> set ws. w \<noteq> [] \<and> hd w \<noteq> c \<Longrightarrow> strip_any ws (c # s) = None"
proof (induction ws)
  case Nil
  then show ?case by simp
next
  case (Cons w ws)
  then obtain x xs where "w = x # xs" "x \<noteq> c" by (cases w) auto
  then have "strip_code w (c # s) = None" by auto
  with Cons show ?case by simp
qed

definition plain_char :: "char \<Rightarrow> bool" where
  "plain_char c \<longleftrightarrow> c \<notin> hd ` set space_codes \<and> c \<notin> last ` set space_codes"

lemma trim_left_plain: "plain_char c \<Longrightarrow> trim_left_space (c # s) = c # s"
  unfolding trim_left_space_def
  by (intro trim_codes_none strip_any_other_head) (auto simp: plain_char_def space_codes_def)

lemma trim_right_plain: "plain_char c \<Longrightarrow> trim_right_space (s @ [c]) = s @ [c]"
proof -
  assume "plain_char c"
  then have "\<forall>w \<in> set (map rev space_codes). w \<noteq> [] \<and> hd w \<noteq> c"
    by (auto simp: plain_char_def space_codes_def)
  then have "strip_any (map rev space_codes) (c # rev s) = None" by (rule strip_any_other_head)
  then show ?thesis unfolding trim_right_space_def by (simp add: trim_codes_none)
qed

lemma trim_space_id:
  "s \<noteq> [] \<Longrightarrow> plain_char (hd s) \<Longrightarrow> plain_char (last s) \<Longrightarrow> trim_space s = s"
  unfolding trim_space_def
  using trim_left_plain [of "hd s" "tl s"] trim_right_plain [of "last s" "butlast s"] by simp

lemma trim_space_Nil [simp]: "trim_space [] = []"
  by code_simp

section \<open>ASCII letters and digits\<close>

definition upper_char :: "char \<Rightarrow> char" where
  "upper_char c = (let n = of_char c :: int in if 97 \<le> n \<and> n \<le> 122 then char_of (n - 32) else c)"

definition lower_char :: "char \<Rightarrow> char" where
  "lower_char c = (let n = of_char c :: int in if 65 \<le> n \<and> n \<le> 90 then char_of (n + 32) else c)"

definition to_upper :: "string \<Rightarrow> string" where "to_upper s = map upper_char s"
definition to_lower :: "string \<Rightarrow> string" where "to_lower s = map lower_char s"

lemma to_upper_length [simp]: "length (to_upper s) = length s"
  by (simp add: to_upper_def)

fun has_prefix :: "string \<Rightarrow> string \<Rightarrow> bool" where
  "has_prefix s [] = True"
| "has_prefix [] (p # ps) = False"
| "has_prefix (c # s) (p # ps) = (c = p \<and> has_prefix s ps)"

lemma has_prefix_iff: "has_prefix s p \<longleftrightarrow> (\<exists>r. s = p @ r)"
  by (induction s p rule: has_prefix.induct) auto

section \<open>Searching, splitting and decimal numbers\<close>

text \<open>\<open>strings.IndexByte\<close>, \<open>strings.LastIndex\<close> and \<open>strings.Split\<close> for one-byte separators.\<close>

fun index_byte :: "char \<Rightarrow> string \<Rightarrow> nat option" where
  "index_byte c [] = None"
| "index_byte c (d # s) = (if d = c then Some 0 else map_option Suc (index_byte c s))"

definition last_index :: "char \<Rightarrow> string \<Rightarrow> nat option" where
  "last_index c s = map_option (\<lambda>i. length s - 1 - i) (index_byte c (rev s))"

fun split_on :: "char \<Rightarrow> string \<Rightarrow> string list" where
  "split_on c [] = [[]]"
| "split_on c (d # s) =
     (if d = c then [] # split_on c s
      else (case split_on c s of [] \<Rightarrow> [[d]] | p # ps \<Rightarrow> (d # p) # ps))"

lemma index_byte_bound: "index_byte c s = Some i \<Longrightarrow> i < length s"
  by (induction s arbitrary: i) (auto split: if_splits)

lemma index_byte_missing: "c \<notin> set s \<Longrightarrow> index_byte c s = None"
  by (induction s) auto

lemma last_index_bound: "last_index c s = Some i \<Longrightarrow> i < length s"
  by (auto simp: last_index_def dest!: index_byte_bound)

text \<open>
  \<open>strconv.Atoi\<close> on a 64-bit machine: an optional sign, decimal digits, and a range error
  outside \<open>int64\<close>; \<open>fmt\<close>'s decimal rendering of an integer.
\<close>

definition digit_value :: "char \<Rightarrow> nat option" where
  "digit_value c = (let n = of_char c :: nat in if 48 \<le> n \<and> n \<le> 57 then Some (n - 48) else None)"

fun digits_value :: "nat \<Rightarrow> string \<Rightarrow> nat option" where
  "digits_value v [] = Some v"
| "digits_value v (c # s) =
     (case digit_value c of None \<Rightarrow> None | Some d \<Rightarrow> digits_value (v * 10 + d) s)"

definition in_int64 :: "int \<Rightarrow> bool" where
  "in_int64 n \<longleftrightarrow> - (2 ^ 63) \<le> n \<and> n < 2 ^ 63"

definition atoi :: "string \<Rightarrow> int option" where
  "atoi s =
     (let neg = has_prefix s ''-'';
          t = (if neg \<or> has_prefix s ''+'' then drop 1 s else s)
      in if t = [] then None
         else (case digits_value 0 t of None \<Rightarrow> None
           | Some v \<Rightarrow>
               (let n = (if neg then - int v else int v) in if in_int64 n then Some n else None)))"

fun nat_digits :: "nat \<Rightarrow> string" where
  "nat_digits n =
     (if n < 10 then [char_of (48 + n)] else nat_digits (n div 10) @ [char_of (48 + n mod 10)])"

declare nat_digits.simps [simp del]

definition itoa :: "int \<Rightarrow> string" where
  "itoa n = (if n < 0 then CHR ''-'' # nat_digits (nat (- n)) else nat_digits (nat n))"

text \<open>Signed arithmetic of Go's \<open>int\<close>.\<close>

definition wrap_int :: "int \<Rightarrow> int" where
  "wrap_int n = (n + 2 ^ 63) mod 2 ^ 64 - 2 ^ 63"

lemma wrap_int_id: "in_int64 n \<Longrightarrow> wrap_int n = n"
  by (simp add: wrap_int_def in_int64_def)

lemma wrap_int_over:
  assumes "2 ^ 63 \<le> n" and "n < 2 ^ 63 + 2 ^ 64"
  shows "wrap_int n = n - 2 ^ 64"
proof -
  have "(n + 2 ^ 63) mod 2 ^ 64 = (n + 2 ^ 63 - 2 ^ 64) mod 2 ^ 64"
    by (rule minus_mod_self2 [symmetric])
  also have "\<dots> = n + 2 ^ 63 - 2 ^ 64"
    using assms by (intro mod_pos_pos_trivial) simp_all
  finally show ?thesis by (simp add: wrap_int_def)
qed

lemma wrap_int_range: "in_int64 (wrap_int n)"
  by (simp add: wrap_int_def in_int64_def)

lemma digit_value_char: "d < 10 \<Longrightarrow> digit_value (char_of (48 + d)) = Some d"
  by (simp add: digit_value_def)

lemma digits_value_append:
  "digits_value v (s @ t) = (case digits_value v s of None \<Rightarrow> None | Some w \<Rightarrow> digits_value w t)"
  by (induction s arbitrary: v) (auto split: option.splits)

lemma digits_value_nat_digits: "digits_value 0 (nat_digits n) = Some n"
proof (induction n rule: nat_digits.induct)
  case (1 n)
  show ?case
  proof (cases "n < 10")
    case True
    then show ?thesis by (simp add: nat_digits.simps [of n] digit_value_char)
  next
    case False
    then show ?thesis
      using 1 by (simp add: nat_digits.simps [of n] digits_value_append digit_value_char)
  qed
qed

lemma digits_value_chars: "digits_value v s = Some n \<Longrightarrow> \<forall>c \<in> set s. digit_value c \<noteq> None"
  by (induction s arbitrary: v) (auto split: option.splits)

lemma nat_digits_nonempty [simp]: "nat_digits n \<noteq> []"
  by (simp add: nat_digits.simps [of n])

lemma nat_digits_head: "\<exists>c s. nat_digits n = c # s \<and> digit_value c \<noteq> None"
  using digits_value_chars [OF digits_value_nat_digits, of n]
  by (cases "nat_digits n") auto

lemma atoi_itoa: "in_int64 n \<Longrightarrow> atoi (itoa n) = Some n"
proof -
  assume n: "in_int64 n"
  have sign: "digit_value (CHR ''-'') = None" "digit_value (CHR ''+'') = None" by code_simp+
  obtain c s where c: "nat_digits (nat n) = c # s" "digit_value c \<noteq> None"
    using nat_digits_head by blast
  then have "c \<noteq> CHR ''-''" "c \<noteq> CHR ''+''" using sign by auto
  with c n show ?thesis
    using digits_value_nat_digits [of "nat n"] digits_value_nat_digits [of "nat (- n)"]
    by (simp add: atoi_def itoa_def Let_def)
qed

end
