(* ===== verification/Go_Unicode.thy ===== *)
theory Go_Unicode
  imports Go_Bytes Go_Strings
begin

text \<open>
  Packages \<open>unicode/utf8\<close> and \<open>unicode/utf16\<close> as far as the code uses them: \<open>[]rune(s)\<close>,
  \<open>string(runes)\<close>, \<open>utf16.Encode\<close> and \<open>utf16.Decode\<close>. A rune is a natural number; what is no
  Unicode scalar value becomes the replacement character, as in Go.
\<close>

definition replacement :: nat where "replacement = 0xFFFD"

definition scalar :: "nat \<Rightarrow> bool" where
  "scalar r \<longleftrightarrow> r < 0xD800 \<or> 0xE000 \<le> r \<and> r < 0x110000"

section \<open>UTF-16\<close>

definition utf16_units :: "nat \<Rightarrow> nat list" where
  "utf16_units r =
     (if r < 0xD800 \<or> 0xE000 \<le> r \<and> r < 0x10000 then [r]
      else if 0x10000 \<le> r \<and> r < 0x110000 then
        [0xD800 + (r - 0x10000) div 0x400, 0xDC00 + (r - 0x10000) mod 0x400]
      else [replacement])"

definition utf16_encode :: "nat list \<Rightarrow> u16 list" where
  "utf16_encode rs = map of_nat (concat (map utf16_units rs))"

fun utf16_runes :: "nat list \<Rightarrow> nat list" where
  "utf16_runes [] = []"
| "utf16_runes [u] = [if 0xD800 \<le> u \<and> u < 0xE000 then replacement else u]"
| "utf16_runes (u # v # us) =
     (if u < 0xD800 \<or> 0xE000 \<le> u then u # utf16_runes (v # us)
      else if u < 0xDC00 \<and> 0xDC00 \<le> v \<and> v < 0xE000
      then ((u - 0xD800) * 0x400 + (v - 0xDC00) + 0x10000) # utf16_runes us
      else replacement # utf16_runes (v # us))"

definition utf16_decode :: "u16 list \<Rightarrow> nat list" where
  "utf16_decode us = utf16_runes (map unat us)"

lemma utf16_units_bound: "u \<in> set (utf16_units r) \<Longrightarrow> u < 0x10000"
  by (auto simp: utf16_units_def replacement_def split: if_splits)

lemma utf16_runes_units:
  assumes "scalar r"
  shows "utf16_runes (utf16_units r @ us) = r # utf16_runes us"
proof (cases "r < 0x10000")
  case True
  with assms have "utf16_units r = [r]" "r < 0xD800 \<or> 0xE000 \<le> r"
    by (auto simp: scalar_def utf16_units_def)
  then show ?thesis by (cases us) auto
next
  case False
  define q m where "q = (r - 0x10000) div 0x400" and "m = (r - 0x10000) mod 0x400"
  have r: "r - 0x10000 < 0x100000" "r < 0x110000" using assms False by (auto simp: scalar_def)
  have q: "q < 0x400" and m: "m < 0x400" using r(1) by (auto simp: q_def m_def)
  have eq: "q * 0x400 + m + 0x10000 = r" using False by (simp add: q_def m_def)
  have "utf16_units r = [0xD800 + q, 0xDC00 + m]"
    using False r by (simp add: utf16_units_def q_def m_def)
  then show ?thesis using q m eq by simp
qed

lemma utf16_runes_concat:
  "list_all scalar rs \<Longrightarrow> utf16_runes (concat (map utf16_units rs)) = rs"
  by (induction rs) (simp_all add: utf16_runes_units)

lemma utf16_round_trip:
  assumes "list_all scalar rs"
  shows "utf16_decode (utf16_encode rs) = rs"
proof -
  have "map (unat \<circ> (of_nat :: nat \<Rightarrow> u16)) us = us" if "\<forall>u \<in> set us. u < 0x10000" for us
    using that by (induction us) (simp_all add: unat_of_nat take_bit_eq_mod)
  moreover have "\<forall>u \<in> set (concat (map utf16_units rs)). u < 0x10000"
    using utf16_units_bound by auto
  ultimately show ?thesis
    using utf16_runes_concat [OF assms] by (simp add: utf16_decode_def utf16_encode_def)
qed

section \<open>UTF-8\<close>

definition utf8_bytes :: "nat \<Rightarrow> nat list" where
  "utf8_bytes r =
     (if r < 0x80 then [r]
      else if r < 0x800 then [0xC0 + r div 64, 0x80 + r mod 64]
      else if \<not> scalar r then [0xEF, 0xBF, 0xBD]
      else if r < 0x10000 then [0xE0 + r div 64 div 64, 0x80 + r div 64 mod 64, 0x80 + r mod 64]
      else [0xF0 + r div 64 div 64 div 64, 0x80 + r div 64 div 64 mod 64,
            0x80 + r div 64 mod 64, 0x80 + r mod 64])"

definition is_cont :: "nat \<Rightarrow> bool" where
  "is_cont b \<longleftrightarrow> 0x80 \<le> b \<and> b \<le> 0xBF"

text \<open>The range the second byte must be in, given the first.\<close>

definition second_ok :: "nat \<Rightarrow> nat \<Rightarrow> bool" where
  "second_ok a b \<longleftrightarrow>
     (if a = 0xE0 then 0xA0 \<le> b \<and> b \<le> 0xBF
      else if a = 0xED then 0x80 \<le> b \<and> b \<le> 0x9F
      else if a = 0xF0 then 0x90 \<le> b \<and> b \<le> 0xBF
      else if a = 0xF4 then 0x80 \<le> b \<and> b \<le> 0x8F
      else is_cont b)"

text \<open>\<open>utf8.DecodeRune\<close>: the rune and how many bytes it took; a bad byte takes one.\<close>

definition decode_rune :: "nat list \<Rightarrow> nat \<times> nat" where
  "decode_rune s =
     (case s of [] \<Rightarrow> (replacement, 1)
      | a # s1 \<Rightarrow>
          if a < 0x80 then (a, 1)
          else if a < 0xC2 \<or> a > 0xF4 then (replacement, 1)
          else (case s1 of [] \<Rightarrow> (replacement, 1)
            | b # s2 \<Rightarrow>
                if \<not> second_ok a b then (replacement, 1)
                else if a < 0xE0 then ((a - 0xC0) * 64 + (b - 0x80), 2)
                else (case s2 of [] \<Rightarrow> (replacement, 1)
                  | c # s3 \<Rightarrow>
                      if \<not> is_cont c then (replacement, 1)
                      else if a < 0xF0
                      then (((a - 0xE0) * 64 + (b - 0x80)) * 64 + (c - 0x80), 3)
                      else (case s3 of [] \<Rightarrow> (replacement, 1)
                        | d # s4 \<Rightarrow>
                            if \<not> is_cont d then (replacement, 1)
                            else ((((a - 0xF0) * 64 + (b - 0x80)) * 64 + (c - 0x80)) * 64
                                    + (d - 0x80), 4)))))"

lemma decode_rune_width: "1 \<le> snd (decode_rune s)"
  by (auto simp: decode_rune_def split: list.splits)

function utf8_runes :: "nat list \<Rightarrow> nat list" where
  "utf8_runes [] = []"
| "utf8_runes (a # s) =
     fst (decode_rune (a # s)) # utf8_runes (drop (snd (decode_rune (a # s))) (a # s))"
  by pat_completeness auto
termination
proof (relation "measure length")
  fix a :: nat and s
  have "1 \<le> snd (decode_rune (a # s))" by (rule decode_rune_width)
  then show "(drop (snd (decode_rune (a # s))) (a # s), a # s) \<in> measure length"
    by (cases "snd (decode_rune (a # s))") auto
qed simp

definition runes_of :: "string \<Rightarrow> nat list" where
  "runes_of s = utf8_runes (map of_char s)"

definition string_of_runes :: "nat list \<Rightarrow> string" where
  "string_of_runes rs = map char_of (concat (map utf8_bytes rs))"

lemma low_bits: "0x80 \<le> 0x80 + (m :: nat) mod 64" "0x80 + m mod 64 \<le> 0xBF"
  using mod_less_divisor [of 64 m] by simp_all

lemma decode_rune_bytes:
  assumes "scalar r"
  shows "decode_rune (utf8_bytes r @ s) = (r, length (utf8_bytes r))"
proof -
  define q m where "q = r div 64" and "m = r mod 64"
  define q2 m2 where "q2 = q div 64" and "m2 = q mod 64"
  define q3 m3 where "q3 = q2 div 64" and "m3 = q2 mod 64"
  have r: "r = q * 64 + m" and q: "q = q2 * 64 + m2" and q2: "q2 = q3 * 64 + m3"
    by (simp_all add: q_def m_def q2_def m2_def q3_def m3_def)
  have m: "m < 64" "m2 < 64" "m3 < 64" by (simp_all add: m_def m2_def m3_def)
  have bytes: "utf8_bytes r =
     (if r < 0x80 then [r]
      else if r < 0x800 then [0xC0 + q, 0x80 + m]
      else if r < 0x10000 then [0xE0 + q2, 0x80 + m2, 0x80 + m]
      else [0xF0 + q3, 0x80 + m3, 0x80 + m2, 0x80 + m])"
    using assms by (simp add: utf8_bytes_def q_def m_def q2_def m2_def q3_def m3_def)
  consider "r < 0x80" | "0x80 \<le> r" "r < 0x800" | "0x800 \<le> r" "r < 0x10000" | "0x10000 \<le> r"
    by linarith
  then show ?thesis
  proof cases
    case 1
    then show ?thesis by (simp add: bytes decode_rune_def)
  next
    case 2
    then have q: "2 \<le> q" "q < 32" using r m by linarith+
    have "utf8_bytes r = [0xC0 + q, 0x80 + m]" using bytes 2 by simp
    then show ?thesis unfolding r
      using q m by (simp add: decode_rune_def second_ok_def is_cont_def)
  next
    case 3
    then have b: "q2 < 16" "q2 = 0 \<Longrightarrow> 32 \<le> m2" using r q m by linarith+
    have "q2 = 13 \<Longrightarrow> m2 < 32" using assms r q m unfolding scalar_def by linarith
    then have "second_ok (0xE0 + q2) (0x80 + m2)"
      using b m by (auto simp: second_ok_def is_cont_def)
    moreover have "utf8_bytes r = [0xE0 + q2, 0x80 + m2, 0x80 + m]" using bytes 3 by simp
    ultimately show ?thesis unfolding r q
      using b m by (simp add: decode_rune_def is_cont_def)
  next
    case 4
    have top: "r < 0x110000" using assms 4 by (auto simp: scalar_def)
    then have b: "q3 \<le> 4" "q3 = 0 \<Longrightarrow> 16 \<le> m3" "q3 = 4 \<Longrightarrow> m3 < 16"
      using 4 r q q2 m by linarith+
    then have "second_ok (0xF0 + q3) (0x80 + m3)"
      using m by (auto simp: second_ok_def is_cont_def)
    moreover have "utf8_bytes r = [0xF0 + q3, 0x80 + m3, 0x80 + m2, 0x80 + m]"
      using bytes 4 by simp
    ultimately show ?thesis unfolding r q q2
      using b m by (simp add: decode_rune_def is_cont_def)
  qed
qed

lemma utf8_bytes_nonempty: "utf8_bytes r \<noteq> []"
  by (simp add: utf8_bytes_def)

lemma utf8_runes_bytes:
  assumes "scalar r"
  shows "utf8_runes (utf8_bytes r @ s) = r # utf8_runes s"
proof -
  obtain a t where a: "utf8_bytes r @ s = a # t" using utf8_bytes_nonempty [of r]
    by (cases "utf8_bytes r") auto
  have "utf8_runes (a # t) = fst (decode_rune (a # t)) # utf8_runes (drop (snd (decode_rune (a # t))) (a # t))"
    by simp
  then show ?thesis unfolding a [symmetric] decode_rune_bytes [OF assms] by simp
qed

lemma utf8_bytes_bound: "scalar r \<Longrightarrow> b \<in> set (utf8_bytes r) \<Longrightarrow> b < 256"
  by (auto simp: utf8_bytes_def scalar_def split: if_splits)

lemma utf8_runes_concat:
  "list_all scalar rs \<Longrightarrow> utf8_runes (concat (map utf8_bytes rs)) = rs"
  by (induction rs) (simp_all add: utf8_runes_bytes)

lemma utf8_round_trip:
  assumes "list_all scalar rs"
  shows "runes_of (string_of_runes rs) = rs"
proof -
  have "map (of_char \<circ> (char_of :: nat \<Rightarrow> char)) bs = bs" if "\<forall>b \<in> set bs. b < 256" for bs
    using that by (induction bs) simp_all
  moreover have "\<forall>b \<in> set (concat (map utf8_bytes rs)). b < 256"
    using assms utf8_bytes_bound by (auto simp: list_all_iff)
  ultimately show ?thesis
    using utf8_runes_concat [OF assms] by (simp add: runes_of_def string_of_runes_def)
qed

definition valid_utf8 :: "string \<Rightarrow> bool" where
  "valid_utf8 s \<longleftrightarrow> list_all scalar (runes_of s) \<and> string_of_runes (runes_of s) = s"

lemma utf16_text_round_trip:
  "valid_utf8 s \<Longrightarrow> string_of_runes (utf16_decode (utf16_encode (runes_of s))) = s"
  by (simp add: valid_utf8_def utf16_round_trip)

text \<open>A string of ASCII bytes stands for the runes of the same numbers.\<close>

definition ascii :: "string \<Rightarrow> bool" where
  "ascii s \<longleftrightarrow> list_all (\<lambda>c. of_char c < (128 :: nat)) s"

lemma ascii_runes: "ascii s \<Longrightarrow> runes_of s = map of_char s"
  by (induction s) (simp_all add: ascii_def runes_of_def decode_rune_def)

lemma ascii_valid:
  assumes "ascii s"
  shows "valid_utf8 s"
proof -
  have "list_all scalar (map of_char s)"
    using assms by (induction s) (simp_all add: ascii_def scalar_def)
  moreover have "string_of_runes (map of_char s) = s"
    using assms by (induction s) (simp_all add: ascii_def string_of_runes_def utf8_bytes_def)
  ultimately show ?thesis by (simp add: valid_utf8_def ascii_runes [OF assms])
qed

lemma ascii_utf16_length: "ascii s \<Longrightarrow> length (utf16_encode (runes_of s)) = length s"
proof (induction s)
  case (Cons c s)
  then have "ascii s" "ascii [c]" by (simp_all add: ascii_def)
  with Cons show ?case
    by (simp add: ascii_runes utf16_encode_def utf16_units_def ascii_def)
qed (simp add: ascii_runes ascii_def utf16_encode_def)

end
