(* ===== verification/Go_Net.thy ===== *)
theory Go_Net
  imports Go_Bytes Go_Strings
begin

text \<open>
  The text forms of the standard library that the MBIM code prints: \<open>hex.EncodeToString\<close>
  and \<open>net.IP.String\<close> for addresses of 4 and of 16 bytes.
\<close>

definition hex_lower :: "nat \<Rightarrow> char" where
  "hex_lower n = (if n < 10 then char_of (48 + n) else char_of (87 + n))"

definition hex_of_bytes :: "bytes \<Rightarrow> string" where
  "hex_of_bytes bs = concat (map (\<lambda>b. [hex_lower (unat b div 16), hex_lower (unat b mod 16)]) bs)"

text \<open>A 16-bit group without leading zeros.\<close>

definition hex_group :: "nat \<Rightarrow> string" where
  "hex_group v =
     (if v < 0x10 then [hex_lower v]
      else if v < 0x100 then [hex_lower (v div 16), hex_lower (v mod 16)]
      else if v < 0x1000
      then [hex_lower (v div 256), hex_lower (v div 16 mod 16), hex_lower (v mod 16)]
      else [hex_lower (v div 4096), hex_lower (v div 256 mod 16), hex_lower (v div 16 mod 16),
            hex_lower (v mod 16)])"

fun join_with :: "string \<Rightarrow> string list \<Rightarrow> string" where
  "join_with sep [] = []"
| "join_with sep [s] = s"
| "join_with sep (s # ss) = s @ sep @ join_with sep ss"

definition dotted_quad :: "bytes \<Rightarrow> string" where
  "dotted_quad bs = join_with ''.'' (map (\<lambda>b. nat_digits (unat b)) bs)"

fun groups16 :: "bytes \<Rightarrow> nat list" where
  "groups16 (a # b # bs) = (unat a * 256 + unat b) # groups16 bs"
| "groups16 _ = []"

text \<open>The longest run of zero groups, the first of them when several are as long.\<close>

definition zero_run :: "nat list \<Rightarrow> nat \<Rightarrow> nat" where
  "zero_run gs i = length (takeWhile (\<lambda>g. g = 0) (drop i gs))"

definition longest_zero_run :: "nat list \<Rightarrow> nat \<times> nat" where
  "longest_zero_run gs =
     foldl (\<lambda>(s, l) i. let r = zero_run gs i in if 2 \<le> r \<and> l < r then (i, r) else (s, l))
       (0, 0) [0..<length gs]"

definition ipv6_string :: "bytes \<Rightarrow> string" where
  "ipv6_string bs =
     (let gs = groups16 bs; (s, l) = longest_zero_run gs;
          show_groups = (\<lambda>xs. join_with '':'' (map hex_group xs))
      in if l = 0 then show_groups gs
         else show_groups (take s gs) @ ''::'' @ show_groups (drop (s + l) gs))"

definition v4_in_v6 :: "bytes \<Rightarrow> bool" where
  "v4_in_v6 bs \<longleftrightarrow> length bs = 16 \<and> take 12 bs = replicate 10 0 @ [0xFF, 0xFF]"

definition ip_string :: "bytes \<Rightarrow> string" where
  "ip_string bs =
     (if bs = [] then ''<nil>''
      else if length bs = 4 then dotted_quad bs
      else if v4_in_v6 bs then dotted_quad (drop 12 bs)
      else if length bs = 16 then ipv6_string bs
      else ''?'' @ hex_of_bytes bs)"

end
