(* ===== verification/Arbiter_Model.thy ===== *)
theory Arbiter_Model
  imports Prelude Go_Strings
begin

text \<open>
  The card-access arbiter of \<open>internal/apduarbiter/arbiter.go\<close>: its data, and every
  operation it performs while it holds its mutex, as a function on the arbiter's state.
  Times are nanoseconds on one monotonic clock, given to each operation as the reading of
  \<open>time.Now()\<close> in that critical section. Logging is left out except for the decision
  whether to log. The waiting between two critical sections is in Arbiter_Threads.
\<close>

section \<open>Data\<close>

text \<open>
  \<open>APDUClass\<close> and \<open>TransportScope\<close> are Go string types: beside the declared constants a
  caller may pass the empty string (\<open>NoClass\<close>, \<open>NoScope\<close>) or any other one.
\<close>

datatype apdu_class =
  EUICCWrite | EUICCRead | USIMAKA | SMSC | SwitchBarrier | Recovery
  | NoClass | OtherClass string

datatype lease_type = LeaseSession | LeaseOneShot | LeaseTransport | LeaseBarrier

datatype transport_scope = ScopeExclusive | ScopeQMIChannel | NoScope | OtherScope string

datatype wait_kind = KindLease | KindBarrier

definition transport_priority_aging :: int where
  "transport_priority_aging = 500 * 1000000"

record options =
  max_lease_hold :: int
  max_sessions :: int
  max_qmi_transports :: int

record request =
  req_owner :: string
  req_mode :: string
  req_class :: apdu_class
  req_channel :: int
  req_scope :: transport_scope

record barrier_policy =
  blocked_classes :: "apdu_class list"

record wait_ticket =
  tid :: u64
  t_owner :: string
  t_mode :: string
  t_class :: apdu_class
  t_channel :: int
  t_scope :: transport_scope
  t_lease :: lease_type
  t_kind :: wait_kind
  t_blocked :: "apdu_class set"
  t_enqueued :: int

text \<open>
  \<open>expires_at\<close> is None for the zero time. \<open>timer\<close> is None for the nil pointer and otherwise
  the instant for which the timer was last armed.
\<close>

record active_lease =
  l_ticket :: wait_ticket
  acquired_at :: int
  expires_at :: "int option"
  timer :: "int option"

record active_barrier =
  b_ticket :: wait_ticket
  b_acquired_at :: int

text \<open>
  \<open>notify_epoch\<close> counts the channels \<open>notifyC\<close> has been: closing the channel and making
  a new one is the next epoch, and a waiter that captured epoch \<open>e\<close> is woken once the
  count is beyond \<open>e\<close>.
\<close>

record arbiter =
  seq :: u64
  device_id :: string
  opts :: options
  queue :: "wait_ticket list"
  active_sessions :: "active_lease list"
  active_oneshot :: "active_lease option"
  active_transports :: "active_lease list"
  active_barriers :: "active_barrier list"
  notify_epoch :: nat
  wait_requests :: nat
  acquires :: nat
  wait_timeouts :: nat
  forced_releases :: nat

abbreviation lid :: "active_lease \<Rightarrow> u64" where "lid l \<equiv> tid (l_ticket l)"
abbreviation bid :: "active_barrier \<Rightarrow> u64" where "bid b \<equiv> tid (b_ticket b)"

text \<open>The handles \<open>Lease\<close> and \<open>Barrier\<close>; \<open>once\<close> says that \<open>sync.Once\<close> has run.\<close>

record lease =
  h_id :: u64
  h_owner :: string
  h_mode :: string
  h_class :: apdu_class
  h_channel :: int
  h_scope :: transport_scope
  h_lease :: lease_type
  h_once :: bool

record barrier_handle =
  bh_id :: u64
  bh_owner :: string
  bh_mode :: string
  bh_class :: apdu_class
  bh_once :: bool

text \<open>\<open>ErrAPDUBusy\<close> with what its message names.\<close>

datatype arbiter_error =
  ErrBusyLease string string apdu_class int
  | ErrBusyBarrier string string apdu_class

section \<open>Construction and normalisation\<close>

definition new_arbiter :: "string \<Rightarrow> options \<Rightarrow> arbiter" where
  "new_arbiter dev os =
     \<lparr>seq = 0, device_id = trim_space dev,
      opts =
        \<lparr>max_lease_hold = (if max_lease_hold os \<le> 0 then 120 * 1000000000 else max_lease_hold os),
         max_sessions = (if max_sessions os \<le> 0 then 1 else max_sessions os),
         max_qmi_transports = (if max_qmi_transports os \<le> 0 then 1 else max_qmi_transports os)\<rparr>,
      queue = [], active_sessions = [], active_oneshot = None, active_transports = [],
      active_barriers = [], notify_epoch = 0,
      wait_requests = 0, acquires = 0, wait_timeouts = 0, forced_releases = 0\<rparr>"

definition normalize_owner :: "string \<Rightarrow> string" where
  "normalize_owner owner = (let o' = trim_space owner in if o' = [] then ''unknown'' else o')"

definition normalize_mode :: "string \<Rightarrow> string" where
  "normalize_mode mode =
     (let m = to_upper (trim_space mode) in if m = [] then ''UNKNOWN'' else m)"

definition normalize_class :: "apdu_class \<Rightarrow> lease_type \<Rightarrow> apdu_class" where
  "normalize_class c lt =
     (if c \<noteq> NoClass then c
      else (case lt of LeaseTransport \<Rightarrow> EUICCWrite | LeaseOneShot \<Rightarrow> USIMAKA | _ \<Rightarrow> EUICCWrite))"

definition normalize_transport_scope ::
  "transport_scope \<Rightarrow> string \<Rightarrow> int \<Rightarrow> lease_type \<Rightarrow> transport_scope" where
  "normalize_transport_scope sc mode channel lt =
     (if lt \<noteq> LeaseTransport then ScopeExclusive
      else if sc = ScopeQMIChannel \<and> mode = ''QMI'' \<and> channel > 0 then ScopeQMIChannel
      else ScopeExclusive)"

definition normalize_request :: "request \<Rightarrow> lease_type \<Rightarrow> request" where
  "normalize_request req lt =
     (let m = normalize_mode (req_mode req) in
      req\<lparr>req_owner := normalize_owner (req_owner req), req_mode := m,
          req_class := normalize_class (req_class req) lt,
          req_scope := normalize_transport_scope (req_scope req) m (req_channel req) lt\<rparr>)"

section \<open>Tickets\<close>

text \<open>
  \<open>atomic.AddUint64(&a.seq, 1)\<close>, before the mutex is taken: two callers may queue in the
  opposite order of their ids.
\<close>

definition next_id :: "arbiter \<Rightarrow> u64 \<times> arbiter" where
  "next_id a = (let i = seq a + 1 in (i, a\<lparr>seq := i\<rparr>))"

definition lease_ticket :: "u64 \<Rightarrow> request \<Rightarrow> lease_type \<Rightarrow> int \<Rightarrow> wait_ticket" where
  "lease_ticket i req0 lt now =
     (let req = normalize_request req0 lt in
      \<lparr>tid = i, t_owner = req_owner req, t_mode = req_mode req, t_class = req_class req,
       t_channel = req_channel req, t_scope = req_scope req, t_lease = lt,
       t_kind = KindLease, t_blocked = {}, t_enqueued = now\<rparr>)"

definition barrier_blocked :: "barrier_policy \<Rightarrow> apdu_class set" where
  "barrier_blocked policy =
     (let cs = filter (\<lambda>c. c \<noteq> NoClass)
                 (map (\<lambda>c. normalize_class c LeaseOneShot) (blocked_classes policy))
      in if cs = [] then {USIMAKA, SMSC} else set cs)"

definition barrier_ticket :: "u64 \<Rightarrow> request \<Rightarrow> barrier_policy \<Rightarrow> int \<Rightarrow> wait_ticket" where
  "barrier_ticket i req policy now =
     \<lparr>tid = i, t_owner = normalize_owner (req_owner req), t_mode = normalize_mode (req_mode req),
      t_class = (if req_class req = NoClass then SwitchBarrier else req_class req),
      t_channel = req_channel req, t_scope = ScopeExclusive, t_lease = LeaseBarrier,
      t_kind = KindBarrier, t_blocked = barrier_blocked policy, t_enqueued = now\<rparr>"

section \<open>Predicates under the lock\<close>

definition has_active_transport :: "arbiter \<Rightarrow> bool" where
  "has_active_transport a \<longleftrightarrow> length (active_transports a) > 0"

definition has_active_exclusive_transport :: "arbiter \<Rightarrow> bool" where
  "has_active_exclusive_transport a \<longleftrightarrow>
     list_ex (\<lambda>l. t_scope (l_ticket l) \<noteq> ScopeQMIChannel) (active_transports a)"

definition active_qmi_transport_count :: "arbiter \<Rightarrow> int" where
  "active_qmi_transport_count a =
     int (length (filter (\<lambda>l. t_scope (l_ticket l) = ScopeQMIChannel) (active_transports a)))"

definition has_active_transport_on_channel :: "arbiter \<Rightarrow> int \<Rightarrow> bool" where
  "has_active_transport_on_channel a ch \<longleftrightarrow>
     list_ex (\<lambda>l. t_scope (l_ticket l) = ScopeQMIChannel \<and> t_channel (l_ticket l) = ch)
       (active_transports a)"

definition is_blocked_by_active_barrier :: "arbiter \<Rightarrow> apdu_class \<Rightarrow> bool" where
  "is_blocked_by_active_barrier a c \<longleftrightarrow>
     list_ex (\<lambda>b. c \<in> t_blocked (b_ticket b)) (active_barriers a)"

fun pending_barrier_ahead :: "wait_ticket list \<Rightarrow> wait_ticket \<Rightarrow> bool" where
  "pending_barrier_ahead [] t = False"
| "pending_barrier_ahead (q # qs) t =
     (if tid q = tid t then False
      else if t_kind q \<noteq> KindBarrier then pending_barrier_ahead qs t
      else if t_class t \<in> t_blocked q then True
      else pending_barrier_ahead qs t)"

definition has_pending_barrier_ahead :: "arbiter \<Rightarrow> wait_ticket \<Rightarrow> bool" where
  "has_pending_barrier_ahead a t = pending_barrier_ahead (queue a) t"

definition queue_head_is :: "arbiter \<Rightarrow> u64 \<Rightarrow> bool" where
  "queue_head_is a i = (case queue a of [] \<Rightarrow> False | q # _ \<Rightarrow> tid q = i)"

fun first_barrier_id :: "wait_ticket list \<Rightarrow> u64" where
  "first_barrier_id [] = 0"
| "first_barrier_id (q # qs) = (if t_kind q = KindBarrier then tid q else first_barrier_id qs)"

definition selected_barrier :: "arbiter \<Rightarrow> u64" where
  "selected_barrier a = first_barrier_id (queue a)"

definition can_acquire_transport_now :: "arbiter \<Rightarrow> wait_ticket \<Rightarrow> bool" where
  "can_acquire_transport_now a t =
     (if t_lease t \<noteq> LeaseTransport then False
      else if t_scope t \<noteq> ScopeQMIChannel then \<not> has_active_transport a
      else if has_active_exclusive_transport a then False
      else if active_qmi_transport_count a \<ge> max_qmi_transports (opts a) then False
      else \<not> has_active_transport_on_channel a (t_channel t))"

definition transport_wait_gates_queue :: "arbiter \<Rightarrow> wait_ticket \<Rightarrow> bool" where
  "transport_wait_gates_queue a t =
     (if t_lease t \<noteq> LeaseTransport then True
      else if t_scope t \<noteq> ScopeQMIChannel then True
      else if has_active_exclusive_transport a
             \<or> active_qmi_transport_count a \<ge> max_qmi_transports (opts a) then True
      else False)"

text \<open>
  The scan of \<open>selectedTransportLocked\<close>: three candidates, kept as the loop finds them
  (oldest eligible, oldest aged that is not an AKA, oldest AKA); \<open>break\<close> returns them.
\<close>

fun select_scan ::
  "arbiter \<Rightarrow> int \<Rightarrow> wait_ticket list \<Rightarrow>
   wait_ticket option \<times> wait_ticket option \<times> wait_ticket option \<Rightarrow>
   wait_ticket option \<times> wait_ticket option \<times> wait_ticket option" where
  "select_scan a now [] acc = acc"
| "select_scan a now (t # ts) (elig, aged, aka) =
     (if t_kind t = KindBarrier then (elig, aged, aka)
      else if t_lease t \<noteq> LeaseTransport then (elig, aged, aka)
      else if is_blocked_by_active_barrier a (t_class t) then select_scan a now ts (elig, aged, aka)
      else if \<not> can_acquire_transport_now a t then
        (if transport_wait_gates_queue a t then (elig, aged, aka)
         else select_scan a now ts (elig, aged, aka))
      else
        let elig' = (if elig = None then Some t else elig) in
        if t_class t = USIMAKA then
          select_scan a now ts (elig', aged, if aka = None then Some t else aka)
        else
          select_scan a now ts
            (elig',
             if aged = None \<and> now - t_enqueued t \<ge> transport_priority_aging then Some t else aged,
             aka))"

definition selected_transport :: "arbiter \<Rightarrow> int \<Rightarrow> u64" where
  "selected_transport a now =
     (case select_scan a now (queue a) (None, None, None) of
        (elig, aged, aka) \<Rightarrow>
          (case aged of Some t \<Rightarrow> tid t
           | None \<Rightarrow> (case aka of Some t \<Rightarrow> tid t
                      | None \<Rightarrow> (case elig of Some t \<Rightarrow> tid t | None \<Rightarrow> 0))))"

definition can_acquire_lease :: "arbiter \<Rightarrow> int \<Rightarrow> wait_ticket \<Rightarrow> bool" where
  "can_acquire_lease a now t =
     (if t_kind t \<noteq> KindLease then False
      else if is_blocked_by_active_barrier a (t_class t) then False
      else if has_pending_barrier_ahead a t then False
      else (case t_lease t of
          LeaseSession \<Rightarrow>
            queue_head_is a (tid t) \<and> active_oneshot a = None \<and> \<not> has_active_transport a
            \<and> int (length (active_sessions a)) < max_sessions (opts a)
        | LeaseOneShot \<Rightarrow>
            queue_head_is a (tid t) \<and> length (active_sessions a) = 0 \<and> active_oneshot a = None
            \<and> \<not> has_active_transport a
        | LeaseTransport \<Rightarrow>
            (if length (active_sessions a) > 0 \<or> active_oneshot a \<noteq> None then False
             else selected_transport a now = tid t)
        | LeaseBarrier \<Rightarrow> False))"

definition can_acquire_barrier :: "arbiter \<Rightarrow> wait_ticket \<Rightarrow> bool" where
  "can_acquire_barrier a t =
     (if t_kind t \<noteq> KindBarrier then False
      else if has_active_transport a \<or> length (active_sessions a) > 0 \<or> active_oneshot a \<noteq> None
      then False
      else selected_barrier a = tid t)"

definition is_idle :: "arbiter \<Rightarrow> bool" where
  "is_idle a \<longleftrightarrow> active_oneshot a = None \<and> length (active_transports a) = 0
     \<and> length (active_sessions a) = 0 \<and> length (active_barriers a) = 0 \<and> length (queue a) = 0"

end
