(* ===== verification/Arbiter_Ops.thy ===== *)
theory Arbiter_Ops
  imports Arbiter_Model
begin

text \<open>
  The critical sections of \<open>internal/apduarbiter/arbiter.go\<close>: queueing a ticket, one pass of
  the acquire loops, giving up, touching, releasing and expiring a lease, and the read-only
  views. Each is a function of the state and of the clock reading taken inside the section.
\<close>

definition signal_locked :: "arbiter \<Rightarrow> arbiter" where
  "signal_locked a = a\<lparr>notify_epoch := notify_epoch a + 1\<rparr>"

definition remove_ticket :: "u64 \<Rightarrow> arbiter \<Rightarrow> bool \<times> arbiter" where
  "remove_ticket i a =
     (case remove_first (\<lambda>t. tid t = i) (queue a) of
        None \<Rightarrow> (False, a)
      | Some (_, q) \<Rightarrow> (True, a\<lparr>queue := q\<rparr>))"

definition add_active :: "active_lease \<Rightarrow> arbiter \<Rightarrow> arbiter" where
  "add_active l a =
     (case t_lease (l_ticket l) of
        LeaseSession \<Rightarrow> a\<lparr>active_sessions := active_sessions a @ [l]\<rparr>
      | LeaseOneShot \<Rightarrow> a\<lparr>active_oneshot := Some l\<rparr>
      | LeaseTransport \<Rightarrow> a\<lparr>active_transports := active_transports a @ [l]\<rparr>
      | LeaseBarrier \<Rightarrow> a)"

definition find_active :: "arbiter \<Rightarrow> u64 \<Rightarrow> lease_type \<Rightarrow> active_lease option" where
  "find_active a i lt =
     (case lt of
        LeaseSession \<Rightarrow> find (\<lambda>l. lid l = i) (active_sessions a)
      | LeaseOneShot \<Rightarrow>
          (case active_oneshot a of Some l \<Rightarrow> if lid l = i then Some l else None | None \<Rightarrow> None)
      | LeaseTransport \<Rightarrow> find (\<lambda>l. lid l = i) (active_transports a)
      | LeaseBarrier \<Rightarrow> None)"

definition remove_active :: "u64 \<Rightarrow> lease_type \<Rightarrow> arbiter \<Rightarrow> active_lease option \<times> arbiter" where
  "remove_active i lt a =
     (case lt of
        LeaseSession \<Rightarrow>
          (case remove_first (\<lambda>l. lid l = i) (active_sessions a) of
             None \<Rightarrow> (None, a) | Some (l, ls) \<Rightarrow> (Some l, a\<lparr>active_sessions := ls\<rparr>))
      | LeaseOneShot \<Rightarrow>
          (case active_oneshot a of
             None \<Rightarrow> (None, a)
           | Some l \<Rightarrow> if lid l = i then (Some l, a\<lparr>active_oneshot := None\<rparr>) else (None, a))
      | LeaseTransport \<Rightarrow>
          (case remove_first (\<lambda>l. lid l = i) (active_transports a) of
             None \<Rightarrow> (None, a) | Some (l, ls) \<Rightarrow> (Some l, a\<lparr>active_transports := ls\<rparr>))
      | LeaseBarrier \<Rightarrow> (None, a))"

section \<open>Acquiring\<close>

text \<open>The head of \<open>acquire\<close> and \<open>BeginBarrier\<close> after \<open>mu.Lock\<close>.\<close>

definition enqueue_ticket :: "wait_ticket \<Rightarrow> arbiter \<Rightarrow> arbiter" where
  "enqueue_ticket t a =
     signal_locked (a\<lparr>queue := queue a @ [t], wait_requests := wait_requests a + 1\<rparr>)"

definition activate :: "int \<Rightarrow> wait_ticket \<Rightarrow> arbiter \<Rightarrow> active_lease" where
  "activate now t a =
     (let d = (if max_lease_hold (opts a) > 0 then Some (now + max_lease_hold (opts a)) else None)
      in \<lparr>l_ticket = t, acquired_at = now, expires_at = d, timer = d\<rparr>)"

definition handle_of :: "wait_ticket \<Rightarrow> lease" where
  "handle_of t =
     \<lparr>h_id = tid t, h_owner = t_owner t, h_mode = t_mode t, h_class = t_class t,
      h_channel = t_channel t, h_scope = t_scope t, h_lease = t_lease t, h_once = False\<rparr>"

text \<open>
  One pass of the loop of \<open>acquire\<close>: with \<open>Some\<close> the lease is granted, with None the
  caller goes to sleep on the current \<open>notifyC\<close>.
\<close>

definition acquire_poll :: "int \<Rightarrow> wait_ticket \<Rightarrow> arbiter \<Rightarrow> lease option \<times> arbiter" where
  "acquire_poll now t a =
     (if can_acquire_lease a now t then
        (let a1 = snd (remove_ticket (tid t) a);
             a2 = add_active (activate now t a1) a1
         in (Some (handle_of t), signal_locked (a2\<lparr>acquires := acquires a2 + 1\<rparr>)))
      else (None, a))"

definition barrier_poll :: "int \<Rightarrow> wait_ticket \<Rightarrow> arbiter \<Rightarrow> barrier_handle option \<times> arbiter" where
  "barrier_poll now t a =
     (if can_acquire_barrier a t then
        (let a1 = snd (remove_ticket (tid t) a);
             a2 = a1\<lparr>active_barriers := active_barriers a1 @ [\<lparr>b_ticket = t, b_acquired_at = now\<rparr>],
                     acquires := acquires a1 + 1\<rparr>
         in (Some \<lparr>bh_id = tid t, bh_owner = t_owner t, bh_mode = t_mode t, bh_class = t_class t,
                   bh_once = False\<rparr>,
             signal_locked a2))
      else (None, a))"

text \<open>The \<open>ctx.Done\<close> branch of both loops, with the error it returns.\<close>

definition acquire_timeout :: "wait_ticket \<Rightarrow> arbiter \<Rightarrow> arbiter_error \<times> arbiter" where
  "acquire_timeout t a =
     (ErrBusyLease (t_owner t) (t_mode t) (t_class t) (t_channel t),
      (case remove_ticket (tid t) a of
         (True, a') \<Rightarrow> signal_locked (a'\<lparr>wait_timeouts := wait_timeouts a' + 1\<rparr>)
       | (False, a') \<Rightarrow> a'))"

definition barrier_timeout :: "wait_ticket \<Rightarrow> arbiter \<Rightarrow> arbiter_error \<times> arbiter" where
  "barrier_timeout t a =
     (ErrBusyBarrier (t_owner t) (t_mode t) (t_class t),
      (case remove_ticket (tid t) a of
         (True, a') \<Rightarrow> signal_locked (a'\<lparr>wait_timeouts := wait_timeouts a' + 1\<rparr>)
       | (False, a') \<Rightarrow> a'))"

section \<open>Keeping, releasing and expiring\<close>

definition is_active :: "arbiter \<Rightarrow> u64 \<Rightarrow> lease_type \<Rightarrow> bool" where
  "is_active a i lt \<longleftrightarrow> find_active a i lt \<noteq> None"

definition update_active ::
  "u64 \<Rightarrow> lease_type \<Rightarrow> (active_lease \<Rightarrow> active_lease) \<Rightarrow> arbiter \<Rightarrow> arbiter" where
  "update_active i lt f a =
     (let g = (\<lambda>l. if lid l = i then f l else l) in
      case lt of
        LeaseSession \<Rightarrow> a\<lparr>active_sessions := map g (active_sessions a)\<rparr>
      | LeaseOneShot \<Rightarrow> a\<lparr>active_oneshot := map_option g (active_oneshot a)\<rparr>
      | LeaseTransport \<Rightarrow> a\<lparr>active_transports := map g (active_transports a)\<rparr>
      | LeaseBarrier \<Rightarrow> a)"

text \<open>
  \<open>touch\<close> moves the deadline and re-arms the timer; the lease found is mutated through its
  pointer, which here updates the entry with that id.
\<close>

definition touch :: "int \<Rightarrow> u64 \<Rightarrow> lease_type \<Rightarrow> arbiter \<Rightarrow> bool \<times> arbiter" where
  "touch now i lt a =
     (if max_lease_hold (opts a) \<le> 0 then (is_active a i lt, a)
      else (case find_active a i lt of
          None \<Rightarrow> (False, a)
        | Some l \<Rightarrow>
            (let d = Some (now + max_lease_hold (opts a))
             in (True, update_active i lt (\<lambda>l. l\<lparr>expires_at := d, timer := d\<rparr>) a))))"

definition release :: "u64 \<Rightarrow> lease_type \<Rightarrow> string \<Rightarrow> arbiter \<Rightarrow> arbiter" where
  "release i lt reason a =
     (case remove_active i lt a of
        (None, a') \<Rightarrow> a'
      | (Some l, a') \<Rightarrow>
          signal_locked
            (if reason = ''force-timeout'' then a'\<lparr>forced_releases := forced_releases a' + 1\<rparr> else a'))"

definition release_barrier :: "u64 \<Rightarrow> arbiter \<Rightarrow> arbiter" where
  "release_barrier i a =
     (case remove_first (\<lambda>b. bid b = i) (active_barriers a) of
        None \<Rightarrow> a
      | Some (_, bs) \<Rightarrow> signal_locked (a\<lparr>active_barriers := bs\<rparr>))"

text \<open>The timer's callback: the watchdog re-arms itself while the deadline is ahead.\<close>

definition release_expired :: "int \<Rightarrow> u64 \<Rightarrow> lease_type \<Rightarrow> arbiter \<Rightarrow> arbiter" where
  "release_expired now i lt a =
     (case find_active a i lt of
        None \<Rightarrow> a
      | Some l \<Rightarrow>
          (case expires_at l of
             Some d \<Rightarrow>
               if d - now > 0 then
                 (if timer l \<noteq> None then update_active i lt (\<lambda>l. l\<lparr>timer := Some d\<rparr>) a else a)
               else (case remove_active i lt a of
                   (None, a') \<Rightarrow> a'
                 | (Some _, a') \<Rightarrow> signal_locked (a'\<lparr>forced_releases := forced_releases a' + 1\<rparr>))
           | None \<Rightarrow> (case remove_active i lt a of
                   (None, a') \<Rightarrow> a'
                 | (Some _, a') \<Rightarrow> signal_locked (a'\<lparr>forced_releases := forced_releases a' + 1\<rparr>))))"

text \<open>The methods of the handles: a nil handle does nothing, and \<open>Release\<close> acts once.\<close>

definition lease_touch :: "int \<Rightarrow> lease option \<Rightarrow> arbiter \<Rightarrow> bool \<times> arbiter" where
  "lease_touch now l a =
     (case l of None \<Rightarrow> (False, a) | Some h \<Rightarrow> touch now (h_id h) (h_lease h) a)"

definition lease_active :: "lease option \<Rightarrow> arbiter \<Rightarrow> bool" where
  "lease_active l a = (case l of None \<Rightarrow> False | Some h \<Rightarrow> is_active a (h_id h) (h_lease h))"

definition lease_release :: "lease option \<Rightarrow> arbiter \<Rightarrow> lease option \<times> arbiter" where
  "lease_release l a =
     (case l of
        None \<Rightarrow> (None, a)
      | Some h \<Rightarrow>
          if h_once h then (Some h, a)
          else (Some (h\<lparr>h_once := True\<rparr>), release (h_id h) (h_lease h) ''release'' a))"

definition barrier_handle_release ::
  "barrier_handle option \<Rightarrow> arbiter \<Rightarrow> barrier_handle option \<times> arbiter" where
  "barrier_handle_release b a =
     (case b of
        None \<Rightarrow> (None, a)
      | Some h \<Rightarrow>
          if bh_once h then (Some h, a)
          else (Some (h\<lparr>bh_once := True\<rparr>), release_barrier (bh_id h) a))"

section \<open>Views\<close>

record stats =
  st_wait_requests :: nat
  st_acquires :: nat
  st_wait_timeouts :: nat
  st_forced_releases :: nat
  st_current_queue :: nat
  st_active_sessions :: nat
  st_active_oneshot :: bool
  st_active_transport :: bool
  st_active_transports :: nat
  st_active_barriers :: nat
  st_current_queue_type :: string

definition kind_string :: "wait_kind \<Rightarrow> string" where
  "kind_string k = (case k of KindLease \<Rightarrow> ''lease'' | KindBarrier \<Rightarrow> ''barrier'')"

definition arbiter_stats :: "arbiter \<Rightarrow> stats" where
  "arbiter_stats a =
     \<lparr>st_wait_requests = wait_requests a, st_acquires = acquires a,
      st_wait_timeouts = wait_timeouts a, st_forced_releases = forced_releases a,
      st_current_queue = length (queue a), st_active_sessions = length (active_sessions a),
      st_active_oneshot = (active_oneshot a \<noteq> None),
      st_active_transport = (length (active_transports a) > 0),
      st_active_transports = length (active_transports a),
      st_active_barriers = length (active_barriers a),
      st_current_queue_type = (case queue a of [] \<Rightarrow> '''' | q # _ \<Rightarrow> kind_string (t_kind q))\<rparr>"

record snapshot_entry =
  sn_id :: u64
  sn_owner :: string
  sn_mode :: string
  sn_class :: apdu_class
  sn_channel :: int
  sn_scope :: transport_scope
  sn_lease :: lease_type
  sn_wait_ms :: int
  sn_hold_ms :: int

text \<open>\<open>Duration.Milliseconds\<close> truncates toward zero; the clock never runs backwards.\<close>

definition millis :: "int \<Rightarrow> int" where
  "millis d = (if d < 0 then - ((- d) div 1000000) else d div 1000000)"

definition snapshot_of_ticket :: "wait_ticket \<Rightarrow> lease_type \<Rightarrow> int \<Rightarrow> int \<Rightarrow> snapshot_entry" where
  "snapshot_of_ticket t lt wait hold =
     \<lparr>sn_id = tid t, sn_owner = t_owner t, sn_mode = t_mode t, sn_class = t_class t,
      sn_channel = t_channel t, sn_scope = t_scope t, sn_lease = lt,
      sn_wait_ms = wait, sn_hold_ms = hold\<rparr>"

definition snapshot_active_lease :: "int \<Rightarrow> active_lease \<Rightarrow> snapshot_entry" where
  "snapshot_active_lease now l =
     snapshot_of_ticket (l_ticket l) (t_lease (l_ticket l)) 0 (millis (now - acquired_at l))"

definition arbiter_snapshot :: "int \<Rightarrow> arbiter \<Rightarrow> snapshot_entry list \<times> snapshot_entry list" where
  "arbiter_snapshot now a =
     (map (snapshot_active_lease now) (active_sessions a)
      @ (case active_oneshot a of None \<Rightarrow> [] | Some l \<Rightarrow> [snapshot_active_lease now l])
      @ map (snapshot_active_lease now) (active_transports a)
      @ map (\<lambda>b. snapshot_of_ticket (b_ticket b) LeaseBarrier 0 (millis (now - b_acquired_at b)))
          (active_barriers a),
      map (\<lambda>t. snapshot_of_ticket t (t_lease t) (millis (now - t_enqueued t)) 0) (queue a))"

definition should_log_event :: "string \<Rightarrow> int \<Rightarrow> int \<Rightarrow> int \<Rightarrow> bool" where
  "should_log_event phase queue_len wait_ms hold_ms =
     (if phase = ''timeout'' \<or> phase = ''force-release'' \<or> has_prefix phase ''barrier_'' then True
      else if wait_ms > 0 \<or> hold_ms \<ge> 500 \<or> queue_len > 1 then True
      else False)"

text \<open>
  One pass of the loop of \<open>WaitIdle\<close>: it returns when the arbiter is idle, otherwise it
  sleeps on the current \<open>notifyC\<close>, whose epoch is returned.
\<close>

definition wait_idle_poll :: "arbiter \<Rightarrow> unit + nat" where
  "wait_idle_poll a = (if is_idle a then Inl () else Inr (notify_epoch a))"

end
