(* ===== verification/Arbiter_Select.thy ===== *)
theory Arbiter_Select
  imports Arbiter_Ops
begin

text \<open>
  What the selection of the next transport computes. \<open>selectedTransportLocked\<close> finds its
  candidates in one pass with three variables; \<open>eligible\<close> lists the tickets that pass
  considers, and \<open>transport_choice\<close> is the policy in three separate searches. They agree,
  and the arbitration properties follow from the policy.
\<close>

definition scan_stops :: "arbiter \<Rightarrow> wait_ticket \<Rightarrow> bool" where
  "scan_stops a t \<longleftrightarrow>
     t_kind t = KindBarrier \<or> t_lease t \<noteq> LeaseTransport
     \<or> (\<not> is_blocked_by_active_barrier a (t_class t) \<and> \<not> can_acquire_transport_now a t
        \<and> transport_wait_gates_queue a t)"

definition admissible :: "arbiter \<Rightarrow> wait_ticket \<Rightarrow> bool" where
  "admissible a t \<longleftrightarrow>
     \<not> is_blocked_by_active_barrier a (t_class t) \<and> can_acquire_transport_now a t"

definition eligible :: "arbiter \<Rightarrow> wait_ticket list \<Rightarrow> wait_ticket list" where
  "eligible a ts = filter (admissible a) (takeWhile (\<lambda>t. \<not> scan_stops a t) ts)"

lemma eligible_simps [simp]:
  "eligible a [] = []"
  "eligible a (t # ts) =
     (if t_kind t = KindBarrier \<or> t_lease t \<noteq> LeaseTransport then []
      else if is_blocked_by_active_barrier a (t_class t) then eligible a ts
      else if can_acquire_transport_now a t then t # eligible a ts
      else if transport_wait_gates_queue a t then []
      else eligible a ts)"
  by (auto simp: eligible_def scan_stops_def admissible_def)

definition aged :: "int \<Rightarrow> wait_ticket \<Rightarrow> bool" where
  "aged now t \<longleftrightarrow> t_class t \<noteq> USIMAKA \<and> now - t_enqueued t \<ge> transport_priority_aging"

definition transport_choice :: "int \<Rightarrow> wait_ticket list \<Rightarrow> wait_ticket option" where
  "transport_choice now es =
     (case find (aged now) es of Some t \<Rightarrow> Some t
      | None \<Rightarrow> (case find (\<lambda>t. t_class t = USIMAKA) es of Some t \<Rightarrow> Some t
                 | None \<Rightarrow> (case es of [] \<Rightarrow> None | t # _ \<Rightarrow> Some t)))"

definition or_else :: "'a option \<Rightarrow> 'a option \<Rightarrow> 'a option" where
  "or_else x y = (case x of Some v \<Rightarrow> Some v | None \<Rightarrow> y)"

lemma or_else_simps [simp]:
  "or_else None y = y" "or_else (Some v) y = Some v" "or_else x None = x"
  by (auto simp: or_else_def split: option.splits)

definition first_of :: "'a list \<Rightarrow> 'a option" where
  "first_of xs = (case xs of [] \<Rightarrow> None | x # _ \<Rightarrow> Some x)"

lemma first_of_simps [simp]: "first_of [] = None" "first_of (x # xs) = Some x"
  by (simp_all add: first_of_def)

lemma select_scan_eligible:
  "select_scan a now ts (e, g, k) =
     (or_else e (first_of (eligible a ts)),
      or_else g (find (aged now) (eligible a ts)),
      or_else k (find (\<lambda>t. t_class t = USIMAKA) (eligible a ts)))"
proof (induction ts arbitrary: e g k)
  case Nil
  then show ?case by simp
next
  case (Cons t ts)
  then show ?case
    by (cases e; cases g; cases k) (auto simp: aged_def Let_def)
qed

lemma selected_transport_choice:
  "selected_transport a now =
     (case transport_choice now (eligible a (queue a)) of Some t \<Rightarrow> tid t | None \<Rightarrow> 0)"
  by (auto simp: selected_transport_def select_scan_eligible transport_choice_def first_of_def
      split: option.splits list.splits)

lemma find_in_set: "find P xs = Some x \<Longrightarrow> x \<in> set xs \<and> P x"
  by (auto simp: find_Some_iff)

lemma find_append_Some: "find P xs = Some x \<Longrightarrow> find P (xs @ ys) = Some x"
  by (induction xs) auto

lemma transport_choice_in: "transport_choice now es = Some t \<Longrightarrow> t \<in> set es"
  by (auto simp: transport_choice_def dest: find_in_set split: option.splits list.splits)

lemma transport_choice_None_iff: "transport_choice now es = None \<longleftrightarrow> es = []"
  by (auto simp: transport_choice_def split: option.splits list.splits)

lemma eligible_sound:
  "t \<in> set (eligible a ts) \<Longrightarrow>
     t \<in> set ts \<and> t_kind t \<noteq> KindBarrier \<and> t_lease t = LeaseTransport
     \<and> \<not> is_blocked_by_active_barrier a (t_class t) \<and> can_acquire_transport_now a t"
  by (auto simp: eligible_def admissible_def scan_stops_def dest: set_takeWhileD)

text \<open>Nothing behind a barrier ticket is considered, whatever the barrier blocks.\<close>

lemma eligible_before_barrier:
  "t_kind b = KindBarrier \<Longrightarrow> eligible a (us @ b # vs) = eligible a us"
  by (induction us) auto

lemma eligible_append:
  "\<forall>u \<in> set us. \<not> scan_stops a u \<Longrightarrow> eligible a (us @ vs) = eligible a us @ eligible a vs"
  by (induction us) (auto simp: scan_stops_def)

lemma eligible_stops:
  "u \<in> set us \<Longrightarrow> scan_stops a u \<Longrightarrow> eligible a (us @ vs) = eligible a us"
  by (auto simp: eligible_def takeWhile_append1)

text \<open>
  A ticket that was found with the queue split around it: nothing before it stopped the scan,
  and the eligible tickets before it are exactly the admissible ones among those before it.
\<close>

lemma eligible_split:
  assumes "t \<in> set (eligible a (us @ t # vs))" and "t \<notin> set us"
  shows "eligible a (us @ t # vs) = filter (admissible a) us @ t # eligible a vs"
proof -
  have no_stop: "\<not> scan_stops a u" if "u \<in> set us" for u
  proof
    assume "scan_stops a u"
    with that have "t \<in> set (eligible a us)" using assms(1) by (simp add: eligible_stops)
    with assms(2) show False by (auto dest: eligible_sound)
  qed
  then have "takeWhile (\<lambda>t. \<not> scan_stops a t) us = us" by simp
  then have "eligible a us = filter (admissible a) us" by (simp only: eligible_def)
  moreover have "eligible a (t # vs) = t # eligible a vs"
    using eligible_sound [OF assms(1)] by simp
  moreover have "eligible a (us @ t # vs) = eligible a us @ eligible a (t # vs)"
    using no_stop by (intro eligible_append) blast
  ultimately show ?thesis by (simp only:)
qed

end
