(* ===== verification/Arbiter_Safety.thy ===== *)
theory Arbiter_Safety
  imports Arbiter_Select
begin

text \<open>
  The arbiter's invariant and its preservation by every critical section: tickets, leases
  and barriers have ids of their own; the active leases exclude each other as the lease
  types and scopes demand; no active lease belongs to a class that an active barrier blocks;
  and the counters account for every request.
\<close>

section \<open>The invariant\<close>

definition all_leases :: "arbiter \<Rightarrow> active_lease list" where
  "all_leases a =
     active_sessions a @ (case active_oneshot a of None \<Rightarrow> [] | Some l \<Rightarrow> [l]) @ active_transports a"

definition arb_ids :: "arbiter \<Rightarrow> u64 list" where
  "arb_ids a = map tid (queue a) @ map lid (all_leases a) @ map bid (active_barriers a)"

definition ids_ok :: "arbiter \<Rightarrow> bool" where
  "ids_ok a \<longleftrightarrow> distinct (arb_ids a) \<and> 0 \<notin> set (arb_ids a)"

definition kinds_ok :: "arbiter \<Rightarrow> bool" where
  "kinds_ok a \<longleftrightarrow>
     (\<forall>t \<in> set (queue a). t_kind t = KindBarrier \<longleftrightarrow> t_lease t = LeaseBarrier)
     \<and> (\<forall>l \<in> set (active_sessions a). t_lease (l_ticket l) = LeaseSession)
     \<and> (\<forall>l. active_oneshot a = Some l \<longrightarrow> t_lease (l_ticket l) = LeaseOneShot)
     \<and> (\<forall>l \<in> set (active_transports a). t_lease (l_ticket l) = LeaseTransport)"

definition is_qmi :: "active_lease \<Rightarrow> bool" where
  "is_qmi l \<longleftrightarrow> t_scope (l_ticket l) = ScopeQMIChannel"

text \<open>
  One card: a one-shot lease is alone, transports and sessions never meet, an exclusive
  transport is the only transport, and concurrent QMI transports are within their window and
  on different logical channels.
\<close>

definition excl_ok :: "arbiter \<Rightarrow> bool" where
  "excl_ok a \<longleftrightarrow>
     (active_oneshot a \<noteq> None \<longrightarrow> active_sessions a = [] \<and> active_transports a = [])
     \<and> (active_transports a \<noteq> [] \<longrightarrow> active_sessions a = [])
     \<and> int (length (active_sessions a)) \<le> max_sessions (opts a)
     \<and> (\<forall>l \<in> set (active_transports a). \<not> is_qmi l \<longrightarrow> active_transports a = [l])
     \<and> int (length (filter is_qmi (active_transports a))) \<le> max_qmi_transports (opts a)
     \<and> distinct (map (\<lambda>l. t_channel (l_ticket l)) (filter is_qmi (active_transports a)))"

definition barrier_ok :: "arbiter \<Rightarrow> bool" where
  "barrier_ok a \<longleftrightarrow>
     (\<forall>b \<in> set (active_barriers a). \<forall>l \<in> set (all_leases a).
        t_class (l_ticket l) \<notin> t_blocked (b_ticket b))"

definition count_ok :: "arbiter \<Rightarrow> bool" where
  "count_ok a \<longleftrightarrow> wait_requests a = acquires a + wait_timeouts a + length (queue a)"

definition opts_ok :: "arbiter \<Rightarrow> bool" where
  "opts_ok a \<longleftrightarrow> 0 < max_lease_hold (opts a) \<and> 0 < max_sessions (opts a) \<and> 0 < max_qmi_transports (opts a)"

definition arb_inv :: "arbiter \<Rightarrow> bool" where
  "arb_inv a \<longleftrightarrow> ids_ok a \<and> kinds_ok a \<and> excl_ok a \<and> barrier_ok a \<and> count_ok a \<and> opts_ok a"

lemmas inv_defs =
  arb_inv_def ids_ok_def kinds_ok_def excl_ok_def barrier_ok_def count_ok_def opts_ok_def
  all_leases_def arb_ids_def

lemma new_arbiter_inv: "arb_inv (new_arbiter dev os)"
  by (simp add: inv_defs new_arbiter_def)

section \<open>What each critical section changes\<close>

lemma signal_locked_simps [simp]:
  "queue (signal_locked a) = queue a"
  "active_sessions (signal_locked a) = active_sessions a"
  "active_oneshot (signal_locked a) = active_oneshot a"
  "active_transports (signal_locked a) = active_transports a"
  "active_barriers (signal_locked a) = active_barriers a"
  "opts (signal_locked a) = opts a" "seq (signal_locked a) = seq a"
  "wait_requests (signal_locked a) = wait_requests a"
  "acquires (signal_locked a) = acquires a"
  "wait_timeouts (signal_locked a) = wait_timeouts a"
  "forced_releases (signal_locked a) = forced_releases a"
  "notify_epoch (signal_locked a) = notify_epoch a + 1"
  by (simp_all add: signal_locked_def)

lemma all_leases_cong:
  "active_sessions a = active_sessions b \<Longrightarrow> active_oneshot a = active_oneshot b \<Longrightarrow>
   active_transports a = active_transports b \<Longrightarrow> all_leases a = all_leases b"
  by (simp add: all_leases_def)

lemma ids_ok_queue: "ids_ok a \<Longrightarrow> distinct (map tid (queue a))"
  by (simp add: ids_ok_def arb_ids_def)

lemma ids_ok_parts:
  assumes "ids_ok a"
  shows "distinct (map lid (active_sessions a))" and "distinct (map lid (active_transports a))"
    and "distinct (map bid (active_barriers a))" and "distinct (map lid (all_leases a))"
  using assms by (auto simp: ids_ok_def arb_ids_def all_leases_def)

lemma remove_ticket_filter:
  assumes "ids_ok a"
  shows "remove_ticket i a =
     (\<exists>t \<in> set (queue a). tid t = i, a\<lparr>queue := filter (\<lambda>t. tid t \<noteq> i) (queue a)\<rparr>)"
proof (cases "find (\<lambda>t. tid t = i) (queue a)")
  case None
  moreover have "\<not> (\<exists>t \<in> set (queue a). tid t = i)" using None by (auto simp: find_None_iff)
  ultimately show ?thesis
    using remove_first_filter [OF ids_ok_queue [OF assms], of i]
    by (simp add: remove_ticket_def filter_neq_id)
next
  case (Some t)
  then have "\<exists>t \<in> set (queue a). tid t = i" by (blast dest: find_in_set)
  with Some show ?thesis
    using remove_first_filter [OF ids_ok_queue [OF assms], of i]
    by (simp add: remove_ticket_def)
qed

lemma acquire_poll_cases:
  obtains (refused) "\<not> can_acquire_lease a now t" "acquire_poll now t a = (None, a)"
  | (granted) "can_acquire_lease a now t" "fst (acquire_poll now t a) = Some (handle_of t)"
  by (cases "can_acquire_lease a now t") (auto simp: acquire_poll_def Let_def)

text \<open>The state after a grant, field by field.\<close>

lemma granted_fields:
  assumes "ids_ok a" and "can_acquire_lease a now t" and a': "a' = snd (acquire_poll now t a)"
  shows "queue a' = filter (\<lambda>q. tid q \<noteq> tid t) (queue a)"
    and "active_barriers a' = active_barriers a"
    and "opts a' = opts a" and "seq a' = seq a"
    and "notify_epoch a' = notify_epoch a + 1"
    and "wait_requests a' = wait_requests a" and "acquires a' = acquires a + 1"
    and "wait_timeouts a' = wait_timeouts a"
    and "active_sessions a' = active_sessions a @
           (if t_lease t = LeaseSession then [activate now t a] else [])"
    and "active_oneshot a' =
           (if t_lease t = LeaseOneShot then Some (activate now t a) else active_oneshot a)"
    and "active_transports a' = active_transports a @
           (if t_lease t = LeaseTransport then [activate now t a] else [])"
proof -
  have act: "activate now t (snd (remove_ticket (tid t) a)) = activate now t a"
    using assms(1) by (simp add: remove_ticket_filter activate_def)
  have lt: "l_ticket (activate now t a) = t" by (simp add: activate_def Let_def)
  have e: "a' = (let a2 = add_active (activate now t a)
                    (a\<lparr>queue := filter (\<lambda>q. tid q \<noteq> tid t) (queue a)\<rparr>)
                 in signal_locked (a2\<lparr>acquires := acquires a2 + 1\<rparr>))"
    using assms act by (simp add: acquire_poll_def remove_ticket_filter Let_def)
  show "queue a' = filter (\<lambda>q. tid q \<noteq> tid t) (queue a)"
    and "active_barriers a' = active_barriers a"
    and "opts a' = opts a" and "seq a' = seq a"
    and "notify_epoch a' = notify_epoch a + 1"
    and "wait_requests a' = wait_requests a" and "acquires a' = acquires a + 1"
    and "wait_timeouts a' = wait_timeouts a"
    and "active_sessions a' = active_sessions a @
           (if t_lease t = LeaseSession then [activate now t a] else [])"
    and "active_oneshot a' =
           (if t_lease t = LeaseOneShot then Some (activate now t a) else active_oneshot a)"
    and "active_transports a' = active_transports a @
           (if t_lease t = LeaseTransport then [activate now t a] else [])"
    using lt by (simp_all add: e Let_def add_active_def split: lease_type.splits)
qed

lemma activate_ticket [simp]: "l_ticket (activate now t a) = t"
  by (simp add: activate_def Let_def)

text \<open>What the guard of a grant says about the active leases.\<close>

lemma can_acquire_leaseD:
  assumes "can_acquire_lease a now t" and "ids_ok a" and "t \<in> set (queue a)"
  shows "t_lease t = LeaseSession \<Longrightarrow> active_oneshot a = None \<and> active_transports a = []
           \<and> int (length (active_sessions a)) < max_sessions (opts a)"
    and "t_lease t = LeaseOneShot \<Longrightarrow>
           active_oneshot a = None \<and> active_transports a = [] \<and> active_sessions a = []"
    and "t_lease t = LeaseTransport \<Longrightarrow>
           active_oneshot a = None \<and> active_sessions a = [] \<and> can_acquire_transport_now a t"
    and "\<not> is_blocked_by_active_barrier a (t_class t)"
    and "t_lease t \<noteq> LeaseBarrier" and "t_kind t = KindLease"
proof -
  show "t_lease t = LeaseSession \<Longrightarrow> active_oneshot a = None \<and> active_transports a = []
           \<and> int (length (active_sessions a)) < max_sessions (opts a)"
    and "t_lease t = LeaseOneShot \<Longrightarrow>
           active_oneshot a = None \<and> active_transports a = [] \<and> active_sessions a = []"
    and "\<not> is_blocked_by_active_barrier a (t_class t)"
    and "t_lease t \<noteq> LeaseBarrier" and "t_kind t = KindLease"
    using assms(1) by (auto simp: can_acquire_lease_def has_active_transport_def split: if_splits)
next
  assume tr: "t_lease t = LeaseTransport"
  with assms(1) have sel: "selected_transport a now = tid t"
    and none: "active_oneshot a = None \<and> active_sessions a = []"
    by (auto simp: can_acquire_lease_def split: if_splits)
  have "tid t \<noteq> 0" using assms(2,3) by (force simp: ids_ok_def arb_ids_def)
  with sel obtain c where c: "transport_choice now (eligible a (queue a)) = Some c" and "tid c = tid t"
    by (auto simp: selected_transport_choice split: option.splits)
  then have el: "c \<in> set (eligible a (queue a))" by (blast intro: transport_choice_in)
  with \<open>tid c = tid t\<close> assms(2,3) have "c = t"
    by (auto dest!: eligible_sound ids_ok_queue simp: distinct_map inj_on_def)
  with el none show "active_oneshot a = None \<and> active_sessions a = [] \<and> can_acquire_transport_now a t"
    by (auto dest: eligible_sound)
qed

end
