(* ===== verification/Arbiter_Preserve.thy ===== *)
theory Arbiter_Preserve
  imports Arbiter_Safety
begin

text \<open>
  Every critical section of the arbiter keeps its invariant: one lemma per operation, from
  the field-by-field descriptions of Arbiter_Safety.
\<close>

section \<open>Granting a lease\<close>

lemma grant_ids_ok:
  assumes "ids_ok a" and "can_acquire_lease a now t" and "t \<in> set (queue a)"
  shows "ids_ok (snd (acquire_poll now t a))"
proof -
  note f = granted_fields [OF assms(1,2) refl]
  have d: "distinct (arb_ids a)" and z: "0 \<notin> set (arb_ids a)"
    using assms(1) by (auto simp: ids_ok_def)
  have t: "tid t \<in> set (map tid (queue a))" using assms(3) by simp
  have q: "map tid (filter (\<lambda>q. tid q \<noteq> tid t) (queue a)) = filter (\<lambda>i. i \<noteq> tid t) (map tid (queue a))"
    by (simp add: filter_map comp_def)
  show ?thesis
    using d z t can_acquire_leaseD [OF assms(2,1,3)]
    by (cases "t_lease t")
      (auto simp: ids_ok_def arb_ids_def all_leases_def f q simp del: set_map)
qed

lemma grant_kinds_ok:
  assumes "ids_ok a" and "kinds_ok a" and "can_acquire_lease a now t"
  shows "kinds_ok (snd (acquire_poll now t a))"
  using assms(2) by (auto simp: kinds_ok_def granted_fields [OF assms(1,3) refl])

lemma transport_now_exclusive:
  assumes "can_acquire_transport_now a t" and "t_scope t \<noteq> ScopeQMIChannel"
  shows "active_transports a = []"
  using assms by (auto simp: can_acquire_transport_now_def has_active_transport_def split: if_splits)

lemma transport_now_channel:
  assumes "can_acquire_transport_now a t" and "t_scope t = ScopeQMIChannel"
  shows "\<forall>l \<in> set (active_transports a). is_qmi l"
    and "int (length (filter is_qmi (active_transports a))) < max_qmi_transports (opts a)"
    and "\<forall>l \<in> set (active_transports a). is_qmi l \<longrightarrow> t_channel (l_ticket l) \<noteq> t_channel t"
  using assms
  by (auto simp: can_acquire_transport_now_def has_active_exclusive_transport_def is_qmi_def
      active_qmi_transport_count_def has_active_transport_on_channel_def list_ex_iff
      split: if_splits)

lemma is_qmi_activate [simp]: "is_qmi (activate now t a) \<longleftrightarrow> t_scope t = ScopeQMIChannel"
  by (simp add: is_qmi_def)

lemma grant_excl_ok:
  assumes "ids_ok a" and "opts_ok a" and ex: "excl_ok a" and can: "can_acquire_lease a now t"
    and "t \<in> set (queue a)"
  shows "excl_ok (snd (acquire_poll now t a))"
proof -
  note f = granted_fields [OF assms(1) can refl]
  note g = can_acquire_leaseD [OF can assms(1,5)]
  show ?thesis
  proof (cases "t_lease t")
    case LeaseSession
    with g(1) ex show ?thesis by (auto simp: excl_ok_def f)
  next
    case LeaseOneShot
    with g(2) ex show ?thesis by (auto simp: excl_ok_def f)
  next
    case LeaseBarrier
    with g(5) show ?thesis by simp
  next
    case LeaseTransport
    with g(3) have none: "active_oneshot a = None" "active_sessions a = []"
      and now: "can_acquire_transport_now a t" by auto
    show ?thesis
    proof (cases "t_scope t = ScopeQMIChannel")
      case False
      from transport_now_exclusive [OF now this] False none LeaseTransport assms(2) ex show ?thesis
        by (simp add: excl_ok_def opts_ok_def f)
    next
      case True
      from transport_now_channel [OF now True] none LeaseTransport True ex show ?thesis
        by (auto simp: excl_ok_def f)
    qed
  qed
qed

lemma grant_barrier_ok:
  assumes "ids_ok a" and "barrier_ok a" and can: "can_acquire_lease a now t"
    and "t \<in> set (queue a)"
  shows "barrier_ok (snd (acquire_poll now t a))"
proof -
  note f = granted_fields [OF assms(1) can refl]
  have nb: "\<forall>b \<in> set (active_barriers a). t_class t \<notin> t_blocked (b_ticket b)"
    using can_acquire_leaseD(4) [OF can assms(1,4)]
    by (auto simp: is_blocked_by_active_barrier_def list_ex_iff)
  show ?thesis
    using assms(2) nb can_acquire_leaseD [OF can assms(1,4)]
    by (cases "t_lease t") (auto simp: barrier_ok_def all_leases_def f)
qed

lemma queue_length_remove:
  "ids_ok a \<Longrightarrow> t \<in> set (queue a) \<Longrightarrow>
     Suc (length (filter (\<lambda>q. tid q \<noteq> tid t) (queue a))) = length (queue a)"
  by (intro length_filter_neq ids_ok_queue)

lemma acquire_poll_inv:
  assumes "arb_inv a" and "t \<in> set (queue a)"
  shows "arb_inv (snd (acquire_poll now t a))"
proof (cases "can_acquire_lease a now t")
  case False
  with assms(1) show ?thesis by (simp add: acquire_poll_def)
next
  case True
  have i: "ids_ok a" "kinds_ok a" "excl_ok a" "barrier_ok a" "count_ok a" "opts_ok a"
    using assms(1) by (auto simp: arb_inv_def)
  note f = granted_fields [OF i(1) True refl]
  have "count_ok (snd (acquire_poll now t a))"
    using i(5) queue_length_remove [OF i(1) assms(2)] by (simp add: count_ok_def f)
  moreover have "opts_ok (snd (acquire_poll now t a))"
    using i(6) by (simp add: opts_ok_def f)
  ultimately show ?thesis
    using grant_ids_ok [OF i(1) True assms(2)] grant_kinds_ok [OF i(1,2) True]
      grant_excl_ok [OF i(1,6,3) True assms(2)] grant_barrier_ok [OF i(1,4) True assms(2)]
    by (simp add: arb_inv_def)
qed

section \<open>Granting a barrier\<close>

lemma barrier_granted_fields:
  assumes "ids_ok a" and "can_acquire_barrier a t" and a': "a' = snd (barrier_poll now t a)"
  shows "a' = signal_locked (a\<lparr>queue := filter (\<lambda>q. tid q \<noteq> tid t) (queue a),
      active_barriers := active_barriers a @ [\<lparr>b_ticket = t, b_acquired_at = now\<rparr>],
      acquires := acquires a + 1\<rparr>)"
  using assms by (simp add: barrier_poll_def remove_ticket_filter Let_def)

lemma can_acquire_barrierD:
  "can_acquire_barrier a t \<Longrightarrow>
     t_kind t = KindBarrier \<and> all_leases a = [] \<and> selected_barrier a = tid t"
  by (auto simp: can_acquire_barrier_def has_active_transport_def all_leases_def split: if_splits)

lemma barrier_poll_inv:
  assumes "arb_inv a" and "t \<in> set (queue a)"
  shows "arb_inv (snd (barrier_poll now t a))"
proof (cases "can_acquire_barrier a t")
  case False
  with assms(1) show ?thesis by (simp add: barrier_poll_def)
next
  case True
  have i: "ids_ok a" "kinds_ok a" "excl_ok a" "barrier_ok a" "count_ok a" "opts_ok a"
    using assms(1) by (auto simp: arb_inv_def)
  note f = barrier_granted_fields [OF i(1) True refl]
  have al: "active_sessions a = []" "active_oneshot a = None" "active_transports a = []"
    using can_acquire_barrierD [OF True] by (auto simp: all_leases_def split: option.splits)
  have t: "tid t \<in> set (map tid (queue a))" using assms(2) by simp
  have q: "map tid (filter (\<lambda>q. tid q \<noteq> tid t) (queue a)) = filter (\<lambda>i. i \<noteq> tid t) (map tid (queue a))"
    by (simp add: filter_map comp_def)
  have "ids_ok (snd (barrier_poll now t a))"
    using i(1) t by (auto simp: f ids_ok_def arb_ids_def all_leases_def al q simp del: set_map)
  moreover have "count_ok (snd (barrier_poll now t a))"
    using i(5) queue_length_remove [OF i(1) assms(2)] by (simp add: f count_ok_def)
  ultimately show ?thesis
    using i(2,3,6) by (simp add: f arb_inv_def kinds_ok_def excl_ok_def barrier_ok_def
        opts_ok_def all_leases_def al)
qed

section \<open>Queueing and giving up\<close>

lemma enqueue_inv:
  assumes "arb_inv a" and "tid t \<notin> set (arb_ids a)" and "tid t \<noteq> 0"
    and "t_kind t = KindBarrier \<longleftrightarrow> t_lease t = LeaseBarrier"
  shows "arb_inv (enqueue_ticket t a)"
  using assms
  by (auto simp: enqueue_ticket_def inv_defs is_qmi_def split: option.splits)

lemma timeout_fields:
  assumes "ids_ok a" and "t \<in> set (queue a)"
  shows "snd (acquire_timeout t a) =
      signal_locked (a\<lparr>queue := filter (\<lambda>q. tid q \<noteq> tid t) (queue a),
        wait_timeouts := wait_timeouts a + 1\<rparr>)"
    and "snd (barrier_timeout t a) =
      signal_locked (a\<lparr>queue := filter (\<lambda>q. tid q \<noteq> tid t) (queue a),
        wait_timeouts := wait_timeouts a + 1\<rparr>)"
proof -
  have "(\<exists>q \<in> set (queue a). tid q = tid t) = True" using assms(2) by blast
  then show "snd (acquire_timeout t a) =
      signal_locked (a\<lparr>queue := filter (\<lambda>q. tid q \<noteq> tid t) (queue a),
        wait_timeouts := wait_timeouts a + 1\<rparr>)"
    and "snd (barrier_timeout t a) =
      signal_locked (a\<lparr>queue := filter (\<lambda>q. tid q \<noteq> tid t) (queue a),
        wait_timeouts := wait_timeouts a + 1\<rparr>)"
    by (simp_all add: acquire_timeout_def barrier_timeout_def remove_ticket_filter [OF assms(1)])
qed

lemma timeout_inv:
  assumes "arb_inv a" and "t \<in> set (queue a)"
  shows "arb_inv (snd (acquire_timeout t a))" and "arb_inv (snd (barrier_timeout t a))"
proof -
  have i: "ids_ok a" "kinds_ok a" "excl_ok a" "barrier_ok a" "count_ok a" "opts_ok a"
    using assms(1) by (auto simp: arb_inv_def)
  let ?b = "signal_locked (a\<lparr>queue := filter (\<lambda>q. tid q \<noteq> tid t) (queue a),
        wait_timeouts := wait_timeouts a + 1\<rparr>)"
  have q: "map tid (filter (\<lambda>q. tid q \<noteq> tid t) (queue a)) = filter (\<lambda>i. i \<noteq> tid t) (map tid (queue a))"
    by (simp add: filter_map comp_def)
  have "ids_ok ?b"
    using i(1) by (auto simp: ids_ok_def arb_ids_def all_leases_def q)
  moreover have "count_ok ?b"
    using i(5) queue_length_remove [OF i(1) assms(2)] by (simp add: count_ok_def)
  moreover have "kinds_ok ?b" "excl_ok ?b" "barrier_ok ?b" "opts_ok ?b"
    using i by (auto simp: kinds_ok_def excl_ok_def barrier_ok_def opts_ok_def all_leases_def)
  ultimately show "arb_inv (snd (acquire_timeout t a))" and "arb_inv (snd (barrier_timeout t a))"
    by (simp_all add: timeout_fields [OF i(1) assms(2)] arb_inv_def)
qed

section \<open>Releasing, expiring, touching\<close>

text \<open>
  Dropping active leases or barriers keeps the invariant, whichever are dropped: every
  clause is about all of the active entries, or about pairs of them.
\<close>

definition shrunk :: "arbiter \<Rightarrow> arbiter \<Rightarrow> bool" where
  "shrunk a a' \<longleftrightarrow>
     (\<exists>P Q R. active_sessions a' = filter P (active_sessions a)
        \<and> active_transports a' = filter Q (active_transports a)
        \<and> active_barriers a' = filter R (active_barriers a)
        \<and> (active_oneshot a' = active_oneshot a \<or> active_oneshot a' = None)
        \<and> queue a' = queue a \<and> opts a' = opts a \<and> wait_requests a' = wait_requests a
        \<and> acquires a' = acquires a \<and> wait_timeouts a' = wait_timeouts a)"

lemma shrunk_refl: "shrunk a a"
proof -
  have "filter (\<lambda>_. True) xs = xs" for xs :: "'x list" by simp
  then show ?thesis unfolding shrunk_def by metis
qed

lemma shrunk_leases: "shrunk a a' \<Longrightarrow> set (all_leases a') \<subseteq> set (all_leases a)"
  by (auto simp: shrunk_def all_leases_def split: option.splits)

lemma distinct_map_filter_append:
  "distinct (map f xs) \<Longrightarrow> distinct (map f (filter P xs))"
  by (rule distinct_map_filter)

lemma shrunk_ids_ok:
  assumes "ids_ok a" and "shrunk a a'"
  shows "ids_ok a'"
proof -
  from assms(2) obtain P Q R where
    s: "active_sessions a' = filter P (active_sessions a)"
      "active_transports a' = filter Q (active_transports a)"
      "active_barriers a' = filter R (active_barriers a)" "queue a' = queue a"
    and o: "active_oneshot a' = active_oneshot a \<or> active_oneshot a' = None"
    by (auto simp: shrunk_def)
  have sub: "set (map lid (all_leases a')) \<subseteq> set (map lid (all_leases a))"
    using shrunk_leases [OF assms(2)] by auto
  have bsub: "set (map bid (active_barriers a')) \<subseteq> set (map bid (active_barriers a))"
    using s(3) by auto
  have db: "distinct (map bid (active_barriers a'))"
    using ids_ok_parts(3) [OF assms(1)] s(3) by (simp add: distinct_map_filter)
  let ?one = "\<lambda>x. map lid (case active_oneshot x of None \<Rightarrow> [] | Some l \<Rightarrow> [l])"
  have one: "set (?one a') \<subseteq> set (?one a)" "distinct (?one a')"
    using o by (auto split: option.splits)
  have ss: "set (map lid (active_sessions a')) \<subseteq> set (map lid (active_sessions a))"
    "set (map lid (active_transports a')) \<subseteq> set (map lid (active_transports a))"
    using s by auto
  have dd: "distinct (map lid (active_sessions a'))" "distinct (map lid (active_transports a'))"
    using ids_ok_parts(1,2) [OF assms(1)] s by (simp_all add: distinct_map_filter)
  have dl: "distinct (map lid (all_leases a'))"
    using ids_ok_parts(4) [OF assms(1)] one ss dd
    unfolding all_leases_def map_append distinct_append set_append by blast
  show ?thesis
    using assms(1) sub bsub db dl
    unfolding ids_ok_def arb_ids_def distinct_append set_append s(4) by blast
qed

lemma shrunk_excl_ok:
  assumes "excl_ok a" and "shrunk a a'"
  shows "excl_ok a'"
proof -
  from assms(2) obtain P Q R where
    s: "active_sessions a' = filter P (active_sessions a)"
      "active_transports a' = filter Q (active_transports a)" "opts a' = opts a"
    and o: "active_oneshot a' = active_oneshot a \<or> active_oneshot a' = None"
    by (auto simp: shrunk_def)
  have "length (filter is_qmi (filter Q ls)) \<le> length (filter is_qmi ls)" for ls
    by (induction ls) auto
  then have le: "length (filter P (active_sessions a)) \<le> length (active_sessions a)"
    "length (filter is_qmi (filter Q (active_transports a)))
       \<le> length (filter is_qmi (active_transports a))"
    by simp_all
  have bounds: "int (length (filter P (active_sessions a))) \<le> max_sessions (opts a)"
    "int (length (filter is_qmi (filter Q (active_transports a)))) \<le> max_qmi_transports (opts a)"
    using assms(1) le unfolding excl_ok_def by linarith+
  have "distinct (map (\<lambda>l. t_channel (l_ticket l)) (filter is_qmi (filter Q (active_transports a))))"
  proof -
    have "filter is_qmi (filter Q (active_transports a)) = filter Q (filter is_qmi (active_transports a))"
      by (simp add: conj_commute)
    with assms(1) show ?thesis by (simp only: excl_ok_def) (blast intro: distinct_map_filter)
  qed
  with assms(1) s o bounds show ?thesis
    by (auto simp: excl_ok_def simp del: filter_filter)
qed

lemma shrunk_inv:
  assumes "arb_inv a" and "shrunk a a'"
  shows "arb_inv a'"
  using assms shrunk_ids_ok [of a a'] shrunk_excl_ok [of a a'] shrunk_leases [OF assms(2)]
  by (auto simp: arb_inv_def kinds_ok_def barrier_ok_def count_ok_def opts_ok_def shrunk_def)

lemma shrunk_signal: "shrunk a b \<Longrightarrow> shrunk a (signal_locked b)"
  by (simp add: shrunk_def)

lemma shrunk_forced: "shrunk a b \<Longrightarrow> shrunk a (b\<lparr>forced_releases := n\<rparr>)"
  by (simp add: shrunk_def)

lemma remove_first_is_filter:
  "distinct (map f xs) \<Longrightarrow> remove_first (\<lambda>x. f x = k) xs = Some (y, ys) \<Longrightarrow>
     ys = filter (\<lambda>x. f x \<noteq> k) xs"
  by (simp add: remove_first_filter split: option.splits)

lemma remove_active_shrunk:
  assumes "ids_ok a"
  shows "shrunk a (snd (remove_active i lt a))"
proof -
  have all: "filter (\<lambda>_. True) xs = xs" for xs :: "'x list" by simp
  have "shrunk a (a\<lparr>active_sessions := ls\<rparr>)"
    if "remove_first (\<lambda>l. lid l = i) (active_sessions a) = Some (l, ls)" for l ls
    unfolding shrunk_def
    using remove_first_is_filter [OF ids_ok_parts(1) [OF assms] that] all
    by (intro exI [of _ "\<lambda>x. lid x \<noteq> i"] exI [of _ "\<lambda>_. True"]) simp
  moreover have "shrunk a (a\<lparr>active_transports := ls\<rparr>)"
    if "remove_first (\<lambda>l. lid l = i) (active_transports a) = Some (l, ls)" for l ls
    unfolding shrunk_def
    using remove_first_is_filter [OF ids_ok_parts(2) [OF assms] that] all
    by (intro exI [of _ "\<lambda>_. True"] exI [of _ "\<lambda>x. lid x \<noteq> i"]) simp
  moreover have "shrunk a (a\<lparr>active_oneshot := None\<rparr>)"
    unfolding shrunk_def by (intro exI [of _ "\<lambda>_. True"]) simp
  ultimately show ?thesis
    by (auto simp: remove_active_def shrunk_refl split: lease_type.splits option.splits)
qed

lemma release_inv: "arb_inv a \<Longrightarrow> arb_inv (release i lt reason a)"
  using remove_active_shrunk [of a i lt] shrunk_inv [of a]
  by (cases "remove_active i lt a")
    (auto simp: release_def arb_inv_def [of a] intro!: shrunk_signal shrunk_forced
      split: option.splits)

lemma release_barrier_inv:
  assumes "arb_inv a"
  shows "arb_inv (release_barrier i a)"
proof (cases "remove_first (\<lambda>b. bid b = i) (active_barriers a)")
  case None
  with assms show ?thesis by (simp add: release_barrier_def)
next
  case (Some p)
  then obtain b bs where p: "remove_first (\<lambda>b. bid b = i) (active_barriers a) = Some (b, bs)"
    by (cases p) auto
  have "ids_ok a" using assms by (simp add: arb_inv_def)
  from remove_first_is_filter [OF ids_ok_parts(3) [OF this] p]
  have "shrunk a (a\<lparr>active_barriers := bs\<rparr>)"
    unfolding shrunk_def
    by (intro exI [of _ "\<lambda>_. True"] exI [of _ "\<lambda>x. bid x \<noteq> i"]) simp
  with assms p show ?thesis
    by (auto simp: release_barrier_def intro: shrunk_inv shrunk_signal)
qed

text \<open>Moving deadlines and timers changes no ticket.\<close>

lemma update_active_inv:
  assumes "arb_inv a" and "\<And>l. l_ticket (f l) = l_ticket l"
  shows "arb_inv (update_active i lt f a)"
proof -
  have m: "map lid (map (\<lambda>l. if lid l = i then f l else l) ls) = map lid ls" for ls
    using assms(2) by simp
  have fq: "filter is_qmi (map (\<lambda>l. if lid l = i then f l else l) ls) =
      map (\<lambda>l. if lid l = i then f l else l) (filter is_qmi ls)" for ls
    using assms(2) by (induction ls) (auto simp: is_qmi_def)
  have ch: "map (\<lambda>l. t_channel (l_ticket (if lid l = i then f l else l))) ls =
      map (\<lambda>l. t_channel (l_ticket l)) ls" for ls
    using assms(2) by simp
  have "map lid (all_leases (update_active i lt f a)) = map lid (all_leases a)"
    by (cases lt) (auto simp add: update_active_def Let_def all_leases_def assms(2)
        split: option.splits)
  then have "arb_ids (update_active i lt f a) = arb_ids a"
    by (cases lt) (simp_all add: arb_ids_def update_active_def Let_def)
  then have "ids_ok (update_active i lt f a)"
    using assms(1) by (simp add: arb_inv_def ids_ok_def)
  moreover have "kinds_ok (update_active i lt f a)" "barrier_ok (update_active i lt f a)"
    using assms(1)
    by (cases lt; auto simp: assms(2) update_active_def arb_inv_def kinds_ok_def barrier_ok_def
        all_leases_def split: option.splits)+
  moreover have "excl_ok (update_active i lt f a)"
    using assms(1)
    by (cases lt) (auto simp: assms(2) update_active_def arb_inv_def excl_ok_def fq comp_def ch
        is_qmi_def)
  moreover have "count_ok (update_active i lt f a)" "opts_ok (update_active i lt f a)"
    using assms(1)
    by (cases lt; simp add: update_active_def arb_inv_def count_ok_def opts_ok_def)+
  ultimately show ?thesis by (simp add: arb_inv_def)
qed

lemma touch_inv: "arb_inv a \<Longrightarrow> arb_inv (snd (touch now i lt a))"
  by (auto simp: touch_def Let_def intro: update_active_inv split: option.splits)

lemma release_expired_inv:
  assumes "arb_inv a"
  shows "arb_inv (release_expired now i lt a)"
proof -
  have "ids_ok a" using assms by (simp add: arb_inv_def)
  from remove_active_shrunk [OF this, of i lt]
  have rm: "arb_inv a'" "arb_inv (signal_locked (a'\<lparr>forced_releases := n\<rparr>))"
    if "remove_active i lt a = (r, a')" for r a' n
    using that assms by (auto intro: shrunk_inv shrunk_signal shrunk_forced)
  then show ?thesis
    using assms
    by (auto simp: release_expired_def intro: update_active_inv split: option.splits prod.splits)
qed

lemmas arb_op_invs =
  enqueue_inv acquire_poll_inv barrier_poll_inv timeout_inv touch_inv release_inv
  release_barrier_inv release_expired_inv

end
