(* ===== verification/Arbiter_Threads.thy ===== *)
theory Arbiter_Threads
  imports Arbiter_Preserve
begin

text \<open>
  The callers of the arbiter, interleaved. A caller builds its ticket (id and time stamp are
  taken before the mutex), enters the mutex to queue the ticket and look once, and then
  sleeps on the notification channel it captured under the mutex; a signal wakes it, its
  context may expire, and holders touch and release. One step is one critical section (or
  the clock advancing), so every interleaving the Go scheduler allows is a sequence of steps.
\<close>

section \<open>The system\<close>

text \<open>
  \<open>built\<close>: tickets made but not queued yet. \<open>waiters\<close>: for a sleeping caller, the epoch of
  the channel it sleeps on and when its last look failed.
\<close>

record sys =
  arb :: arbiter
  clock :: int
  built :: "wait_ticket list"
  waiters :: "u64 \<Rightarrow> (nat \<times> int) option"

definition can_grant :: "arbiter \<Rightarrow> int \<Rightarrow> wait_ticket \<Rightarrow> bool" where
  "can_grant a now t =
     (case t_kind t of KindLease \<Rightarrow> can_acquire_lease a now t
      | KindBarrier \<Rightarrow> can_acquire_barrier a t)"

definition poll :: "int \<Rightarrow> wait_ticket \<Rightarrow> arbiter \<Rightarrow> arbiter" where
  "poll now t a =
     (case t_kind t of KindLease \<Rightarrow> snd (acquire_poll now t a)
      | KindBarrier \<Rightarrow> snd (barrier_poll now t a))"

text \<open>
  One look at the state by the caller of \<open>t\<close>: it leaves with its lease or barrier, or it
  captures the current channel and sleeps.
\<close>

definition look :: "wait_ticket \<Rightarrow> sys \<Rightarrow> sys" where
  "look t s =
     s\<lparr>arb := poll (clock s) t (arb s),
       waiters := (waiters s)(tid t :=
         (if can_grant (arb s) (clock s) t then None
          else Some (notify_epoch (arb s), clock s)))\<rparr>"

definition give_up :: "wait_ticket \<Rightarrow> arbiter \<Rightarrow> arbiter" where
  "give_up t a =
     (case t_kind t of KindLease \<Rightarrow> snd (acquire_timeout t a)
      | KindBarrier \<Rightarrow> snd (barrier_timeout t a))"

definition sys_init :: "sys \<Rightarrow> bool" where
  "sys_init s \<longleftrightarrow>
     (\<exists>dev os. s = \<lparr>arb = new_arbiter dev os, clock = 0, built = [], waiters = (\<lambda>_. None)\<rparr>)"

text \<open>
  The ids are 64-bit words. The rules that allocate one are for runs of fewer than \<open>2^64\<close>
  requests: the counter has not reached its last value.
\<close>

inductive arb_step :: "sys \<Rightarrow> sys \<Rightarrow> bool" where
  tick: "0 \<le> d \<Longrightarrow> arb_step s (s\<lparr>clock := clock s + d\<rparr>)"
| call_lease:
    "seq (arb s) \<noteq> - 1 \<Longrightarrow> lt \<noteq> LeaseBarrier \<Longrightarrow> next_id (arb s) = (i, a) \<Longrightarrow>
     arb_step s (s\<lparr>arb := a, built := lease_ticket i req lt (clock s) # built s\<rparr>)"
| call_barrier:
    "seq (arb s) \<noteq> - 1 \<Longrightarrow> next_id (arb s) = (i, a) \<Longrightarrow>
     arb_step s (s\<lparr>arb := a, built := barrier_ticket i req policy (clock s) # built s\<rparr>)"
| enter:
    "t \<in> set (built s) \<Longrightarrow>
     arb_step s (look t (s\<lparr>arb := enqueue_ticket t (arb s), built := remove1 t (built s)\<rparr>))"
| wake:
    "t \<in> set (queue (arb s)) \<Longrightarrow> waiters s (tid t) = Some (e, c) \<Longrightarrow>
     e < notify_epoch (arb s) \<Longrightarrow> arb_step s (look t s)"
| expire_context:
    "t \<in> set (queue (arb s)) \<Longrightarrow> waiters s (tid t) = Some (e, c) \<Longrightarrow>
     arb_step s (s\<lparr>arb := give_up t (arb s), waiters := (waiters s)(tid t := None)\<rparr>)"
| touch_lease:
    "arb_step s (s\<lparr>arb := snd (touch (clock s) i lt (arb s))\<rparr>)"
| release_lease:
    "arb_step s (s\<lparr>arb := release i lt ''release'' (arb s)\<rparr>)"
| leave_barrier:
    "arb_step s (s\<lparr>arb := release_barrier i (arb s)\<rparr>)"
| watchdog:
    "find_active (arb s) i lt = Some l \<Longrightarrow> timer l = Some d \<Longrightarrow> d \<le> clock s \<Longrightarrow>
     arb_step s (s\<lparr>arb := release_expired (clock s) i lt (arb s)\<rparr>)"

abbreviation arb_reachable :: "sys \<Rightarrow> bool" where
  "arb_reachable \<equiv> reachable sys_init arb_step"

section \<open>Executable runs\<close>

text \<open>The same steps as a function of an action, for evaluating concrete runs.\<close>

datatype action =
  Tick int | CallLease request lease_type | CallBarrier request barrier_policy
  | Enter u64 | Wake u64 | GiveUp u64 | Touch u64 lease_type | Release u64 lease_type
  | LeaveBarrier u64 | Watchdog u64 lease_type

fun perform :: "action \<Rightarrow> sys \<Rightarrow> sys option" where
  "perform (Tick d) s = (if 0 \<le> d then Some (s\<lparr>clock := clock s + d\<rparr>) else None)"
| "perform (CallLease req lt) s =
     (if seq (arb s) \<noteq> - 1 \<and> lt \<noteq> LeaseBarrier then
        (case next_id (arb s) of (i, a) \<Rightarrow>
           Some (s\<lparr>arb := a, built := lease_ticket i req lt (clock s) # built s\<rparr>))
      else None)"
| "perform (CallBarrier req policy) s =
     (if seq (arb s) \<noteq> - 1 then
        (case next_id (arb s) of (i, a) \<Rightarrow>
           Some (s\<lparr>arb := a, built := barrier_ticket i req policy (clock s) # built s\<rparr>))
      else None)"
| "perform (Enter i) s =
     (case find (\<lambda>t. tid t = i) (built s) of None \<Rightarrow> None
      | Some t \<Rightarrow> Some (look t (s\<lparr>arb := enqueue_ticket t (arb s), built := remove1 t (built s)\<rparr>)))"
| "perform (Wake i) s =
     (case find (\<lambda>t. tid t = i) (queue (arb s)) of None \<Rightarrow> None
      | Some t \<Rightarrow> (case waiters s i of None \<Rightarrow> None
          | Some (e, c) \<Rightarrow> if e < notify_epoch (arb s) then Some (look t s) else None))"
| "perform (GiveUp i) s =
     (case find (\<lambda>t. tid t = i) (queue (arb s)) of None \<Rightarrow> None
      | Some t \<Rightarrow> (case waiters s i of None \<Rightarrow> None
          | Some _ \<Rightarrow> Some (s\<lparr>arb := give_up t (arb s), waiters := (waiters s)(i := None)\<rparr>)))"
| "perform (Touch i lt) s = Some (s\<lparr>arb := snd (touch (clock s) i lt (arb s))\<rparr>)"
| "perform (Release i lt) s = Some (s\<lparr>arb := release i lt ''release'' (arb s)\<rparr>)"
| "perform (LeaveBarrier i) s = Some (s\<lparr>arb := release_barrier i (arb s)\<rparr>)"
| "perform (Watchdog i lt) s =
     (case find_active (arb s) i lt of None \<Rightarrow> None
      | Some l \<Rightarrow> (case timer l of None \<Rightarrow> None
          | Some d \<Rightarrow> if d \<le> clock s then Some (s\<lparr>arb := release_expired (clock s) i lt (arb s)\<rparr>)
                     else None))"

fun perform_all :: "action list \<Rightarrow> sys \<Rightarrow> sys option" where
  "perform_all [] s = Some s"
| "perform_all (x # xs) s = (case perform x s of None \<Rightarrow> None | Some s' \<Rightarrow> perform_all xs s')"

definition start :: sys where
  "start = \<lparr>arb = new_arbiter ''dev'' \<lparr>max_lease_hold = 0, max_sessions = 0, max_qmi_transports = 2\<rparr>,
            clock = 0, built = [], waiters = (\<lambda>_. None)\<rparr>"

lemma perform_step: "perform x s = Some s' \<Longrightarrow> arb_step s s'"
proof (cases x)
  case (Enter i)
  assume "perform x s = Some s'"
  with Enter obtain t where "find (\<lambda>t. tid t = i) (built s) = Some t"
    and "s' = look t (s\<lparr>arb := enqueue_ticket t (arb s), built := remove1 t (built s)\<rparr>)"
    by (auto split: option.splits)
  then show ?thesis by (auto dest: find_in_set intro: arb_step.enter)
next
  case (Wake i)
  assume "perform x s = Some s'"
  with Wake obtain t e c where "find (\<lambda>t. tid t = i) (queue (arb s)) = Some t"
    "waiters s i = Some (e, c)" "e < notify_epoch (arb s)" "s' = look t s"
    by (auto split: option.splits if_splits)
  then show ?thesis by (auto dest: find_in_set intro: arb_step.wake)
next
  case (GiveUp i)
  assume "perform x s = Some s'"
  with GiveUp obtain t e c where "find (\<lambda>t. tid t = i) (queue (arb s)) = Some t"
    "waiters s i = Some (e, c)"
    "s' = s\<lparr>arb := give_up t (arb s), waiters := (waiters s)(i := None)\<rparr>"
    by (auto split: option.splits if_splits)
  then show ?thesis by (auto dest!: find_in_set intro: arb_step.expire_context)
qed (auto intro: arb_step.intros split: if_splits option.splits prod.splits)

lemma perform_all_reachable:
  "arb_reachable s \<Longrightarrow> perform_all xs s = Some s' \<Longrightarrow> arb_reachable s'"
proof (induction xs arbitrary: s)
  case Nil
  then show ?case by simp
next
  case (Cons x xs)
  then obtain s1 where p: "perform x s = Some s1" and r: "perform_all xs s1 = Some s'"
    by (auto split: option.splits)
  from Cons.prems(1) perform_step [OF p] have "arb_reachable s1" by (rule reachable.reachable_step)
  then show ?case using r by (rule Cons.IH)
qed

lemma start_reachable: "arb_reachable start"
  by (rule reachable_init) (auto simp: sys_init_def start_def)

text \<open>A run that ends in a state with a property, checked by evaluation, is a reachable one.\<close>

definition run_ends :: "action list \<Rightarrow> (sys \<Rightarrow> bool) \<Rightarrow> bool" where
  "run_ends xs P = (case perform_all xs start of None \<Rightarrow> False | Some s \<Rightarrow> P s)"

lemma run_endsE:
  assumes "run_ends xs P"
  obtains s where "arb_reachable s" and "P s"
  using assms perform_all_reachable [OF start_reachable]
  by (auto simp: run_ends_def split: option.splits)

text \<open>The definitions a concrete run evaluates through, by \<open>simp\<close> on closed states.\<close>

lemmas run_simps =
  run_ends_def start_def look_def poll_def give_up_def can_grant_def new_arbiter_def
  next_id_def lease_ticket_def barrier_ticket_def normalize_request_def normalize_mode_def
  normalize_owner_def normalize_class_def normalize_transport_scope_def barrier_blocked_def
  has_active_transport_def has_active_exclusive_transport_def active_qmi_transport_count_def
  has_active_transport_on_channel_def is_blocked_by_active_barrier_def
  has_pending_barrier_ahead_def queue_head_is_def selected_barrier_def
  can_acquire_transport_now_def transport_wait_gates_queue_def selected_transport_def
  can_acquire_lease_def can_acquire_barrier_def transport_priority_aging_def
  signal_locked_def remove_ticket_def add_active_def find_active_def remove_active_def
  enqueue_ticket_def activate_def handle_of_def acquire_poll_def barrier_poll_def
  acquire_timeout_def barrier_timeout_def is_active_def update_active_def touch_def release_def
  release_barrier_def release_expired_def Let_def

text \<open>Requests of a QMI client for concrete runs.\<close>

definition qmi_request :: "apdu_class \<Rightarrow> int \<Rightarrow> request" where
  "qmi_request c ch =
     \<lparr>req_owner = ''lpa'', req_mode = ''qmi'', req_class = c, req_channel = ch,
      req_scope = (if ch > 0 then ScopeQMIChannel else ScopeExclusive)\<rparr>"

lemma qmi_request_strings [simp]:
  "trim_space ''lpa'' = ''lpa''" "trim_space ''qmi'' = ''qmi''" "to_upper ''qmi'' = ''QMI''"
  "trim_space ''dev'' = ''dev''"
  by code_simp+

end
