(* ===== verification/Arbiter_System.thy ===== *)
theory Arbiter_System
  imports Arbiter_Threads
begin

text \<open>
  The invariant of the whole system of callers, its proof, and what follows from it for every
  reachable state: the arbiter's own invariant, and that a sleeping caller's last look is
  still valid as long as its channel has not been closed.
\<close>

section \<open>Ids under the operations\<close>

lemma subset_update: "set xs \<subseteq> A \<Longrightarrow> set xs \<subseteq> insert x A" by blast

lemma poll_ids:
  assumes "arb_inv a" and "t \<in> set (queue a)"
  shows "set (arb_ids (poll now t a)) \<subseteq> set (arb_ids a)" and "seq (poll now t a) = seq a"
proof -
  have i: "ids_ok a" using assms(1) by (simp add: arb_inv_def)
  have t: "tid t \<in> tid ` set (queue a)" using assms(2) by simp
  have "set (arb_ids (poll now t a)) \<subseteq> set (arb_ids a) \<and> seq (poll now t a) = seq a"
  proof (cases "t_kind t")
    case KindLease
    show ?thesis
    proof (cases "can_acquire_lease a now t")
      case True
      note f = granted_fields [OF i True refl]
      show ?thesis
        using t KindLease can_acquire_leaseD [OF True i assms(2)]
        by (cases "t_lease t") (auto simp: poll_def arb_ids_def all_leases_def f)
    next
      case False
      with KindLease show ?thesis by (simp add: poll_def acquire_poll_def)
    qed
  next
    case KindBarrier
    show ?thesis
    proof (cases "can_acquire_barrier a t")
      case True
      from barrier_granted_fields [OF i True refl] t KindBarrier show ?thesis
        by (auto simp: poll_def arb_ids_def all_leases_def)
    next
      case False
      with KindBarrier show ?thesis by (simp add: poll_def barrier_poll_def)
    qed
  qed
  then show "set (arb_ids (poll now t a)) \<subseteq> set (arb_ids a)" and "seq (poll now t a) = seq a"
    by auto
qed

lemma shrunk_arb_ids: "shrunk a a' \<Longrightarrow> set (arb_ids a') \<subseteq> set (arb_ids a)"
  using shrunk_leases [of a a'] by (auto simp: arb_ids_def shrunk_def)

lemma release_shrunk: "ids_ok a \<Longrightarrow> shrunk a (release i lt r a)"
  using remove_active_shrunk [of a i lt]
  by (auto simp: release_def intro!: shrunk_signal shrunk_forced split: prod.splits option.splits)

lemma release_barrier_shrunk:
  assumes "ids_ok a"
  shows "shrunk a (release_barrier i a)"
proof (cases "remove_first (\<lambda>b. bid b = i) (active_barriers a)")
  case None
  then show ?thesis by (simp add: release_barrier_def shrunk_refl)
next
  case (Some p)
  then obtain b bs where p: "remove_first (\<lambda>b. bid b = i) (active_barriers a) = Some (b, bs)"
    by (cases p) auto
  from remove_first_is_filter [OF ids_ok_parts(3) [OF assms] p]
  have "shrunk a (a\<lparr>active_barriers := bs\<rparr>)"
    unfolding shrunk_def
    by (intro exI [of _ "\<lambda>_. True"] exI [of _ "\<lambda>x. bid x \<noteq> i"]) simp
  with p show ?thesis by (auto simp: release_barrier_def intro: shrunk_signal)
qed

lemma remove_active_seq: "seq (snd (remove_active i lt a)) = seq a"
  by (auto simp: remove_active_def split: lease_type.splits option.splits)

lemma release_seq: "seq (release i lt r a) = seq a"
  using remove_active_seq [of i lt a]
  by (auto simp: release_def split: prod.splits option.splits)

lemma release_barrier_seq: "seq (release_barrier i a) = seq a"
  by (auto simp: release_barrier_def split: option.splits)

lemma update_active_seq: "seq (update_active i lt f a) = seq a"
  by (cases lt) (simp_all add: update_active_def Let_def)

lemma touch_seq: "seq (snd (touch now i lt a)) = seq a"
  by (auto simp: touch_def Let_def update_active_seq split: option.splits)

lemma release_expired_seq: "seq (release_expired now i lt a) = seq a"
  using remove_active_seq [of i lt a]
  by (auto simp: release_expired_def update_active_seq split: prod.splits option.splits)

section \<open>States that look the same\<close>

text \<open>
  Whether a ticket may be granted depends on the tickets of the active leases, not on their
  deadlines; \<open>same_view\<close> is agreement on all of it.
\<close>

definition same_view :: "arbiter \<Rightarrow> arbiter \<Rightarrow> bool" where
  "same_view a b \<longleftrightarrow>
     queue a = queue b \<and> opts a = opts b \<and> active_barriers a = active_barriers b
     \<and> map l_ticket (active_sessions a) = map l_ticket (active_sessions b)
     \<and> map_option l_ticket (active_oneshot a) = map_option l_ticket (active_oneshot b)
     \<and> map l_ticket (active_transports a) = map l_ticket (active_transports b)"

lemma same_view_refl [simp]: "same_view a a"
  by (simp add: same_view_def)

lemma same_view_transports:
  assumes "same_view a b"
  shows "has_active_transport a = has_active_transport b"
    and "has_active_exclusive_transport a = has_active_exclusive_transport b"
    and "active_qmi_transport_count a = active_qmi_transport_count b"
    and "has_active_transport_on_channel a ch = has_active_transport_on_channel b ch"
proof -
  have m: "map l_ticket (active_transports a) = map l_ticket (active_transports b)"
    using assms by (simp add: same_view_def)
  have ex: "list_ex (\<lambda>l. P (l_ticket l)) ls = list_ex P (map l_ticket ls)" for P ls
    by (induction ls) auto
  have cnt: "length (filter (\<lambda>l. P (l_ticket l)) ls) = length (filter P (map l_ticket ls))" for P ls
    by (induction ls) auto
  show "has_active_transport a = has_active_transport b"
    using map_eq_imp_length_eq [OF m] by (simp add: has_active_transport_def)
  show "has_active_exclusive_transport a = has_active_exclusive_transport b"
    by (simp only: has_active_exclusive_transport_def ex [of "\<lambda>t. t_scope t \<noteq> ScopeQMIChannel"] m)
  show "active_qmi_transport_count a = active_qmi_transport_count b"
    by (simp only: active_qmi_transport_count_def cnt [of "\<lambda>t. t_scope t = ScopeQMIChannel"] m)
  show "has_active_transport_on_channel a ch = has_active_transport_on_channel b ch"
    by (simp only: has_active_transport_on_channel_def
        ex [of "\<lambda>t. t_scope t = ScopeQMIChannel \<and> t_channel t = ch"] m)
qed

lemma same_view_grant:
  assumes "same_view a b"
  shows "can_grant a now t = can_grant b now t"
proof -
  note tr = same_view_transports [OF assms]
  have q: "queue a = queue b" "opts a = opts b" "active_barriers a = active_barriers b"
    using assms by (auto simp: same_view_def)
  have l: "length (active_sessions a) = length (active_sessions b)"
    using assms map_eq_imp_length_eq by (fastforce simp: same_view_def)
  have o: "active_oneshot a = None \<longleftrightarrow> active_oneshot b = None"
    using assms by (cases "active_oneshot a"; cases "active_oneshot b") (auto simp: same_view_def)
  have now: "can_acquire_transport_now a = can_acquire_transport_now b"
    by (rule ext) (simp add: can_acquire_transport_now_def tr q)
  have gates: "transport_wait_gates_queue a = transport_wait_gates_queue b"
    by (rule ext) (simp add: transport_wait_gates_queue_def tr q)
  have blk: "is_blocked_by_active_barrier a = is_blocked_by_active_barrier b"
    by (rule ext) (simp add: is_blocked_by_active_barrier_def q)
  have el: "eligible a = eligible b"
    by (rule ext) (simp add: eligible_def scan_stops_def [abs_def] admissible_def [abs_def] now gates blk)
  show ?thesis
    by (simp add: can_grant_def can_acquire_lease_def can_acquire_barrier_def l o tr q blk el
        has_pending_barrier_ahead_def queue_head_is_def selected_barrier_def
        selected_transport_choice split: wait_kind.splits lease_type.splits) auto
qed

lemma update_active_view:
  assumes "\<And>l. l_ticket (f l) = l_ticket l"
  shows "same_view (update_active i lt f a) a"
proof -
  have "map (l_ticket \<circ> (\<lambda>l. if lid l = i then f l else l)) ls = map l_ticket ls" for ls
    using assms by (induction ls) auto
  then show ?thesis
    using assms by (cases lt) (auto simp: same_view_def update_active_def Let_def
        split: option.splits simp: option.map_comp comp_def if_distrib cong: if_cong)
qed

section \<open>The invariant of the system\<close>

definition sys_ids :: "sys \<Rightarrow> u64 list" where
  "sys_ids s = map tid (built s) @ arb_ids (arb s)"

definition alloc_ok :: "sys \<Rightarrow> bool" where
  "alloc_ok s \<longleftrightarrow>
     distinct (map tid (built s)) \<and> set (map tid (built s)) \<inter> set (arb_ids (arb s)) = {}
     \<and> (\<forall>i \<in> set (sys_ids s). 0 < i \<and> i \<le> seq (arb s))
     \<and> (\<forall>t \<in> set (built s). t_kind t = KindBarrier \<longleftrightarrow> t_lease t = LeaseBarrier)"

text \<open>
  Every queued ticket has a sleeping caller; if its channel is still the current one, its
  last look, at a time not after now, would fail again at that time.
\<close>

definition waiters_ok :: "sys \<Rightarrow> bool" where
  "waiters_ok s \<longleftrightarrow>
     (\<forall>t \<in> set (queue (arb s)). \<exists>e c. waiters s (tid t) = Some (e, c)
        \<and> e \<le> notify_epoch (arb s) \<and> c \<le> clock s
        \<and> (e = notify_epoch (arb s) \<longrightarrow> \<not> can_grant (arb s) c t))"

definition sys_inv :: "sys \<Rightarrow> bool" where
  "sys_inv s \<longleftrightarrow> arb_inv (arb s) \<and> alloc_ok s \<and> waiters_ok s"

lemma new_arbiter_simps [simp]:
  "queue (new_arbiter dev os) = []" "active_sessions (new_arbiter dev os) = []"
  "active_oneshot (new_arbiter dev os) = None" "active_transports (new_arbiter dev os) = []"
  "active_barriers (new_arbiter dev os) = []"
  by (simp_all add: new_arbiter_def)

lemma sys_init_inv: "sys_init s \<Longrightarrow> sys_inv s"
  by (auto simp: sys_init_def sys_inv_def new_arbiter_inv alloc_ok_def sys_ids_def waiters_ok_def
      arb_ids_def all_leases_def)

lemma alloc_ok_shrink:
  assumes "alloc_ok s" and "set (arb_ids (arb s')) \<subseteq> set (arb_ids (arb s))"
    and "seq (arb s') = seq (arb s)" and "built s' = built s"
  shows "alloc_ok s'"
  using assms unfolding alloc_ok_def sys_ids_def set_append by auto

text \<open>An operation that signals leaves no sleeper on the current channel.\<close>

lemma waiters_ok_signalled:
  assumes "waiters_ok s" and "set (queue (arb s')) \<subseteq> set (queue (arb s))"
    and "waiters s' = waiters s" and "clock s \<le> clock s'"
    and "notify_epoch (arb s) < notify_epoch (arb s')"
  shows "waiters_ok s'"
  unfolding waiters_ok_def
proof
  fix t assume "t \<in> set (queue (arb s'))"
  with assms(1,2) obtain e c where "waiters s (tid t) = Some (e, c)"
    "e \<le> notify_epoch (arb s)" "c \<le> clock s" by (force simp: waiters_ok_def)
  with assms(3-5) show "\<exists>e c. waiters s' (tid t) = Some (e, c) \<and> e \<le> notify_epoch (arb s')
      \<and> c \<le> clock s' \<and> (e = notify_epoch (arb s') \<longrightarrow> \<not> can_grant (arb s') c t)"
    by (intro exI [of _ e] exI [of _ c]) auto
qed

lemma waiters_ok_view:
  assumes "waiters_ok s" and "same_view (arb s') (arb s)"
    and "notify_epoch (arb s') = notify_epoch (arb s)"
    and "waiters s' = waiters s" and "clock s \<le> clock s'"
  shows "waiters_ok s'"
proof -
  have "queue (arb s') = queue (arb s)" using assms(2) by (simp add: same_view_def)
  with assms show ?thesis
    by (fastforce simp: waiters_ok_def same_view_grant)
qed

lemma shrunk_waiters:
  assumes "waiters_ok s" and "shrunk (arb s) a"
    and "a = arb s \<or> notify_epoch (arb s) < notify_epoch a"
  shows "waiters_ok (s\<lparr>arb := a\<rparr>)"
proof (cases "a = arb s")
  case True
  with assms(1) show ?thesis by (simp add: waiters_ok_def)
next
  case False
  with assms show ?thesis
    by (intro waiters_ok_signalled [OF assms(1)]) (auto simp: shrunk_def)
qed

lemma remove_active_epoch:
  "notify_epoch (snd (remove_active i lt a)) = notify_epoch a"
  "remove_active i lt a = (None, a') \<Longrightarrow> a' = a"
  by (auto simp: remove_active_def split: lease_type.splits option.splits if_splits)

lemma release_epoch: "release i lt r a = a \<or> notify_epoch a < notify_epoch (release i lt r a)"
  using remove_active_epoch [of i lt a]
  by (cases "remove_active i lt a") (auto simp: release_def split: option.splits)

lemma release_barrier_epoch:
  "release_barrier i a = a \<or> notify_epoch a < notify_epoch (release_barrier i a)"
  by (auto simp: release_barrier_def split: option.splits)

lemma update_active_epoch: "notify_epoch (update_active i lt f a) = notify_epoch a"
  by (cases lt) (simp_all add: update_active_def Let_def)

lemma touch_view:
  "same_view (snd (touch now i lt a)) a" "notify_epoch (snd (touch now i lt a)) = notify_epoch a"
  by (auto simp: touch_def Let_def update_active_epoch intro: update_active_view split: option.splits)

lemma release_expired_view:
  "same_view (release_expired now i lt a) a \<and> notify_epoch (release_expired now i lt a) = notify_epoch a
   \<or> (\<exists>l a'. remove_active i lt a = (Some l, a')
        \<and> release_expired now i lt a = signal_locked (a'\<lparr>forced_releases := forced_releases a' + 1\<rparr>))"
  using remove_active_epoch [of i lt a]
  by (cases "remove_active i lt a")
    (auto simp: release_expired_def update_active_epoch intro!: update_active_view
      split: option.splits)

lemma view_arb_ids:
  assumes "same_view a b"
  shows "arb_ids a = arb_ids b"
proof -
  have m: "map lid ls = map tid (map l_ticket ls)" for ls by simp
  have "map lid (case active_oneshot a of None \<Rightarrow> [] | Some l \<Rightarrow> [l]) =
        map lid (case active_oneshot b of None \<Rightarrow> [] | Some l \<Rightarrow> [l])"
    using assms by (cases "active_oneshot a"; cases "active_oneshot b") (auto simp: same_view_def)
  moreover have "map lid (active_sessions a) = map lid (active_sessions b)"
    "map lid (active_transports a) = map lid (active_transports b)"
    using assms by (simp_all only: m same_view_def)
  ultimately show ?thesis
    using assms by (simp add: arb_ids_def all_leases_def same_view_def)
qed

section \<open>Every step keeps it\<close>

lemma poll_inv: "arb_inv a \<Longrightarrow> t \<in> set (queue a) \<Longrightarrow> arb_inv (poll now t a)"
  by (cases "t_kind t") (simp_all add: poll_def acquire_poll_inv barrier_poll_inv)

lemma poll_refused: "\<not> can_grant a now t \<Longrightarrow> poll now t a = a"
  by (cases "t_kind t") (simp_all add: can_grant_def poll_def acquire_poll_def barrier_poll_def)

lemma poll_granted:
  assumes "ids_ok a" and "can_grant a now t"
  shows "queue (poll now t a) = filter (\<lambda>q. tid q \<noteq> tid t) (queue a)"
    and "notify_epoch (poll now t a) = notify_epoch a + 1"
proof -
  show "queue (poll now t a) = filter (\<lambda>q. tid q \<noteq> tid t) (queue a)"
    using assms barrier_granted_fields [OF assms(1) _ refl, of t now]
    by (cases "t_kind t") (simp_all add: can_grant_def poll_def granted_fields [OF assms(1) _ refl])
  show "notify_epoch (poll now t a) = notify_epoch a + 1"
    using assms barrier_granted_fields [OF assms(1) _ refl, of t now]
    by (cases "t_kind t") (simp_all add: can_grant_def poll_def granted_fields [OF assms(1) _ refl])
qed

text \<open>
  A look keeps the waiters' invariant when the other sleepers had it: if it succeeds they are
  all signalled; if it fails nothing changed and the looker's own entry is accurate.
\<close>

definition others_ok :: "sys \<Rightarrow> wait_ticket \<Rightarrow> bool" where
  "others_ok s t \<longleftrightarrow>
     (\<forall>q \<in> set (queue (arb s)). tid q \<noteq> tid t \<longrightarrow>
        (\<exists>e c. waiters s (tid q) = Some (e, c) \<and> e \<le> notify_epoch (arb s) \<and> c \<le> clock s
           \<and> (e = notify_epoch (arb s) \<longrightarrow> \<not> can_grant (arb s) c q)))"

lemma look_waiters:
  assumes "ids_ok (arb s)" and t: "t \<in> set (queue (arb s))" and o: "others_ok s t"
  shows "waiters_ok (look t s)"
  unfolding waiters_ok_def
proof
  fix q assume q: "q \<in> set (queue (arb (look t s)))"
  have same: "q = t" if "tid q = tid t" "q \<in> set (queue (arb s))"
    using that t ids_ok_queue [OF assms(1)] by (auto simp: distinct_map inj_on_def)
  show "\<exists>e c. waiters (look t s) (tid q) = Some (e, c) \<and> e \<le> notify_epoch (arb (look t s))
      \<and> c \<le> clock (look t s)
      \<and> (e = notify_epoch (arb (look t s)) \<longrightarrow> \<not> can_grant (arb (look t s)) c q)"
  proof (cases "can_grant (arb s) (clock s) t")
    case True
    note g = poll_granted [OF assms(1) True]
    from q g(1) have "q \<in> set (queue (arb s))" "tid q \<noteq> tid t" by (auto simp: look_def)
    with o obtain e c where "waiters s (tid q) = Some (e, c)" "e \<le> notify_epoch (arb s)"
      "c \<le> clock s" by (auto simp: others_ok_def)
    with \<open>tid q \<noteq> tid t\<close> g(2) show ?thesis by (auto simp: look_def)
  next
    case False
    note r = poll_refused [OF False]
    show ?thesis
    proof (cases "tid q = tid t")
      case True
      with q r same have "q = t" by (simp add: look_def)
      with False r show ?thesis by (simp add: look_def)
    next
      case neq: False
      with q r o False show ?thesis by (auto simp: look_def others_ok_def)
    qed
  qed
qed

lemma look_inv:
  assumes "arb_inv (arb s)" and "alloc_ok s" and "t \<in> set (queue (arb s))" and "others_ok s t"
  shows "sys_inv (look t s)"
proof -
  have "alloc_ok (look t s)"
    using poll_ids [OF assms(1,3), of "clock s"]
    by (intro alloc_ok_shrink [OF assms(2)]) (auto simp: look_def)
  moreover have "arb_inv (arb (look t s))"
    using poll_inv [OF assms(1,3)] by (simp add: look_def)
  moreover have "waiters_ok (look t s)"
    using assms(1) look_waiters [OF _ assms(3,4)] by (simp add: arb_inv_def)
  ultimately show ?thesis by (simp add: sys_inv_def)
qed

lemma waiters_others: "waiters_ok s \<Longrightarrow> others_ok s t"
  by (auto simp: waiters_ok_def others_ok_def)

lemma enter_inv:
  assumes "sys_inv s" and t: "t \<in> set (built s)"
  shows "sys_inv (look t (s\<lparr>arb := enqueue_ticket t (arb s), built := remove1 t (built s)\<rparr>))"
proof -
  let ?s = "s\<lparr>arb := enqueue_ticket t (arb s), built := remove1 t (built s)\<rparr>"
  have inv: "arb_inv (arb s)" "alloc_ok s" "waiters_ok s" using assms(1) by (auto simp: sys_inv_def)
  have d: "distinct (map tid (built s))" using inv(2) by (simp add: alloc_ok_def)
  have new: "tid t \<notin> set (arb_ids (arb s))" using inv(2) t by (auto simp: alloc_ok_def)
  have pos: "tid t \<noteq> 0" using inv(2) t by (force simp: alloc_ok_def sys_ids_def)
  have kind: "t_kind t = KindBarrier \<longleftrightarrow> t_lease t = LeaseBarrier"
    using inv(2) t by (auto simp: alloc_ok_def)
  have rem: "set (map tid (remove1 t (built s))) = set (map tid (built s)) - {tid t}"
    "distinct (map tid (remove1 t (built s)))"
    using d t by (auto simp: distinct_map inj_on_def set_remove1_eq distinct_remove1)
  have ids: "set (arb_ids (enqueue_ticket t (arb s))) = insert (tid t) (set (arb_ids (arb s)))"
    by (auto simp: arb_ids_def all_leases_def enqueue_ticket_def split: option.splits)
  have sq: "seq (enqueue_ticket t (arb s)) = seq (arb s)" by (simp add: enqueue_ticket_def)
  have "arb_inv (arb ?s)" using enqueue_inv [OF inv(1) new pos kind] by simp
  moreover have "alloc_ok ?s"
    using inv(2) rem ids sq t set_remove1_subset [of t "built s"]
    unfolding alloc_ok_def sys_ids_def set_append by (auto simp del: set_map) (auto)
  moreover have "t \<in> set (queue (arb ?s))" by (simp add: enqueue_ticket_def)
  moreover have "others_ok ?s t"
    unfolding others_ok_def
  proof (intro ballI impI)
    fix q assume q: "q \<in> set (queue (arb ?s))" "tid q \<noteq> tid t"
    then have "q \<in> set (queue (arb s))" by (auto simp: enqueue_ticket_def)
    with inv(3) obtain e c where "waiters s (tid q) = Some (e, c)" "e \<le> notify_epoch (arb s)"
      "c \<le> clock s" by (auto simp: waiters_ok_def)
    then show "\<exists>e c. waiters ?s (tid q) = Some (e, c) \<and> e \<le> notify_epoch (arb ?s) \<and> c \<le> clock ?s
        \<and> (e = notify_epoch (arb ?s) \<longrightarrow> \<not> can_grant (arb ?s) c q)"
      by (auto simp: enqueue_ticket_def)
  qed
  ultimately show ?thesis by (rule look_inv)
qed

end
