(* ===== verification/Arbiter_Reach.thy ===== *)
theory Arbiter_Reach
  imports Arbiter_System
begin

text \<open>
  Every step of the system keeps its invariant, the interpretation of the \<open>safety\<close> locale
  for it, and the abstract card: what the arbiter promises its clients, with the proof that
  the system implements it.
\<close>

section \<open>Allocation\<close>

lemma next_id_fields:
  assumes "next_id a = (i, a')"
  shows "i = seq a + 1" and "seq a' = seq a + 1" and "arb_ids a' = arb_ids a"
    and "arb_inv a \<Longrightarrow> arb_inv a'" and "same_view a' a" and "notify_epoch a' = notify_epoch a"
proof -
  have a': "i = seq a + 1" "a' = a\<lparr>seq := seq a + 1\<rparr>"
    using assms by (auto simp: next_id_def Let_def)
  show "i = seq a + 1" and "seq a' = seq a + 1" and "same_view a' a"
    and "notify_epoch a' = notify_epoch a" using a' by (simp_all add: same_view_def)
  have l: "all_leases a' = all_leases a" using a' by (simp add: all_leases_def)
  then show ids: "arb_ids a' = arb_ids a" using a' by (simp add: arb_ids_def)
  show "arb_inv a \<Longrightarrow> arb_inv a'"
    using a' by (simp add: arb_inv_def ids_ok_def ids [unfolded a'(2)] l [unfolded a'(2)] kinds_ok_def excl_ok_def barrier_ok_def
        count_ok_def opts_ok_def)
qed

lemma call_inv:
  assumes "sys_inv s" and "seq (arb s) \<noteq> - 1" and nx: "next_id (arb s) = (i, a)"
    and "tid t = i" and "t_kind t = KindBarrier \<longleftrightarrow> t_lease t = LeaseBarrier"
  shows "sys_inv (s\<lparr>arb := a, built := t # built s\<rparr>)"
proof -
  have inv: "arb_inv (arb s)" "alloc_ok s" "waiters_ok s" using assms(1) by (auto simp: sys_inv_def)
  note f = next_id_fields [OF nx]
  note w = next_word [OF assms(2)]
  have old: "\<forall>j \<in> set (sys_ids s). 0 < j \<and> j \<le> seq (arb s)" using inv(2) by (simp add: alloc_ok_def)
  have fresh: "i \<notin> set (sys_ids s)" using old w(1) f(1) by (auto simp: not_le)
  have "alloc_ok (s\<lparr>arb := a, built := t # built s\<rparr>)"
    using inv(2) fresh old w f assms(4,5)
    unfolding alloc_ok_def sys_ids_def
    by (auto simp: order.strict_implies_order)
  moreover have "waiters_ok (s\<lparr>arb := a, built := t # built s\<rparr>)"
    using f(5,6) by (intro waiters_ok_view [OF inv(3)]) auto
  ultimately show ?thesis using f(4) inv(1) by (simp add: sys_inv_def)
qed

lemma give_up_inv:
  assumes "sys_inv s" and t: "t \<in> set (queue (arb s))"
  shows "sys_inv (s\<lparr>arb := give_up t (arb s), waiters := (waiters s)(tid t := None)\<rparr>)"
proof -
  have inv: "arb_inv (arb s)" "alloc_ok s" "waiters_ok s" using assms(1) by (auto simp: sys_inv_def)
  have i: "ids_ok (arb s)" using inv(1) by (simp add: arb_inv_def)
  let ?a = "signal_locked ((arb s)\<lparr>queue := filter (\<lambda>q. tid q \<noteq> tid t) (queue (arb s)),
        wait_timeouts := wait_timeouts (arb s) + 1\<rparr>)"
  have g: "give_up t (arb s) = ?a"
    using timeout_fields [OF i t] by (cases "t_kind t") (simp_all add: give_up_def)
  have "arb_inv (give_up t (arb s))"
    using timeout_inv [OF inv(1) t] by (cases "t_kind t") (simp_all add: give_up_def)
  moreover have "alloc_ok (s\<lparr>arb := ?a, waiters := (waiters s)(tid t := None)\<rparr>)"
    by (intro alloc_ok_shrink [OF inv(2)]) (auto simp: arb_ids_def all_leases_def)
  moreover have "waiters_ok (s\<lparr>arb := ?a, waiters := (waiters s)(tid t := None)\<rparr>)"
    using inv(3) by (fastforce simp: waiters_ok_def)
  ultimately show ?thesis by (simp add: sys_inv_def g)
qed

lemma shrunk_step_inv:
  assumes "sys_inv s" and "arb_inv a" and "shrunk (arb s) a" and "seq a = seq (arb s)"
    and "a = arb s \<or> notify_epoch (arb s) < notify_epoch a"
  shows "sys_inv (s\<lparr>arb := a\<rparr>)"
  using assms shrunk_waiters [OF _ assms(3,5)] shrunk_arb_ids [OF assms(3)]
    alloc_ok_shrink [of s "s\<lparr>arb := a\<rparr>"]
  by (simp add: sys_inv_def)

lemma view_step_inv:
  assumes "sys_inv s" and "arb_inv a" and "same_view a (arb s)" and "seq a = seq (arb s)"
    and "notify_epoch a = notify_epoch (arb s)"
  shows "sys_inv (s\<lparr>arb := a\<rparr>)"
proof -
  have inv: "arb_inv (arb s)" "alloc_ok s" "waiters_ok s" using assms(1) by (auto simp: sys_inv_def)
  have "waiters_ok (s\<lparr>arb := a\<rparr>)"
    using assms(3,5) by (intro waiters_ok_view [OF inv(3)]) simp_all
  moreover have "alloc_ok (s\<lparr>arb := a\<rparr>)"
    using view_arb_ids [OF assms(3)] assms(4) by (intro alloc_ok_shrink [OF inv(2)]) simp_all
  ultimately show ?thesis using assms(2) by (simp add: sys_inv_def)
qed

lemma watchdog_inv:
  assumes "sys_inv s"
  shows "sys_inv (s\<lparr>arb := release_expired now i lt (arb s)\<rparr>)"
proof -
  have inv: "arb_inv (arb s)" using assms by (simp add: sys_inv_def)
  then have ids: "ids_ok (arb s)" by (simp add: arb_inv_def)
  note e = release_expired_inv [OF inv, of now i lt]
  show ?thesis
  proof (cases "same_view (release_expired now i lt (arb s)) (arb s)
      \<and> notify_epoch (release_expired now i lt (arb s)) = notify_epoch (arb s)")
    case True
    then show ?thesis by (intro view_step_inv [OF assms e]) (simp_all add: release_expired_seq)
  next
    case False
    with release_expired_view [of now i lt "arb s"] obtain l a' where
      rm: "remove_active i lt (arb s) = (Some l, a')"
      and r: "release_expired now i lt (arb s)
        = signal_locked (a'\<lparr>forced_releases := forced_releases a' + 1\<rparr>)" by blast
    have "shrunk (arb s) a'" using remove_active_shrunk [OF ids, of i lt] rm by simp
    then have "shrunk (arb s) (release_expired now i lt (arb s))"
      unfolding r by (intro shrunk_signal shrunk_forced)
    moreover have "notify_epoch (arb s) < notify_epoch (release_expired now i lt (arb s))"
      using remove_active_epoch(1) [of i lt "arb s"] rm by (simp add: r)
    ultimately show ?thesis
      by (intro shrunk_step_inv [OF assms e]) (simp_all add: release_expired_seq)
  qed
qed

lemma arb_step_inv:
  assumes "sys_inv s" and "arb_step s s'"
  shows "sys_inv s'"
  using assms(2,1)
proof (cases rule: arb_step.cases)
  case (tick d)
  from assms(1) tick show ?thesis
    using waiters_ok_view [of s "s\<lparr>clock := clock s + d\<rparr>"]
    by (simp add: sys_inv_def alloc_ok_def sys_ids_def)
next
  case (call_lease lt i a req)
  have "tid (lease_ticket i req lt (clock s)) = i"
    "t_kind (lease_ticket i req lt (clock s)) = KindLease"
    "t_lease (lease_ticket i req lt (clock s)) = lt"
    by (simp_all add: lease_ticket_def Let_def)
  with call_lease show ?thesis by (simp add: call_inv [OF assms(1)])
next
  case (call_barrier i a req policy)
  have "tid (barrier_ticket i req policy (clock s)) = i"
    "t_kind (barrier_ticket i req policy (clock s)) = KindBarrier"
    "t_lease (barrier_ticket i req policy (clock s)) = LeaseBarrier"
    by (simp_all add: barrier_ticket_def)
  with call_barrier show ?thesis by (simp add: call_inv [OF assms(1)])
next
  case (enter t)
  then show ?thesis using enter_inv [OF assms(1)] by simp
next
  case (wake t e c)
  then have "arb_inv (arb s)" "alloc_ok s" "waiters_ok s" "t \<in> set (queue (arb s))"
    using assms(1) by (auto simp: sys_inv_def)
  then have "sys_inv (look t s)" by (blast intro: look_inv waiters_others)
  with wake show ?thesis by simp
next
  case (expire_context t e c)
  then show ?thesis using give_up_inv [OF assms(1)] by simp
next
  case (touch_lease i lt)
  then show ?thesis
    using view_step_inv [OF assms(1) touch_inv [of "arb s" "clock s" i lt]] assms(1)
    by (simp add: touch_view touch_seq sys_inv_def)
next
  case (release_lease i lt)
  have "arb_inv (arb s)" using assms(1) by (simp add: sys_inv_def)
  then have "ids_ok (arb s)" by (simp add: arb_inv_def)
  from shrunk_step_inv [OF assms(1) release_inv [OF \<open>arb_inv (arb s)\<close>] release_shrunk [OF this]]
  show ?thesis using release_lease by (simp add: release_seq release_epoch)
next
  case (leave_barrier i)
  have "arb_inv (arb s)" using assms(1) by (simp add: sys_inv_def)
  then have "ids_ok (arb s)" by (simp add: arb_inv_def)
  from shrunk_step_inv [OF assms(1) release_barrier_inv [OF \<open>arb_inv (arb s)\<close>]
      release_barrier_shrunk [OF this]]
  show ?thesis using leave_barrier by (simp add: release_barrier_seq release_barrier_epoch)
next
  case (watchdog i lt l d)
  then show ?thesis using watchdog_inv [OF assms(1)] by simp
qed

interpretation arb_safety: safety sys_init arb_step sys_inv
  by unfold_locales (auto intro: sys_init_inv arb_step_inv)

lemma reachable_inv:
  assumes "arb_reachable s"
  shows "arb_inv (arb s)" and "alloc_ok s" and "waiters_ok s"
  using arb_safety.always_good [OF assms] by (auto simp: sys_inv_def)

end
