(* ===== verification/Arbiter_Card.thy ===== *)
theory Arbiter_Card
  imports Arbiter_Reach
begin

text \<open>
  The contract of the arbiter, as an abstract machine: a card with a set of holders and a set
  of fences. A holder may be added when it is compatible with every present holder and no
  fence names its class; a fence may be added when nobody holds the card; anything may be
  let go. The queue, the priorities, the clock and the signalling of the implementation are
  gone. The system of callers implements it.
\<close>

datatype hold = HoldSession | HoldOneShot | HoldExclusive | HoldChannel int

fun compatible :: "hold \<Rightarrow> hold \<Rightarrow> bool" where
  "compatible HoldSession HoldSession = True"
| "compatible (HoldChannel c) (HoldChannel d) = (c \<noteq> d)"
| "compatible _ _ = False"

lemma compatible_sym: "compatible h k \<Longrightarrow> compatible k h"
  by (cases h; cases k) auto

record card =
  holders :: "(u64 \<times> hold \<times> apdu_class) set"
  fences :: "(u64 \<times> apdu_class set) set"

definition card_init :: "card \<Rightarrow> bool" where
  "card_init c \<longleftrightarrow> holders c = {} \<and> fences c = {}"

inductive card_step :: "card \<Rightarrow> card \<Rightarrow> bool" where
  take_hold:
    "\<forall>(j, h', k') \<in> holders c. j \<noteq> i \<and> compatible h h' \<Longrightarrow> \<forall>(j, B) \<in> fences c. k \<notin> B \<Longrightarrow>
     card_step c (c\<lparr>holders := insert (i, h, k) (holders c)\<rparr>)"
| put_fence:
    "holders c = {} \<Longrightarrow> card_step c (c\<lparr>fences := insert (i, B) (fences c)\<rparr>)"
| let_go:
    "H \<subseteq> holders c \<Longrightarrow> F \<subseteq> fences c \<Longrightarrow> card_step c \<lparr>holders = H, fences = F\<rparr>"

inductive_cases card_stepE: "card_step c c'"

definition card_safe :: "card \<Rightarrow> bool" where
  "card_safe c \<longleftrightarrow>
     (\<forall>(i, h, k) \<in> holders c. \<forall>(j, h', k') \<in> holders c. i \<noteq> j \<longrightarrow> compatible h h')
     \<and> (\<forall>(i, h, k) \<in> holders c. \<forall>(j, B) \<in> fences c. k \<notin> B)"

interpretation card_safety: safety card_init card_step card_safe
proof unfold_locales
  fix c :: card assume "card_init c"
  then show "card_safe c" by (simp add: card_init_def card_safe_def)
next
  fix c c' assume safe: "card_safe c" and "card_step c c'"
  from this(2) show "card_safe c'"
  proof cases
    case (take_hold i h k)
    have sym: "compatible h h'" "compatible h' h" if "(j, h', k') \<in> holders c" for j h' k'
      using take_hold(2) that by (auto intro: compatible_sym)
    show ?thesis
      using safe take_hold(3) sym unfolding take_hold(1) card_safe_def
      by (auto split: prod.splits) metis
  next
    case (put_fence i B)
    with safe show ?thesis by (auto simp: card_safe_def)
  next
    case (let_go H F)
    with safe show ?thesis by (simp add: card_safe_def) blast
  qed
qed

section \<open>The card of an arbiter\<close>

definition hold_of :: "wait_ticket \<Rightarrow> hold" where
  "hold_of t =
     (case t_lease t of
        LeaseSession \<Rightarrow> HoldSession
      | LeaseOneShot \<Rightarrow> HoldOneShot
      | _ \<Rightarrow> if t_scope t = ScopeQMIChannel then HoldChannel (t_channel t) else HoldExclusive)"

definition holding :: "active_lease \<Rightarrow> u64 \<times> hold \<times> apdu_class" where
  "holding l = (lid l, hold_of (l_ticket l), t_class (l_ticket l))"

definition card_of :: "arbiter \<Rightarrow> card" where
  "card_of a =
     \<lparr>holders = holding ` set (all_leases a),
      fences = (\<lambda>b. (bid b, t_blocked (b_ticket b))) ` set (active_barriers a)\<rparr>"

lemma card_of_shrunk: "shrunk a a' \<Longrightarrow> card_step (card_of a) (card_of a')"
  using shrunk_leases [of a a']
  by (auto simp: card_of_def shrunk_def intro!: let_go)

lemma card_of_view:
  assumes "same_view a b"
  shows "card_of a = card_of b"
proof -
  have m: "holding ` set ls = (\<lambda>t. (tid t, hold_of t, t_class t)) ` set (map l_ticket ls)" for ls
    by (auto simp: holding_def image_image)
  have s: "map l_ticket (active_sessions a) = map l_ticket (active_sessions b)"
    "map l_ticket (active_transports a) = map l_ticket (active_transports b)"
    "map_option l_ticket (active_oneshot a) = map_option l_ticket (active_oneshot b)"
    "active_barriers a = active_barriers b"
    using assms by (simp_all add: same_view_def)
  have o: "map l_ticket (case active_oneshot a of None \<Rightarrow> [] | Some l \<Rightarrow> [l]) =
        map l_ticket (case active_oneshot b of None \<Rightarrow> [] | Some l \<Rightarrow> [l])"
    using s(3) by (cases "active_oneshot a"; cases "active_oneshot b") auto
  have "map l_ticket (all_leases a) = map l_ticket (all_leases b)"
    unfolding all_leases_def map_append o s ..
  then show ?thesis unfolding card_of_def m s(4) by simp
qed

lemma card_of_same:
  "all_leases a = all_leases b \<Longrightarrow> active_barriers a = active_barriers b \<Longrightarrow> card_of a = card_of b"
  by (simp add: card_of_def)

text \<open>A granted lease is compatible with every holder of the card.\<close>

lemma grant_compatible:
  assumes "arb_inv a" and can: "can_acquire_lease a now t" and q: "t \<in> set (queue a)"
    and l: "l \<in> set (all_leases a)"
  shows "lid l \<noteq> tid t \<and> compatible (hold_of t) (hold_of (l_ticket l))"
proof -
  have i: "ids_ok a" "kinds_ok a" using assms(1) by (auto simp: arb_inv_def)
  note g = can_acquire_leaseD [OF can i(1) q]
  have "lid l \<noteq> tid t" using i(1) l q by (auto simp: ids_ok_def arb_ids_def)
  moreover have "compatible (hold_of t) (hold_of (l_ticket l))"
  proof (cases "t_lease t")
    case LeaseSession
    with g(1) l have "l \<in> set (active_sessions a)" by (auto simp: all_leases_def)
    with i(2) LeaseSession show ?thesis by (auto simp: kinds_ok_def hold_of_def)
  next
    case LeaseOneShot
    with g(2) l show ?thesis by (simp add: all_leases_def)
  next
    case LeaseBarrier
    with g(5) show ?thesis by simp
  next
    case LeaseTransport
    with g(3) l have now: "can_acquire_transport_now a t" and tr: "l \<in> set (active_transports a)"
      by (auto simp: all_leases_def)
    have sc: "t_scope t = ScopeQMIChannel"
      using transport_now_exclusive [OF now] tr by fastforce
    from transport_now_channel [OF now sc] tr
    have "is_qmi l" "t_channel (l_ticket l) \<noteq> t_channel t" by auto
    with i(2) tr sc LeaseTransport show ?thesis by (auto simp: kinds_ok_def hold_of_def is_qmi_def)
  qed
  ultimately show ?thesis ..
qed

lemma poll_card:
  assumes inv: "arb_inv a" and q: "t \<in> set (queue a)"
  shows "card_of (poll now t a) = card_of a \<or> card_step (card_of a) (card_of (poll now t a))"
proof (cases "can_grant a now t")
  case False
  then show ?thesis by (simp add: poll_refused)
next
  case True
  have i: "ids_ok a" using inv by (simp add: arb_inv_def)
  show ?thesis
  proof (cases "t_kind t")
    case KindLease
    with True have can: "can_acquire_lease a now t" by (simp add: can_grant_def)
    note f = granted_fields [OF i can refl]
    note g = can_acquire_leaseD [OF can i q]
    have "set (all_leases (snd (acquire_poll now t a))) =
        insert (activate now t a) (set (all_leases a))"
      using g by (cases "t_lease t") (auto simp: all_leases_def f)
    then have "card_of (poll now t a) =
        (card_of a)\<lparr>holders := insert (tid t, hold_of t, t_class t) (holders (card_of a))\<rparr>"
      using KindLease by (simp add: card_of_def poll_def f holding_def)
    moreover have "card_step (card_of a)
        ((card_of a)\<lparr>holders := insert (tid t, hold_of t, t_class t) (holders (card_of a))\<rparr>)"
      using grant_compatible [OF inv can q] g(4)
      by (intro take_hold) (auto simp: card_of_def holding_def is_blocked_by_active_barrier_def
          list_ex_iff)
    ultimately show ?thesis by simp
  next
    case KindBarrier
    with True have can: "can_acquire_barrier a t" by (simp add: can_grant_def)
    have none: "all_leases a = []" using can_acquire_barrierD [OF can] by simp
    have al: "active_sessions a = []" "active_oneshot a = None" "active_transports a = []"
      using none by (auto simp: all_leases_def split: option.splits)
    have "card_of (poll now t a) =
        (card_of a)\<lparr>fences := insert (tid t, t_blocked t) (fences (card_of a))\<rparr>"
      using KindBarrier barrier_granted_fields [OF i can refl, of now]
      by (simp add: card_of_def poll_def all_leases_def al)
    moreover have "holders (card_of a) = {}" by (simp add: card_of_def none)
    ultimately show ?thesis by (simp add: put_fence)
  qed
qed

lemma enqueue_card: "card_of (enqueue_ticket t a) = card_of a"
  by (rule card_of_same) (simp_all add: enqueue_ticket_def all_leases_def)

lemma give_up_card:
  "ids_ok a \<Longrightarrow> t \<in> set (queue a) \<Longrightarrow> card_of (give_up t a) = card_of a"
  using timeout_fields [of a t]
  by (cases "t_kind t") (auto simp: give_up_def card_of_def all_leases_def)

lemma release_expired_card:
  assumes "ids_ok a"
  shows "card_of (release_expired now i lt a) = card_of a
    \<or> card_step (card_of a) (card_of (release_expired now i lt a))"
  using release_expired_view [of now i lt a]
proof
  assume "same_view (release_expired now i lt a) a
    \<and> notify_epoch (release_expired now i lt a) = notify_epoch a"
  then show ?thesis by (simp add: card_of_view)
next
  assume "\<exists>l a'. remove_active i lt a = (Some l, a')
        \<and> release_expired now i lt a = signal_locked (a'\<lparr>forced_releases := forced_releases a' + 1\<rparr>)"
  then obtain l a' where rm: "remove_active i lt a = (Some l, a')"
    and r: "release_expired now i lt a = signal_locked (a'\<lparr>forced_releases := forced_releases a' + 1\<rparr>)"
    by blast
  have "shrunk a a'" using remove_active_shrunk [OF assms, of i lt] rm by simp
  then show ?thesis by (auto simp: r intro: card_of_shrunk shrunk_signal shrunk_forced)
qed

lemma arb_step_card:
  assumes "sys_inv s" and "arb_step s s'"
  shows "card_of (arb s') = card_of (arb s) \<or> card_step (card_of (arb s)) (card_of (arb s'))"
proof -
  have inv: "arb_inv (arb s)" and ids: "ids_ok (arb s)" using assms(1)
    by (auto simp: sys_inv_def arb_inv_def)
  from assms(2) show ?thesis
  proof cases
    case (enter t)
    let ?s = "s\<lparr>arb := enqueue_ticket t (arb s), built := remove1 t (built s)\<rparr>"
    have "arb_inv (arb ?s)"
      using assms(1) enter
      by (auto simp: sys_inv_def alloc_ok_def sys_ids_def intro!: enqueue_inv)
    moreover have "t \<in> set (queue (arb ?s))" by (simp add: enqueue_ticket_def)
    ultimately have "card_of (poll (clock s) t (arb ?s)) = card_of (arb ?s)
      \<or> card_step (card_of (arb ?s)) (card_of (poll (clock s) t (arb ?s)))" by (rule poll_card)
    with enter show ?thesis by (simp add: look_def enqueue_card)
  next
    case (wake t e c)
    with poll_card [OF inv wake(2)] show ?thesis by (simp add: look_def)
  next
    case (expire_context t e c)
    with give_up_card [OF ids] show ?thesis by simp
  next
    case (touch_lease i lt)
    then show ?thesis by (simp add: card_of_view touch_view)
  next
    case (release_lease i lt)
    then show ?thesis by (simp add: card_of_shrunk release_shrunk ids)
  next
    case (leave_barrier i)
    then show ?thesis by (simp add: card_of_shrunk release_barrier_shrunk ids)
  next
    case (watchdog i lt l d)
    with release_expired_card [OF ids] show ?thesis by simp
  qed (auto simp: next_id_fields(5) card_of_view)
qed

interpretation card_refinement:
  simulation sys_init arb_step sys_inv card_init card_step "\<lambda>s. card_of (arb s)"
proof unfold_locales
  fix s :: sys assume "arb_reachable s"
  then show "sys_inv s" by (rule arb_safety.always_good)
next
  fix s :: sys assume "sys_init s"
  then show "card_init (card_of (arb s))"
    by (auto simp: sys_init_def card_init_def card_of_def all_leases_def)
next
  fix s s' :: sys assume "sys_inv s" and "arb_step s s'"
  then show "card_of (arb s') = card_of (arb s) \<or> card_step (card_of (arb s)) (card_of (arb s'))"
    by (rule arb_step_card)
qed

end
