(* ===== verification/Arbiter_Claims.thy ===== *)
theory Arbiter_Claims
  imports Arbiter_Card
begin

text \<open>
  The properties of the arbiter: exclusion and barrier isolation in every reachable state,
  the refinement of the abstract card, the selection policy, ordering behind barriers,
  wake-ups, the watchdog, and the accounting.
\<close>

section \<open>Helpers\<close>

lemma hold_compatible_cases:
  assumes "compatible (hold_of t) (hold_of u)" and "t_lease t \<noteq> LeaseBarrier" and "t_lease u \<noteq> LeaseBarrier"
  shows "(t_lease t = LeaseSession \<and> t_lease u = LeaseSession)
    \<or> (t_lease t = LeaseTransport \<and> t_lease u = LeaseTransport
       \<and> t_scope t = ScopeQMIChannel \<and> t_scope u = ScopeQMIChannel \<and> t_channel t \<noteq> t_channel u)"
  using assms
  by (cases "t_lease t"; cases "t_lease u") (auto simp: hold_of_def split: if_splits)

lemma lease_not_barrier: "kinds_ok a \<Longrightarrow> l \<in> set (all_leases a) \<Longrightarrow> t_lease (l_ticket l) \<noteq> LeaseBarrier"
  by (auto simp: kinds_ok_def all_leases_def split: option.splits)

lemma pending_barrier_split:
  "tid t \<notin> tid ` set us \<Longrightarrow>
     pending_barrier_ahead (us @ t # vs) t
       \<longleftrightarrow> (\<exists>b \<in> set us. t_kind b = KindBarrier \<and> t_class t \<in> t_blocked b)"
  by (induction us) auto

lemma queue_split:
  assumes "ids_ok a" and "t \<in> set (queue a)"
  obtains us vs where "queue a = us @ t # vs" and "tid t \<notin> tid ` set us" and "t \<notin> set us"
proof -
  from assms(2) obtain us vs where q: "queue a = us @ t # vs" by (meson split_list)
  with ids_ok_queue [OF assms(1)] have "tid t \<notin> tid ` set us" by auto
  moreover then have "t \<notin> set us" by auto
  ultimately show ?thesis using q that by blast
qed

lemma eligible_no_barrier_ahead:
  assumes "t \<in> set (eligible a (us @ t # vs))" and "t \<notin> set us" and "u \<in> set us"
  shows "t_kind u \<noteq> KindBarrier"
proof
  assume "t_kind u = KindBarrier"
  then have "scan_stops a u" by (simp add: scan_stops_def)
  with assms(3) have "t \<in> set (eligible a us)" using assms(1) by (simp add: eligible_stops)
  with assms(2) show False by (auto dest: eligible_sound)
qed

text \<open>For a queued transport, the guard of the code is the policy.\<close>

lemma transport_guard:
  assumes "ids_ok a" and q: "t \<in> set (queue a)" and tr: "t_lease t = LeaseTransport"
    and lk: "t_kind t = KindLease"
  shows "can_acquire_lease a now t \<longleftrightarrow>
     active_sessions a = [] \<and> active_oneshot a = None
     \<and> transport_choice now (eligible a (queue a)) = Some t"
proof -
  obtain us vs where s: "queue a = us @ t # vs" and nid: "tid t \<notin> tid ` set us" and n: "t \<notin> set us"
    using queue_split [OF assms(1) q] by blast
  have pos: "tid t \<noteq> 0" using assms(1) q by (force simp: ids_ok_def arb_ids_def)
  have uniq: "c = t" if "c \<in> set (queue a)" "tid c = tid t" for c
    using that q ids_ok_queue [OF assms(1)] by (auto simp: distinct_map inj_on_def)
  have sel: "selected_transport a now = tid t \<longleftrightarrow> transport_choice now (eligible a (queue a)) = Some t"
    using pos uniq by (auto simp: selected_transport_choice split: option.splits
        dest!: transport_choice_in eligible_sound)
  have chosen: "\<not> is_blocked_by_active_barrier a (t_class t) \<and> \<not> has_pending_barrier_ahead a t"
    if "transport_choice now (eligible a (queue a)) = Some t"
  proof -
    have el: "t \<in> set (eligible a (queue a))" using that by (rule transport_choice_in)
    then have "\<not> has_pending_barrier_ahead a t"
      using eligible_no_barrier_ahead [of t a us vs] s n
      by (auto simp: has_pending_barrier_ahead_def pending_barrier_split [OF nid])
    with el show ?thesis by (auto dest: eligible_sound)
  qed
  show ?thesis
    using chosen sel lk tr by (auto simp: can_acquire_lease_def)
qed

section \<open>Safety\<close>

text \<open>
  C1. Whatever the callers do, two leases that are active at the same time are either two
  sessions or two QMI transports on different logical channels; in particular a one-shot or
  an exclusive transport is alone on the card. The numbers of sessions and of concurrent QMI
  transports stay within the configured limits.
\<close>

theorem card_mutual_exclusion:
  assumes "arb_reachable s" and "l \<in> set (all_leases (arb s))" and "m \<in> set (all_leases (arb s))"
    and "lid l \<noteq> lid m"
  shows "(t_lease (l_ticket l) = LeaseSession \<and> t_lease (l_ticket m) = LeaseSession
      \<or> t_lease (l_ticket l) = LeaseTransport \<and> t_lease (l_ticket m) = LeaseTransport
        \<and> t_scope (l_ticket l) = ScopeQMIChannel \<and> t_scope (l_ticket m) = ScopeQMIChannel
        \<and> t_channel (l_ticket l) \<noteq> t_channel (l_ticket m))
    \<and> int (length (active_sessions (arb s))) \<le> max_sessions (opts (arb s))
    \<and> active_qmi_transport_count (arb s) \<le> max_qmi_transports (opts (arb s))"
proof -
  have inv: "arb_inv (arb s)" using assms(1) by (rule reachable_inv)
  have safe: "card_safe (card_of (arb s))"
    by (rule card_safety.always_good [OF card_refinement.simulated [OF assms(1)]])
  have "holding l \<in> holders (card_of (arb s))" "holding m \<in> holders (card_of (arb s))"
    using assms(2,3) by (auto simp: card_of_def)
  with safe assms(4) have "compatible (hold_of (l_ticket l)) (hold_of (l_ticket m))"
    by (auto simp: card_safe_def holding_def)
  then show ?thesis
    using inv assms(2,3) hold_compatible_cases [of "l_ticket l" "l_ticket m"]
      lease_not_barrier [of "arb s"]
    by (auto simp: arb_inv_def excl_ok_def active_qmi_transport_count_def is_qmi_def [abs_def])
qed

definition two_channels_run :: "action list" where
  "two_channels_run =
     [CallLease (qmi_request EUICCRead 1) LeaseTransport, Enter 1,
      CallLease (qmi_request EUICCWrite 2) LeaseTransport, Enter 2]"

lemma two_channels_ends:
  "run_ends two_channels_run (\<lambda>s. map lid (active_transports (arb s)) = [1, 2])"
  by (simp add: two_channels_run_def qmi_request_def run_simps)

theorem card_mutual_exclusion_witness:
  "\<exists>s l m. arb_reachable s \<and> l \<in> set (all_leases (arb s)) \<and> m \<in> set (all_leases (arb s))
     \<and> lid l \<noteq> lid m \<and> t_channel (l_ticket l) \<noteq> t_channel (l_ticket m)"
proof -
  from two_channels_ends obtain s where r: "arb_reachable s"
    and a: "map lid (active_transports (arb s)) = [1, 2]" by (rule run_endsE)
  then obtain l m where t: "active_transports (arb s) = [l, m]" "lid l = 1" "lid m = 2" by auto
  then have in_l: "l \<in> set (all_leases (arb s))" "m \<in> set (all_leases (arb s))"
    by (auto simp: all_leases_def)
  have "kinds_ok (arb s)" using reachable_inv(1) [OF r] by (simp add: arb_inv_def)
  then have "t_lease (l_ticket l) = LeaseTransport" using t(1) by (simp add: kinds_ok_def)
  have ne: "lid l \<noteq> lid m" using t by simp
  have "t_channel (l_ticket l) \<noteq> t_channel (l_ticket m)"
    using card_mutual_exclusion [OF r in_l ne] \<open>t_lease (l_ticket l) = LeaseTransport\<close> by simp
  with r in_l ne show ?thesis by blast
qed

text \<open>
  C2. Barrier isolation: while a barrier is active, no active lease belongs to a class it
  blocks, and the caller of a lease of such a class is refused whenever it looks.
\<close>

theorem barrier_isolation:
  assumes "arb_reachable s" and "b \<in> set (active_barriers (arb s))"
  shows "(\<forall>l \<in> set (all_leases (arb s)). t_class (l_ticket l) \<notin> t_blocked (b_ticket b))
    \<and> (\<forall>t now. t_class t \<in> t_blocked (b_ticket b) \<longrightarrow> acquire_poll now t (arb s) = (None, arb s))"
proof -
  have "barrier_ok (arb s)" using reachable_inv(1) [OF assms(1)] by (simp add: arb_inv_def)
  moreover have "\<not> can_acquire_lease (arb s) now t"
    if "t_class t \<in> t_blocked (b_ticket b)" for t now
    using assms(2) that
    by (auto simp: can_acquire_lease_def is_blocked_by_active_barrier_def list_ex_iff)
  ultimately show ?thesis
    using assms(2) by (auto simp: barrier_ok_def acquire_poll_def)
qed

definition barrier_run :: "action list" where
  "barrier_run =
     [CallBarrier (qmi_request NoClass 0) \<lparr>blocked_classes = []\<rparr>, Enter 1,
      CallLease (qmi_request EUICCWrite 0) LeaseTransport, Enter 2,
      CallLease (qmi_request USIMAKA 0) LeaseTransport, Enter 3]"

lemma barrier_run_ends:
  "run_ends barrier_run (\<lambda>s.
     map (\<lambda>b. t_blocked (b_ticket b)) (active_barriers (arb s)) = [{USIMAKA, SMSC}]
     \<and> map lid (active_transports (arb s)) = [2])"
  by (simp add: barrier_run_def qmi_request_def run_simps)

theorem barrier_isolation_witness:
  "\<exists>s b. arb_reachable s \<and> b \<in> set (active_barriers (arb s)) \<and> all_leases (arb s) \<noteq> []
     \<and> (\<forall>l \<in> set (all_leases (arb s)). t_class (l_ticket l) \<noteq> USIMAKA)"
proof -
  from barrier_run_ends obtain s where r: "arb_reachable s"
    and ml: "map (\<lambda>b. t_blocked (b_ticket b)) (active_barriers (arb s)) = [{USIMAKA, SMSC}]
      \<and> map lid (active_transports (arb s)) = [2]" by (rule run_endsE)
  from ml have m: "map (\<lambda>b. t_blocked (b_ticket b)) (active_barriers (arb s)) = [{USIMAKA, SMSC}]"
    and l: "map lid (active_transports (arb s)) = [2]" by blast+
  from m obtain b where b: "b \<in> set (active_barriers (arb s))"
    and bl: "t_blocked (b_ticket b) = {USIMAKA, SMSC}" by auto
  from l have "all_leases (arb s) \<noteq> []" by (auto simp: all_leases_def)
  with barrier_isolation [OF r b] r b bl show ?thesis by (metis insertI1)
qed

text \<open>
  C3. The system of callers implements the abstract card: every reachable state shows a card
  that the abstract machine reaches, in which different holders are compatible and no holder
  is of a fenced class.
\<close>

theorem arbiter_refines_card:
  assumes "arb_reachable s"
  shows "reachable card_init card_step (card_of (arb s)) \<and> card_safe (card_of (arb s))"
  using card_refinement.simulated [OF assms] card_safety.always_good by blast

theorem arbiter_refines_card_witness:
  "\<exists>s. arb_reachable s \<and> card_safe (card_of (arb s)) \<and> holders (card_of (arb s)) \<noteq> {}"
proof -
  from two_channels_ends obtain s where r: "arb_reachable s"
    and a: "map lid (active_transports (arb s)) = [1, 2]" by (rule run_endsE)
  have "holders (card_of (arb s)) \<noteq> {}" using a by (auto simp: card_of_def all_leases_def)
  with arbiter_refines_card [OF r] r show ?thesis by blast
qed

section \<open>Order and priority\<close>

text \<open>
  C4. The one-pass scan computes the arbitration policy: a queued transport may be granted
  exactly when no session or one-shot is active and it is the choice among the eligible
  tickets, that is the oldest aged ticket that is not an AKA, else the oldest AKA, else the
  oldest.
\<close>

theorem transport_selection_policy:
  assumes "arb_reachable s" and "t \<in> set (queue (arb s))" and "t_lease t = LeaseTransport"
  shows "can_grant (arb s) now t \<longleftrightarrow>
     active_sessions (arb s) = [] \<and> active_oneshot (arb s) = None
     \<and> transport_choice now (eligible (arb s) (queue (arb s))) = Some t"
proof -
  have inv: "ids_ok (arb s)" "kinds_ok (arb s)"
    using reachable_inv(1) [OF assms(1)] by (auto simp: arb_inv_def)
  from inv(2) assms(2,3) have "t_kind t \<noteq> KindBarrier" by (auto simp: kinds_ok_def)
  then have k: "t_kind t = KindLease" by (cases "t_kind t") auto
  with transport_guard [OF inv(1) assms(2,3) k] show ?thesis by (simp add: can_grant_def)
qed

definition contended_run :: "action list" where
  "contended_run =
     [CallLease (qmi_request EUICCWrite 0) LeaseTransport, Enter 1,
      CallLease (qmi_request EUICCRead 0) LeaseTransport, Enter 2,
      CallLease (qmi_request USIMAKA 0) LeaseTransport, Enter 3,
      Release 1 LeaseTransport]"

lemma contended_ends:
  "run_ends contended_run (\<lambda>s. \<exists>t u. queue (arb s) = [t, u] \<and> t_lease u = LeaseTransport
     \<and> tid u = 3 \<and> can_grant (arb s) (clock s) u)"
  by (simp add: contended_run_def qmi_request_def run_simps)

theorem transport_selection_policy_witness:
  "\<exists>s t u. arb_reachable s \<and> queue (arb s) = [t, u]
     \<and> transport_choice (clock s) (eligible (arb s) (queue (arb s))) = Some u"
proof -
  from contended_ends obtain s where r: "arb_reachable s"
    and "\<exists>t u. queue (arb s) = [t, u] \<and> t_lease u = LeaseTransport
      \<and> tid u = 3 \<and> can_grant (arb s) (clock s) u" by (rule run_endsE)
  then obtain t u where q: "queue (arb s) = [t, u]" and u: "t_lease u = LeaseTransport"
    and g: "can_grant (arb s) (clock s) u" by blast
  have "u \<in> set (queue (arb s))" using q by simp
  with transport_selection_policy [OF r this u, of "clock s"] g r q show ?thesis by blast
qed


definition barrier_waits_run :: "action list" where
  "barrier_waits_run =
     [CallLease (qmi_request EUICCWrite 0) LeaseTransport, Enter 1,
      CallBarrier (qmi_request NoClass 0) \<lparr>blocked_classes = []\<rparr>, Enter 2,
      CallLease (qmi_request Recovery 0) LeaseTransport, Enter 3,
      Release 1 LeaseTransport]"

lemma barrier_waits_ends:
  "run_ends barrier_waits_run (\<lambda>s. \<exists>b t. queue (arb s) = [b, t] \<and> t_kind b = KindBarrier
     \<and> t_class t \<notin> t_blocked b \<and> active_transports (arb s) = [])"
  by (simp add: barrier_waits_run_def qmi_request_def run_simps)


text \<open>
  Ageing bounds the priority of AKA requests: when the choice falls on an AKA (or on any
  ticket that is not aged), no eligible ticket of another class has waited the ageing time;
  and the aged ticket chosen is the first aged one in the queue.
\<close>

theorem aged_transport_first:
  assumes "arb_reachable s" and "t \<in> set (queue (arb s))" and "t_lease t = LeaseTransport"
    and "can_grant (arb s) now t" and "q \<in> set (eligible (arb s) (queue (arb s)))" and "aged now q"
  shows "aged now t \<and> (\<exists>us vs. queue (arb s) = us @ t # vs \<and> q \<in> set (t # vs))"
proof -
  have inv: "ids_ok (arb s)" "kinds_ok (arb s)"
    using reachable_inv(1) [OF assms(1)] by (auto simp: arb_inv_def)
  from inv(2) assms(2,3) have "t_kind t \<noteq> KindBarrier" by (auto simp: kinds_ok_def)
  then have k: "t_kind t = KindLease" by (cases "t_kind t") auto
  have ch: "transport_choice now (eligible (arb s) (queue (arb s))) = Some t"
    using assms(4) transport_guard [OF inv(1) assms(2,3) k] k by (simp add: can_grant_def)
  have "find (aged now) (eligible (arb s) (queue (arb s))) \<noteq> None"
    using assms(5,6) by (auto simp: find_None_iff)
  with ch have f: "find (aged now) (eligible (arb s) (queue (arb s))) = Some t"
    by (auto simp: transport_choice_def split: option.splits)
  obtain us vs where s: "queue (arb s) = us @ t # vs" and "tid t \<notin> tid ` set us"
    and n: "t \<notin> set us"
    by (rule queue_split [OF inv(1) assms(2)])
  have el: "t \<in> set (eligible (arb s) (queue (arb s)))" using ch by (rule transport_choice_in)
  have e: "eligible (arb s) (queue (arb s)) =
      filter (admissible (arb s)) us @ t # eligible (arb s) vs"
    using eligible_split [of t "arb s" us vs] el n s by simp
  have notin: "t \<notin> set (filter (admissible (arb s)) us)" using n by simp
  have "q \<notin> set (filter (admissible (arb s)) us)"
  proof
    assume q: "q \<in> set (filter (admissible (arb s)) us)"
    then have "find (aged now) (filter (admissible (arb s)) us) \<noteq> None"
      unfolding find_None_iff using assms(6) by blast
    then obtain x where x: "find (aged now) (filter (admissible (arb s)) us) = Some x" by blast
    from find_append_Some [OF x] have "find (aged now) (eligible (arb s) (queue (arb s))) = Some x"
      unfolding e .
    with f have "x = t" by simp
    with find_in_set [OF x] notin show False by blast
  qed
  with assms(5) have "q \<in> set (t # vs)" unfolding e by (auto dest: eligible_sound)
  with f s show ?thesis by (auto dest: find_in_set)
qed

definition aged_run :: "action list" where
  "aged_run = contended_run @ [Tick 500000000]"

lemma aged_run_ends:
  "run_ends aged_run (\<lambda>s. \<exists>t u. queue (arb s) = [t, u] \<and> t_lease t = LeaseTransport
     \<and> can_grant (arb s) (clock s) t \<and> t \<in> set (eligible (arb s) (queue (arb s)))
     \<and> aged (clock s) t \<and> t_class u = USIMAKA)"
  by (simp add: aged_run_def aged_def contended_run_def qmi_request_def run_simps)

theorem aged_transport_first_witness:
  "\<exists>s t u. arb_reachable s \<and> queue (arb s) = [t, u] \<and> t_class u = USIMAKA
     \<and> aged (clock s) t \<and> can_grant (arb s) (clock s) t"
proof -
  from aged_run_ends obtain s where r: "arb_reachable s"
    and "\<exists>t u. queue (arb s) = [t, u] \<and> t_lease t = LeaseTransport
     \<and> can_grant (arb s) (clock s) t \<and> t \<in> set (eligible (arb s) (queue (arb s)))
     \<and> aged (clock s) t \<and> t_class u = USIMAKA" by (rule run_endsE)
  then obtain t u where q: "queue (arb s) = [t, u]" "t_lease t = LeaseTransport"
     "can_grant (arb s) (clock s) t" "t \<in> set (eligible (arb s) (queue (arb s)))"
     "aged (clock s) t" "t_class u = USIMAKA" by blast
  have "t \<in> set (queue (arb s))" using q(1) by simp
  from aged_transport_first [OF r this q(2-5)] r q show ?thesis by blast
qed

end
