(* ===== verification/Arbiter_Liveness.thy ===== *)
theory Arbiter_Liveness
  imports Arbiter_Card
begin

text \<open>
  The properties of the arbiter about wake-ups, progress, the watchdog and the counters.
\<close>

section \<open>Helpers\<close>

text \<open>
  Time enters the guards only through the aged tickets: with the same tickets aged, the
  answer is the same.
\<close>

lemma find_same: "(\<And>x. x \<in> set xs \<Longrightarrow> P x = Q x) \<Longrightarrow> find P xs = find Q xs"
  by (induction xs) auto

lemma selected_transport_same_aged:
  assumes "\<forall>q \<in> set (queue a). aged c q = aged n q"
  shows "selected_transport a c = selected_transport a n"
proof -
  have "find (aged c) (eligible a (queue a)) = find (aged n) (eligible a (queue a))"
    by (rule find_same) (use assms in \<open>auto dest: eligible_sound\<close>)
  then show ?thesis by (simp add: selected_transport_choice transport_choice_def)
qed

lemma can_grant_same_aged:
  assumes "t_lease t \<noteq> LeaseTransport \<or> (\<forall>q \<in> set (queue a). aged c q = aged n q)"
  shows "can_grant a c t = can_grant a n t"
  using assms selected_transport_same_aged [of a c n]
  by (auto simp: can_grant_def can_acquire_lease_def split: wait_kind.splits lease_type.splits)

lemma first_barrier_id_append:
  "(\<And>u. u \<in> set us \<Longrightarrow> t_kind u \<noteq> KindBarrier) \<Longrightarrow> t_kind b = KindBarrier \<Longrightarrow>
     first_barrier_id (us @ b # vs) = tid b"
  by (induction us) auto

lemma no_leases_free:
  "all_leases a = [] \<Longrightarrow>
     active_sessions a = [] \<and> active_oneshot a = None \<and> active_transports a = []"
  by (auto simp: all_leases_def split: option.splits)

lemma look_leaves_queue:
  assumes "arb_reachable s" and "can_grant (arb s) (clock s) t"
  shows "queue (arb (look t s)) = filter (\<lambda>q. tid q \<noteq> tid t) (queue (arb s))"
proof (cases "t_kind t")
  case KindLease
  with assms granted_fields(1) [of "arb s" "clock s" t] reachable_inv(1) [OF assms(1)] show ?thesis
    by (simp add: look_def poll_def can_grant_def arb_inv_def)
next
  case KindBarrier
  with assms barrier_granted_fields [of "arb s" t _ "clock s"] reachable_inv(1) [OF assms(1)]
  show ?thesis by (simp add: look_def poll_def can_grant_def arb_inv_def)
qed

text \<open>A caller that could be granted whatever the time has been signalled.\<close>

lemma grantable_signalled:
  assumes "arb_reachable s" and "t \<in> set (queue (arb s))" and "can_grant (arb s) (clock s) t"
    and "t_lease t \<noteq> LeaseTransport \<or>
      (\<forall>e c. waiters s (tid t) = Some (e, c) \<longrightarrow>
         (\<forall>q \<in> set (queue (arb s)). aged c q = aged (clock s) q))"
  shows "\<exists>e c. waiters s (tid t) = Some (e, c) \<and> e < notify_epoch (arb s)"
proof -
  from reachable_inv(3) [OF assms(1)] assms(2) obtain e c where
    w: "waiters s (tid t) = Some (e, c)" "e \<le> notify_epoch (arb s)"
    and n: "e = notify_epoch (arb s) \<longrightarrow> \<not> can_grant (arb s) c t"
    unfolding waiters_ok_def by blast
  have "can_grant (arb s) c t"
    using can_grant_same_aged [of t "arb s" c "clock s"] assms(3,4) w(1) by auto
  with n w show ?thesis by (metis le_neq_implies_less)
qed

section \<open>Properties\<close>

text \<open>
  C6. No missed wake-up: a queued caller that could be granted now, and for which the choice
  of transports has not changed by ageing since its last look, has been signalled: the
  channel it sleeps on is closed, so its wake-up step is enabled.
\<close>

theorem no_missed_wakeup:
  assumes "arb_reachable s" and "t \<in> set (queue (arb s))" and "can_grant (arb s) (clock s) t"
    and "t_lease t \<noteq> LeaseTransport \<or>
      (\<forall>e c. waiters s (tid t) = Some (e, c) \<longrightarrow>
         (\<forall>q \<in> set (queue (arb s)). aged c q = aged (clock s) q))"
  shows "arb_step s (look t s) \<and> tid t \<notin> tid ` set (queue (arb (look t s)))"
proof
  obtain e c where w: "waiters s (tid t) = Some (e, c)" "e < notify_epoch (arb s)"
    using grantable_signalled [OF assms] by blast
  show "arb_step s (look t s)" by (rule arb_step.wake [OF assms(2) w])
  show "tid t \<notin> tid ` set (queue (arb (look t s)))"
    using look_leaves_queue [OF assms(1,3)] by auto
qed

definition released_run :: "action list" where
  "released_run =
     [CallLease (qmi_request EUICCWrite 0) LeaseTransport, Enter 1,
      CallLease (qmi_request NoClass 0) LeaseOneShot, Enter 2,
      Release 1 LeaseTransport]"

lemma released_ends:
  "run_ends released_run (\<lambda>s. \<exists>t. queue (arb s) = [t] \<and> t_lease t = LeaseOneShot
     \<and> can_grant (arb s) (clock s) t)"
  by (simp add: released_run_def qmi_request_def run_simps)

theorem no_missed_wakeup_witness:
  "\<exists>s t. arb_reachable s \<and> queue (arb s) = [t] \<and> arb_step s (look t s)"
proof -
  from released_ends obtain s where r: "arb_reachable s" and
    "\<exists>t. queue (arb s) = [t] \<and> t_lease t = LeaseOneShot \<and> can_grant (arb s) (clock s) t"
    by (rule run_endsE)
  then obtain t where q: "queue (arb s) = [t]" "t_lease t = LeaseOneShot"
    and g: "can_grant (arb s) (clock s) t" by blast
  have "t \<in> set (queue (arb s))" using q(1) by simp
  from no_missed_wakeup [OF r this g] q r show ?thesis by simp blast
qed

definition stalled :: "sys \<Rightarrow> bool" where
  "stalled s \<longleftrightarrow>
     all_leases (arb s) = [] \<and> active_barriers (arb s) = [] \<and> built s = []
     \<and> (\<exists>t \<in> set (queue (arb s)). can_grant (arb s) (clock s) t)
     \<and> (\<forall>q \<in> set (queue (arb s)). map_option fst (waiters s (tid q)) = Some (notify_epoch (arb s)))"

definition stalling_run :: "action list" where
  "stalling_run =
     [CallLease (qmi_request EUICCWrite 0) LeaseTransport, Enter 1,
      CallLease (qmi_request EUICCRead 0) LeaseTransport, Enter 2,
      CallLease (qmi_request USIMAKA 0) LeaseTransport, Enter 3,
      Tick 499999999, Release 1 LeaseTransport, Wake 2, Tick 1, Wake 3]"

lemma stalling_ends: "run_ends stalling_run stalled"
  by (simp add: stalling_run_def stalled_def all_leases_def qmi_request_def run_simps)

text \<open>
  C7. The exception is ageing: no timer is armed for it, so a transport that becomes the
  choice only because another ticket ages has nobody to wake it. In a reachable state with
  an idle card a grantable caller and everybody else in the queue sleep on the open channel.
\<close>

theorem ageing_can_stall_an_idle_card:
  "\<exists>s. arb_reachable s \<and> stalled s"
proof -
  from stalling_ends obtain s where "arb_reachable s" "stalled s" by (rule run_endsE)
  then show ?thesis by blast
qed

text \<open>
  Barriers are not starved: once no lease is active, the first queued barrier can be
  granted and its caller has been signalled, so the step in which it starts is enabled,
  whatever is queued in front of it.
\<close>

theorem barrier_progress:
  assumes "arb_reachable s" and "queue (arb s) = us @ b # vs" and "t_kind b = KindBarrier"
    and "\<forall>u \<in> set us. t_kind u \<noteq> KindBarrier" and "all_leases (arb s) = []"
  shows "\<exists>s'. arb_step s s' \<and> b \<in> set (map b_ticket (active_barriers (arb s')))"
proof -
  have inv: "ids_ok (arb s)" "kinds_ok (arb s)"
    using reachable_inv(1) [OF assms(1)] by (auto simp: arb_inv_def)
  have q: "b \<in> set (queue (arb s))" using assms(2) by simp
  have "selected_barrier (arb s) = tid b"
    using first_barrier_id_append [of us b vs] assms(2-4) by (simp add: selected_barrier_def)
  then have c: "can_acquire_barrier (arb s) b"
    using no_leases_free [OF assms(5)] assms(3)
    by (simp add: can_acquire_barrier_def has_active_transport_def)
  then have g: "can_grant (arb s) (clock s) b" using assms(3) by (simp add: can_grant_def)
  have "t_lease b \<noteq> LeaseTransport" using inv(2) q assms(3) by (auto simp: kinds_ok_def)
  then obtain e k where w: "waiters s (tid b) = Some (e, k)" "e < notify_epoch (arb s)"
    using grantable_signalled [OF assms(1) q g] by blast
  have "b \<in> set (map b_ticket (active_barriers (arb (look b s))))"
    using barrier_granted_fields [OF inv(1) c, of _ "clock s"] assms(3)
    by (simp add: look_def poll_def)
  with arb_step.wake [OF q w] show ?thesis by blast
qed

lemma barrier_waits_behind_lease:
  "run_ends
     [CallLease (qmi_request EUICCWrite 0) LeaseTransport, Enter 1,
      CallLease (qmi_request Recovery 0) LeaseTransport, Enter 2,
      CallBarrier (qmi_request NoClass 0) \<lparr>blocked_classes = []\<rparr>, Enter 3,
      Release 1 LeaseTransport]
     (\<lambda>s. \<exists>t b. queue (arb s) = [t, b] \<and> t_kind t = KindLease \<and> t_kind b = KindBarrier
       \<and> all_leases (arb s) = [])"
  by (simp add: all_leases_def qmi_request_def run_simps)

theorem barrier_progress_witness:
  "\<exists>s s' t b. arb_reachable s \<and> queue (arb s) = [t, b] \<and> t_kind t = KindLease
     \<and> arb_step s s' \<and> b \<in> set (map b_ticket (active_barriers (arb s')))"
proof -
  from barrier_waits_behind_lease obtain s where r: "arb_reachable s" and
    "\<exists>t b. queue (arb s) = [t, b] \<and> t_kind t = KindLease \<and> t_kind b = KindBarrier
       \<and> all_leases (arb s) = []" by (rule run_endsE)
  then obtain t b where q: "queue (arb s) = [t, b]" "t_kind t = KindLease"
    "t_kind b = KindBarrier" "all_leases (arb s) = []" by blast
  from barrier_progress [OF r, of "[t]" b "[]"] q obtain s' where
    "arb_step s s' \<and> b \<in> set (map b_ticket (active_barriers (arb s')))" by auto
  with r q show ?thesis by blast
qed

text \<open>
  The statistics account for every request: each one is counted once as an acquisition,
  once as a timeout, or is still in the queue.
\<close>

theorem stats_account_for_requests:
  assumes "arb_reachable s"
  shows "st_wait_requests (arbiter_stats (arb s)) =
      st_acquires (arbiter_stats (arb s)) + st_wait_timeouts (arbiter_stats (arb s))
        + st_current_queue (arbiter_stats (arb s))
    \<and> int (st_active_transports (arbiter_stats (arb s))) \<le> max_qmi_transports (opts (arb s))
    \<and> int (st_active_sessions (arbiter_stats (arb s))) \<le> max_sessions (opts (arb s))"
proof -
  have inv: "count_ok (arb s)" "excl_ok (arb s)" "opts_ok (arb s)"
    using reachable_inv(1) [OF assms] by (auto simp: arb_inv_def)
  have A: "st_wait_requests (arbiter_stats (arb s)) =
      st_acquires (arbiter_stats (arb s)) + st_wait_timeouts (arbiter_stats (arb s))
        + st_current_queue (arbiter_stats (arb s))"
    using inv(1) by (simp add: arbiter_stats_def count_ok_def)
  have B: "int (st_active_transports (arbiter_stats (arb s))) \<le> max_qmi_transports (opts (arb s))"
  proof (cases "\<exists>l \<in> set (active_transports (arb s)). \<not> is_qmi l")
    case True
    then obtain l where "active_transports (arb s) = [l]" using inv(2) by (auto simp: excl_ok_def)
    then show ?thesis using inv(3) by (simp add: arbiter_stats_def opts_ok_def)
  next
    case False
    then have "filter is_qmi (active_transports (arb s)) = active_transports (arb s)"
      by (simp add: filter_id_conv)
    then show ?thesis using inv(2) by (simp add: arbiter_stats_def excl_ok_def)
  qed
  have C: "int (st_active_sessions (arbiter_stats (arb s))) \<le> max_sessions (opts (arb s))"
    using inv(2) by (simp add: arbiter_stats_def excl_ok_def)
  from A B C show ?thesis by blast
qed

theorem stats_account_for_requests_witness:
  "\<exists>s. arb_reachable s \<and> st_wait_requests (arbiter_stats (arb s)) = 2
     \<and> st_acquires (arbiter_stats (arb s)) = 1 \<and> st_current_queue (arbiter_stats (arb s)) = 1"
proof -
  have "run_ends released_run (\<lambda>s. wait_requests (arb s) = 2 \<and> length (queue (arb s)) = 1
     \<and> wait_timeouts (arb s) = 0)"
    by (simp add: released_run_def qmi_request_def run_simps)
  then obtain s where r: "arb_reachable s" and "wait_requests (arb s) = 2
      \<and> length (queue (arb s)) = 1 \<and> wait_timeouts (arb s) = 0" by (rule run_endsE)
  with stats_account_for_requests [OF r] show ?thesis
    by (intro exI [of _ s]) (simp add: arbiter_stats_def)
qed

definition has_key :: "u64 \<Rightarrow> lease_type \<Rightarrow> active_lease \<Rightarrow> bool" where
  "has_key i lt l \<longleftrightarrow> lid l = i \<and> t_lease (l_ticket l) = lt"

lemma filter_keys:
  assumes "\<forall>l \<in> set ls. t_lease (l_ticket l) = ty"
  shows "filter (\<lambda>l. \<not> has_key i lt l) ls = (if lt = ty then filter (\<lambda>l. lid l \<noteq> i) ls else ls)"
proof (cases "lt = ty")
  case True
  then have "filter (\<lambda>l. \<not> has_key i lt l) ls = filter (\<lambda>l. lid l \<noteq> i) ls"
    using assms by (intro filter_cong) (auto simp: has_key_def)
  with True show ?thesis by simp
next
  case False
  then have "filter (\<lambda>l. \<not> has_key i lt l) ls = ls"
    using assms by (auto simp: has_key_def filter_id_conv)
  with False show ?thesis by simp
qed

lemma remove_active_exact:
  assumes "ids_ok a" and "kinds_ok a"
  shows "all_leases (snd (remove_active i lt a)) = filter (\<lambda>l. \<not> has_key i lt l) (all_leases a)"
    and "queue (snd (remove_active i lt a)) = queue a"
    and "fst (remove_active i lt a) = find_active a i lt"
proof -
  note rf = remove_first_filter [OF ids_ok_parts(1) [OF assms(1)], of i]
    remove_first_filter [OF ids_ok_parts(2) [OF assms(1)], of i]
  have none: "filter (\<lambda>l. lid l \<noteq> i) ls = ls" if "find (\<lambda>l. lid l = i) ls = None" for ls
    using that by (auto simp: find_None_iff filter_id_conv)
  have one: "has_key i lt l \<longleftrightarrow> lt = LeaseOneShot \<and> lid l = i" if "active_oneshot a = Some l" for l
    using assms(2) that by (auto simp: kinds_ok_def has_key_def)
  have parts:
    "filter (\<lambda>l. \<not> has_key i lt l) (active_sessions a) =
      (if lt = LeaseSession then filter (\<lambda>l. lid l \<noteq> i) (active_sessions a) else active_sessions a)"
    "filter (\<lambda>l. \<not> has_key i lt l) (active_transports a) =
      (if lt = LeaseTransport then filter (\<lambda>l. lid l \<noteq> i) (active_transports a)
       else active_transports a)"
    using assms(2) by (intro filter_keys; simp add: kinds_ok_def)+
  have "filter (\<lambda>l. \<not> has_key i lt l) (all_leases a) =
      (if lt = LeaseSession then filter (\<lambda>l. lid l \<noteq> i) (active_sessions a) else active_sessions a)
      @ (case active_oneshot a of None \<Rightarrow> []
         | Some l \<Rightarrow> if lt = LeaseOneShot \<and> lid l = i then [] else [l])
      @ (if lt = LeaseTransport then filter (\<lambda>l. lid l \<noteq> i) (active_transports a)
         else active_transports a)"
    using parts by (cases "active_oneshot a") (auto simp: all_leases_def one)
  then show "all_leases (snd (remove_active i lt a)) = filter (\<lambda>l. \<not> has_key i lt l) (all_leases a)"
    by (cases lt) (auto simp: remove_active_def all_leases_def rf none split: option.splits)
  show "queue (snd (remove_active i lt a)) = queue a"
    by (auto simp: remove_active_def split: lease_type.splits option.splits)
  show "fst (remove_active i lt a) = find_active a i lt"
    by (cases lt) (auto simp: remove_active_def find_active_def rf split: option.splits)
qed

text \<open>
  Releasing is exact: it takes away the lease with that id and type and no other, and
  signals the callers exactly when it took one away; a handle whose lease has been forced out
  releases nothing.
\<close>

theorem release_is_exact:
  assumes "arb_reachable s"
  shows "all_leases (release i lt r (arb s)) = filter (\<lambda>l. \<not> has_key i lt l) (all_leases (arb s))
    \<and> queue (release i lt r (arb s)) = queue (arb s)
    \<and> notify_epoch (release i lt r (arb s)) =
        (if is_active (arb s) i lt then notify_epoch (arb s) + 1 else notify_epoch (arb s))"
proof -
  let ?a = "arb s"
  have inv: "ids_ok ?a" "kinds_ok ?a" using reachable_inv(1) [OF assms] by (auto simp: arb_inv_def)
  have "release i lt r ?a =
      (case fst (remove_active i lt ?a) of None \<Rightarrow> snd (remove_active i lt ?a)
       | Some l \<Rightarrow> signal_locked
           (if r = ''force-timeout''
            then snd (remove_active i lt ?a)
              \<lparr>forced_releases := forced_releases (snd (remove_active i lt ?a)) + 1\<rparr>
            else snd (remove_active i lt ?a)))"
    by (auto simp: release_def split: prod.splits option.splits)
  moreover have "all_leases (x\<lparr>forced_releases := n\<rparr>) = all_leases x"
    "all_leases (signal_locked x) = all_leases x" for x n by (simp_all add: all_leases_def)
  ultimately show ?thesis
    using remove_active_exact [OF inv, of i lt] remove_active_epoch(1) [of i lt ?a]
    by (auto simp: is_active_def split: option.splits)
qed

theorem release_is_exact_witness:
  "\<exists>s. arb_reachable s \<and> length (all_leases (arb s)) = 2
     \<and> length (all_leases (release 2 LeaseTransport ''release'' (arb s))) = 1"
proof -
  have "run_ends
      [CallLease (qmi_request EUICCRead 1) LeaseTransport, Enter 1,
       CallLease (qmi_request EUICCRead 2) LeaseTransport, Enter 2]
      (\<lambda>s. \<exists>l k. all_leases (arb s) = [l, k] \<and> has_key 2 LeaseTransport k
         \<and> \<not> has_key 2 LeaseTransport l)"
    by (simp add: all_leases_def has_key_def qmi_request_def run_simps)
  then obtain s where r: "arb_reachable s" and "\<exists>l k. all_leases (arb s) = [l, k]
      \<and> has_key 2 LeaseTransport k \<and> \<not> has_key 2 LeaseTransport l" by (rule run_endsE)
  then obtain l k where "all_leases (arb s) = [l, k]" "has_key 2 LeaseTransport k"
    "\<not> has_key 2 LeaseTransport l" by blast
  with release_is_exact [OF r, of 2 LeaseTransport "''release''"] r show ?thesis
    by (intro exI [of _ s]) simp
qed

lemma find_update_active:
  assumes "find_active a i lt = Some l" and "lid (f l) = lid l"
  shows "find_active (update_active i lt f a) i lt = Some (f l)"
proof -
  have upd: "find (\<lambda>l. lid l = i) (map (\<lambda>l. if lid l = i then f l else l) ls) = Some (f x)"
    if "find (\<lambda>l. lid l = i) ls = Some x" "lid (f x) = lid x" for ls x
    using that by (induction ls) (auto split: if_splits)
  show ?thesis
    using assms by (cases lt)
      (auto simp: find_active_def update_active_def Let_def upd split: option.splits if_splits)
qed

lemma removed_not_found:
  assumes "ids_ok a"
  shows "find_active (snd (remove_active i lt a)) i lt = None"
proof -
  note rf = remove_first_filter [OF ids_ok_parts(1) [OF assms], of i]
    remove_first_filter [OF ids_ok_parts(2) [OF assms], of i]
  have "find (\<lambda>l. lid l = i) (filter (\<lambda>l. lid l \<noteq> i) ls) = None" for ls
    by (simp add: find_None_iff)
  then show ?thesis
    by (cases lt) (auto simp: remove_active_def find_active_def rf split: option.splits)
qed

lemma expired_is_active:
  assumes "ids_ok a" and "kinds_ok a" and l: "find_active a i lt = Some l"
    and d: "expires_at l = Some d"
  shows "is_active (release_expired now i lt a) i lt \<longleftrightarrow> now < d"
proof (cases "now < d")
  case True
  then show ?thesis
    using find_update_active [OF l, of "\<lambda>l. l\<lparr>timer := Some d\<rparr>"] l d
    by (simp add: release_expired_def is_active_def)
next
  case False
  obtain x b where r: "remove_active i lt a = (x, b)" by (cases "remove_active i lt a")
  have x: "x = Some l" using remove_active_exact(3) [OF assms(1,2), of i lt] r l by simp
  have "find_active b i lt = None" using removed_not_found [OF assms(1), of i lt] r by simp
  then have "find_active (signal_locked (b\<lparr>forced_releases := n\<rparr>)) i lt = None" for n
    by (simp add: find_active_def split: lease_type.splits)
  with False l d r x show ?thesis by (simp add: release_expired_def is_active_def)
qed

text \<open>
  The watchdog: firing before the deadline keeps the lease (and re-arms itself), firing at
  the deadline forces it out, and a touch at time \<open>now\<close> moves the deadline to a full hold
  time after \<open>now\<close>, so a timer that was already due no longer removes the lease.
\<close>

theorem watchdog_deadline:
  assumes "arb_reachable s" and "find_active (arb s) i lt = Some l" and "expires_at l = Some d"
  shows "(is_active (release_expired now i lt (arb s)) i lt \<longleftrightarrow> now < d)
    \<and> fst (touch t0 i lt (arb s))
    \<and> (is_active (release_expired now i lt (snd (touch t0 i lt (arb s)))) i lt
        \<longleftrightarrow> now < t0 + max_lease_hold (opts (arb s)))"
proof -
  have inv: "arb_inv (arb s)" by (rule reachable_inv(1) [OF assms(1)])
  then have ok: "ids_ok (arb s)" "kinds_ok (arb s)" "0 < max_lease_hold (opts (arb s))"
    by (auto simp: arb_inv_def opts_ok_def)
  have ok': "ids_ok (snd (touch t0 i lt (arb s)))" "kinds_ok (snd (touch t0 i lt (arb s)))"
    using touch_inv [OF inv, of t0 i lt] by (auto simp: arb_inv_def)
  let ?d = "Some (t0 + max_lease_hold (opts (arb s)))"
  have t: "touch t0 i lt (arb s) =
      (True, update_active i lt (\<lambda>l. l\<lparr>expires_at := ?d, timer := ?d\<rparr>) (arb s))"
    using ok(3) assms(2) by (simp add: touch_def Let_def)
  have "find_active (snd (touch t0 i lt (arb s))) i lt = Some (l\<lparr>expires_at := ?d, timer := ?d\<rparr>)"
    using find_update_active [OF assms(2), of "\<lambda>l. l\<lparr>expires_at := ?d, timer := ?d\<rparr>"] t by simp
  from expired_is_active [OF ok' this] expired_is_active [OF ok(1,2) assms(2,3)] t
  show ?thesis by simp
qed

theorem watchdog_deadline_witness:
  "\<exists>s. arb_reachable s \<and> is_active (release_expired 119999999999 1 LeaseTransport (arb s)) 1 LeaseTransport
     \<and> \<not> is_active (release_expired 120000000000 1 LeaseTransport (arb s)) 1 LeaseTransport"
proof -
  have "run_ends [CallLease (qmi_request EUICCRead 1) LeaseTransport, Enter 1]
      (\<lambda>s. \<exists>l. find_active (arb s) 1 LeaseTransport = Some l \<and> expires_at l = Some 120000000000)"
    by (simp add: qmi_request_def run_simps)
  then obtain s where r: "arb_reachable s" and "\<exists>l. find_active (arb s) 1 LeaseTransport = Some l
      \<and> expires_at l = Some 120000000000" by (rule run_endsE)
  then obtain l where "find_active (arb s) 1 LeaseTransport = Some l"
    "expires_at l = Some 120000000000" by blast
  from watchdog_deadline [OF r this, of 119999999999] watchdog_deadline [OF r this, of 120000000000]
  show ?thesis using r by (intro exI [of _ s]) simp
qed

end
