(* ===== verification/SimAuth_Ready.thy ===== *)
theory SimAuth_Ready
  imports Prelude Go_Strings
begin

text \<open>
  The readiness gate for SIM authentication (apduarbiter/simauth\_ready.go): a flag that says
  the card has answered a probe since it was last invalidated. Callers that find it unset
  share one probe: one of them runs it, the others sleep on its channel. The step relation has
  one step per critical section, with the probe running outside the mutex.
\<close>

section \<open>The state and its critical sections\<close>

text \<open>Channels are numbered in the order they are made.\<close>

record simauth =
  generation :: u64
  ready :: bool
  probing :: bool
  wait_c :: "nat option"
  last_err :: "string option"
  reason :: string

datatype ready_error = ArbiterNil | ProbeNil | ContextDone string | ProbeFailed string

definition sim_auth_init :: simauth where
  "sim_auth_init =
     \<lparr>generation = 0, ready = False, probing = False, wait_c = None, last_err = None,
      reason = ''''\<rparr>"

definition invalidate :: "string \<Rightarrow> simauth \<Rightarrow> simauth" where
  "invalidate r st =
     (let r = trim_space r; r = (if r = '''' then ''unknown'' else r)
      in st\<lparr>generation := generation st + 1, ready := False, last_err := None, reason := r\<rparr>)"

text \<open>The guards in front of the loop.\<close>

definition check_args :: "bool \<Rightarrow> bool \<Rightarrow> ready_error option" where
  "check_args arbiter_nil probe_nil =
     (if arbiter_nil then Some ArbiterNil else if probe_nil then Some ProbeNil else None)"

text \<open>The first critical section of the loop, given the channel a \<open>make\<close> would return.\<close>

datatype decision = AlreadyReady | WaitOn nat | RunProbe u64 nat

definition decide :: "nat \<Rightarrow> simauth \<Rightarrow> decision \<times> simauth" where
  "decide fresh st =
     (if ready st then (AlreadyReady, st)
      else if probing st then
        (case wait_c st of
           Some c \<Rightarrow> (WaitOn c, st)
         | None \<Rightarrow> (WaitOn fresh, st\<lparr>wait_c := Some fresh\<rparr>))
      else (RunProbe (generation st) fresh, st\<lparr>probing := True, wait_c := Some fresh\<rparr>))"

text \<open>The second one, after the probe: what the caller does next and the channels it closes.\<close>

datatype outcome = Return "ready_error option" | Retry

definition finish :: "u64 \<Rightarrow> nat \<Rightarrow> string option \<Rightarrow> simauth \<Rightarrow> outcome \<times> nat set \<times> simauth" where
  "finish g c err st =
     (let stale = generation st \<noteq> g;
          st1 = (if stale then st else st\<lparr>ready := (err = None), last_err := err\<rparr>);
          closes = (if wait_c st1 = Some c then {c} else {});
          st2 = (if wait_c st1 = Some c then st1\<lparr>wait_c := None\<rparr> else st1);
          st3 = st2\<lparr>probing := False\<rparr>
      in (case err of Some e \<Rightarrow> Return (Some (ProbeFailed e))
          | None \<Rightarrow> if stale then Retry else Return None, closes, st3))"

section \<open>The callers\<close>

text \<open>
  \<open>Probing\<close> remembers, besides the generation and the channel the code keeps, when the probe
  began; \<open>invalidated\<close> and \<open>answered\<close> record when the flag was last invalidated and when the
  probes that succeeded had begun. They are there to state what readiness means.
\<close>

datatype phase =
  Outside | Looping | Waiting nat | Probing u64 nat nat | Returned "ready_error option"

record gate =
  sa :: simauth
  chans :: nat
  closed :: "nat set"
  callers :: "nat \<Rightarrow> phase"
  time :: nat
  invalidated :: nat
  answered :: "nat list"

definition gate_init :: "gate \<Rightarrow> bool" where
  "gate_init s \<longleftrightarrow>
     s = \<lparr>sa = sim_auth_init, chans = 0, closed = {}, callers = (\<lambda>_. Outside), time = 0,
          invalidated = 0, answered = []\<rparr>"

fun phase_of :: "nat \<Rightarrow> decision \<Rightarrow> phase" where
  "phase_of t AlreadyReady = Returned None"
| "phase_of t (WaitOn c) = Waiting c"
| "phase_of t (RunProbe g c) = Probing g c t"

fun phase_after :: "outcome \<Rightarrow> phase" where
  "phase_after (Return e) = Returned e"
| "phase_after Retry = Looping"

inductive gate_step :: "gate \<Rightarrow> gate \<Rightarrow> bool" where
  call:
    "callers s i = Outside \<or> callers s i = Returned e \<Longrightarrow>
     gate_step s (s\<lparr>callers := (callers s)(i :=
        (case check_args False nilprobe of Some err \<Rightarrow> Returned (Some err) | None \<Rightarrow> Looping))\<rparr>)"
| context_done:
    "callers s i = Looping \<or> callers s i = Waiting c \<Longrightarrow>
     gate_step s (s\<lparr>callers := (callers s)(i := Returned (Some (ContextDone msg)))\<rparr>)"
| decide:
    "callers s i = Looping \<Longrightarrow> decide (chans s) (sa s) = (d, st) \<Longrightarrow>
     gate_step s (s\<lparr>sa := st, chans := chans s + 1,
        callers := (callers s)(i := phase_of (time s) d)\<rparr>)"
| wake:
    "callers s i = Waiting c \<Longrightarrow> c \<in> closed s \<Longrightarrow>
     gate_step s (s\<lparr>callers := (callers s)(i := Looping)\<rparr>)"
| finish:
    "callers s i = Probing g c t \<Longrightarrow> finish g c err (sa s) = (out, cl, st) \<Longrightarrow>
     gate_step s (s\<lparr>sa := st, closed := closed s \<union> cl,
        callers := (callers s)(i := phase_after out),
        answered := (if err = None then t # answered s else answered s)\<rparr>)"
| invalidate:
    "generation (sa s) \<noteq> - 1 \<Longrightarrow>
     gate_step s (s\<lparr>sa := invalidate r (sa s), time := time s + 1, invalidated := time s + 1\<rparr>)"

abbreviation gate_reachable :: "gate \<Rightarrow> bool" where
  "gate_reachable \<equiv> reachable gate_init gate_step"

section \<open>The invariant\<close>

definition probe_ok :: "gate \<Rightarrow> bool" where
  "probe_ok s \<longleftrightarrow>
     (\<forall>i g c t. callers s i = Probing g c t \<longrightarrow>
        probing (sa s) \<and> \<not> ready (sa s) \<and> wait_c (sa s) = Some c \<and> c \<notin> closed s
        \<and> g \<le> generation (sa s) \<and> t \<le> time s
        \<and> (g = generation (sa s) \<longleftrightarrow> invalidated s \<le> t))"

definition single_ok :: "gate \<Rightarrow> bool" where
  "single_ok s \<longleftrightarrow>
     (\<forall>i j g c t g' c' t'. callers s i = Probing g c t \<and> callers s j = Probing g' c' t' \<longrightarrow> i = j)
     \<and> (probing (sa s) \<longrightarrow> (\<exists>i g c t. callers s i = Probing g c t))
     \<and> (\<not> probing (sa s) \<longrightarrow> wait_c (sa s) = None)"

definition waiting_ok :: "gate \<Rightarrow> bool" where
  "waiting_ok s \<longleftrightarrow>
     (\<forall>i c. callers s i = Waiting c \<longrightarrow> c \<in> closed s \<or> wait_c (sa s) = Some c)
     \<and> (\<forall>c \<in> closed s. c < chans s) \<and> (\<forall>c. wait_c (sa s) = Some c \<longrightarrow> c < chans s)"

definition fresh_ok :: "gate \<Rightarrow> bool" where
  "fresh_ok s \<longleftrightarrow>
     invalidated s \<le> time s
     \<and> (ready (sa s) \<longrightarrow> \<not> probing (sa s) \<and> (\<exists>t \<in> set (answered s). invalidated s \<le> t))"

definition gate_inv :: "gate \<Rightarrow> bool" where
  "gate_inv s \<longleftrightarrow> probe_ok s \<and> single_ok s \<and> waiting_ok s \<and> fresh_ok s"

lemma gate_init_inv: "gate_init s \<Longrightarrow> gate_inv s"
  by (auto simp: gate_init_def sim_auth_init_def gate_inv_def probe_ok_def single_ok_def
      waiting_ok_def fresh_ok_def)

text \<open>Steps that change no probe and no channel, but one caller's phase.\<close>

lemma quiet_inv:
  assumes "gate_inv s" and "\<And>g c t. callers s i \<noteq> Probing g c t"
    and "\<And>g c t. p \<noteq> Probing g c t" and "\<And>c. p = Waiting c \<Longrightarrow> wait_c (sa s) = Some c"
  shows "gate_inv (s\<lparr>callers := (callers s)(i := p)\<rparr>)"
proof -
  have "probing (sa s) \<Longrightarrow> \<exists>j g c t. j \<noteq> i \<and> callers s j = Probing g c t"
    using assms(1,2) by (metis gate_inv_def single_ok_def)
  then have "probing (sa s) \<Longrightarrow> \<exists>j g c t. ((callers s)(i := p)) j = Probing g c t"
    by (metis fun_upd_other)
  with assms show ?thesis
    by (simp add: gate_inv_def probe_ok_def single_ok_def waiting_ok_def fresh_ok_def)
qed

lemma decide_inv:
  assumes "gate_inv s" and "callers s i = Looping" and "decide (chans s) (sa s) = (d, st)"
  shows "gate_inv (s\<lparr>sa := st, chans := chans s + 1,
        callers := (callers s)(i := phase_of (time s) d)\<rparr>)"
proof (cases "ready (sa s) \<or> probing (sa s)")
  case True
  have w: "wait_c (sa s) \<noteq> None" if "probing (sa s)"
    using assms(1) that by (fastforce simp: gate_inv_def single_ok_def probe_ok_def)
  have st: "st = sa s" and d: "\<And>g c. d \<noteq> RunProbe g c"
    and dw: "\<And>c. d = WaitOn c \<Longrightarrow> wait_c (sa s) = Some c"
    using True assms(3) w by (auto simp: decide_def split: if_splits option.splits)
  have "gate_inv (s\<lparr>chans := chans s + 1\<rparr>)"
    using assms(1)
    by (fastforce simp: gate_inv_def probe_ok_def single_ok_def waiting_ok_def fresh_ok_def)
  from quiet_inv [OF this, of i "phase_of (time s) d"] assms(2) st d dw
  show ?thesis by (cases d) auto
next
  case False
  then have d: "d = RunProbe (generation (sa s)) (chans s)"
    and st: "st = sa s\<lparr>probing := True, wait_c := Some (chans s)\<rparr>"
    using assms(3) by (auto simp: decide_def)
  have np: "callers s j \<noteq> Probing g c t" for j g c t
    using False assms(1) by (auto simp: gate_inv_def probe_ok_def)
  have w: "wait_c (sa s) = None" using False assms(1) by (simp add: gate_inv_def single_ok_def)
  have fr: "invalidated s \<le> time s" using assms(1) by (simp add: gate_inv_def fresh_ok_def)
  have cl: "\<And>c. c \<in> closed s \<Longrightarrow> c < chans s"
    and wt: "\<And>i c. callers s i = Waiting c \<Longrightarrow> c \<in> closed s"
    using assms(1) w by (auto simp: gate_inv_def waiting_ok_def)
  show ?thesis
    unfolding gate_inv_def
  proof (intro conjI)
    show "probe_ok (s\<lparr>sa := st, chans := chans s + 1,
        callers := (callers s)(i := phase_of (time s) d)\<rparr>)"
      using np False fr cl [of "chans s"] by (auto simp: probe_ok_def d st)
    show "single_ok (s\<lparr>sa := st, chans := chans s + 1,
        callers := (callers s)(i := phase_of (time s) d)\<rparr>)"
      using np by (auto simp: single_ok_def d st)
    show "waiting_ok (s\<lparr>sa := st, chans := chans s + 1,
        callers := (callers s)(i := phase_of (time s) d)\<rparr>)"
      using cl wt by (auto simp: waiting_ok_def d st less_Suc_eq)
    show "fresh_ok (s\<lparr>sa := st, chans := chans s + 1,
        callers := (callers s)(i := phase_of (time s) d)\<rparr>)"
      using False fr by (simp add: fresh_ok_def d st)
  qed
qed

lemma finish_inv:
  assumes "gate_inv s" and p: "callers s i = Probing g c t"
    and f: "finish g c err (sa s) = (out, cl, st)"
  shows "gate_inv (s\<lparr>sa := st, closed := closed s \<union> cl,
        callers := (callers s)(i := phase_after out),
        answered := (if err = None then t # answered s else answered s)\<rparr>)"
proof -
  have P: "probing (sa s)" "\<not> ready (sa s)" "wait_c (sa s) = Some c" "c \<notin> closed s"
    "g = generation (sa s) \<longleftrightarrow> invalidated s \<le> t"
    using assms(1) p by (auto simp: gate_inv_def probe_ok_def)
  have one: "callers s j \<noteq> Probing g' c' t'" if "j \<noteq> i" for j g' c' t'
    using assms(1) p that by (metis gate_inv_def single_ok_def)
  have cl: "cl = {c}"
    and st: "probing st = False" "wait_c st = None" "generation st = generation (sa s)"
      "ready st \<longleftrightarrow> g = generation (sa s) \<and> err = None"
    using f P(2,3) by (auto simp: finish_def Let_def split: if_splits)
  have out: "phase_after out \<noteq> Waiting c'" "phase_after out \<noteq> Probing g' c' t'" for g' c' t'
    by (cases out; simp)+
  have W: "waiting_ok s" "fresh_ok s" using assms(1) by (auto simp: gate_inv_def)
  show ?thesis
    unfolding gate_inv_def
  proof (intro conjI)
    show "probe_ok (s\<lparr>sa := st, closed := closed s \<union> cl,
        callers := (callers s)(i := phase_after out),
        answered := (if err = None then t # answered s else answered s)\<rparr>)"
      using one out by (simp add: probe_ok_def)
    show "single_ok (s\<lparr>sa := st, closed := closed s \<union> cl,
        callers := (callers s)(i := phase_after out),
        answered := (if err = None then t # answered s else answered s)\<rparr>)"
      using one out st by (simp add: single_ok_def)
    show "waiting_ok (s\<lparr>sa := st, closed := closed s \<union> cl,
        callers := (callers s)(i := phase_after out),
        answered := (if err = None then t # answered s else answered s)\<rparr>)"
      using W(1) out st P(3) cl by (auto simp: waiting_ok_def)
    show "fresh_ok (s\<lparr>sa := st, closed := closed s \<union> cl,
        callers := (callers s)(i := phase_after out),
        answered := (if err = None then t # answered s else answered s)\<rparr>)"
      using W(2) st P(5) by (auto simp: fresh_ok_def)
  qed
qed

lemma invalidate_inv:
  assumes "gate_inv s" and "generation (sa s) \<noteq> - 1"
  shows "gate_inv (s\<lparr>sa := invalidate r (sa s), time := time s + 1, invalidated := time s + 1\<rparr>)"
proof -
  have "g < generation (sa s) + 1" if "g \<le> generation (sa s)" for g
    by (rule next_word(3) [OF assms(2) that])
  then have g: "g \<le> generation (sa s) + 1 \<and> g \<noteq> generation (sa s) + 1"
    if "g \<le> generation (sa s)" for g using that by (simp add: less_le)
  let ?s = "s\<lparr>sa := invalidate r (sa s), time := time s + 1, invalidated := time s + 1\<rparr>"
  have inv: "generation (sa ?s) = generation (sa s) + 1" "probing (sa ?s) = probing (sa s)"
    "\<not> ready (sa ?s)" "wait_c (sa ?s) = wait_c (sa s)"
    by (simp_all add: invalidate_def Let_def)
  have "probe_ok ?s"
    unfolding probe_ok_def
  proof (intro allI impI)
    fix i h c t assume "callers ?s i = Probing h c t"
    then have p: "probing (sa s) \<and> wait_c (sa s) = Some c \<and> c \<notin> closed s
        \<and> h \<le> generation (sa s) \<and> t \<le> time s"
      using assms(1) by (auto simp: gate_inv_def probe_ok_def)
    then show "probing (sa ?s) \<and> \<not> ready (sa ?s) \<and> wait_c (sa ?s) = Some c \<and> c \<notin> closed ?s
        \<and> h \<le> generation (sa ?s) \<and> t \<le> time ?s
        \<and> (h = generation (sa ?s) \<longleftrightarrow> invalidated ?s \<le> t)"
      using g [of h] inv by auto
  qed
  with assms(1) show ?thesis
    using inv(3) unfolding gate_inv_def single_ok_def waiting_ok_def fresh_ok_def inv(1,2,4) by simp
qed

lemma gate_step_inv: "gate_inv s \<Longrightarrow> gate_step s s' \<Longrightarrow> gate_inv s'"
proof -
  assume inv: "gate_inv s"
  assume "gate_step s s'"
  then show "gate_inv s'"
  proof cases
    case (call i e nilprobe)
    have "gate_inv (s\<lparr>callers := (callers s)(i := (case check_args False nilprobe of
        Some err \<Rightarrow> Returned (Some err) | None \<Rightarrow> Looping))\<rparr>)"
      by (rule quiet_inv [OF inv]) (use call(2) in \<open>auto simp: check_args_def split: if_splits\<close>)
    then show ?thesis using call(1) by simp
  next
    case (context_done i c msg)
    have "gate_inv (s\<lparr>callers := (callers s)(i := Returned (Some (ContextDone msg)))\<rparr>)"
      by (rule quiet_inv [OF inv]) (use context_done(2) in auto)
    then show ?thesis using context_done(1) by simp
  next
    case (wake i c)
    have "gate_inv (s\<lparr>callers := (callers s)(i := Looping)\<rparr>)"
      by (rule quiet_inv [OF inv]) (use wake(2) in auto)
    then show ?thesis using wake(1) by simp
  next
    case (decide i d st)
    with decide_inv [OF inv decide(2,3)] show ?thesis by simp
  next
    case (finish i g c t err out cl st)
    with finish_inv [OF inv finish(2,3)] show ?thesis by simp
  next
    case (invalidate r)
    with invalidate_inv [OF inv] show ?thesis by simp
  qed
qed

interpretation gate_safety: safety gate_init gate_step gate_inv
  by unfold_locales (auto intro: gate_init_inv gate_step_inv)

lemmas gate_inv_reachable = gate_safety.always_good

section \<open>Executable runs\<close>

definition gate_start :: gate where
  "gate_start =
     \<lparr>sa = sim_auth_init, chans = 0, closed = {}, callers = (\<lambda>_. Outside), time = 0,
      invalidated = 0, answered = []\<rparr>"

definition do_call :: "nat \<Rightarrow> gate \<Rightarrow> gate" where
  "do_call i s = s\<lparr>callers := (callers s)(i := Looping)\<rparr>"

definition do_decide :: "nat \<Rightarrow> gate \<Rightarrow> gate" where
  "do_decide i s =
     s\<lparr>sa := snd (decide (chans s) (sa s)), chans := chans s + 1,
       callers := (callers s)(i := phase_of (time s) (fst (decide (chans s) (sa s))))\<rparr>"

definition do_finish :: "nat \<Rightarrow> string option \<Rightarrow> gate \<Rightarrow> gate" where
  "do_finish i err s =
     (case callers s i of
        Probing g c t \<Rightarrow>
          (case finish g c err (sa s) of (out, cl, st) \<Rightarrow>
             s\<lparr>sa := st, closed := closed s \<union> cl,
               callers := (callers s)(i := phase_after out),
               answered := (if err = None then t # answered s else answered s)\<rparr>)
      | _ \<Rightarrow> s)"

lemma start_gate: "gate_reachable gate_start"
  by (rule reachable_init) (simp add: gate_init_def gate_start_def)

lemma call_gate:
  assumes "gate_reachable s" and "callers s i = Outside"
  shows "gate_reachable (do_call i s)"
  using reachable_step [OF assms(1), of "do_call i s"] assms(2) gate_step.call [of s i None False]
  by (simp add: do_call_def check_args_def)

lemma decide_gate:
  assumes "gate_reachable s" and "callers s i = Looping"
  shows "gate_reachable (do_decide i s)"
  using reachable_step [OF assms(1), of "do_decide i s"] assms(2)
    gate_step.decide [of s i "fst (decide (chans s) (sa s))" "snd (decide (chans s) (sa s))"]
  by (simp add: do_decide_def)

lemma finish_gate:
  assumes "gate_reachable s" and "callers s i = Probing g c t"
  shows "gate_step s (do_finish i err s)"
proof -
  obtain out cl st where f: "finish g c err (sa s) = (out, cl, st)" by (cases "finish g c err (sa s)")
  from gate_step.finish [OF assms(2) f] show ?thesis using assms(2) f by (simp add: do_finish_def)
qed

text \<open>Caller 0 runs the probe and caller 1 waits for it.\<close>

definition shared_probe :: gate where
  "shared_probe = do_decide 1 (do_call 1 (do_decide 0 (do_call 0 gate_start)))"

lemmas gate_run_simps =
  shared_probe_def do_decide_def do_call_def gate_start_def decide_def sim_auth_init_def

lemma shared_probe_reachable: "gate_reachable shared_probe"
  unfolding shared_probe_def
  by (intro decide_gate call_gate start_gate) (simp_all add: gate_run_simps)

lemma shared_probe_callers:
  "callers shared_probe 0 = Probing 0 0 0" "callers shared_probe 1 = Waiting 0"
  by (simp_all add: gate_run_simps)

section \<open>Properties\<close>

text \<open>
  C8. A caller is told that the card is ready only when that is true of the card as it is
  now: some probe that began after the last invalidation has succeeded. A probe that was
  overtaken by an invalidation never sets the flag, whatever it answered.
\<close>

theorem ready_answer_is_fresh:
  assumes "gate_reachable s" and "gate_step s s'" and "callers s' i = Returned None"
    and "callers s i \<noteq> Returned None"
  shows "ready (sa s') \<and> (\<exists>t \<in> set (answered s'). invalidated s' \<le> t)"
proof -
  have inv: "gate_inv s'"
    using gate_step_inv [OF gate_inv_reachable [OF assms(1)] assms(2)] .
  have "ready (sa s')"
    using assms(2)
  proof cases
    case (decide j d st)
    then have "d = AlreadyReady" using assms(3,4) by (cases d) (auto split: if_splits)
    then show ?thesis using decide by (auto simp: decide_def split: if_splits option.splits)
  next
    case (finish j g c t err out cl st)
    then have "out = Return None" using assms(3,4) by (cases out) (auto split: if_splits)
    then show ?thesis
      using finish by (auto simp: finish_def Let_def split: option.splits if_splits)
  qed (use assms(3,4) in \<open>auto simp: check_args_def split: if_splits\<close>)
  with inv show ?thesis by (simp add: gate_inv_def fresh_ok_def)
qed

theorem ready_answer_is_fresh_witness:
  "\<exists>s t. gate_reachable s \<and> ready (sa s) \<and> t \<in> set (answered s) \<and> invalidated s \<le> t"
proof -
  have st: "gate_step shared_probe (do_finish 0 None shared_probe)"
    by (rule finish_gate [OF shared_probe_reachable shared_probe_callers(1)])
  have "callers (do_finish 0 None shared_probe) 0 = Returned None"
    using shared_probe_callers(1)
    by (simp add: do_finish_def finish_def Let_def) (simp add: gate_run_simps)
  from ready_answer_is_fresh [OF shared_probe_reachable st this]
  have "ready (sa (do_finish 0 None shared_probe))"
    "\<exists>t \<in> set (answered (do_finish 0 None shared_probe)). invalidated (do_finish 0 None shared_probe) \<le> t"
    using shared_probe_callers(1) by auto
  with reachable_step [OF shared_probe_reachable st] show ?thesis by blast
qed

text \<open>
  One probe at a time, and nobody waits in vain: a sleeping caller's channel is closed
  already, or it belongs to the one caller whose probe is running, whose end closes it.
\<close>

theorem probe_is_shared:
  assumes "gate_reachable s" and "callers s i = Waiting c"
  shows "c \<in> closed s
    \<or> (\<exists>!j. \<exists>g t. callers s j = Probing g c t)
      \<and> (\<forall>j g t err. callers s j = Probing g c t \<longrightarrow> c \<in> closed (do_finish j err s))"
proof (cases "c \<in> closed s")
  case False
  have inv: "probe_ok s" "single_ok s" "waiting_ok s"
    using gate_inv_reachable [OF assms(1)] by (auto simp: gate_inv_def)
  have w: "wait_c (sa s) = Some c" using inv(3) assms(2) False by (auto simp: waiting_ok_def)
  then obtain j g c' t where j: "callers s j = Probing g c' t"
    using inv(2) by (auto simp: single_ok_def)
  then have c': "c' = c" using inv(1) w by (auto simp: probe_ok_def)
  have "\<exists>!j. \<exists>g t. callers s j = Probing g c t"
    using j c' inv(2) unfolding single_ok_def by (intro ex1I [of _ j]) blast+
  moreover have "c \<in> closed (do_finish k err s)" if "callers s k = Probing h c u" for k h u err
    using that w by (simp add: do_finish_def finish_def Let_def)
  ultimately show ?thesis by blast
qed simp

theorem probe_is_shared_witness:
  "\<exists>s c. gate_reachable s \<and> callers s 1 = Waiting c \<and> c \<notin> closed s
     \<and> (\<exists>!j. \<exists>g t. callers s j = Probing g c t)"
  using probe_is_shared [OF shared_probe_reachable shared_probe_callers(2)] shared_probe_reachable
    shared_probe_callers(2)
  by (intro exI [of _ shared_probe] exI [of _ 0]) (auto simp: gate_run_simps)

end
