(* ===== verification/SMS_Rp.thy ===== *)
theory SMS_Rp
  imports Go_Bytes Go_Strings
begin

text \<open>
  The RP layer of SMS over IMS (pkg/smscodec/pdu.go): RP-DATA, RP-ACK and RP-ERROR messages,
  RP addresses in semi-octet BCD, and the sniffing of hexadecimal bodies. The TPDU inside is
  built and read by a third-party package and stays a byte string here.
\<close>

section \<open>Types\<close>

datatype rpdu_kind = KindUnknown | KindData | KindAck | KindError

record rpdu_info =
  ri_kind :: rpdu_kind
  ri_raw_type :: byte
  ri_mr :: byte
  ri_cause :: int

datatype sms_encoding = EncodingAuto | EncodingUCS2

datatype rp_error =
  UnsupportedEncoding string | BodyEmpty | BadHex | RPDUShort
  | DAMissing | DABeyond | OAMissing | OABeyond | UDMissing | UDBeyond
  | CauseShort | NotRPError byte | CauseEmpty | CauseBeyond
  | AddressEmpty | BadBCD byte

section \<open>Encodings and hexadecimal bodies\<close>

definition normalize_sms_encoding :: "string \<Rightarrow> (rp_error, sms_encoding) result" where
  "normalize_sms_encoding raw =
     (let s = to_lower (trim_space raw) in
      if s = '''' \<or> s = ''auto'' then Ok EncodingAuto
      else if s = ''ucs2'' then Ok EncodingUCS2
      else Fail (UnsupportedEncoding raw))"

definition is_hex_char :: "char \<Rightarrow> bool" where
  "is_hex_char c \<longleftrightarrow> c \<in> set ''0123456789abcdefABCDEF''"

definition is_hex_string :: "string \<Rightarrow> bool" where
  "is_hex_string s \<longleftrightarrow> \<not> (length s < 2 \<or> length s mod 2 \<noteq> 0) \<and> list_all is_hex_char s"

text \<open>\<open>hex.DecodeString\<close>.\<close>

definition hex_value :: "char \<Rightarrow> byte option" where
  "hex_value c =
     (let n = of_char c :: nat in
      if 48 \<le> n \<and> n \<le> 57 then Some (of_nat (n - 48))
      else if 97 \<le> n \<and> n \<le> 102 then Some (of_nat (n - 97 + 10))
      else if 65 \<le> n \<and> n \<le> 70 then Some (of_nat (n - 65 + 10))
      else None)"

fun hex_decode :: "string \<Rightarrow> bytes option" where
  "hex_decode [] = Some []"
| "hex_decode [c] = None"
| "hex_decode (c # d # s) =
     (case (hex_value c, hex_value d, hex_decode s) of
        (Some h, Some l, Some bs) \<Rightarrow> Some ((h * 16 + l) # bs)
      | _ \<Rightarrow> None)"

definition decode_body_maybe_hex :: "bytes \<Rightarrow> (rp_error, bytes) result" where
  "decode_body_maybe_hex body =
     (let s = trim_space (string_of_bytes body) in
      if s = '''' then Fail BodyEmpty
      else if is_hex_string s then
        (case hex_decode s of None \<Rightarrow> Fail BadHex | Some b \<Rightarrow> Ok b)
      else Ok body)"

section \<open>RP messages\<close>

definition parse_rp_data :: "bytes \<Rightarrow> (rp_error, byte \<times> bytes) result" where
  "parse_rp_data body =
     (if length body < 3 then Fail RPDUShort
      else at_index body 1 (\<lambda>mr.
        let i = 2 in
        if i \<ge> length body then Fail DAMissing
        else at_index body i (\<lambda>da. let daLen = unat da; i = i + 1 in
        if i + daLen > length body then Fail DABeyond
        else let i = i + daLen in
        if i \<ge> length body then Fail OAMissing
        else at_index body i (\<lambda>oa. let oaLen = unat oa; i = i + 1 in
        if i + oaLen > length body then Fail OABeyond
        else let i = i + oaLen in
        if i \<ge> length body then Fail UDMissing
        else at_index body i (\<lambda>ud. let udLen = unat ud; i = i + 1 in
        if i + udLen > length body then Fail UDBeyond
        else cut body i (i + udLen) (\<lambda>tpdu. Ok (mr, tpdu)))))))"

definition parse_rp_error_cause :: "bytes \<Rightarrow> (rp_error, byte) result" where
  "parse_rp_error_cause body =
     (if length body < 4 then Fail CauseShort
      else at_index body 0 (\<lambda>mti.
        if mti \<noteq> 4 \<and> mti \<noteq> 5 then Fail (NotRPError mti)
        else at_index body 2 (\<lambda>l. let n = unat l in
        if n \<le> 0 then Fail CauseEmpty
        else if 3 + n > length body then Fail CauseBeyond
        else at_index body 3 (\<lambda>c. Ok (c AND 0x7F)))))"

definition classify_rpdu :: "bytes \<Rightarrow> rpdu_info" where
  "classify_rpdu body =
     (let info = \<lparr>ri_kind = KindUnknown, ri_raw_type = 0, ri_mr = 0, ri_cause = 0\<rparr> in
      if length body = 0 then info
      else
        (let info = info\<lparr>ri_raw_type := body ! 0\<rparr>;
             info = (if length body > 1 then info\<lparr>ri_mr := body ! 1\<rparr> else info)
         in if body ! 0 \<in> {0, 1} then info\<lparr>ri_kind := KindData\<rparr>
            else if body ! 0 \<in> {2, 3} then info\<lparr>ri_kind := KindAck\<rparr>
            else if body ! 0 \<in> {4, 5} then
              (let info = info\<lparr>ri_kind := KindError\<rparr> in
               case parse_rp_error_cause body of
                 Ok c \<Rightarrow> info\<lparr>ri_cause := int (unat c)\<rparr> | _ \<Rightarrow> info)
            else info))"

section \<open>Addresses\<close>

definition digit_char :: "byte \<Rightarrow> char" where
  "digit_char n = char_of (48 + unat n)"

text \<open>One nibble of a BCD address: a digit, the filler 15, or an error.\<close>

definition bcd_nibble :: "byte \<Rightarrow> (rp_error, string) result" where
  "bcd_nibble n =
     (if n \<le> 9 then Ok [digit_char n] else if n = 0x0F then Ok '''' else Fail (BadBCD n))"

fun decode_bcd :: "bytes \<Rightarrow> (rp_error, string) result" where
  "decode_bcd [] = Ok ''''"
| "decode_bcd (b # bs) =
     and_then (bcd_nibble (b AND 0x0F)) (\<lambda>lo.
     and_then (bcd_nibble (drop_bit 4 b AND 0x0F)) (\<lambda>hi.
     and_then (decode_bcd bs) (\<lambda>s. Ok (lo @ hi @ s))))"

definition decode_address_value :: "bytes \<Rightarrow> (rp_error, string) result" where
  "decode_address_value v =
     (if length v < 1 then Fail AddressEmpty
      else at_index v 0 (\<lambda>ton. cut v 1 (length v) (\<lambda>bcd.
        and_then (decode_bcd bcd) (\<lambda>s.
          Ok ((if ton AND 0x70 = 0x10 then ''+'' else '''') @ s)))))"

text \<open>The callers keep the string and drop the error, which comes with an empty string.\<close>

definition address_or_empty :: "bytes \<Rightarrow> string" where
  "address_or_empty v = (case decode_address_value v of Ok s \<Rightarrow> s | _ \<Rightarrow> '''')"

definition parse_rp_data_with_addresses ::
  "bytes \<Rightarrow> (rp_error, byte \<times> string \<times> string \<times> bytes) result" where
  "parse_rp_data_with_addresses body =
     (if length body < 5 then Fail RPDUShort
      else at_index body 1 (\<lambda>mr.
        let i = 2 in
        if i \<ge> length body then Fail OAMissing
        else at_index body i (\<lambda>a. let oaLen = unat a; i = i + 1 in
        if i + oaLen > length body then Fail OABeyond
        else cut body i (i + oaLen) (\<lambda>v.
        let oa = (if oaLen > 0 then address_or_empty v else ''''); i = i + oaLen in
        if i \<ge> length body then Fail DAMissing
        else at_index body i (\<lambda>a. let daLen = unat a; i = i + 1 in
        if i + daLen > length body then Fail DABeyond
        else cut body i (i + daLen) (\<lambda>v.
        let da = (if daLen > 0 then address_or_empty v else ''''); i = i + daLen in
        if i \<ge> length body then Fail UDMissing
        else at_index body i (\<lambda>a. let udLen = unat a; i = i + 1 in
        if i + udLen > length body then Fail UDBeyond
        else cut body i (i + udLen) (\<lambda>tpdu. Ok (mr, oa, da, tpdu)))))))))"

text \<open>
  The digits are packed two to a byte, low nibble first, by or-ing into zeroed bytes: a byte
  that is no digit spills over, as it does in the code.
\<close>

definition digit_byte :: "char \<Rightarrow> byte" where
  "digit_byte c = of_nat (of_char c) - 0x30"

fun bcd_pack :: "byte list \<Rightarrow> bytes" where
  "bcd_pack [] = []"
| "bcd_pack [d] = [d OR 0xF0]"
| "bcd_pack (d # e # ds) = (d OR push_bit 4 e) # bcd_pack ds"

definition encode_address :: "string \<Rightarrow> bytes" where
  "encode_address number =
     (let number = trim_space number in
      if number = '''' then [0]
      else
        (let ton = (if has_prefix number ''+'' then 0x91 else 0x81);
             number = (if has_prefix number ''+'' then drop 1 number else number);
             bcd = bcd_pack (map digit_byte number);
             totalLen = 1 + length bcd
         in of_nat totalLen # ton # bcd))"

definition build_rp_data :: "byte \<Rightarrow> bytes \<Rightarrow> string \<Rightarrow> bytes" where
  "build_rp_data mr tpdu smsc =
     [0, mr, 0] @ encode_address smsc @ [of_nat (length tpdu)] @ tpdu"

definition build_rp_ack :: "byte \<Rightarrow> bytes" where
  "build_rp_ack mr = [2, mr]"

definition rp_cause_temporary_failure :: byte where
  "rp_cause_temporary_failure = 41"

definition build_rp_error :: "byte \<Rightarrow> byte \<Rightarrow> bytes" where
  "build_rp_error mr cause = [4, mr, 1, cause, 0]"

definition is_digit_char :: "char \<Rightarrow> bool" where
  "is_digit_char c \<longleftrightarrow> c \<in> set ''0123456789''"

definition is_short_code :: "string \<Rightarrow> bool" where
  "is_short_code phone =
     (if has_prefix phone ''+'' then False
      else (let digits = dropWhile is_digit_char phone in digits = '''' \<and> length phone \<le> 6))"

section \<open>Length-value fields\<close>

text \<open>What the parsers read field by field, as a codec.\<close>

definition lv_enc :: "bytes \<Rightarrow> bytes" where
  "lv_enc v = of_nat (length v) # v"

fun lv_dec :: "bytes \<Rightarrow> (bytes \<times> bytes) option" where
  "lv_dec [] = None"
| "lv_dec (n # r) = (if unat n \<le> length r then Some (take (unat n) r, drop (unat n) r) else None)"

definition lv_valid :: "bytes \<Rightarrow> bool" where
  "lv_valid v \<longleftrightarrow> length v \<le> 255"

lemma unat_of_nat_byte: "unat (of_nat n :: byte) = n mod 256"
  by (simp add: unat_of_nat take_bit_eq_mod)

interpretation lv_codec: prefix_codec lv_enc lv_dec lv_valid
  by unfold_locales (simp add: lv_enc_def lv_valid_def unat_of_nat_byte)

lemma lv_dec_SomeD:
  "lv_dec bs = Some (v, r) \<Longrightarrow> bs = lv_enc v @ r \<and> lv_valid v"
proof (cases bs)
  case (Cons n bs')
  assume "lv_dec bs = Some (v, r)"
  with Cons have n: "unat n \<le> length bs'" "v = take (unat n) bs'" "r = drop (unat n) bs'"
    by (auto split: if_splits)
  then have "length v = unat n" by simp
  moreover have "(of_nat (unat n) :: byte) = n" by simp
  ultimately show ?thesis
    using n Cons unat_byte_bound [of n] by (simp add: lv_enc_def lv_valid_def del: unat_byte_bound)
qed simp

lemma lv_dec_drop:
  "lv_dec (drop i body) =
     (if i \<ge> length body \<or> i + 1 + unat (body ! i) > length body then None
      else Some (take (unat (body ! i)) (drop (i + 1) body), drop (i + 1 + unat (body ! i)) body))"
proof (cases "i < length body")
  case True
  then have "drop i body = body ! i # drop (Suc i) body" by (simp add: Cons_nth_drop_Suc)
  with True show ?thesis by (auto simp: add.commute)
qed simp

text \<open>The grammar of RP-DATA: type, reference, and three length-value fields.\<close>

definition rp_fields :: "bytes \<Rightarrow> (byte \<times> bytes \<times> bytes \<times> bytes) option" where
  "rp_fields body =
     (if length body < 2 then None
      else (case lv_dec (drop 2 body) of None \<Rightarrow> None
        | Some (a, r1) \<Rightarrow> (case lv_dec r1 of None \<Rightarrow> None
        | Some (b, r2) \<Rightarrow> (case lv_dec r2 of None \<Rightarrow> None
        | Some (t, r3) \<Rightarrow> Some (body ! 1, a, b, t)))))"

lemma rp_fields_iff:
  "rp_fields body = Some (mr, a, b, t) \<longleftrightarrow>
     (\<exists>mti rest. body = mti # mr # lv_enc a @ lv_enc b @ lv_enc t @ rest
        \<and> lv_valid a \<and> lv_valid b \<and> lv_valid t)"
proof
  assume l: "rp_fields body = Some (mr, a, b, t)"
  then obtain r1 r2 r3 where d: "lv_dec (drop 2 body) = Some (a, r1)" "lv_dec r1 = Some (b, r2)"
    "lv_dec r2 = Some (t, r3)" and mr: "mr = body ! 1" and n: "2 \<le> length body"
    by (auto simp: rp_fields_def split: if_splits option.splits)
  obtain mti m r where body: "body = mti # m # r"
    using n by (metis Suc_le_length_iff numeral_2_eq_2)
  with d mr show "\<exists>mti rest. body = mti # mr # lv_enc a @ lv_enc b @ lv_enc t @ rest
      \<and> lv_valid a \<and> lv_valid b \<and> lv_valid t"
    by (auto dest!: lv_dec_SomeD)
next
  assume "\<exists>mti rest. body = mti # mr # lv_enc a @ lv_enc b @ lv_enc t @ rest
      \<and> lv_valid a \<and> lv_valid b \<and> lv_valid t"
  then show "rp_fields body = Some (mr, a, b, t)"
    by (auto simp: rp_fields_def lv_codec.dec_enc)
qed

lemma parse_rp_data_fields:
  "parse_rp_data body = Ok (mr, t) \<longleftrightarrow> (\<exists>a b. rp_fields body = Some (mr, a, b, t))"
  by (auto simp: parse_rp_data_def rp_fields_def lv_dec_drop Let_def add.commute add.left_commute)

lemma parse_addresses_fields:
  "parse_rp_data_with_addresses body = Ok (mr, oa, da, t) \<longleftrightarrow>
     (\<exists>a b. rp_fields body = Some (mr, a, b, t)
        \<and> oa = (if a = [] then '''' else address_or_empty a)
        \<and> da = (if b = [] then '''' else address_or_empty b))"
  by (auto simp: parse_rp_data_with_addresses_def rp_fields_def lv_dec_drop Let_def
      add.commute add.left_commute)

section \<open>Telephone numbers round trip\<close>

definition phone_digits :: "string \<Rightarrow> string" where
  "phone_digits n = (if has_prefix n ''+'' then drop 1 n else n)"

definition phone_ok :: "string \<Rightarrow> bool" where
  "phone_ok n \<longleftrightarrow>
     phone_digits n \<noteq> '''' \<and> list_all is_digit_char (phone_digits n) \<and> length (phone_digits n) \<le> 508"

lemma digit_facts:
  assumes "is_digit_char c"
  shows "bcd_nibble (digit_byte c) = Ok [c]" and "digit_byte c \<in> set [0, 1, 2, 3, 4, 5, 6, 7, 8, 9]"
    and "plain_char c" and "c \<noteq> CHR ''+''"
proof -
  have "list_all (\<lambda>c. bcd_nibble (digit_byte c) = Ok [c]
      \<and> digit_byte c \<in> set [0, 1, 2, 3, 4, 5, 6, 7, 8, 9] \<and> plain_char c \<and> c \<noteq> CHR ''+'')
     ''0123456789''" by code_simp
  with assms show "bcd_nibble (digit_byte c) = Ok [c]"
    and "digit_byte c \<in> set [0, 1, 2, 3, 4, 5, 6, 7, 8, 9]" and "plain_char c" and "c \<noteq> CHR ''+''"
    unfolding is_digit_char_def list_all_iff by blast+
qed

lemma nibbles:
  assumes "d \<in> set [0, 1, 2, 3, 4, 5, 6, 7, 8, 9 :: byte]" and "e \<in> set [0, 1, 2, 3, 4, 5, 6, 7, 8, 9]"
  shows "(d OR push_bit 4 e) AND 0x0F = d" and "drop_bit 4 (d OR push_bit 4 e) AND 0x0F = e"
    and "(d OR 0xF0) AND 0x0F = d" and "drop_bit 4 (d OR 0xF0) AND 0x0F = 0x0F"
proof -
  have "list_all (\<lambda>d. list_all (\<lambda>e. (d OR push_bit 4 e) AND 0x0F = d
       \<and> drop_bit 4 (d OR push_bit 4 e) AND 0x0F = e
       \<and> (d OR 0xF0) AND 0x0F = d \<and> drop_bit 4 (d OR 0xF0) AND 0x0F = 0x0F)
     [0, 1, 2, 3, 4, 5, 6, 7, 8, 9 :: byte]) [0, 1, 2, 3, 4, 5, 6, 7, 8, 9 :: byte]"
    by code_simp
  with assms show "(d OR push_bit 4 e) AND 0x0F = d" and "drop_bit 4 (d OR push_bit 4 e) AND 0x0F = e"
    and "(d OR 0xF0) AND 0x0F = d" and "drop_bit 4 (d OR 0xF0) AND 0x0F = 0x0F"
    unfolding list_all_iff by blast+
qed

lemma bcd_filler: "bcd_nibble 0x0F = Ok ''''"
  by code_simp

lemma decode_bcd_pack:
  "list_all is_digit_char ds \<Longrightarrow> decode_bcd (bcd_pack (map digit_byte ds)) = Ok ds"
proof (induction ds rule: hex_decode.induct)
  case (2 c)
  then have "is_digit_char c" by simp
  note c = digit_facts(1,2) [OF this]
  show ?case using nibbles(3,4) [OF c(2) c(2)] c(1) bcd_filler by simp
next
  case (3 c d s)
  then have "is_digit_char c" "is_digit_char d" by simp_all
  note cd = digit_facts(1,2) [OF this(1)] digit_facts(1,2) [OF this(2)]
  show ?case using nibbles(1,2) [OF cd(2) cd(4)] cd(1,3) 3 by simp
qed simp

lemma bcd_pack_length: "length (bcd_pack ds) = (length ds + 1) div 2"
  by (induction ds rule: bcd_pack.induct) auto

lemma phone_trim: "phone_ok n \<Longrightarrow> trim_space n = n \<and> n \<noteq> ''''"
proof -
  assume ok: "phone_ok n"
  obtain ds where ds: "ds \<noteq> ''''" "list_all is_digit_char ds" and n: "n = ds \<or> n = CHR ''+'' # ds"
    using ok by (cases "has_prefix n ''+''") (auto simp: phone_ok_def phone_digits_def has_prefix_iff)
  have "plain_char (CHR ''+'')" by code_simp
  moreover have "plain_char (hd ds)" "plain_char (last ds)"
    using ds by (auto intro!: digit_facts(3) simp: list_all_iff)
  ultimately show ?thesis using n ds(1) by (auto intro!: trim_space_id)
qed

definition phone_value :: "string \<Rightarrow> bytes" where
  "phone_value n =
     (if has_prefix n ''+'' then 0x91 else 0x81) # bcd_pack (map digit_byte (phone_digits n))"

lemma encode_address_value:
  assumes "phone_ok n"
  shows "encode_address n = lv_enc (phone_value n)" and "lv_valid (phone_value n)"
proof -
  show "encode_address n = lv_enc (phone_value n)"
    using phone_trim [OF assms]
    by (simp add: encode_address_def lv_enc_def phone_value_def phone_digits_def Let_def)
  have "length (phone_value n) = 1 + (length (phone_digits n) + 1) div 2"
    by (simp add: phone_value_def bcd_pack_length)
  then show "lv_valid (phone_value n)" using assms unfolding lv_valid_def phone_ok_def by linarith
qed

lemma type_of_number: "(0x91 :: byte) AND 0x70 = 0x10" "(0x81 :: byte) AND 0x70 \<noteq> 0x10"
  by code_simp+

lemma decode_phone_value:
  assumes "phone_ok n"
  shows "decode_address_value (phone_value n) = Ok n"
proof -
  have d: "decode_bcd (bcd_pack (map digit_byte (phone_digits n))) = Ok (phone_digits n)"
    using assms by (intro decode_bcd_pack) (simp add: phone_ok_def)
  show ?thesis
  proof (cases "has_prefix n ''+''")
    case True
    then obtain ds where "n = CHR ''+'' # ds" by (auto simp: has_prefix_iff)
    with d True type_of_number show ?thesis
      by (simp add: decode_address_value_def phone_value_def phone_digits_def)
  next
    case False
    with d type_of_number show ?thesis
      by (simp add: decode_address_value_def phone_value_def phone_digits_def)
  qed
qed

text \<open>RP addresses of valid numbers are a codec of their own.\<close>

definition address_dec :: "bytes \<Rightarrow> (string \<times> bytes) option" where
  "address_dec bs =
     (case lv_dec bs of None \<Rightarrow> None
      | Some (v, r) \<Rightarrow> (case decode_address_value v of Ok s \<Rightarrow> Some (s, r) | _ \<Rightarrow> None))"

interpretation address_codec: prefix_codec encode_address address_dec phone_ok
  by unfold_locales
    (simp add: address_dec_def encode_address_value lv_codec.dec_enc decode_phone_value)

section \<open>Properties\<close>

text \<open>
  C9. The RP-DATA parser accepts exactly the grammar: it returns reference and TPDU when
  the body is a type byte, the reference, and three length-value fields with anything behind
  them, and then the TPDU is the third field; in every other case it returns an error, and it
  never panics.
\<close>

theorem rp_data_parser_is_the_grammar:
  "(parse_rp_data body = Ok (mr, tpdu) \<longleftrightarrow>
      (\<exists>mti a b rest. body = mti # mr # lv_enc a @ lv_enc b @ lv_enc tpdu @ rest
         \<and> lv_valid a \<and> lv_valid b \<and> lv_valid tpdu))
   \<and> parse_rp_data body \<noteq> Panic"
proof
  show "parse_rp_data body = Ok (mr, tpdu) \<longleftrightarrow>
      (\<exists>mti a b rest. body = mti # mr # lv_enc a @ lv_enc b @ lv_enc tpdu @ rest
         \<and> lv_valid a \<and> lv_valid b \<and> lv_valid tpdu)"
    unfolding parse_rp_data_fields rp_fields_iff by blast
  show "parse_rp_data body \<noteq> Panic"
    by (simp add: parse_rp_data_def Let_def)
qed

text \<open>
  C10. What \<open>BuildRPData\<close> builds is read back by both parsers, for a TPDU of any length: the
  length byte wraps at 256, so what comes back is the first \<open>len mod 256\<close> bytes, the whole
  TPDU exactly up to 255 bytes; and the service centre's number comes back as the
  destination address.
\<close>

theorem rp_data_round_trip:
  assumes "phone_ok smsc"
  shows "parse_rp_data (build_rp_data mr tpdu smsc) = Ok (mr, take (length tpdu mod 256) tpdu)
    \<and> parse_rp_data_with_addresses (build_rp_data mr tpdu smsc) =
        Ok (mr, '''', smsc, take (length tpdu mod 256) tpdu)
    \<and> ri_kind (classify_rpdu (build_rp_data mr tpdu smsc)) = KindData
    \<and> ri_mr (classify_rpdu (build_rp_data mr tpdu smsc)) = mr"
proof -
  let ?t = "take (length tpdu mod 256) tpdu"
  have n: "length ?t = length tpdu mod 256" by simp
  have v: "lv_valid ?t" using n by (simp add: lv_valid_def)
  have "of_nat (length tpdu mod 256) = (of_nat (length tpdu) :: byte)"
    by (rule unsigned_word_eqI [where 'a = nat]) (simp add: unat_of_nat_byte)
  then have "lv_enc ?t @ drop (length tpdu mod 256) tpdu = of_nat (length tpdu) # tpdu"
    using n by (simp add: lv_enc_def)
  then have b: "build_rp_data mr tpdu smsc =
      0 # mr # lv_enc [] @ lv_enc (phone_value smsc) @ lv_enc ?t @ drop (length tpdu mod 256) tpdu"
    by (simp add: build_rp_data_def encode_address_value(1) [OF assms] lv_enc_def)
  have f: "rp_fields (build_rp_data mr tpdu smsc) = Some (mr, [], phone_value smsc, ?t)"
    unfolding rp_fields_iff using b v encode_address_value(2) [OF assms]
    by (auto simp: lv_valid_def)
  have "parse_rp_data (build_rp_data mr tpdu smsc) = Ok (mr, ?t)"
    unfolding parse_rp_data_fields using f by blast
  moreover have "parse_rp_data_with_addresses (build_rp_data mr tpdu smsc) = Ok (mr, '''', smsc, ?t)"
    unfolding parse_addresses_fields using f decode_phone_value [OF assms]
    by (auto simp: address_or_empty_def phone_value_def)
  ultimately show ?thesis by (simp add: classify_rpdu_def build_rp_data_def Let_def)
qed

theorem rp_data_round_trip_witness:
  "parse_rp_data_with_addresses (build_rp_data 7 [1, 2, 3] ''+8613800100500'') =
     Ok (7, '''', ''+8613800100500'', [1, 2, 3])"
proof -
  have "phone_ok ''+8613800100500''" by code_simp
  from rp_data_round_trip [OF this, of 7 "[1, 2, 3]"] show ?thesis by simp
qed

lemma hex_char_value: "is_hex_char c \<Longrightarrow> hex_value c \<noteq> None"
proof -
  have "list_all (\<lambda>c. hex_value c \<noteq> None) ''0123456789abcdefABCDEF''" by code_simp
  then show "is_hex_char c \<Longrightarrow> hex_value c \<noteq> None"
    by (auto simp only: is_hex_char_def list_all_iff)
qed

lemma hex_decode_total:
  "list_all is_hex_char s \<Longrightarrow> even (length s) \<Longrightarrow>
     \<exists>bs. hex_decode s = Some bs \<and> 2 * length bs = length s"
proof (induction s rule: hex_decode.induct)
  case (3 c d s)
  then obtain h l where "hex_value c = Some h" "hex_value d = Some l"
    using hex_char_value [of c] hex_char_value [of d] by auto
  with 3 show ?case by auto
qed auto

text \<open>
  Sniffing a body for hexadecimal is total: the only error is for a body of white space
  alone, a body that looks like hexadecimal always decodes, to half its trimmed length, and
  any other body comes back unchanged.
\<close>

theorem body_sniffing_total:
  "(decode_body_maybe_hex body = Fail BodyEmpty \<longleftrightarrow> trim_space (string_of_bytes body) = '''')
   \<and> decode_body_maybe_hex body \<noteq> Fail BadHex
   \<and> (case decode_body_maybe_hex body of
        Ok b \<Rightarrow> (if is_hex_string (trim_space (string_of_bytes body))
                 then 2 * length b = length (trim_space (string_of_bytes body)) else b = body)
      | Fail e \<Rightarrow> e = BodyEmpty | Panic \<Rightarrow> False)"
proof (cases "is_hex_string (trim_space (string_of_bytes body))")
  case True
  then obtain b where "hex_decode (trim_space (string_of_bytes body)) = Some b"
    "2 * length b = length (trim_space (string_of_bytes body))"
    using hex_decode_total [of "trim_space (string_of_bytes body)"]
    by (auto simp: is_hex_string_def)
  with True show ?thesis by (auto simp: decode_body_maybe_hex_def Let_def is_hex_string_def)
next
  case False
  then show ?thesis by (simp add: decode_body_maybe_hex_def Let_def)
qed

text \<open>
  Classification: acknowledgements and errors are recognised with their reference, the
  cause of an error is read back without its extension bit, and an error body whose cause
  element is damaged is still classified as an error, with cause 0.
\<close>

theorem classify_built_reports:
  "classify_rpdu (build_rp_ack mr) = \<lparr>ri_kind = KindAck, ri_raw_type = 2, ri_mr = mr, ri_cause = 0\<rparr>
   \<and> classify_rpdu (build_rp_error mr cause) =
      \<lparr>ri_kind = KindError, ri_raw_type = 4, ri_mr = mr, ri_cause = int (unat (cause AND 0x7F))\<rparr>
   \<and> parse_rp_error_cause body \<noteq> Panic
   \<and> ri_kind (classify_rpdu (4 # body)) = KindError"
proof -
  have "parse_rp_error_cause body \<noteq> Panic"
    by (auto simp: parse_rp_error_cause_def at_index_def Let_def)
  moreover have "ri_kind (classify_rpdu (4 # body)) = KindError"
    by (auto simp: classify_rpdu_def Let_def split: result.splits)
  ultimately show ?thesis
    by (simp add: classify_rpdu_def build_rp_ack_def build_rp_error_def parse_rp_error_cause_def
        Let_def)
qed

end
