(* ===== verification/SMS_Trim.thy ===== *)
theory SMS_Trim
  imports SMS_Rp
begin

text \<open>
  Trimming of SMS-DELIVER TPDUs (pkg/smscodec/pdu\_trim.go): modems hand out PDUs with bytes
  behind the declared length, and GSM 7-bit user data with spare bits set. The alphabet of a
  data coding scheme is decided by the third-party tpdu package: it is the parameter
  \<open>alpha\<close>, None where that package returns an error.
\<close>

datatype alphabet = Alpha7Bit | Alpha8Bit | AlphaUCS2 | AlphaReserved

record layout =
  ly_dcs :: byte
  ly_udl :: nat
  ly_offset :: nat
  ly_octets :: nat
  ly_alphabet :: alphabet

text \<open>\<open>Fail ()\<close> is the result with \<open>ok = false\<close>.\<close>

definition deliver_tpdu_layout ::
  "(byte \<Rightarrow> alphabet option) \<Rightarrow> bytes \<Rightarrow> (unit, layout) result" where
  "deliver_tpdu_layout alpha tpdu =
     (if length tpdu < 1 then Fail ()
      else at_index tpdu 0 (\<lambda>first.
        if first AND 0x03 \<noteq> 0 then Fail ()
        else let i = 1 in
        if i + 2 > length tpdu then Fail ()
        else at_index tpdu i (\<lambda>oa.
        let oaLen = unat oa; i = i + 2; oaOctets = (oaLen + 1) div 2 in
        if i + oaOctets > length tpdu then Fail ()
        else let i = i + oaOctets in
        if i + 10 > length tpdu then Fail ()
        else at_index tpdu (i + 1) (\<lambda>dcs. let i = i + 2 + 7 in
        at_index tpdu i (\<lambda>u. let udl = unat u; i = i + 1 in
        case alpha dcs of None \<Rightarrow> Fail ()
        | Some a \<Rightarrow>
            (let udOctets = (if a = Alpha7Bit then (udl * 7 + 7) div 8 else udl) in
             if i + udOctets > length tpdu then Fail ()
             else Ok \<lparr>ly_dcs = dcs, ly_udl = udl, ly_offset = i, ly_octets = udOctets,
                      ly_alphabet = a\<rparr>))))))"

definition deliver_tpdu_declared_length ::
  "(byte \<Rightarrow> alphabet option) \<Rightarrow> bytes \<Rightarrow> (unit, nat) result" where
  "deliver_tpdu_declared_length alpha tpdu =
     and_then (deliver_tpdu_layout alpha tpdu) (\<lambda>l.
       let want = ly_offset l + ly_octets l in
       if want > length tpdu then Fail () else Ok want)"

text \<open>The functions that return their input with \<open>false\<close> or a changed copy with \<open>true\<close>.\<close>

definition trim_deliver_tpdu ::
  "(byte \<Rightarrow> alphabet option) \<Rightarrow> bytes \<Rightarrow> (unit, bytes \<times> bool) result" where
  "trim_deliver_tpdu alpha tpdu =
     (case deliver_tpdu_declared_length alpha tpdu of
        Panic \<Rightarrow> Panic
      | Fail _ \<Rightarrow> Ok (tpdu, False)
      | Ok want \<Rightarrow>
          if want \<ge> length tpdu then Ok (tpdu, False)
          else cut tpdu 0 want (\<lambda>t. Ok (t, True)))"

definition normalize_spare_bits ::
  "(byte \<Rightarrow> alphabet option) \<Rightarrow> bytes \<Rightarrow> (unit, bytes \<times> bool) result" where
  "normalize_spare_bits alpha tpdu =
     (case deliver_tpdu_layout alpha tpdu of
        Panic \<Rightarrow> Panic
      | Fail _ \<Rightarrow> Ok (tpdu, False)
      | Ok l \<Rightarrow>
          if ly_alphabet l \<noteq> Alpha7Bit \<or> ly_udl l = 0 \<or> ly_octets l = 0 then Ok (tpdu, False)
          else (let want = ly_offset l + ly_octets l in
            if want > length tpdu then Ok (tpdu, False)
            else (let usedBits = (ly_udl l * 7) mod 8 in
              if usedBits = 0 then Ok (tpdu, False)
              else (let m = (of_nat (2 ^ usedBits - 1) :: byte); last = want - 1 in
                at_index tpdu last (\<lambda>b.
                  if b AND NOT m = 0 then Ok (tpdu, False)
                  else Ok (tpdu[last := b AND m], True))))))"

section \<open>PDUs of AT commands\<close>

text \<open>\<open>hex.EncodeToString\<close>.\<close>

definition hex_digit :: "nat \<Rightarrow> char" where
  "hex_digit n = (if n < 10 then char_of (48 + n) else char_of (87 + n))"

fun hex_encode :: "bytes \<Rightarrow> string" where
  "hex_encode [] = []"
| "hex_encode (b # bs) = hex_digit (unat b div 16) # hex_digit (unat b mod 16) # hex_encode bs"

definition parse_at_sms_header_tpdu_length :: "string \<Rightarrow> int option" where
  "parse_at_sms_header_tpdu_length header =
     (case last_index (CHR '','') header of
        None \<Rightarrow> None
      | Some idx \<Rightarrow>
          if idx + 1 \<ge> length header then None
          else (case atoi (trim_space (drop (idx + 1) header)) of
              None \<Rightarrow> None
            | Some n \<Rightarrow> if n < 0 then None else Some n))"

definition trim_full_pdu_hex_by_tpdu_length ::
  "(byte \<Rightarrow> alphabet option) \<Rightarrow> string \<Rightarrow> int \<Rightarrow> (unit, string \<times> bool) result" where
  "trim_full_pdu_hex_by_tpdu_length alpha pduHex tpduLen =
     (let raw = trim_space pduHex in
      if raw = [] \<or> tpduLen < 0 then Ok (raw, False)
      else (case hex_decode raw of
          None \<Rightarrow> Ok (raw, False)
        | Some b \<Rightarrow>
            if length b = 0 then Ok (raw, False)
            else at_index b 0 (\<lambda>s.
              let smscLen = unat s;
                  want = wrap_int (1 + int smscLen + tpduLen) in
              if want \<le> 0 \<or> want > int (length b) then Ok (to_upper raw, False)
              else cut b 0 (nat want) (\<lambda>full.
                let trimmed = want < int (length b); tpduOffset = 1 + smscLen in
                cut full tpduOffset (length full) (\<lambda>tpdu.
                and_then (trim_deliver_tpdu alpha tpdu) (\<lambda>(t, ok).
                if ok then
                  cut full 0 tpduOffset (\<lambda>head. Ok (to_upper (hex_encode (head @ t)), True))
                else Ok (to_upper (hex_encode full), trimmed)))))))"

definition trim_full_pdu_hex_by_at_header ::
  "(byte \<Rightarrow> alphabet option) \<Rightarrow> string \<Rightarrow> string \<Rightarrow> (unit, string \<times> bool) result" where
  "trim_full_pdu_hex_by_at_header alpha pduHex header =
     (case parse_at_sms_header_tpdu_length header of
        None \<Rightarrow> Ok (trim_space pduHex, False)
      | Some n \<Rightarrow> trim_full_pdu_hex_by_tpdu_length alpha pduHex n)"

section \<open>The layout\<close>

lemma layout_ok:
  assumes "deliver_tpdu_layout alpha tpdu = Ok l"
  shows "ly_offset l + ly_octets l \<le> length tpdu" and "12 \<le> ly_offset l"
    and "ly_udl l \<le> 255"
    and "ly_octets l = (if ly_alphabet l = Alpha7Bit then (ly_udl l * 7 + 7) div 8 else ly_udl l)"
  using assms unat_byte_bound
  by (auto simp: deliver_tpdu_layout_def at_index_def Let_def less_Suc_eq_le [symmetric]
      split: if_splits option.splits)

lemma layout_no_panic: "deliver_tpdu_layout alpha tpdu \<noteq> Panic"
  by (auto simp: deliver_tpdu_layout_def at_index_def Let_def split: option.splits)

text \<open>The layout depends on the bytes in front of the user data alone, and on there being enough.\<close>

lemma layout_frame:
  assumes "deliver_tpdu_layout alpha tpdu = Ok l" and "ly_offset l + ly_octets l \<le> length u"
    and "\<And>i. i < ly_offset l \<Longrightarrow> u ! i = tpdu ! i"
  shows "deliver_tpdu_layout alpha u = Ok l"
proof -
  have h: "tpdu \<noteq> []" "(tpdu ! 0) AND 3 = 0" "3 \<le> length tpdu"
    using assms(1) by (auto simp: deliver_tpdu_layout_def at_index_def Let_def split: if_splits)
  define k where "k = 3 + (unat (tpdu ! 1) + 1) div 2"
  have off: "ly_offset l = k + 10" "ly_dcs l = tpdu ! (k + 1)" "ly_udl l = unat (tpdu ! (k + 9))"
    "alpha (tpdu ! (k + 1)) = Some (ly_alphabet l)"
    and oc: "ly_octets l = (if ly_alphabet l = Alpha7Bit then (ly_udl l * 7 + 7) div 8 else ly_udl l)"
    using assms(1) by (auto simp: deliver_tpdu_layout_def at_index_def Let_def k_def
        simp del: One_nat_def add_2_eq_Suc add_2_eq_Suc' split: if_splits option.splits)
  have u: "u ! 0 = tpdu ! 0" "u ! 1 = tpdu ! 1" "u ! (k + 1) = tpdu ! (k + 1)"
    "u ! (k + 9) = tpdu ! (k + 9)" using assms(3) off(1) by (auto simp: k_def)
  have n: "k + 10 + ly_octets l \<le> length u" using assms(2) off(1) by simp
  then have "u \<noteq> []" by auto
  have "deliver_tpdu_layout alpha u =
      (if k + 10 + ly_octets l > length u then Fail ()
       else Ok \<lparr>ly_dcs = ly_dcs l, ly_udl = ly_udl l, ly_offset = k + 10,
                ly_octets = ly_octets l, ly_alphabet = ly_alphabet l\<rparr>)"
    using h u n off oc \<open>u \<noteq> []\<close>
    by (auto simp: deliver_tpdu_layout_def at_index_def Let_def k_def
        simp del: One_nat_def add_2_eq_Suc add_2_eq_Suc' split: if_splits)
  then show ?thesis using n off by simp
qed

section \<open>Properties\<close>

lemma declared_length_ok:
  "deliver_tpdu_declared_length alpha tpdu = Ok n \<longleftrightarrow>
     (\<exists>l. deliver_tpdu_layout alpha tpdu = Ok l \<and> n = ly_offset l + ly_octets l)"
  by (cases "deliver_tpdu_layout alpha tpdu")
    (auto simp: deliver_tpdu_declared_length_def Let_def not_less dest: layout_ok(1))

lemma declared_length_no_panic: "deliver_tpdu_declared_length alpha tpdu \<noteq> Panic"
  by (auto simp: deliver_tpdu_declared_length_def and_then_Panic_iff layout_no_panic Let_def
      split: if_splits)

lemma trim_deliver_cases:
  obtains (same) "trim_deliver_tpdu alpha tpdu = Ok (tpdu, False)"
    "\<forall>n. deliver_tpdu_declared_length alpha tpdu = Ok n \<longrightarrow> length tpdu \<le> n"
  | (shorter) n where "deliver_tpdu_declared_length alpha tpdu = Ok n" "n < length tpdu"
    "trim_deliver_tpdu alpha tpdu = Ok (take n tpdu, True)"
  using declared_length_no_panic [of alpha tpdu]
  by (cases "deliver_tpdu_declared_length alpha tpdu") (force simp: trim_deliver_tpdu_def)+

text \<open>
  C11. Trimming a deliver TPDU cuts exactly what lies behind its declared length: it never
  panics, the result is a prefix, its declared length is unchanged and is now its length,
  and trimming again changes nothing.
\<close>

theorem trim_cuts_to_declared_length:
  "\<exists>t ok. trim_deliver_tpdu alpha tpdu = Ok (t, ok)
     \<and> t = take (length t) tpdu \<and> (ok \<longleftrightarrow> length t < length tpdu)
     \<and> (case deliver_tpdu_declared_length alpha tpdu of
          Ok n \<Rightarrow> length t = n \<and> deliver_tpdu_declared_length alpha t = Ok n
        | _ \<Rightarrow> t = tpdu)
     \<and> trim_deliver_tpdu alpha t = Ok (t, False)"
proof (cases rule: trim_deliver_cases [of alpha tpdu])
  case same
  moreover have "n = length tpdu" if n: "deliver_tpdu_declared_length alpha tpdu = Ok n" for n
  proof -
    obtain l where "deliver_tpdu_layout alpha tpdu = Ok l" "n = ly_offset l + ly_octets l"
      using n by (auto simp: declared_length_ok)
    from layout_ok(1) [OF this(1)] this(2) same(2) n show ?thesis by fastforce
  qed
  moreover have "deliver_tpdu_declared_length alpha tpdu \<noteq> Panic"
    by (rule declared_length_no_panic)
  ultimately show ?thesis
    by (intro exI [of _ tpdu] exI [of _ False])
      (cases "deliver_tpdu_declared_length alpha tpdu", auto)
next
  case (shorter n)
  then obtain l where l: "deliver_tpdu_layout alpha tpdu = Ok l" "n = ly_offset l + ly_octets l"
    by (auto simp: declared_length_ok)
  have "deliver_tpdu_layout alpha (take n tpdu) = Ok l"
    by (rule layout_frame [OF l(1)]) (use l(2) shorter(2) in auto)
  then have d: "deliver_tpdu_declared_length alpha (take n tpdu) = Ok n"
    using l(2) by (auto simp: declared_length_ok)
  then have "trim_deliver_tpdu alpha (take n tpdu) = Ok (take n tpdu, False)"
    using shorter(2) by (simp add: trim_deliver_tpdu_def)
  with d shorter show ?thesis
    by (intro exI [of _ "take n tpdu"] exI [of _ True]) simp
qed

text \<open>The bits of the user data, in the order GSM 7-bit packing numbers them.\<close>

definition ud_bit :: "bytes \<Rightarrow> nat \<Rightarrow> nat \<Rightarrow> bool" where
  "ud_bit tpdu off k = bit (tpdu ! (off + k div 8)) (k mod 8)"

lemma low_mask_bit:
  assumes "0 < n" and "n < 8"
  shows "bit (of_nat (2 ^ n - 1) :: byte) k \<longleftrightarrow> k < n"
proof -
  have "(of_nat (2 ^ n - 1) :: byte) = mask n"
    using assms(1) by (simp add: mask_eq_exp_minus_1 of_nat_diff)
  then show ?thesis using assms(2) by (auto simp: bit_mask_iff)
qed

lemma clear_high_bits:
  assumes "0 < n" and "n < 8" and "k < 8"
  shows "bit ((b :: byte) AND of_nat (2 ^ n - 1)) k \<longleftrightarrow> bit b k \<and> k < n"
  using low_mask_bit [OF assms(1,2)] by (simp add: bit_and_iff)

lemma septet_octets: "v mod 8 \<noteq> (0 :: nat) \<Longrightarrow> (v + 7) div 8 = v div 8 + 1"
proof -
  assume r: "v mod 8 \<noteq> 0"
  have "v mod 8 < 8" by simp
  with r have one: "(v mod 8 + 7) div 8 = 1" by (intro div_nat_eqI) simp_all
  have "(v + 7) div 8 = (v mod 8 + 7 + v div 8 * 8) div 8" by simp
  also have "\<dots> = v div 8 + (v mod 8 + 7) div 8" by (rule div_mult_self1) simp
  finally show ?thesis using one by simp
qed

lemma whole_octets: "v mod 8 = (0 :: nat) \<Longrightarrow> 8 * ((v + 7) div 8) = v"
  by (auto simp: mod_eq_0_iff_dvd elim!: dvdE)

lemma last_octet:
  fixes k v :: nat
  assumes "k div 8 = v div 8"
  shows "k < v \<longleftrightarrow> k mod 8 < v mod 8"
proof -
  have eqs: "v div 8 * 8 + k mod 8 = k" "v div 8 * 8 + v mod 8 = v"
    using div_mult_mod_eq [of k 8] div_mult_mod_eq [of v 8] by (simp_all only: assms)
  have "v div 8 * 8 + k mod 8 < v div 8 * 8 + v mod 8 \<longleftrightarrow> k mod 8 < v mod 8"
    by (rule nat_add_left_cancel_less)
  then show ?thesis by (simp only: eqs)
qed

lemma octet_before:
  fixes k v :: nat
  assumes "k < 8 * (v div 8 + 1)" and "k div 8 \<noteq> v div 8"
  shows "k < v"
proof -
  have "k div 8 < v div 8" using assms by simp
  then show ?thesis using div_mult_mod_eq [of k 8] div_mult_mod_eq [of v 8] by (metis div_le_mono not_le)
qed

text \<open>Writing the masked last octet is what the definition of the bits asks for.\<close>

lemma masked_bits:
  assumes off: "off + 7 * u div 8 < length tpdu" and r: "(7 * u) mod 8 \<noteq> (0 :: nat)"
    and k: "k < 8 * (7 * u div 8 + 1)"
    and t: "t = tpdu[off + 7 * u div 8 :=
      tpdu ! (off + 7 * u div 8) AND of_nat (2 ^ ((7 * u) mod 8) - 1)]"
  shows "ud_bit t off k \<longleftrightarrow> k < 7 * u \<and> ud_bit tpdu off k"
proof (cases "k div 8 = 7 * u div 8")
  case True
  have "ud_bit t off k \<longleftrightarrow> ud_bit tpdu off k \<and> k mod 8 < (7 * u) mod 8"
    unfolding ud_bit_def t True nth_list_update_eq [OF off]
    using r by (subst clear_high_bits) auto
  with last_octet [OF True] show ?thesis by blast
next
  case False
  with octet_before [OF k False] show ?thesis by (auto simp: ud_bit_def t)
qed

lemma masked_same: "x AND NOT m = 0 \<Longrightarrow> x AND m = (x :: byte)"
proof (rule bit_word_eqI)
  fix n assume x: "x AND NOT m = 0" and n: "n < LENGTH(8)"
  have "\<not> bit (x AND NOT m) n" using x by simp
  then show "bit (x AND m) n = bit x n"
    using n by (auto simp: bit_and_iff bit_not_iff)
qed

text \<open>
  Clearing the spare bits of 7-bit user data clears the padding and nothing else: the
  result has the same length and layout, every bit of every septet is kept, every bit behind
  the last septet is zero, and the bytes in front of the user data are untouched.
\<close>

theorem spare_bits_cleared:
  assumes "deliver_tpdu_layout alpha tpdu = Ok l" and "ly_alphabet l = Alpha7Bit"
  shows "\<exists>t ok. normalize_spare_bits alpha tpdu = Ok (t, ok)
     \<and> length t = length tpdu \<and> deliver_tpdu_layout alpha t = Ok l
     \<and> take (ly_offset l) t = take (ly_offset l) tpdu
     \<and> (\<forall>k. k < 8 * ly_octets l \<longrightarrow>
          ud_bit t (ly_offset l) k = (k < 7 * ly_udl l \<and> ud_bit tpdu (ly_offset l) k))"
proof -
  let ?u = "ly_udl l" and ?off = "ly_offset l"
  have oct: "ly_octets l = (?u * 7 + 7) div 8" using layout_ok(4) [OF assms(1)] assms(2) by simp
  have len: "?off + ly_octets l \<le> length tpdu" by (rule layout_ok(1) [OF assms(1)])
  show ?thesis
  proof (cases "(7 * ?u) mod 8 = 0")
    case True
    then have "8 * ly_octets l = 7 * ?u" using whole_octets [of "7 * ?u"] by (simp add: oct mult.commute)
    moreover have "normalize_spare_bits alpha tpdu = Ok (tpdu, False)"
      using True assms len by (simp add: normalize_spare_bits_def Let_def mult.commute)
    ultimately show ?thesis using assms(1) by auto
  next
    case False
    define i where "i = ?off + 7 * ?u div 8"
    let ?m = "of_nat (2 ^ ((7 * ?u) mod 8) - 1) :: byte"
    have o: "ly_octets l = 7 * ?u div 8 + 1" using septet_octets [OF False] by (simp add: oct mult.commute)
    have i: "i < length tpdu" "?off + ly_octets l - 1 = i" using len o by (auto simp: i_def)
    have u: "?u \<noteq> 0" using False by (intro notI) simp
    define t where "t = tpdu[i := tpdu ! i AND ?m]"
    have n: "normalize_spare_bits alpha tpdu =
        (if tpdu ! i AND NOT ?m = 0 then Ok (tpdu, False) else Ok (t, True))"
      using False assms len u o i
      by (simp add: normalize_spare_bits_def Let_def mult.commute t_def)
    have same: "t = tpdu" if "tpdu ! i AND NOT ?m = 0"
      using masked_same [OF that] by (simp add: t_def)
    have "deliver_tpdu_layout alpha t = Ok l"
      by (rule layout_frame [OF assms(1)]) (use len in \<open>auto simp: t_def i_def\<close>)
    moreover have "take ?off t = take ?off tpdu" by (simp add: t_def i_def)
    moreover have "ud_bit t ?off k = (k < 7 * ?u \<and> ud_bit tpdu ?off k)" if "k < 8 * ly_octets l" for k
      using masked_bits [of ?off ?u tpdu k t] i(1) False that o by (simp add: t_def i_def)
    moreover have "normalize_spare_bits alpha tpdu = Ok (t, tpdu ! i AND NOT ?m \<noteq> 0)"
      using n same by auto
    ultimately show ?thesis by (auto simp: t_def)
  qed
qed

definition one_septet :: bytes where
  "one_septet = [4, 0, 0x91, 0, 0, 0x42, 0, 0, 0, 0, 0, 0, 1, 0xC1]"

theorem spare_bits_cleared_witness:
  "\<exists>t ok. normalize_spare_bits (\<lambda>_. Some Alpha7Bit) one_septet = Ok (t, ok)
     \<and> length t = length one_septet
     \<and> (\<forall>k. k < 8 \<longrightarrow> ud_bit t 13 k = (k < 7 \<and> ud_bit one_septet 13 k))"
proof -
  have l: "deliver_tpdu_layout (\<lambda>_. Some Alpha7Bit) one_septet =
      Ok \<lparr>ly_dcs = 0, ly_udl = 1, ly_offset = 13, ly_octets = 1, ly_alphabet = Alpha7Bit\<rparr>"
    by (simp add: deliver_tpdu_layout_def one_septet_def)
  from spare_bits_cleared [OF l] show ?thesis by simp blast
qed

section \<open>PDUs in hexadecimal\<close>

lemma hex_value_upper: "hex_value (upper_char c) = hex_value c"
proof -
  define n where "n = (of_char c :: nat)"
  have c: "c = char_of n" by (simp add: n_def)
  have "n < 256" by (simp add: n_def)
  have i: "(of_char c :: int) = int n" unfolding n_def by (rule of_nat_of_char [symmetric])
  show ?thesis
  proof (cases "97 \<le> n \<and> n \<le> 122")
    case True
    then have "upper_char c = char_of (int n - 32)" by (simp add: upper_char_def Let_def i)
    also have "int n - 32 = int (n - 32)" using True by simp
    also have "char_of (int (n - 32)) = char_of (n - 32)" by (rule char_of_nat)
    finally have "of_char (upper_char c) = (n - 32) mod 256" by (simp only: of_char_of)
    moreover have "n - 32 < 256" using True by linarith
    ultimately have u: "of_char (upper_char c) = n - 32" by (simp only: mod_less)
    show ?thesis
      unfolding hex_value_def Let_def u n_def [symmetric] using True by auto
  next
    case False
    then have "upper_char c = c" by (auto simp: upper_char_def Let_def i)
    then show ?thesis by simp
  qed
qed

lemma hex_decode_upper: "hex_decode (to_upper s) = hex_decode s"
  by (induction s rule: hex_decode.induct) (simp_all add: to_upper_def hex_value_upper)

lemma hex_value_digit: "n < 16 \<Longrightarrow> hex_value (hex_digit n) = Some (of_nat n)"
  by (auto simp: hex_value_def hex_digit_def Let_def)

lemma hex_decode_encode: "hex_decode (hex_encode bs) = Some bs"
proof (induction bs)
  case (Cons b bs)
  have "unat b div 16 < 16" using unat_byte_bound [of b] by linarith
  moreover have "(of_nat (unat b div 16) * 16 + of_nat (unat b mod 16) :: byte) = b"
  proof -
    have "(of_nat (unat b div 16) * 16 + of_nat (unat b mod 16) :: byte) =
        of_nat (unat b div 16 * 16 + unat b mod 16)"
      by (simp only: of_nat_add of_nat_mult of_nat_numeral)
    also have "\<dots> = of_nat (unat b)" by (simp only: div_mult_mod_eq)
    also have "\<dots> = b" by simp
    finally show ?thesis .
  qed
  ultimately show ?case using Cons by (simp add: hex_value_digit)
qed simp

lemma trim_deliver_prefix:
  obtains t ok where "trim_deliver_tpdu alpha tpdu = Ok (t, ok)" "\<exists>z. tpdu = t @ z"
  using trim_deliver_cases [of alpha tpdu] by (metis append_Nil2 append_take_drop_id)

lemma wanted_length:
  assumes "in_int64 len" and "0 \<le> len" and "0 < wrap_int (1 + uint (c :: byte) + len)"
  shows "wrap_int (1 + uint c + len) = 1 + uint c + len"
proof (rule wrap_int_id, rule ccontr)
  assume out: "\<not> in_int64 (1 + uint c + len)"
  have u: "0 \<le> uint c" "uint c < 256"
    using uint_range_size [of c] by (simp_all add: word_size)
  then have "2 ^ 63 \<le> 1 + uint c + len" using out assms(2) by (simp add: in_int64_def)
  moreover have "1 + uint c + len < 2 ^ 63 + 256" using u assms(1) by (simp add: in_int64_def)
  ultimately have "wrap_int (1 + uint c + len) < 0" by (subst wrap_int_over) simp_all
  with assms(3) show False by simp
qed

lemma prefix_of_both_cuts:
  assumes "drop off (take n b) = t @ z"
  shows "\<exists>z. b = (if ok then take off (take n b) @ t else take n b) @ z"
proof (cases ok)
  case True
  have "b = take off (take n b) @ drop off (take n b) @ drop n b"
    by (metis append.assoc append_take_drop_id)
  then show ?thesis using True assms by auto
next
  case False
  then show ?thesis by (metis append_take_drop_id)
qed

text \<open>
  Trimming a PDU by the length an AT header gives never panics, whatever the length is,
  and drops bytes only from the end: the hexadecimal string that comes back stands for a
  prefix of the bytes that went in, the service centre's field included; a string that is no
  hexadecimal comes back as it was, trimmed of white space.
\<close>

theorem trim_full_pdu_keeps_a_prefix:
  assumes "in_int64 tpduLen"
  shows "\<exists>s ok. trim_full_pdu_hex_by_tpdu_length alpha pduHex tpduLen = Ok (s, ok)
     \<and> (case hex_decode (trim_space pduHex) of
          None \<Rightarrow> s = trim_space pduHex \<and> \<not> ok
        | Some b \<Rightarrow> \<exists>p z. hex_decode s = Some p \<and> b = p @ z)"
proof (cases "hex_decode (trim_space pduHex)")
  case None
  then have "trim_full_pdu_hex_by_tpdu_length alpha pduHex tpduLen = Ok (trim_space pduHex, False)"
    by (simp add: trim_full_pdu_hex_by_tpdu_length_def Let_def)
  with None show ?thesis by auto
next
  case (Some b)
  show ?thesis
  proof (cases "trim_space pduHex = [] \<or> tpduLen < 0 \<or> b = []")
    case True
    then show ?thesis using Some
      by (auto simp: trim_full_pdu_hex_by_tpdu_length_def Let_def)
  next
    case False
    define off where "off = Suc (unat (b ! 0))"
    define want where "want = wrap_int (1 + uint (b ! 0) + tpduLen)"
    show ?thesis
    proof (cases "want \<le> 0 \<or> want > int (length b)")
      case True
      then have "trim_full_pdu_hex_by_tpdu_length alpha pduHex tpduLen =
          Ok (to_upper (trim_space pduHex), False)"
        using False Some
        by (auto simp: trim_full_pdu_hex_by_tpdu_length_def Let_def want_def [symmetric])
      then show ?thesis using Some by (auto simp: hex_decode_upper)
    next
      case inside: False
      have "want = 1 + uint (b ! 0) + tpduLen"
        using wanted_length [OF assms, of "b ! 0"] False inside by (simp add: want_def)
      then have "int off \<le> want" using False by (simp add: off_def)
      then have off: "off \<le> nat want" by linarith
      let ?full = "take (nat want) b"
      have "nat want \<le> length b" using inside by linarith
      then have n: "length ?full = nat want" by simp
      obtain t ok z where t: "trim_deliver_tpdu alpha (drop off ?full) = Ok (t, ok)"
        and z: "drop off ?full = t @ z" by (metis trim_deliver_prefix)
      define out where "out = (if ok then take off ?full @ t else ?full)"
      have "trim_full_pdu_hex_by_tpdu_length alpha pduHex tpduLen =
          Ok (to_upper (hex_encode out), ok \<or> want < int (length b))"
        using False Some inside off t n
        by (auto simp: trim_full_pdu_hex_by_tpdu_length_def Let_def want_def [symmetric]
            off_def [symmetric] out_def)
      moreover have "\<exists>z. b = out @ z"
        unfolding out_def by (rule prefix_of_both_cuts [OF z])
      ultimately show ?thesis using Some by (simp add: hex_decode_upper hex_decode_encode)
    qed
  qed
qed

theorem trim_full_pdu_keeps_a_prefix_witness:
  "\<exists>s ok. trim_full_pdu_hex_by_tpdu_length (\<lambda>_. Some Alpha7Bit) ''0001FF'' 9223372036854775807
     = Ok (s, ok)"
  using trim_full_pdu_keeps_a_prefix [of 9223372036854775807 "\<lambda>_. Some Alpha7Bit" "''0001FF''"]
  by (auto simp: in_int64_def)

end
