(* ===== verification/SMS_Reassembler.thy ===== *)
theory SMS_Reassembler
  imports Go_Strings
begin

text \<open>
  Long messages put together again (pkg/smscodec/reassembler.go), one step per call under its
  mutex, and the helpers for delivery reports (status\_report.go). Times are nanoseconds with
  Go's zero time as 0.
\<close>

section \<open>State and operations\<close>

record concat_info =
  ci_is_concat :: bool
  ci_ref :: int
  ci_ref_bits :: int
  ci_total :: int
  ci_seq :: int

record fragment =
  fr_ref :: int
  fr_total :: int
  fr_seq :: int
  fr_content :: string
  fr_time :: int

type_synonym reassembler = "string \<Rightarrow> fragment list option"

definition new_reassembler :: reassembler where
  "new_reassembler = (\<lambda>_. None)"

definition fragment_key :: "string \<Rightarrow> int \<Rightarrow> string" where
  "fragment_key sender ref = sender @ ''_'' @ itoa ref"

definition bucket :: "reassembler \<Rightarrow> string \<Rightarrow> fragment list" where
  "bucket r key = (case r key of None \<Rightarrow> [] | Some fs \<Rightarrow> fs)"

definition reassembler_add ::
  "int \<Rightarrow> string \<Rightarrow> concat_info \<Rightarrow> string \<Rightarrow> reassembler \<Rightarrow> (bool \<times> string) \<times> reassembler" where
  "reassembler_add now sender info content r =
     (if \<not> ci_is_concat info then ((True, content), r)
      else
        (let key = fragment_key sender (ci_ref info);
             fragments = bucket r key
         in if list_ex (\<lambda>f. fr_seq f = ci_seq info) fragments then ((False, ''''), r)
            else
              (let fragments = fragments @ [\<lparr>fr_ref = ci_ref info, fr_total = ci_total info,
                     fr_seq = ci_seq info, fr_content = content, fr_time = now\<rparr>];
                   r = r(key \<mapsto> fragments)
               in if int (length fragments) \<noteq> ci_total info then ((False, ''''), r)
                  else ((True, concat (map fr_content (sort_key fr_seq fragments))),
                        r(key := None)))))"

fun latest_time :: "int \<Rightarrow> fragment list \<Rightarrow> int" where
  "latest_time latest [] = latest"
| "latest_time latest (f # fs) = latest_time (if fr_time f > latest then fr_time f else latest) fs"

definition reassembler_cleanup :: "int \<Rightarrow> int \<Rightarrow> reassembler \<Rightarrow> reassembler" where
  "reassembler_cleanup now ttl r =
     (let cutoff = now - ttl in
      (\<lambda>key. case r key of None \<Rightarrow> None
         | Some fragments \<Rightarrow>
             (let latest = latest_time 0 fragments in
              if latest = 0 \<or> \<not> latest > cutoff then None else Some fragments)))"

section \<open>Delivery reports\<close>

definition status_report_delivered :: "8 word \<Rightarrow> bool" where
  "status_report_delivered status \<longleftrightarrow> status < 0x20"

definition cmgs_line :: "string \<Rightarrow> int option" where
  "cmgs_line line =
     (let line = trim_space line in
      if \<not> has_prefix (to_upper line) ''+CMGS:'' then None
      else (let rest = trim_space (drop 6 line);
                rest = (case index_byte (CHR '','') rest of
                          Some i \<Rightarrow> trim_space (take i rest) | None \<Rightarrow> rest)
            in atoi rest))"

fun first_some :: "('a \<Rightarrow> 'b option) \<Rightarrow> 'a list \<Rightarrow> 'b option" where
  "first_some f [] = None"
| "first_some f (x # xs) = (case f x of Some y \<Rightarrow> Some y | None \<Rightarrow> first_some f xs)"

definition parse_cmgs_reference :: "string \<Rightarrow> int option" where
  "parse_cmgs_reference resp = first_some cmgs_line (split_on (CHR 0x0A) resp)"

section \<open>A message arriving in any order\<close>

text \<open>Feeding the parts of one message, each with the time it arrives.\<close>

fun add_parts ::
  "string \<Rightarrow> int \<Rightarrow> int \<Rightarrow> (int \<times> int \<times> string) list \<Rightarrow> reassembler
     \<Rightarrow> (bool \<times> string) list \<times> reassembler" where
  "add_parts sender ref tot [] r = ([], r)"
| "add_parts sender ref tot ((now, seq, content) # ps) r =
     (let (out, r1) = reassembler_add now sender
            \<lparr>ci_is_concat = True, ci_ref = ref, ci_ref_bits = 8, ci_total = tot, ci_seq = seq\<rparr>
            content r;
          (outs, r2) = add_parts sender ref tot ps r1
      in (out # outs, r2))"

definition part_fragment :: "int \<Rightarrow> int \<Rightarrow> int \<times> int \<times> string \<Rightarrow> fragment" where
  "part_fragment ref tot p =
     \<lparr>fr_ref = ref, fr_total = tot, fr_seq = fst (snd p), fr_content = snd (snd p),
      fr_time = fst p\<rparr>"

lemma add_parts_spec:
  assumes "ps \<noteq> []" and "distinct (map (fst \<circ> snd) (qs @ ps))"
    and "tot = int (length (qs @ ps))"
    and "bucket r (fragment_key sender ref) = map (part_fragment ref tot) qs"
  shows "add_parts sender ref tot ps r =
    (replicate (length ps - 1) (False, '''')
       @ [(True, concat (map fr_content (sort_key fr_seq (map (part_fragment ref tot) (qs @ ps)))))],
     r(fragment_key sender ref := None))"
  using assms
proof (induction ps arbitrary: qs r)
  case Nil
  then show ?case by simp
next
  case (Cons p ps)
  obtain now seq content where p: "p = (now, seq, content)" by (cases p) auto
  let ?c = "\<lparr>ci_is_concat = True, ci_ref = ref, ci_ref_bits = 8, ci_total = tot, ci_seq = seq\<rparr>"
  let ?key = "fragment_key sender ref"
  have new: "\<not> list_ex (\<lambda>f. fr_seq f = seq) (bucket r ?key)"
    using Cons.prems(2,4) p by (force simp: list_ex_iff part_fragment_def)
  have frag: "bucket r ?key @ [\<lparr>fr_ref = ref, fr_total = tot, fr_seq = seq, fr_content = content,
      fr_time = now\<rparr>] = map (part_fragment ref tot) (qs @ [p])"
    using Cons.prems(4) p by (simp add: part_fragment_def)
  show ?case
  proof (cases "ps = []")
    case True
    then have "int (length (map (part_fragment ref tot) (qs @ [p]))) = tot"
      using Cons.prems(3) by simp
    then show ?thesis using True new p frag
      by (simp add: reassembler_add_def Let_def fun_eq_iff)
  next
    case False
    have n: "int (length (map (part_fragment ref tot) (qs @ [p]))) \<noteq> tot"
      using Cons.prems(3) False by simp
    define r1 where "r1 = r(?key \<mapsto> map (part_fragment ref tot) (qs @ [p]))"
    have step: "reassembler_add now sender ?c content r = ((False, ''''), r1)"
      using new n frag by (simp add: reassembler_add_def Let_def r1_def)
    have "add_parts sender ref tot ps r1 =
        (replicate (length ps - 1) (False, '''')
         @ [(True, concat (map fr_content (sort_key fr_seq
              (map (part_fragment ref tot) ((qs @ [p]) @ ps)))))],
         r1(?key := None))"
    proof (rule Cons.IH [OF False])
      show "distinct (map (fst \<circ> snd) ((qs @ [p]) @ ps))"
        using Cons.prems(2) by (simp only: append.assoc append.simps)
      show "tot = int (length ((qs @ [p]) @ ps))" using Cons.prems(3) by simp
      show "bucket r1 ?key = map (part_fragment ref tot) (qs @ [p])"
        by (simp add: r1_def bucket_def)
    qed
    moreover have "r1(?key := None) = r(?key := None)" by (simp add: r1_def)
    moreover have "replicate (length (p # ps) - 1) (False, '''') =
        (False, '''' :: string) # replicate (length ps - 1) (False, '''')"
      using False by (cases ps) auto
    ultimately show ?thesis using step p by (simp add: fun_eq_iff)
  qed
qed

section \<open>Keys\<close>

lemma nat_digits_plain: "\<forall>c \<in> set (nat_digits n). digit_value c \<noteq> None"
  using digits_value_chars [OF digits_value_nat_digits] .

lemma itoa_no_underscore: "CHR ''_'' \<notin> set (itoa n)"
proof -
  have u: "digit_value (CHR ''_'') = None" by code_simp
  have "CHR ''_'' \<notin> set (nat_digits k)" for k
    using nat_digits_plain [of k] u by auto
  then show ?thesis by (simp add: itoa_def)
qed

lemma split_at_last:
  "u @ x # s = v @ x # t \<Longrightarrow> x \<notin> set s \<Longrightarrow> x \<notin> set t \<Longrightarrow> u = v \<and> s = t"
proof (induction u arbitrary: v)
  case Nil
  then show ?case by (cases v) auto
next
  case (Cons y u)
  then show ?case by (cases v) auto
qed

lemma fragment_key_inj:
  assumes "in_int64 m" and "in_int64 n" and "fragment_key u m = fragment_key v n"
  shows "u = v \<and> m = n"
proof -
  have "u @ CHR ''_'' # itoa m = v @ CHR ''_'' # itoa n"
    using assms(3) by (simp only: fragment_key_def append.simps)
  from split_at_last [OF this itoa_no_underscore itoa_no_underscore]
  have e: "u = v" "itoa m = itoa n" by blast+
  have "Some m = atoi (itoa m)" by (rule atoi_itoa [OF assms(1), symmetric])
  also have "\<dots> = atoi (itoa n)" by (simp only: e)
  also have "\<dots> = Some n" by (rule atoi_itoa [OF assms(2)])
  finally show ?thesis using e(1) by simp
qed

lemma insort_key_map: "insort_key f (g x) (map g xs) = map g (insort_key (f \<circ> g) x xs)"
  by (induction xs) auto

lemma sort_key_map: "sort_key f (map g xs) = map g (sort_key (f \<circ> g) xs)"
proof (induction xs)
  case (Cons x xs)
  then show ?case using insort_key_map [of f g x "sort_key (f \<circ> g) xs"] by (simp add: comp_def)
qed simp

section \<open>Properties\<close>

text \<open>
  C12. A long message is put together whatever the order its parts arrive in: with \<open>n\<close> parts
  of different sequence numbers and no older parts of the same reference, the first
  \<open>n - 1\<close> calls answer "incomplete", the last one returns the contents in sequence order,
  and nothing of the message is left behind; other senders' parts are not touched.
\<close>

theorem message_reassembled_in_any_order:
  assumes "ps \<noteq> []" and "distinct (map (fst \<circ> snd) ps)"
    and "bucket r (fragment_key sender ref) = []"
  shows "\<exists>r'. add_parts sender ref (int (length ps)) ps r =
      (replicate (length ps - 1) (False, '''')
         @ [(True, concat (map (snd \<circ> snd) (sort_key (fst \<circ> snd) ps)))], r')
    \<and> bucket r' (fragment_key sender ref) = []
    \<and> (\<forall>u m. in_int64 m \<and> in_int64 ref \<and> (u, m) \<noteq> (sender, ref) \<longrightarrow>
        bucket r' (fragment_key u m) = bucket r (fragment_key u m))"
proof -
  let ?f = "part_fragment ref (int (length ps))"
  have k: "fr_seq \<circ> ?f = fst \<circ> snd" "fr_content \<circ> ?f = snd \<circ> snd"
    by (auto simp: part_fragment_def)
  have sorted: "sort_key fr_seq (map ?f ps) = map ?f (sort_key (fst \<circ> snd) ps)"
    unfolding sort_key_map k ..
  have "add_parts sender ref (int (length ps)) ps r =
      (replicate (length ps - 1) (False, '''')
       @ [(True, concat (map fr_content (sort_key fr_seq (map ?f ([] @ ps)))))],
       r(fragment_key sender ref := None))"
    by (rule add_parts_spec) (use assms in simp_all)
  then have "add_parts sender ref (int (length ps)) ps r =
      (replicate (length ps - 1) (False, '''')
       @ [(True, concat (map (snd \<circ> snd) (sort_key (fst \<circ> snd) ps)))],
       r(fragment_key sender ref := None))"
    by (simp add: sorted k)
  then show ?thesis
    by (intro exI [of _ "r(fragment_key sender ref := None)"])
      (auto simp: bucket_def dest: fragment_key_inj)
qed

theorem message_reassembled_in_any_order_witness:
  "\<exists>r. add_parts ''+861'' 7 3 [(1, 3, ''c''), (2, 1, ''a''), (5, 2, ''b'')] new_reassembler =
     ([(False, ''''), (False, ''''), (True, ''abc'')], r)"
proof -
  have e: "bucket new_reassembler (fragment_key ''+861'' 7) = []"
    by (simp add: bucket_def new_reassembler_def)
  have d: "distinct (map (fst \<circ> snd) [(1 :: int, 3 :: int, ''c''), (2, 1, ''a''), (5, 2, ''b'')])"
    by simp
  from message_reassembled_in_any_order [OF _ d e] show ?thesis
    by (auto simp: numeral_2_eq_2)
qed

lemma latest_time_less: "c < latest_time m fs \<longleftrightarrow> c < m \<or> (\<exists>f \<in> set fs. c < fr_time f)"
  by (induction fs arbitrary: m) auto

text \<open>
  A stale message is forgotten as a whole: the clean-up keeps a message with all its parts
  when one of them is younger than the limit, and drops it otherwise.
\<close>

theorem cleanup_forgets_stale_messages:
  assumes "0 \<le> now - ttl"
  shows "reassembler_cleanup now ttl r key =
     (case r key of None \<Rightarrow> None
      | Some fs \<Rightarrow> if \<exists>f \<in> set fs. now - ttl < fr_time f then Some fs else None)"
proof (cases "r key")
  case (Some fs)
  have "now - ttl < latest_time 0 fs \<longleftrightarrow> (\<exists>f \<in> set fs. now - ttl < fr_time f)"
    using latest_time_less [of "now - ttl" 0 fs] assms by simp
  then show ?thesis using Some assms by (auto simp add: reassembler_cleanup_def Let_def)
qed (simp add: reassembler_cleanup_def)

theorem cleanup_forgets_stale_messages_witness:
  "reassembler_cleanup 100 10
      [''a_1'' \<mapsto> [\<lparr>fr_ref = 1, fr_total = 2, fr_seq = 1, fr_content = ''x'', fr_time = 90\<rparr>]] ''a_1''
     = None"
  by (subst cleanup_forgets_stale_messages) simp_all

end
