(* ===== verification/Wbxml.thy ===== *)
theory Wbxml
  imports Go_Bytes Go_Strings
begin

text \<open>
  The decoder of OMA client provisioning messages (pkg/smscodec/wbxml\_omacp.go): the search
  for the WBXML header, the reader, elements, attributes and the token tables. The reader is
  threaded through as a record; an error value of a reading is None. Elements nest, so
  \<open>parse_element\<close> and the loop over the content of an element take fuel; \<open>fuel_suffices\<close> shows
  that twice the bytes left and one is always enough. The formatting of the summary walks
  Go maps in their random order and is left out.
\<close>

section \<open>Token tables\<close>

definition oma_attr_start_page0 :: "(byte \<times> string \<times> string) list" where
  "oma_attr_start_page0 =
     [(0x05, ''name'', ''''), (0x06, ''value'', ''''), (0x07, ''name'', ''NAME''),
      (0x08, ''name'', ''NAP-ADDRESS''), (0x09, ''name'', ''NAP-ADDRTYPE''),
      (0x0A, ''name'', ''CALLTYPE''), (0x0B, ''name'', ''VALIDUNTIL''),
      (0x0C, ''name'', ''AUTHTYPE''), (0x0D, ''name'', ''AUTHNAME''),
      (0x0E, ''name'', ''AUTHSECRET''), (0x0F, ''name'', ''LINGER''),
      (0x10, ''name'', ''BEARER''), (0x11, ''name'', ''NAPID''), (0x12, ''name'', ''COUNTRY''),
      (0x13, ''name'', ''NETWORK''), (0x14, ''name'', ''INTERNET''),
      (0x15, ''name'', ''PROXY-ID''), (0x16, ''name'', ''PROXY-PROVIDER-ID''),
      (0x17, ''name'', ''DOMAIN''), (0x18, ''name'', ''PROVURL''),
      (0x19, ''name'', ''PXAUTH-TYPE''), (0x1A, ''name'', ''PXAUTH-ID''),
      (0x1B, ''name'', ''PXAUTH-PW''), (0x1C, ''name'', ''STARTPAGE''),
      (0x1D, ''name'', ''BASAUTH-ID''), (0x1E, ''name'', ''BASAUTH-PW''),
      (0x1F, ''name'', ''PUSHENABLED''), (0x20, ''name'', ''PXADDR''),
      (0x21, ''name'', ''PXADDRTYPE''), (0x22, ''name'', ''TO-NAPID''),
      (0x23, ''name'', ''PORTNBR''), (0x24, ''name'', ''SERVICE''),
      (0x25, ''name'', ''LINKSPEED''), (0x26, ''name'', ''DNLINKSPEED''),
      (0x27, ''name'', ''LOCAL-ADDR''), (0x28, ''name'', ''LOCAL-ADDRTYPE''),
      (0x29, ''name'', ''CONTEXT-ALLOW''), (0x2A, ''name'', ''TRUST''),
      (0x2B, ''name'', ''MASTER''), (0x2C, ''name'', ''SID''), (0x2D, ''name'', ''SOC''),
      (0x2E, ''name'', ''WSP-VERSION''), (0x2F, ''name'', ''PHYSICAL-PROXY-ID''),
      (0x30, ''name'', ''CLIENT-ID''), (0x31, ''name'', ''DELIVERY-ERR-SDU''),
      (0x32, ''name'', ''DELIVERY-ORDER''), (0x33, ''name'', ''TRAFFIC-CLASS''),
      (0x34, ''name'', ''MAX-SDU-SIZE''), (0x35, ''name'', ''MAX-BITRATE-UPLINK''),
      (0x36, ''name'', ''MAX-BITRATE-DNLINK''), (0x37, ''name'', ''RESIDUAL-BER''),
      (0x38, ''name'', ''SDU-ERROR-RATIO''), (0x39, ''name'', ''TRAFFIC-HANDL-PRIO''),
      (0x3A, ''name'', ''TRANSFER-DELAY''), (0x3B, ''name'', ''GUARANTEED-BITRATE-UPLINK''),
      (0x3C, ''name'', ''GUARANTEED-BITRATE-DNLINK''), (0x3D, ''name'', ''PXADDR-FQDN''),
      (0x3E, ''name'', ''PROXY-PW''), (0x3F, ''name'', ''PPGAUTH-TYPE'')]"

definition oma_attr_value_page0 :: "(byte \<times> string) list" where
  "oma_attr_value_page0 =
     [(0x45, ''IPV4''), (0x46, ''IPV6''), (0x47, ''E164''), (0x48, ''ALPHA''), (0x49, ''APN''),
      (0x4A, ''SCODE''), (0x4B, ''TETRA-ITSI''), (0x4C, ''MAN''), (0x50, ''ANALOG-MODEM''),
      (0x51, ''V.120''), (0x52, ''V.110''), (0x53, ''X.31''), (0x54, ''BIT-TRANSPARENT''),
      (0x55, ''DIRECT-ASYNCHRONOUS-DATA-SERVICE''), (0x60, ''PAP''), (0x61, ''CHAP''),
      (0x62, ''HTTP-BASIC''), (0x63, ''HTTP-DIGEST''), (0x64, ''WTLS-SS''), (0x65, ''MD5''),
      (0x6A, ''GSM-USSD''), (0x6B, ''GSM-SMS''), (0x6C, ''ANSI-136-GUTS''),
      (0x6D, ''IS-95-CDMA-SMS''), (0x6E, ''IS-95-CDMA-CSD''), (0x6F, ''IS-95-CDMA-PACKET''),
      (0x70, ''ANSI-136-CSD''), (0x71, ''ANSI-136-GPRS''), (0x72, ''GSM-CSD''),
      (0x73, ''GSM-GPRS''), (0x74, ''AMPS-CDPD''), (0x75, ''PDC-CSD''), (0x76, ''PDC-PACKET''),
      (0x77, ''IDEN-SMS''), (0x78, ''IDEN-CSD''), (0x79, ''IDEN-PACKET''),
      (0x7A, ''FLEX/REFLEX''), (0x7B, ''PHS-SMS''), (0x7C, ''PHS-CSD''), (0x7D, ''TETRA-SDS''),
      (0x7E, ''TETRA-PACKET''), (0x7F, ''ANSI-136-GHOST''), (0x80, ''MOBITEX-MPAK''),
      (0x81, ''CDMA2000-1X-SIMPLE-IP''), (0x82, ''CDMA2000-1X-MOBILE-IP''),
      (0x85, ''AUTOBAUDING''), (0x8A, ''CL-WSP''), (0x8B, ''CO-WSP''), (0x8C, ''CL-SEC-WSP''),
      (0x8D, ''CO-SEC-WSP''), (0x8E, ''CL-SEC-WTA''), (0x8F, ''CO-SEC-WTA''),
      (0x90, ''OTA-HTTP-TO''), (0x91, ''OTA-HTTP-TLS-TO''), (0x92, ''OTA-HTTP-PO''),
      (0x93, ''OTA-HTTP-TLS-PO''), (0xA0, ''PXLOGICAL''), (0xA1, ''PXPHYSICAL''),
      (0xA2, ''PORT''), (0xA3, ''VALIDITY''), (0xA4, ''NAPDEF''), (0xA5, ''BOOTSTRAP''),
      (0xA6, ''VENDORCONFIG''), (0xA7, ''CLIENTIDENTITY''), (0xA8, ''PXAUTHINFO''),
      (0xA9, ''NAPAUTHINFO''), (0xAA, ''ACCESS'')]"

definition oma_attr_start_page1 :: "(byte \<times> string \<times> string) list" where
  "oma_attr_start_page1 =
     [(0x05, ''name'', ''''), (0x06, ''value'', ''''), (0x07, ''name'', ''NAME''),
      (0x08, ''name'', ''INTERNET''), (0x10, ''name'', ''STARTPAGE''),
      (0x11, ''name'', ''TO-NAPID''), (0x12, ''name'', ''PORTNBR''),
      (0x13, ''name'', ''SERVICE''), (0x14, ''name'', ''AACCEPT''),
      (0x15, ''name'', ''AAUTHDATA''), (0x16, ''name'', ''AAUTHLEVEL''),
      (0x17, ''name'', ''AAUTHNAME''), (0x18, ''name'', ''AAUTHSECRET''),
      (0x19, ''name'', ''AAUTHTYPE''), (0x1A, ''name'', ''ADDR''), (0x1B, ''name'', ''ADDRTYPE''),
      (0x1C, ''name'', ''APPID''), (0x1D, ''name'', ''APROTOCOL''),
      (0x1E, ''name'', ''PROVIDER-ID''), (0x1F, ''name'', ''TO-PROXY''),
      (0x20, ''name'', ''URI''), (0x21, ''name'', ''RULE'')]"

definition oma_attr_value_page1 :: "(byte \<times> string) list" where
  "oma_attr_value_page1 =
     [(0x45, ''IPV4''), (0x46, ''IPV6''), (0x50, ''APSERVICE''), (0x51, ''OTA-HTTP-TO''),
      (0x52, ''OTA-HTTP-TLS-TO''), (0x53, ''OTA-HTTP-PO''), (0x54, ''OTA-HTTP-TLS-PO''),
      (0x55, ''25''), (0x56, ''143''), (0x57, ''993''), (0x58, ''110''), (0x59, ''995''),
      (0x5A, ''119''), (0x5B, ''563''), (0x5C, ''209''), (0x60, '',''), (0x61, ''HTTP-''),
      (0x62, ''BASIC''), (0x63, ''DIGEST''), (0x90, ''w2''), (0x91, ''w4''), (0x92, ''w5''),
      (0x93, ''w7''), (0xA0, ''PORT''), (0xA1, ''CLIENTIDENTITY''), (0xA2, ''APPADDR''),
      (0xA3, ''APPAUTH''), (0xA4, ''APPLICATION''), (0xA5, ''RESOURCE'')]"

text \<open>\<open>init\<close> adds the type values to the attribute starts.\<close>

definition oma_attr_start :: "nat \<Rightarrow> byte \<Rightarrow> (string \<times> string) option" where
  "oma_attr_start page tok =
     (if page = 0 then
        (if 0xA0 \<le> tok \<and> tok \<le> 0xAA \<and> map_of oma_attr_value_page0 tok \<noteq> None
         then Some (''type'', the (map_of oma_attr_value_page0 tok))
         else map_of oma_attr_start_page0 tok)
      else if page = 1 then
        (if 0xA0 \<le> tok \<and> tok \<le> 0xA5 \<and> map_of oma_attr_value_page1 tok \<noteq> None
         then Some (''type'', the (map_of oma_attr_value_page1 tok))
         else map_of oma_attr_start_page1 tok)
      else None)"

definition hex_upper :: "nat \<Rightarrow> char" where
  "hex_upper n = (if n < 10 then char_of (48 + n) else char_of (55 + n))"

definition hex02 :: "byte \<Rightarrow> string" where
  "hex02 b = [hex_upper (unat b div 16), hex_upper (unat b mod 16)]"

definition resolve_attr_start :: "nat \<Rightarrow> byte \<Rightarrow> string \<times> string" where
  "resolve_attr_start page tok =
     (case oma_attr_start page tok of Some e \<Rightarrow> e | None \<Rightarrow> (''attr_0x'' @ hex02 tok, []))"

definition resolve_attr_value :: "nat \<Rightarrow> byte \<Rightarrow> string" where
  "resolve_attr_value page tok =
     (case (if page = 0 then map_of oma_attr_value_page0 tok
            else if page = 1 then map_of oma_attr_value_page1 tok else None) of
        Some v \<Rightarrow> v | None \<Rightarrow> ''[0x'' @ hex02 tok @ '']'')"

definition oma_tag_table :: "(nat \<times> (byte \<times> string) list) list" where
  "oma_tag_table =
     [(0, [(0x05, ''wap-provisioningdoc''), (0x06, ''characteristic''), (0x07, ''parm'')]),
      (1, [(0x06, ''characteristic''), (0x07, ''parm'')])]"

definition resolve_tag_name :: "nat \<Rightarrow> byte \<Rightarrow> string" where
  "resolve_tag_name page tag =
     (case map_of oma_tag_table page of
        None \<Rightarrow> ''tag_0x'' @ hex02 tag
      | Some names \<Rightarrow> (case map_of names tag of None \<Rightarrow> ''tag_0x'' @ hex02 tag | Some n \<Rightarrow> n))"

section \<open>Finding the document\<close>

text \<open>\<open>parseMBUint32At\<close>: at most five bytes of seven bits, most significant first.\<close>

fun mb_loop :: "bytes \<Rightarrow> nat \<Rightarrow> u32 \<Rightarrow> nat \<Rightarrow> (u32 \<times> nat) option" where
  "mb_loop data pos res 0 = None"
| "mb_loop data pos res (Suc n) =
     (if pos \<ge> length data then None
      else let b = data ! pos; res = push_bit 7 res OR ucast (b AND 0x7F) in
        if b AND 0x80 = 0 then Some (res, pos + 1) else mb_loop data (pos + 1) res n)"

definition parse_mb_uint32_at :: "bytes \<Rightarrow> nat \<Rightarrow> (u32 \<times> nat) option" where
  "parse_mb_uint32_at data start = (if start \<ge> length data then None else mb_loop data start 0 5)"

definition is_wbxml_header :: "bytes \<Rightarrow> bool" where
  "is_wbxml_header data =
     (if length data < 4 then False
      else if data ! 0 < 1 \<or> data ! 0 > 3 then False
      else case parse_mb_uint32_at data 1 of
        None \<Rightarrow> False
      | Some (publicID, nxt) \<Rightarrow>
          if publicID \<noteq> 0x0B then False
          else (case parse_mb_uint32_at data nxt of
            None \<Rightarrow> False
          | Some (charset, nxt) \<Rightarrow>
              (case parse_mb_uint32_at data nxt of
                 None \<Rightarrow> False
               | Some (strTableLen, nxt) \<Rightarrow> nxt + unat strTableLen \<le> length data)))"

datatype wbxml_error =
  DocShort nat | NoHeader | HeaderEnd | NotOmaCP u32 | TableEnd | NoConfig | OutOfFuel

fun scan_wbxml :: "bytes \<Rightarrow> bytes option" where
  "scan_wbxml [] = None"
| "scan_wbxml (b # data) = (if is_wbxml_header (b # data) then Some (b # data) else scan_wbxml data)"

definition find_wbxml_start :: "bytes \<Rightarrow> (wbxml_error, bytes) result" where
  "find_wbxml_start data =
     (if is_wbxml_header data then Ok data
      else case scan_wbxml (drop 1 data) of None \<Rightarrow> Fail NoHeader | Some d \<Rightarrow> Ok d)"

section \<open>The reader\<close>

definition wbxml_switch_page :: byte where "wbxml_switch_page = 0x00"
definition wbxml_end :: byte where "wbxml_end = 0x01"
definition wbxml_str_i :: byte where "wbxml_str_i = 0x03"
definition wbxml_str_t :: byte where "wbxml_str_t = 0x83"
definition wbxml_opaque :: byte where "wbxml_opaque = 0xC3"
definition wbxml_has_content :: byte where "wbxml_has_content = 0x40"
definition wbxml_has_attrs :: byte where "wbxml_has_attrs = 0x80"

lemmas wbxml_tokens =
  wbxml_switch_page_def wbxml_end_def wbxml_str_i_def wbxml_str_t_def wbxml_opaque_def
  wbxml_has_content_def wbxml_has_attrs_def

record reader =
  rd_data :: bytes
  rd_pos :: nat
  rd_table :: bytes
  rd_tag_page :: nat
  rd_attr_page :: nat

definition rd_left :: "reader \<Rightarrow> nat" where "rd_left r = length (rd_data r) - rd_pos r"
definition rd_eof :: "reader \<Rightarrow> bool" where "rd_eof r \<longleftrightarrow> rd_pos r \<ge> length (rd_data r)"

definition read_byte :: "reader \<Rightarrow> byte option \<times> reader" where
  "read_byte r =
     (if rd_eof r then (None, r) else (Some (rd_data r ! rd_pos r), r\<lparr>rd_pos := rd_pos r + 1\<rparr>))"

fun read_mb_loop :: "nat \<Rightarrow> u32 \<Rightarrow> reader \<Rightarrow> u32 option \<times> reader" where
  "read_mb_loop 0 res r = (None, r)"
| "read_mb_loop (Suc n) res r =
     (case read_byte r of
        (None, r') \<Rightarrow> (None, r')
      | (Some b, r') \<Rightarrow>
          let res = push_bit 7 res OR ucast (b AND 0x7F) in
          if b AND 0x80 = 0 then (Some res, r') else read_mb_loop n res r')"

definition read_mb_uint32 :: "reader \<Rightarrow> u32 option \<times> reader" where
  "read_mb_uint32 r = read_mb_loop 5 0 r"

definition or_zero :: "u32 option \<Rightarrow> u32" where
  "or_zero v = (case v of None \<Rightarrow> 0 | Some w \<Rightarrow> w)"

definition read_str_i :: "reader \<Rightarrow> string \<times> reader" where
  "read_str_i r =
     (let rest = drop (rd_pos r) (rd_data r); s = takeWhile (\<lambda>b. b \<noteq> 0) rest;
          pos = rd_pos r + length s
      in if pos \<ge> length (rd_data r) then (string_of_bytes s, r\<lparr>rd_pos := pos\<rparr>)
         else (string_of_bytes s, r\<lparr>rd_pos := pos + 1\<rparr>))"

definition read_str_t :: "reader \<Rightarrow> u32 \<Rightarrow> string" where
  "read_str_t r offset =
     (if unat offset \<ge> length (rd_table r) then []
      else string_of_bytes (takeWhile (\<lambda>b. b \<noteq> 0) (drop (unat offset) (rd_table r))))"

definition read_bytes :: "nat \<Rightarrow> reader \<Rightarrow> bytes option \<times> reader" where
  "read_bytes n r =
     (if rd_pos r + n > length (rd_data r) then (None, r)
      else (Some (take n (drop (rd_pos r) (rd_data r))), r\<lparr>rd_pos := rd_pos r + n\<rparr>))"

section \<open>Attributes\<close>

text \<open>
  One round of the loop of \<open>parseAttributes\<close> after its byte \<open>b\<close>: the attribute being collected,
  its value so far, and the attributes. A page switch at the end of the data ends the loop
  in the code; here the next round finds the end.
\<close>

type_synonym attr_state = "string \<times> string \<times> (string \<rightharpoonup> string)"

definition flush_attr :: "attr_state \<Rightarrow> attr_state" where
  "flush_attr st =
     (case st of (name, val, attrs) \<Rightarrow>
        ([], [], if name \<noteq> [] then attrs(name \<mapsto> trim_space val) else attrs))"

definition value_known :: "string \<Rightarrow> bool" where
  "value_known v \<longleftrightarrow> v \<noteq> [] \<and> \<not> has_prefix v ''[0x''"

definition attr_step :: "byte \<Rightarrow> reader \<Rightarrow> attr_state \<Rightarrow> reader \<times> attr_state" where
  "attr_step b r st =
     (case st of (name, val, attrs) \<Rightarrow>
       if b = wbxml_switch_page then
         (case read_byte r of (None, r') \<Rightarrow> (r', st)
          | (Some page, r') \<Rightarrow> (r'\<lparr>rd_attr_page := unat page\<rparr>, st))
       else if b = wbxml_str_i then
         (case read_str_i r of (s, r') \<Rightarrow> (r', (name, val @ s, attrs)))
       else if b = wbxml_str_t then
         (case read_mb_uint32 r of (off, r') \<Rightarrow> (r', (name, val @ read_str_t r' (or_zero off), attrs)))
       else if b = wbxml_opaque then
         (case read_mb_uint32 r of (len, r') \<Rightarrow> (snd (read_bytes (unat (or_zero len)) r'), st))
       else
         (let v = resolve_attr_value (rd_attr_page r) b;
              (ename, eval) = resolve_attr_start (rd_attr_page r) b
          in if name \<noteq> [] \<and> value_known v then (r, (name, val @ v, attrs))
             else if ename \<noteq> [] \<and> \<not> has_prefix ename ''attr_'' then
               (case flush_attr st of (_, _, attrs) \<Rightarrow> (r, (ename, eval, attrs)))
             else if value_known v then (r, (name, val @ v, attrs))
             else (r, st)))"

lemma read_byte_left: "snd (read_byte r) = r \<or> rd_left (snd (read_byte r)) < rd_left r"
  by (auto simp: read_byte_def rd_left_def rd_eof_def)

lemma read_byte_Some: "read_byte r = (Some b, r') \<Longrightarrow> rd_left r' < rd_left r"
  by (auto simp: read_byte_def rd_left_def rd_eof_def split: if_splits)

lemma read_byte_le: "rd_left (snd (read_byte r)) \<le> rd_left r"
  using read_byte_left [of r] by auto

lemma read_mb_loop_le: "rd_left (snd (read_mb_loop n res r)) \<le> rd_left r"
proof (induction n arbitrary: res r)
  case (Suc n)
  then show ?case using read_byte_le [of r]
    by (auto simp: Let_def split: prod.splits option.splits) (metis le_trans)
qed simp

lemma read_mb_le: "rd_left (snd (read_mb_uint32 r)) \<le> rd_left r"
  by (simp add: read_mb_uint32_def read_mb_loop_le)

lemma read_str_i_le: "rd_left (snd (read_str_i r)) \<le> rd_left r"
  by (auto simp: read_str_i_def rd_left_def Let_def)

lemma read_bytes_le: "rd_left (snd (read_bytes n r)) \<le> rd_left r"
  by (auto simp: read_bytes_def rd_left_def)

lemma rd_left_page [simp]:
  "rd_left (r\<lparr>rd_attr_page := p\<rparr>) = rd_left r" "rd_left (r\<lparr>rd_tag_page := p\<rparr>) = rd_left r"
  by (simp_all add: rd_left_def)

lemma attr_step_le: "rd_left (fst (attr_step b r st)) \<le> rd_left r"
proof -
  have opaque: "rd_left (snd (read_bytes n (snd (read_mb_uint32 r)))) \<le> rd_left r" for n
    by (rule le_trans [OF read_bytes_le read_mb_le])
  consider "b = wbxml_switch_page" | "b \<noteq> wbxml_switch_page" "b = wbxml_str_i"
    | "b \<noteq> wbxml_switch_page" "b \<noteq> wbxml_str_i" "b = wbxml_str_t"
    | "b \<noteq> wbxml_switch_page" "b \<noteq> wbxml_str_i" "b \<noteq> wbxml_str_t" "b = wbxml_opaque"
    | "b \<noteq> wbxml_switch_page" "b \<noteq> wbxml_str_i" "b \<noteq> wbxml_str_t" "b \<noteq> wbxml_opaque"
    by blast
  then show ?thesis
  proof cases
    case 1
    with read_byte_le [of r] show ?thesis
      by (cases st, cases "read_byte r") (auto simp: attr_step_def split: option.split)
  next
    case 2
    with read_str_i_le [of r] show ?thesis
      by (cases st, cases "read_str_i r") (simp add: attr_step_def)
  next
    case 3
    with read_mb_le [of r] show ?thesis
      by (cases st, cases "read_mb_uint32 r") (simp add: attr_step_def)
  next
    case 4
    with opaque show ?thesis
      by (cases st, cases "read_mb_uint32 r") (simp add: attr_step_def)
  next
    case 5
    then show ?thesis by (cases st) (auto simp: attr_step_def Let_def split: prod.split)
  qed
qed

function attr_loop :: "reader \<Rightarrow> attr_state \<Rightarrow> reader \<times> attr_state" where
  "attr_loop r st =
     (case read_byte r of
        (None, r') \<Rightarrow> (r', flush_attr st)
      | (Some b, r') \<Rightarrow>
          if b = wbxml_end then (r', flush_attr st)
          else attr_loop (fst (attr_step b r' st)) (snd (attr_step b r' st)))"
  by pat_completeness auto
termination
proof (relation "measure (rd_left \<circ> fst)", goal_cases)
  case 1
  then show ?case by simp
next
  case (2 r st p r' b)
  then have "read_byte r = (Some b, r')" by simp
  then have "rd_left r' < rd_left r" by (rule read_byte_Some)
  with attr_step_le [of b r' st] show ?case by simp
qed

declare attr_loop.simps [simp del]

definition parse_attributes :: "reader \<Rightarrow> (string \<rightharpoonup> string) \<times> reader" where
  "parse_attributes r =
     (case attr_loop r ([], [], Map.empty) of (r', (_, _, attrs)) \<Rightarrow> (attrs, r'))"

section \<open>Elements\<close>

datatype characteristic =
  Characteristic (ch_type: string) (ch_params: "string \<rightharpoonup> string") (ch_subs: "characteristic list")

text \<open>What \<open>parseElement\<close> returns: an error, nil without an error, or an element.\<close>

datatype element_result = Ended | Ignored | Element characteristic

definition is_parm :: "characteristic \<Rightarrow> bool" where
  "is_parm c \<longleftrightarrow> ch_type c = ''__parm__''"

definition merge_params :: "characteristic list \<Rightarrow> (string \<rightharpoonup> string)" where
  "merge_params cs = foldl (\<lambda>m c. if is_parm c then m ++ ch_params c else m) Map.empty cs"

definition attr_or_empty :: "(string \<rightharpoonup> string) \<Rightarrow> string \<Rightarrow> string" where
  "attr_or_empty attrs k = (case attrs k of None \<Rightarrow> [] | Some v \<Rightarrow> v)"

text \<open>The value built once the tag, the attributes and the content are known.\<close>

definition build_element ::
  "string \<Rightarrow> (string \<rightharpoonup> string) \<Rightarrow> characteristic list \<Rightarrow> string \<Rightarrow> element_result" where
  "build_element tag attrs children txt =
     (if tag = ''characteristic'' then
        Element (Characteristic (attr_or_empty attrs ''type'') (merge_params children)
          (filter (\<lambda>c. \<not> is_parm c) children))
      else if tag = ''parm'' then
        (let name = attr_or_empty attrs ''name'';
             name = (if name = [] \<and> txt \<noteq> [] then txt else name)
         in if trim_space name = [] then Ignored
            else Element (Characteristic ''__parm__'' [name \<mapsto> attr_or_empty attrs ''value''] []))
      else if tag = ''wap-provisioningdoc'' then
        (if children \<noteq> [] then Element (Characteristic ''wap-provisioningdoc'' Map.empty children)
         else Ignored)
      else Ignored)"

text \<open>
  \<open>parse_content\<close> is the loop over the content, with the children and the text collected so
  far. \<open>None\<close> is running out of fuel.
\<close>

fun parse_element :: "nat \<Rightarrow> reader \<Rightarrow> (element_result \<times> reader) option"
  and parse_content :: "nat \<Rightarrow> reader \<Rightarrow> characteristic list \<Rightarrow> string
    \<Rightarrow> ((characteristic list \<times> string) \<times> reader) option" where
  "parse_element 0 r = None"
| "parse_element (Suc n) r =
     (if rd_eof r then Some (Ended, r)
      else case read_byte r of
        (None, r1) \<Rightarrow> Some (Ended, r1)
      | (Some b, r1) \<Rightarrow>
          if b = wbxml_switch_page then
            (case read_byte r1 of
               (None, r2) \<Rightarrow> Some (Ended, r2)
             | (Some page, r2) \<Rightarrow> parse_element n (r2\<lparr>rd_tag_page := unat page\<rparr>))
          else if b = wbxml_end then Some (Ended, r1)
          else
            (let tag = resolve_tag_name (rd_tag_page r1) (b AND 0x3F);
                 (attrs, r2) = (if b AND wbxml_has_attrs \<noteq> 0 then parse_attributes r1
                                else (Map.empty, r1))
             in case (if b AND wbxml_has_content \<noteq> 0 then parse_content n r2 [] []
                      else Some (([], []), r2)) of
                  None \<Rightarrow> None
                | Some ((children, txt), r3) \<Rightarrow> Some (build_element tag attrs children txt, r3)))"
| "parse_content 0 r children txt = None"
| "parse_content (Suc n) r children txt =
     (if rd_eof r then Some ((children, txt), r)
      else
        (let peek = rd_data r ! rd_pos r; r1 = r\<lparr>rd_pos := rd_pos r + 1\<rparr> in
         if peek = wbxml_end then Some ((children, txt), r1)
         else if peek = wbxml_str_i then
           (case read_str_i r1 of (s, r2) \<Rightarrow> parse_content n r2 children (txt @ s))
         else if peek = wbxml_str_t then
           (case read_mb_uint32 r1 of (off, r2) \<Rightarrow>
              parse_content n r2 children (txt @ read_str_t r2 (or_zero off)))
         else if peek = wbxml_opaque then
           (case read_mb_uint32 r1 of (len, r2) \<Rightarrow>
              parse_content n (snd (read_bytes (unat (or_zero len)) r2)) children txt)
         else if peek = wbxml_switch_page then
           (case read_byte r1 of (page, r2) \<Rightarrow>
              parse_content n (r2\<lparr>rd_tag_page := (case page of None \<Rightarrow> 0 | Some p \<Rightarrow> unat p)\<rparr>)
                children txt)
         else
           (case parse_element n r of
              None \<Rightarrow> None
            | Some (Ended, r2) \<Rightarrow> Some ((children, txt), r2)
            | Some (Ignored, r2) \<Rightarrow> parse_content n r2 children txt
            | Some (Element c, r2) \<Rightarrow> parse_content n r2 (children @ [c]) txt)))"

record oma_config =
  oc_version :: "nat \<times> nat"
  oc_characteristics :: "characteristic list"

text \<open>The loop over the body.\<close>

fun parse_body :: "nat \<Rightarrow> reader \<Rightarrow> characteristic list \<Rightarrow> (characteristic list \<times> reader) option" where
  "parse_body 0 r cs = None"
| "parse_body (Suc n) r cs =
     (if rd_eof r then Some (cs, r)
      else case parse_element n r of
        None \<Rightarrow> None
      | Some (Ended, r') \<Rightarrow> Some (cs, r')
      | Some (Ignored, r') \<Rightarrow> parse_body n r' cs
      | Some (Element c, r') \<Rightarrow> parse_body n r' (cs @ [c]))"

definition new_reader :: "bytes \<Rightarrow> reader" where
  "new_reader data =
     \<lparr>rd_data = data, rd_pos = 0, rd_table = [], rd_tag_page = 0, rd_attr_page = 0\<rparr>"

definition body_fuel :: "reader \<Rightarrow> nat" where "body_fuel r = 2 * rd_left r + 2"

definition decode_wbxml :: "bytes \<Rightarrow> (wbxml_error, oma_config) result" where
  "decode_wbxml data =
     (case read_byte (new_reader data) of
        (None, _) \<Rightarrow> Fail HeaderEnd
      | (Some version, r) \<Rightarrow>
     (case read_mb_uint32 r of
        (None, _) \<Rightarrow> Fail HeaderEnd
      | (Some publicID, r) \<Rightarrow>
     if publicID \<noteq> 0x0B then Fail (NotOmaCP publicID)
     else
     (case read_mb_uint32 r of
        (None, _) \<Rightarrow> Fail HeaderEnd
      | (Some charset, r) \<Rightarrow>
     (case read_mb_uint32 r of
        (None, _) \<Rightarrow> Fail HeaderEnd
      | (Some strTableLen, r) \<Rightarrow>
     (case (if strTableLen > 0 then read_bytes (unat strTableLen) r else (Some [], r)) of
        (None, _) \<Rightarrow> Fail TableEnd
      | (Some tbl, r) \<Rightarrow>
     (case parse_body (body_fuel r) (r\<lparr>rd_table := tbl\<rparr>) [] of
        None \<Rightarrow> Fail OutOfFuel
      | Some (cs, _) \<Rightarrow>
          if cs = [] then Fail NoConfig
          else Ok \<lparr>oc_version = (unat (drop_bit 4 version) + 1, unat (version AND 0x0F)),
                   oc_characteristics = cs\<rparr>))))))"

definition decode_oma_cp :: "bytes \<Rightarrow> (wbxml_error, oma_config) result" where
  "decode_oma_cp data =
     (if length data < 4 then Fail (DocShort (length data))
      else and_then (find_wbxml_start data) decode_wbxml)"

section \<open>The decoder always returns\<close>

lemma attr_loop_le: "rd_left (fst (attr_loop r st)) \<le> rd_left r"
proof (induction r st rule: attr_loop.induct)
  case (1 r st)
  obtain o1 r1 where rb: "read_byte r = (o1, r1)" by (cases "read_byte r")
  show ?case
  proof (cases o1)
    case None
    with rb read_byte_le [of r] show ?thesis by (subst attr_loop.simps) simp
  next
    case (Some b)
    have l: "rd_left r1 < rd_left r" using rb Some by (intro read_byte_Some) simp
    show ?thesis
    proof (cases "b = wbxml_end")
      case True
      with rb Some l show ?thesis by (subst attr_loop.simps) simp
    next
      case False
      from 1 [OF rb [symmetric] Some False] attr_step_le [of b r1 st] l
      have "rd_left (fst (attr_loop (fst (attr_step b r1 st)) (snd (attr_step b r1 st)))) \<le> rd_left r"
        by linarith
      with rb Some False show ?thesis by (subst attr_loop.simps) simp
    qed
  qed
qed

lemma parse_attributes_le: "rd_left (snd (parse_attributes r)) \<le> rd_left r"
  using attr_loop_le [of r "([], [], Map.empty)"]
  by (auto simp: parse_attributes_def split: prod.splits)

lemma next_left: "\<not> rd_eof r \<Longrightarrow> rd_left (r\<lparr>rd_pos := rd_pos r + 1\<rparr>) < rd_left r"
  by (simp add: rd_eof_def rd_left_def)

lemma after_attributes:
  assumes "(attrs, r2) = (if c then parse_attributes r1 else (Map.empty, r1))"
  shows "rd_left r2 \<le> rd_left r1"
  using assms parse_attributes_le [of r1] by (auto split: if_splits) (metis snd_conv)

lemma opaque_le: "rd_left (snd (read_bytes m (snd (read_mb_uint32 r)))) \<le> rd_left r"
  by (rule le_trans [OF read_bytes_le read_mb_le])

text \<open>The head of an element: everything before its content.\<close>

definition element_head :: "reader \<Rightarrow> (byte \<times> string \<times> (string \<rightharpoonup> string) \<times> reader) option" where
  "element_head r =
     (case read_byte r of
        (None, r1) \<Rightarrow> None
      | (Some b, r1) \<Rightarrow>
          if b = wbxml_switch_page \<or> b = wbxml_end then None
          else
            (let (attrs, r2) = (if b AND wbxml_has_attrs \<noteq> 0 then parse_attributes r1
                                else (Map.empty, r1))
             in Some (b, resolve_tag_name (rd_tag_page r1) (b AND 0x3F), attrs, r2)))"

lemma element_head_left: "element_head r = Some (b, tag, attrs, r2) \<Longrightarrow> rd_left r2 < rd_left r"
proof -
  assume h: "element_head r = Some (b, tag, attrs, r2)"
  then obtain r1 where rb: "read_byte r = (Some b, r1)"
      and r2: "(attrs, r2) = (if b AND wbxml_has_attrs \<noteq> 0 then parse_attributes r1 else (Map.empty, r1))"
    by (auto simp: element_head_def Let_def split: prod.splits option.splits if_splits)
  from after_attributes [OF r2] read_byte_Some [OF rb] show ?thesis by linarith
qed

lemma parse_element_cases:
  obtains (ended) r' where "\<And>n. parse_element (Suc n) r = Some (Ended, r')" "rd_left r' \<le> rd_left r"
  | (page) r' where "\<And>n. parse_element (Suc n) r = parse_element n r'" "rd_left r' < rd_left r"
  | (head) b tag attrs r2 where "element_head r = Some (b, tag, attrs, r2)"
      "\<And>n. parse_element (Suc n) r =
         (case (if b AND wbxml_has_content \<noteq> 0 then parse_content n r2 [] [] else Some (([], []), r2)) of
            None \<Rightarrow> None
          | Some ((children, txt), r3) \<Rightarrow> Some (build_element tag attrs children txt, r3))"
proof (cases "rd_eof r")
  case True
  with ended show ?thesis by simp
next
  case False
  obtain b r1 where rb: "read_byte r = (Some b, r1)" using False by (simp add: read_byte_def)
  have l1: "rd_left r1 < rd_left r" by (rule read_byte_Some [OF rb])
  consider "b = wbxml_switch_page" | "b = wbxml_end" "b \<noteq> wbxml_switch_page"
    | "b \<noteq> wbxml_switch_page" "b \<noteq> wbxml_end" by blast
  then show ?thesis
  proof cases
    case 1
    obtain p r2 where rb2: "read_byte r1 = (p, r2)" by (cases "read_byte r1")
    have l2: "rd_left r2 \<le> rd_left r1" using read_byte_le [of r1] rb2 by simp
    show ?thesis
    proof (cases p)
      case None
      with ended [of r2] 1 rb rb2 False l1 l2 show ?thesis by simp
    next
      case (Some pg)
      with page [of "r2\<lparr>rd_tag_page := unat pg\<rparr>"] 1 rb rb2 False l1 l2 show ?thesis by simp
    qed
  next
    case 2
    with ended [of r1] rb False l1 show ?thesis by simp
  next
    case 3
    obtain attrs r2 where a: "(attrs, r2) = (if b AND wbxml_has_attrs \<noteq> 0 then parse_attributes r1
        else (Map.empty, r1))"
      by (metis surj_pair)
    show ?thesis
    proof (rule head [of b "resolve_tag_name (rd_tag_page r1) (b AND 0x3F)" attrs r2])
      show "element_head r = Some (b, resolve_tag_name (rd_tag_page r1) (b AND 0x3F), attrs, r2)"
        using rb 3 by (simp add: element_head_def Let_def a [symmetric])
      show "parse_element (Suc n) r =
         (case (if b AND wbxml_has_content \<noteq> 0 then parse_content n r2 [] [] else Some (([], []), r2)) of
            None \<Rightarrow> None
          | Some ((children, txt), r3) \<Rightarrow>
              Some (build_element (resolve_tag_name (rd_tag_page r1) (b AND 0x3F)) attrs children txt, r3))" for n
        using rb 3 False by (simp add: Let_def a [symmetric])
    qed
  qed
qed

lemma parse_content_cases:
  obtains (stop) r' where "\<And>n cs tx. parse_content (Suc n) r cs tx = Some ((cs, tx), r')"
      "rd_left r' \<le> rd_left r"
  | (chunk) r' s where "\<And>n cs tx. parse_content (Suc n) r cs tx = parse_content n r' cs (tx @ s)"
      "rd_left r' < rd_left r"
  | (child) "\<not> rd_eof r"
      "\<And>n cs tx. parse_content (Suc n) r cs tx =
         (case parse_element n r of
            None \<Rightarrow> None
          | Some (Ended, r2) \<Rightarrow> Some ((cs, tx), r2)
          | Some (Ignored, r2) \<Rightarrow> parse_content n r2 cs tx
          | Some (Element c, r2) \<Rightarrow> parse_content n r2 (cs @ [c]) tx)"
proof (cases "rd_eof r")
  case True
  with stop show ?thesis by simp
next
  case False
  let ?r1 = "r\<lparr>rd_pos := rd_pos r + 1\<rparr>" and ?p = "rd_data r ! rd_pos r"
  have l1: "rd_left ?r1 < rd_left r" by (rule next_left [OF False])
  have d: "wbxml_end \<noteq> wbxml_str_i" "wbxml_end \<noteq> wbxml_str_t" "wbxml_end \<noteq> wbxml_opaque"
      "wbxml_end \<noteq> wbxml_switch_page" "wbxml_str_i \<noteq> wbxml_str_t" "wbxml_str_i \<noteq> wbxml_opaque"
      "wbxml_str_i \<noteq> wbxml_switch_page" "wbxml_str_t \<noteq> wbxml_opaque"
      "wbxml_str_t \<noteq> wbxml_switch_page" "wbxml_opaque \<noteq> wbxml_switch_page"
    by (simp_all add: wbxml_tokens)
  consider "?p = wbxml_end" | "?p = wbxml_str_i" | "?p = wbxml_str_t" | "?p = wbxml_opaque"
    | "?p = wbxml_switch_page"
    | (other) "?p \<noteq> wbxml_end" "?p \<noteq> wbxml_str_i" "?p \<noteq> wbxml_str_t" "?p \<noteq> wbxml_opaque"
        "?p \<noteq> wbxml_switch_page"
    by blast
  then show ?thesis
  proof cases
    case 1
    show ?thesis by (rule stop [of ?r1]) (use 1 False l1 in \<open>simp_all add: Let_def\<close>)
  next
    case 2
    obtain s r2 where "read_str_i ?r1 = (s, r2)" by (cases "read_str_i ?r1")
    then show ?thesis using 2 False l1 d read_str_i_le [of ?r1]
      by (intro chunk [of r2 s]) (simp_all add: Let_def d d [symmetric])
  next
    case 3
    obtain off r2 where "read_mb_uint32 ?r1 = (off, r2)" by (cases "read_mb_uint32 ?r1")
    then show ?thesis using 3 False l1 d read_mb_le [of ?r1]
      by (intro chunk [of r2 "read_str_t r2 (or_zero off)"]) (simp_all add: Let_def d d [symmetric])
  next
    case 4
    obtain len r2 where m: "read_mb_uint32 ?r1 = (len, r2)" by (cases "read_mb_uint32 ?r1")
    have "rd_left (snd (read_bytes (unat (or_zero len)) r2)) < rd_left r"
      using opaque_le [of "unat (or_zero len)" ?r1] m l1 by simp
    then show ?thesis using 4 False d m
      by (intro chunk [of "snd (read_bytes (unat (or_zero len)) r2)" "[]"]) (simp_all add: Let_def d d [symmetric])
  next
    case 5
    obtain pg r2 where m: "read_byte ?r1 = (pg, r2)" by (cases "read_byte ?r1")
    have "rd_left r2 < rd_left r" using read_byte_le [of ?r1] m l1 by simp
    then show ?thesis using 5 False d m
      by (intro chunk [of "r2\<lparr>rd_tag_page := (case pg of None \<Rightarrow> 0 | Some p \<Rightarrow> unat p)\<rparr>" "[]"])
        (simp_all add: Let_def d d [symmetric])
  next
    case other
    show ?thesis by (rule child) (use other False in \<open>simp_all add: Let_def\<close>)
  qed
qed

lemma parse_left:
  "(parse_element n r = Some (res, r') \<longrightarrow> rd_left r' \<le> rd_left r \<and> (res \<noteq> Ended \<longrightarrow> rd_left r' < rd_left r))
   \<and> (parse_content n r cs tx = Some (x, r') \<longrightarrow> rd_left r' \<le> rd_left r)"
proof (induction n arbitrary: r res r' cs tx x)
  case 0
  then show ?case by simp
next
  case (Suc n)
  have el: "rd_left r' \<le> rd_left r \<and> (res \<noteq> Ended \<longrightarrow> rd_left r' < rd_left r)"
    if p: "parse_element (Suc n) r = Some (res, r')"
  proof (cases rule: parse_element_cases [of r])
    case (ended r1)
    with p show ?thesis by auto
  next
    case (page r1)
    then have "parse_element n r1 = Some (res, r')" using p by simp
    then have "rd_left r' \<le> rd_left r1" "res \<noteq> Ended \<Longrightarrow> rd_left r' < rd_left r1"
      using Suc.IH [of r1 res r'] by blast+
    with page(2) show ?thesis by linarith
  next
    case (head b tag attrs r2)
    note l = element_head_left [OF head(1)]
    show ?thesis
    proof (cases "b AND wbxml_has_content \<noteq> 0")
      case True
      then obtain kids t r3 where c: "parse_content n r2 [] [] = Some ((kids, t), r3)" "r' = r3"
        using p head(2) by (auto split: option.splits)
      with Suc.IH [of r2 res r' "[]" "[]" "(kids, t)"] l show ?thesis by auto
    next
      case False
      with p head(2) l show ?thesis by auto
    qed
  qed
  have con: "rd_left r' \<le> rd_left r" if p: "parse_content (Suc n) r cs tx = Some (x, r')"
  proof (cases rule: parse_content_cases [of r])
    case (stop r1)
    with p show ?thesis by auto
  next
    case (chunk r1 s)
    then have "parse_content n r1 cs (tx @ s) = Some (x, r')" using p by simp
    then have "rd_left r' \<le> rd_left r1" using Suc.IH [of r1 res r'] by blast
    with chunk(2) show ?thesis by linarith
  next
    case child
    obtain res1 r2 where e: "parse_element n r = Some (res1, r2)"
      using p child(2) by (cases "parse_element n r") auto
    then have l2: "rd_left r2 \<le> rd_left r" using Suc.IH [of r res1 r2] by blast
    have "rd_left r' \<le> rd_left r2" if "parse_content n r2 cs2 tx = Some (x, r')" for cs2
      using Suc.IH [of r2 res r'] that by blast
    then have "rd_left r' \<le> rd_left r2"
      using e p child(2) by (cases res1) auto
    with l2 show ?thesis by linarith
  qed
  show ?case using el con by blast
qed

text \<open>Twice the bytes left and one is enough fuel for an element.\<close>

lemma fuel_suffices:
  "(2 * rd_left r + 1 \<le> n \<longrightarrow> parse_element n r \<noteq> None)
   \<and> (2 * rd_left r + 2 \<le> n \<longrightarrow> parse_content n r cs tx \<noteq> None)"
proof (induction n arbitrary: r cs tx)
  case 0
  then show ?case by simp
next
  case (Suc n)
  have el: "parse_element (Suc n) r \<noteq> None" if f: "2 * rd_left r + 1 \<le> Suc n"
  proof (cases rule: parse_element_cases [of r])
    case (ended r1)
    then show ?thesis by simp
  next
    case (page r1)
    then have "parse_element n r1 \<noteq> None" using f Suc.IH [of r1] by simp
    with page show ?thesis by simp
  next
    case (head b tag attrs r2)
    then have "parse_content n r2 [] [] \<noteq> None"
      using f Suc.IH [of r2 "[]" "[]"] element_head_left [OF head(1)] by simp
    with head show ?thesis by auto
  qed
  have con: "parse_content (Suc n) r cs tx \<noteq> None" if f: "2 * rd_left r + 2 \<le> Suc n"
  proof (cases rule: parse_content_cases [of r])
    case (stop r1)
    then show ?thesis by simp
  next
    case (chunk r1 s)
    then have "parse_content n r1 cs (tx @ s) \<noteq> None" using f Suc.IH [of r1 cs "tx @ s"] by simp
    with chunk show ?thesis by simp
  next
    case child
    obtain res1 r2 where e: "parse_element n r = Some (res1, r2)"
      using f Suc.IH [of r] by fastforce
    have "parse_content n r2 cs2 tx \<noteq> None" if "res1 \<noteq> Ended" for cs2
    proof -
      have "rd_left r2 < rd_left r" using parse_left [of n r res1 r2] e that by blast
      with f have "2 * rd_left r2 + 2 \<le> n" by linarith
      with Suc.IH [of r2 cs2 tx] show ?thesis by blast
    qed
    with e child(2) show ?thesis by (cases res1) auto
  qed
  show ?case using el con by blast
qed

end
