(* ===== verification/Wbxml_Document.thy ===== *)
theory Wbxml_Document
  imports Wbxml
begin

text \<open>
  What the decoder of Wbxml delivers: it always returns, more fuel changes nothing, and an
  OMA client provisioning document, written the way a provider encodes it (nested
  characteristics with their types as tokens and parameters with inline strings), is decoded
  to its tree.
\<close>

section \<open>Termination\<close>

lemma body_returns: "2 * rd_left r + 2 \<le> n \<Longrightarrow> parse_body n r cs \<noteq> None"
proof (induction n arbitrary: r cs)
  case 0
  then show ?case by simp
next
  case (Suc n)
  show ?case
  proof (cases "rd_eof r")
    case True
    then show ?thesis by simp
  next
    case False
    obtain res r1 where e: "parse_element n r = Some (res, r1)"
      using Suc.prems fuel_suffices [of r n] by fastforce
    have "parse_body n r1 cs1 \<noteq> None" if "res \<noteq> Ended" for cs1
    proof -
      have "rd_left r1 < rd_left r" using parse_left [of n r res r1] e that by blast
      with Suc.prems have "2 * rd_left r1 + 2 \<le> n" by linarith
      then show ?thesis by (rule Suc.IH)
    qed
    with e False show ?thesis by (cases res) auto
  qed
qed

lemma decode_wbxml_returns: "decode_wbxml data \<noteq> Fail OutOfFuel"
proof -
  have [simp]: "parse_body (body_fuel r) (r\<lparr>rd_table := tbl\<rparr>) [] \<noteq> None" for r tbl
    by (rule body_returns) (simp add: body_fuel_def rd_left_def)
  show ?thesis
    by (auto simp: decode_wbxml_def Let_def split: prod.split option.split)
qed

text \<open>
  C21. Decoding a provisioning message always ends, whatever bytes it carries: the model's
  fuel is never used up, however the elements nest.
\<close>

theorem decoding_always_ends: "decode_oma_cp data \<noteq> Fail OutOfFuel"
proof -
  have "find_wbxml_start data \<noteq> Fail OutOfFuel"
    by (simp add: find_wbxml_start_def split: option.splits)
  then show ?thesis
    using decode_wbxml_returns
    by (cases "find_wbxml_start data") (auto simp: decode_oma_cp_def)
qed

section \<open>The reader over what lies ahead\<close>

definition ahead :: "reader \<Rightarrow> bytes" where
  "ahead r = drop (rd_pos r) (rd_data r)"

definition advance :: "nat \<Rightarrow> reader \<Rightarrow> reader" where
  "advance k r = r\<lparr>rd_pos := rd_pos r + k\<rparr>"

lemma advance_simps [simp]:
  "rd_tag_page (advance k r) = rd_tag_page r" "rd_attr_page (advance k r) = rd_attr_page r"
  "advance j (advance k r) = advance (k + j) r"
  by (simp_all add: advance_def add.assoc)

lemma advance_Suc: "r\<lparr>rd_pos := Suc (rd_pos r)\<rparr> = advance 1 r"
  by (simp add: advance_def)

lemma ahead_advance [simp]: "ahead (advance k r) = drop k (ahead r)"
  by (simp add: ahead_def advance_def add.commute)

lemma ahead_left: "rd_left r = length (ahead r)"
  by (simp add: ahead_def rd_left_def)

lemma ahead_eof: "rd_eof r \<longleftrightarrow> ahead r = []"
  by (auto simp: ahead_def rd_eof_def)

lemma ahead_peek: "ahead r = b # bs \<Longrightarrow> rd_data r ! rd_pos r = b"
  by (metis ahead_def drop_eq_Nil hd_drop_conv_nth leI list.discI list.sel(1))

lemma read_byte_ahead: "ahead r = b # bs \<Longrightarrow> read_byte r = (Some b, advance 1 r)"
  by (simp add: read_byte_def ahead_eof ahead_peek advance_def)

lemma read_str_i_ahead:
  assumes "ahead r = s @ 0 # rest" and "0 \<notin> set s"
  shows "read_str_i r = (string_of_bytes s, advance (length s + 1) r)"
proof -
  have t: "takeWhile (\<lambda>b. b \<noteq> 0) (drop (rd_pos r) (rd_data r)) = s"
    using assms by (simp add: ahead_def) (subst takeWhile_append2, auto)
  have "length (drop (rd_pos r) (rd_data r)) = length s + 1 + length rest"
    using assms(1) by (simp add: ahead_def)
  then have "rd_pos r + length s < length (rd_data r)" by simp
  then show ?thesis
    by (simp add: read_str_i_def Let_def t advance_def)
qed

section \<open>Provisioning documents and their encoding\<close>

text \<open>
  A document as a tree: a parameter with its name and value, and a characteristic with the
  token of its type and its contents.
\<close>

datatype provision = Parm string string | Group byte "provision list"

fun encode_provision :: "provision \<Rightarrow> bytes" where
  "encode_provision (Parm n v) =
     0x87 # 0x05 # 0x03 # bytes_of_string n @ 0 # 0x06 # 0x03 # bytes_of_string v @ [0, 0x01]"
| "encode_provision (Group tok cs) =
     0xC6 # tok # 0x01 # concat (map encode_provision cs) @ [0x01]"

definition encode_document :: "provision list \<Rightarrow> bytes" where
  "encode_document cs =
     0x03 # 0x0B # 0x6A # 0x00 # 0x45 # concat (map encode_provision cs) @ [0x01]"

definition clean_text :: "string \<Rightarrow> bool" where
  "clean_text s \<longleftrightarrow> CHR 0x00 \<notin> set s \<and> trim_space s = s"

fun provision_ok :: "provision \<Rightarrow> bool" where
  "provision_ok (Parm n v) = (n \<noteq> [] \<and> clean_text n \<and> clean_text v)"
| "provision_ok (Group tok cs) = (0xA0 \<le> tok \<and> tok \<le> 0xAA \<and> list_all provision_ok cs)"

definition type_name :: "byte \<Rightarrow> string" where
  "type_name tok = the (map_of oma_attr_value_page0 tok)"

fun provision_tree :: "provision \<Rightarrow> characteristic" where
  "provision_tree (Parm n v) = Characteristic ''__parm__'' [n \<mapsto> v] []"
| "provision_tree (Group tok cs) =
     Characteristic (type_name tok) (merge_params (map provision_tree cs))
       (filter (\<lambda>c. \<not> is_parm c) (map provision_tree cs))"

lemma byte_of_char_zero: "(of_nat (of_char c) :: byte) = 0 \<Longrightarrow> c = CHR 0x00"
  using string_of_bytes_of_string [of "[c]"]
  by (simp add: string_of_bytes_def bytes_of_string_def) (simp add: char_of_def)

lemma clean_bytes: "clean_text s \<Longrightarrow> 0 \<notin> set (bytes_of_string s)"
  by (auto simp: clean_text_def bytes_of_string_def dest: byte_of_char_zero [OF sym])

lemma bytes_of_string_length [simp]: "length (bytes_of_string s) = length s"
  by (simp add: bytes_of_string_def)

lemma read_text:
  assumes "ahead r = bytes_of_string s @ 0 # rest" and "clean_text s"
  shows "read_str_i r = (s, advance (length s + 1) r)"
  using read_str_i_ahead [OF assms(1) clean_bytes [OF assms(2)]] by simp

text \<open>Offsets into a document as successors, so that \<open>drop\<close> computes with them.\<close>

lemma offset_simps:
  "(k::nat) + 2 = Suc (Suc (k))" "2 + (k::nat) = Suc (Suc (k))"
  "(k::nat) + 3 = Suc (Suc (Suc (k)))" "3 + (k::nat) = Suc (Suc (Suc (k)))"
  "(k::nat) + 4 = Suc (Suc (Suc (Suc (k))))" "4 + (k::nat) = Suc (Suc (Suc (Suc (k))))"
  "(k::nat) + 5 = Suc (Suc (Suc (Suc (Suc (k)))))" "5 + (k::nat) = Suc (Suc (Suc (Suc (Suc (k)))))"
  "(k::nat) + 6 = Suc (Suc (Suc (Suc (Suc (Suc (k))))))" "6 + (k::nat) = Suc (Suc (Suc (Suc (Suc (Suc (k))))))"
  "(k::nat) + 7 = Suc (Suc (Suc (Suc (Suc (Suc (Suc (k)))))))" "7 + (k::nat) = Suc (Suc (Suc (Suc (Suc (Suc (Suc (k)))))))"
  "(k::nat) + 8 = Suc (Suc (Suc (Suc (Suc (Suc (Suc (Suc (k))))))))" "8 + (k::nat) = Suc (Suc (Suc (Suc (Suc (Suc (Suc (Suc (k))))))))"
  by simp_all

section \<open>Attributes of a document\<close>

lemma attr_loop_next:
  "ahead r = b # bs \<Longrightarrow> b \<noteq> 0x01 \<Longrightarrow> attr_step b (advance 1 r) st = (r', st') \<Longrightarrow>
   attr_loop r st = attr_loop r' st'"
  by (subst attr_loop.simps) (simp add: read_byte_ahead wbxml_tokens)

lemma attr_loop_end: "ahead r = 0x01 # bs \<Longrightarrow> attr_loop r st = (advance 1 r, flush_attr st)"
  by (subst attr_loop.simps) (simp add: read_byte_ahead wbxml_tokens)

lemma page0_entries:
  "resolve_attr_start 0 0x05 = (''name'', [])" "resolve_attr_start 0 0x06 = (''value'', [])"
  "value_known (resolve_attr_value 0 0x05) = False" "value_known (resolve_attr_value 0 0x06) = False"
  by code_simp+

lemma not_attr_names: "has_prefix ''name'' ''attr_'' = False" "has_prefix ''value'' ''attr_'' = False"
  "has_prefix ''type'' ''attr_'' = False"
  by code_simp+

lemma step_name:
  "rd_attr_page r = 0 \<Longrightarrow> attr_step 0x05 r ([], [], m) = (r, (''name'', [], m))"
  by (simp add: attr_step_def wbxml_tokens page0_entries not_attr_names flush_attr_def)

lemma step_value:
  "rd_attr_page r = 0 \<Longrightarrow>
   attr_step 0x06 r (''name'', n, m) = (r, (''value'', [], m(''name'' \<mapsto> trim_space n)))"
  by (simp add: attr_step_def wbxml_tokens page0_entries not_attr_names flush_attr_def)

lemma step_text:
  "ahead r = bytes_of_string s @ 0 # rest \<Longrightarrow> clean_text s \<Longrightarrow>
   attr_step 0x03 r (nm, val, m) = (advance (length s + 1) r, (nm, val @ s, m))"
  by (simp add: attr_step_def wbxml_tokens read_text)

lemma type_tokens: "0xA0 \<le> tok \<Longrightarrow> tok \<le> 0xAA \<Longrightarrow>
    tok \<in> {0xA0, 0xA1, 0xA2, 0xA3, 0xA4, 0xA5, 0xA6, 0xA7, 0xA8, 0xA9, 0xAA}" for tok :: byte
proof -
  assume "0xA0 \<le> tok" and "tok \<le> 0xAA"
  then have "unat tok \<in> {160..170}" by (simp add: word_le_nat_alt)
  then have "unat tok \<in> set [160..<171]" by (simp only: set_upt) simp
  then have "unat tok \<in> {160, 161, 162, 163, 164, 165, 166, 167, 168, 169, 170}"
    by (simp add: upt_rec del: set_upt)
  then show ?thesis by (auto simp: word_unat_eq_iff)
qed

lemma type_values:
  "map_of oma_attr_value_page0 0xA0 = Some ''PXLOGICAL''"
  "map_of oma_attr_value_page0 0xA1 = Some ''PXPHYSICAL''"
  "map_of oma_attr_value_page0 0xA2 = Some ''PORT''"
  "map_of oma_attr_value_page0 0xA3 = Some ''VALIDITY''"
  "map_of oma_attr_value_page0 0xA4 = Some ''NAPDEF''"
  "map_of oma_attr_value_page0 0xA5 = Some ''BOOTSTRAP''"
  "map_of oma_attr_value_page0 0xA6 = Some ''VENDORCONFIG''"
  "map_of oma_attr_value_page0 0xA7 = Some ''CLIENTIDENTITY''"
  "map_of oma_attr_value_page0 0xA8 = Some ''PXAUTHINFO''"
  "map_of oma_attr_value_page0 0xA9 = Some ''NAPAUTHINFO''"
  "map_of oma_attr_value_page0 0xAA = Some ''ACCESS''"
  by (simp_all add: oma_attr_value_page0_def)

lemma plain_letters: "list_all plain_char ''ABCDEFGILNOPRSTVY''"
  by (simp add: plain_char_def space_codes_def)

lemma trim_letters:
  "u \<noteq> [] \<Longrightarrow> hd u \<in> set ''ABCDEFGILNOPRSTVY'' \<Longrightarrow> last u \<in> set ''ABCDEFGILNOPRSTVY'' \<Longrightarrow>
   trim_space u = u"
  using plain_letters by (intro trim_space_id) (auto simp: list_all_iff simp del: list.set)

lemma type_token_facts:
  assumes "0xA0 \<le> tok" and "tok \<le> 0xAA"
  shows "resolve_attr_start 0 tok = (''type'', type_name tok)"
    and "tok \<notin> {0x00, 0x01, 0x03, 0x83, 0xC3}"
    and "type_name tok \<noteq> ''__parm__''" and "trim_space (type_name tok) = type_name tok"
proof -
  have tok: "tok \<in> {0xA0, 0xA1, 0xA2, 0xA3, 0xA4, 0xA5, 0xA6, 0xA7, 0xA8, 0xA9, 0xAA}"
    by (rule type_tokens [OF assms])
  then have known: "map_of oma_attr_value_page0 tok \<noteq> None" by (auto simp: type_values)
  then show "resolve_attr_start 0 tok = (''type'', type_name tok)"
    using assms by (auto simp: resolve_attr_start_def oma_attr_start_def type_name_def)
  show "tok \<notin> {0x00, 0x01, 0x03, 0x83, 0xC3}" using tok by auto
  show "type_name tok \<noteq> ''__parm__''" and "trim_space (type_name tok) = type_name tok"
    using tok by (auto simp: type_name_def type_values trim_letters)
qed

lemma step_type:
  "0xA0 \<le> tok \<Longrightarrow> tok \<le> 0xAA \<Longrightarrow> rd_attr_page r = 0 \<Longrightarrow>
   attr_step tok r ([], [], m) = (r, (''type'', type_name tok, m))"
  using type_token_facts [of tok]
  by (simp add: attr_step_def wbxml_tokens not_attr_names flush_attr_def)

lemma parm_attributes:
  assumes "ahead r = 0x05 # 0x03 # bytes_of_string n @ 0 # 0x06 # 0x03 # bytes_of_string v @ 0 # 0x01 # rest"
    and "clean_text n" and "clean_text v" and "rd_attr_page r = 0"
  shows "parse_attributes r =
    ([''name'' \<mapsto> n, ''value'' \<mapsto> v], advance (length n + length v + 7) r)"
proof -
  let ?tail = "0x06 # 0x03 # bytes_of_string v @ 0 # 0x01 # rest"
  have "attr_loop r ([], [], Map.empty) = attr_loop (advance 1 r) (''name'', [], Map.empty)"
    using assms by (intro attr_loop_next [OF assms(1)] step_name) simp_all
  also have "\<dots> = attr_loop (advance (length n + 3) r) (''name'', n, Map.empty)"
  proof (rule attr_loop_next)
    show "ahead (advance 1 r) = 0x03 # bytes_of_string n @ 0 # ?tail" using assms by simp
    show "attr_step 0x03 (advance 1 (advance 1 r)) (''name'', [], Map.empty)
        = (advance (length n + 3) r, (''name'', n, Map.empty))"
      using step_text [of "advance 2 r" n ?tail "''name''" "[]" Map.empty] assms
      by (simp add: numeral_2_eq_2 offset_simps)
  qed simp
  also have "\<dots> = attr_loop (advance (length n + 4) r) (''value'', [], [''name'' \<mapsto> n])"
  proof (rule attr_loop_next)
    show "ahead (advance (length n + 3) r) = ?tail" using assms by (simp add: offset_simps)
    show "attr_step 0x06 (advance 1 (advance (length n + 3) r)) (''name'', n, Map.empty)
        = (advance (length n + 4) r, (''value'', [], [''name'' \<mapsto> n]))"
      using step_value [of "advance (length n + 4) r" n Map.empty] assms
      by (simp add: clean_text_def offset_simps)
  qed simp
  also have "\<dots> = attr_loop (advance (length n + length v + 6) r) (''value'', v, [''name'' \<mapsto> n])"
  proof (rule attr_loop_next)
    show "ahead (advance (length n + 4) r) = 0x03 # bytes_of_string v @ 0 # 0x01 # rest"
      using assms by (simp add: offset_simps)
    show "attr_step 0x03 (advance 1 (advance (length n + 4) r)) (''value'', [], [''name'' \<mapsto> n])
        = (advance (length n + length v + 6) r, (''value'', v, [''name'' \<mapsto> n]))"
      using step_text [of "advance (length n + 5) r" v "0x01 # rest" "''value''" "[]" "[''name'' \<mapsto> n]"]
        assms by (simp add: offset_simps)
  qed simp
  also have "\<dots> = (advance (length n + length v + 7) r, flush_attr (''value'', v, [''name'' \<mapsto> n]))"
  proof -
    have "ahead (advance (length n + length v + 6) r) = 0x01 # rest"
      using assms by (simp add: offset_simps)
    then show ?thesis by (simp add: attr_loop_end offset_simps)
  qed
  finally show ?thesis
    using assms by (simp add: parse_attributes_def flush_attr_def clean_text_def)
qed

lemma type_attributes:
  assumes "ahead r = tok # 0x01 # rest" "0xA0 \<le> tok" "tok \<le> 0xAA" "rd_attr_page r = 0"
  shows "parse_attributes r = ([''type'' \<mapsto> type_name tok], advance 2 r)"
proof -
  have "attr_loop r ([], [], Map.empty) = attr_loop (advance 1 r) (''type'', type_name tok, Map.empty)"
    using assms type_token_facts [of tok]
    by (intro attr_loop_next [OF assms(1)] step_type) simp_all
  also have "\<dots> = (advance 2 r, flush_attr (''type'', type_name tok, Map.empty))"
    using assms attr_loop_end [of "advance 1 r" rest] by (simp add: numeral_2_eq_2)
  finally show ?thesis
    using type_token_facts [OF assms(2,3)] by (simp add: parse_attributes_def flush_attr_def)
qed

section \<open>Elements of a document\<close>

definition at_page0 :: "reader \<Rightarrow> bool" where
  "at_page0 r \<longleftrightarrow> rd_tag_page r = 0 \<and> rd_attr_page r = 0"

lemma at_page0_advance [simp]: "at_page0 (advance k r) = at_page0 r"
  by (simp add: at_page0_def)

lemma tags0:
  "resolve_tag_name 0 5 = ''wap-provisioningdoc''" "resolve_tag_name 0 6 = ''characteristic''"
  "resolve_tag_name 0 7 = ''parm''"
  by code_simp+

lemma parm_element:
  assumes "ahead r = encode_provision (Parm n v) @ rest" "provision_ok (Parm n v)" "at_page0 r"
  shows "parse_element (Suc k) r =
    Some (Element (provision_tree (Parm n v)), advance (length (encode_provision (Parm n v))) r)"
proof -
  let ?attrs = "[''name'' \<mapsto> n, ''value'' \<mapsto> v]"
  have pa: "parse_attributes (advance 1 r) = (?attrs, advance (length n + length v + 8) r)"
    using parm_attributes [of "advance 1 r" n v rest] assms by (simp add: at_page0_def offset_simps)
  have "build_element ''parm'' ?attrs [] [] = Element (provision_tree (Parm n v))"
    using assms(2) by (simp add: build_element_def attr_or_empty_def clean_text_def)
  moreover have rb: "read_byte r = (Some 0x87, advance 1 r)"
    using assms(1) by (intro read_byte_ahead) simp
  ultimately show ?thesis
    using assms pa
    by (simp add: ahead_eof rb wbxml_tokens tags0 at_page0_def offset_simps)
qed

lemma group_element:
  assumes a: "ahead r = encode_provision (Group tok cs) @ rest"
    and ok: "provision_ok (Group tok cs)" and p0: "at_page0 r"
    and inner: "parse_content k (advance 3 r) [] [] =
      Some ((map provision_tree cs, []), advance (length (encode_provision (Group tok cs))) r)"
  shows "parse_element (Suc k) r =
    Some (Element (provision_tree (Group tok cs)),
      advance (length (encode_provision (Group tok cs))) r)"
proof -
  have pa: "parse_attributes (advance 1 r) = ([''type'' \<mapsto> type_name tok], advance 3 r)"
    using type_attributes [of "advance 1 r" tok] a ok p0 by (simp add: at_page0_def numeral_3_eq_3)
  have "build_element ''characteristic'' [''type'' \<mapsto> type_name tok] (map provision_tree cs) []
      = Element (provision_tree (Group tok cs))"
    by (simp add: build_element_def attr_or_empty_def)
  moreover have rb: "read_byte r = (Some 0xC6, advance 1 r)"
    using a by (intro read_byte_ahead) simp
  ultimately show ?thesis
    using a p0 pa inner
    by (simp add: ahead_eof rb wbxml_tokens tags0 at_page0_def
        del: provision_tree.simps)
qed

lemma encode_head: "\<exists>b bs. encode_provision p = b # bs \<and> b \<notin> {0x00, 0x01, 0x03, 0x83, 0xC3}"
  by (cases p) auto

lemma contents_decoded:
  assumes "\<And>c r n rest. c \<in> set cs \<Longrightarrow> ahead r = encode_provision c @ rest \<Longrightarrow> at_page0 r
      \<Longrightarrow> 2 * rd_left r + 1 \<le> n
      \<Longrightarrow> parse_element n r = Some (Element (provision_tree c), advance (length (encode_provision c)) r)"
    and "ahead r = concat (map encode_provision cs) @ 0x01 # rest" and "at_page0 r"
    and "2 * rd_left r + 2 \<le> n"
  shows "parse_content n r ds tx = Some ((ds @ map provision_tree cs, tx),
      advance (length (concat (map encode_provision cs)) + 1) r)"
  using assms
proof (induction cs arbitrary: r n ds)
  case Nil
  then show ?case
    by (cases n) (auto simp: ahead_eof ahead_peek wbxml_tokens advance_Suc)
next
  case (Cons c cs)
  obtain k where n: "n = Suc k" using Cons.prems(4) by (cases n) auto
  let ?rest = "concat (map encode_provision cs) @ 0x01 # rest"
  let ?r1 = "advance (length (encode_provision c)) r"
  obtain b bs where b: "encode_provision c = b # bs" "b \<notin> {0x00, 0x01, 0x03, 0x83, 0xC3}"
    using encode_head by blast
  have a: "ahead r = encode_provision c @ ?rest" using Cons.prems(2) by simp
  have e: "parse_element k r = Some (Element (provision_tree c), ?r1)"
    by (rule Cons.prems(1) [OF _ a]) (use Cons.prems n in simp_all)
  have a1: "ahead ?r1 = ?rest" using a by simp
  have "rd_left ?r1 < rd_left r" using a a1 b by (simp add: ahead_left)
  then have fuel: "2 * rd_left ?r1 + 2 \<le> k" using Cons.prems(4) n by linarith
  have "parse_content k ?r1 (ds @ [provision_tree c]) tx =
      Some (((ds @ [provision_tree c]) @ map provision_tree cs, tx),
        advance (length (concat (map encode_provision cs)) + 1) ?r1)"
    using Cons.prems(3) by (intro Cons.IH [OF Cons.prems(1) a1 _ fuel]) simp_all
  then show ?case
    using a b e n ahead_peek [of r b]
    by (simp add: ahead_eof wbxml_tokens Let_def offset_simps)
qed

lemma element_decoded:
  "provision_ok p \<Longrightarrow> ahead r = encode_provision p @ rest \<Longrightarrow> at_page0 r \<Longrightarrow> 2 * rd_left r + 1 \<le> n
   \<Longrightarrow> parse_element n r = Some (Element (provision_tree p), advance (length (encode_provision p)) r)"
proof (induction p arbitrary: r n rest)
  case (Parm m v)
  then show ?case using parm_element [of r m v rest] by (cases n) auto
next
  case (Group tok cs)
  obtain k where n: "n = Suc k" using Group.prems(4) by (cases n) auto
  have a: "ahead (advance 3 r) = concat (map encode_provision cs) @ 0x01 # rest"
    using Group.prems(2) by (simp add: offset_simps)
  have l: "rd_left (advance 3 r) < rd_left r"
    using Group.prems(2) by (simp add: ahead_left)
  have "parse_content k (advance 3 r) [] [] = Some (([] @ map provision_tree cs, []),
      advance (length (concat (map encode_provision cs)) + 1) (advance 3 r))"
  proof (rule contents_decoded [OF _ a])
    fix c r n rest'
    assume "c \<in> set cs" "ahead r = encode_provision c @ rest'" "at_page0 r" "2 * rd_left r + 1 \<le> n"
    with Group show "parse_element n r =
        Some (Element (provision_tree c), advance (length (encode_provision c)) r)"
      by (auto simp: list_all_iff)
  next
    show "at_page0 (advance 3 r)" using Group.prems(3) by simp
    show "2 * rd_left (advance 3 r) + 2 \<le> k" using l Group.prems(4) n by linarith
  qed
  then show ?case
    unfolding n using Group.prems by (intro group_element) (simp_all add: offset_simps)
qed

section \<open>Whole documents\<close>

lemma read_mb_short:
  assumes "ahead r = b # bs" and "b AND 0x7F = b" and "b AND 0x80 = 0"
  shows "read_mb_uint32 r = (Some (ucast b), advance 1 r)"
  using assms(2,3) by (simp add: read_mb_uint32_def numeral_eq_Suc read_byte_ahead [OF assms(1)])

lemma scan_skips:
  "\<forall>i < length w. \<not> is_wbxml_header (drop i (w @ d)) \<Longrightarrow> is_wbxml_header d \<Longrightarrow> scan_wbxml (w @ d) = Some d"
proof (induction w)
  case Nil
  moreover have "\<not> is_wbxml_header []" by (simp add: is_wbxml_header_def)
  ultimately show ?case by (cases d) auto
next
  case (Cons b w)
  have "\<not> is_wbxml_header (b # w @ d)" using Cons.prems(1) by force
  moreover have "\<forall>i < length w. \<not> is_wbxml_header (drop i (w @ d))"
    using Cons.prems(1) by force
  ultimately show ?case using Cons by simp
qed

lemma start_found:
  assumes "\<forall>i < length w. \<not> is_wbxml_header (drop i (w @ d))" and "is_wbxml_header d"
  shows "find_wbxml_start (w @ d) = Ok d"
proof (cases w)
  case Nil
  with assms show ?thesis by (simp add: find_wbxml_start_def)
next
  case (Cons b v)
  have "scan_wbxml (w @ d) = Some d" "\<not> is_wbxml_header (w @ d)"
    using scan_skips [OF assms] assms(1) Cons by force+
  with Cons show ?thesis by (simp add: find_wbxml_start_def)
qed

lemma mb_short:
  "i < length data \<Longrightarrow> data ! i AND 0x7F = data ! i \<Longrightarrow> data ! i AND 0x80 = 0 \<Longrightarrow>
   parse_mb_uint32_at data i = Some (ucast (data ! i), Suc i)"
  by (simp add: parse_mb_uint32_at_def numeral_eq_Suc)

lemma document_header: "is_wbxml_header (encode_document cs)"
  by (simp add: encode_document_def is_wbxml_header_def mb_short)

definition document_tree :: "provision list \<Rightarrow> oma_config" where
  "document_tree cs =
     \<lparr>oc_version = (1, 3),
      oc_characteristics =
        [Characteristic ''wap-provisioningdoc'' Map.empty (map provision_tree cs)]\<rparr>"

lemma root_element:
  assumes "ahead r = 0x45 # concat (map encode_provision cs) @ [0x01]" and "at_page0 r"
    and "list_all provision_ok cs" and "cs \<noteq> []" and "2 * rd_left r + 1 \<le> n"
  shows "parse_element n r =
    Some (Element (Characteristic ''wap-provisioningdoc'' Map.empty (map provision_tree cs)),
      advance (length (ahead r)) r)"
proof -
  obtain k where n: "n = Suc k" using assms(5) by (cases n) auto
  have a: "ahead (advance 1 r) = concat (map encode_provision cs) @ 0x01 # []"
    using assms(1) by simp
  have l: "rd_left (advance 1 r) < rd_left r" using assms(1) by (simp add: ahead_left)
  have "parse_content k (advance 1 r) [] [] = Some (([] @ map provision_tree cs, []),
      advance (length (concat (map encode_provision cs)) + 1) (advance 1 r))"
  proof (rule contents_decoded [OF _ a])
    fix c r n rest
    assume "c \<in> set cs" "ahead r = encode_provision c @ rest" "at_page0 r" "2 * rd_left r + 1 \<le> n"
    with assms(3) show "parse_element n r =
        Some (Element (provision_tree c), advance (length (encode_provision c)) r)"
      by (intro element_decoded) (auto simp: list_all_iff)
  next
    show "at_page0 (advance 1 r)" using assms(2) by simp
    show "2 * rd_left (advance 1 r) + 2 \<le> k" using l assms(5) n by linarith
  qed
  moreover have rb: "read_byte r = (Some 0x45, advance 1 r)"
    using assms(1) by (intro read_byte_ahead) simp
  ultimately show ?thesis
    using assms n
    by (simp add: ahead_eof wbxml_tokens tags0 at_page0_def build_element_def)
qed

lemma document_decoded:
  assumes "list_all provision_ok cs" and "cs \<noteq> []"
  shows "decode_wbxml (encode_document cs) = Ok (document_tree cs)"
proof -
  let ?body = "0x45 # concat (map encode_provision cs) @ [0x01]"
  let ?r = "new_reader (encode_document cs)"
  have a: "ahead ?r = 0x03 # 0x0B # 0x6A # 0x00 # ?body"
    by (simp add: ahead_def new_reader_def encode_document_def)
  have b: "ahead (advance 1 ?r) = 0x0B # 0x6A # 0x00 # ?body"
    "ahead (advance 2 ?r) = 0x6A # 0x00 # ?body" "ahead (advance 3 ?r) = 0x00 # ?body"
    "ahead (advance 4 ?r) = ?body"
    using a by simp_all
  let ?r4 = "advance 4 ?r" and ?r5 = "(advance 4 ?r)\<lparr>rd_table := []\<rparr>"
  have a5: "ahead ?r5 = ?body" using b(4) by (simp add: ahead_def)
  have p5: "at_page0 ?r5" by (simp add: at_page0_def new_reader_def)
  obtain k where k: "body_fuel ?r4 = Suc (Suc k)" "2 * rd_left ?r5 + 1 \<le> Suc k"
    by (rule that [of "2 * rd_left ?r4"]) (simp_all add: body_fuel_def rd_left_def)
  have "parse_body (Suc (Suc k)) ?r5 [] =
      Some ([Characteristic ''wap-provisioningdoc'' Map.empty (map provision_tree cs)],
        advance (length (ahead ?r5)) ?r5)"
    using root_element [OF a5 p5 assms k(2)] a5 by (simp add: ahead_eof)
  moreover have "read_byte ?r = (Some 0x03, advance 1 ?r)" by (rule read_byte_ahead [OF a])
  moreover have "advance 1 (advance 1 ?r) = advance 2 ?r" by (simp add: advance_def)
  then have "read_mb_uint32 (advance 1 ?r) = (Some 0x0B, advance 2 ?r)"
    using read_mb_short [OF b(1)] by simp
  moreover have "read_mb_uint32 (advance 2 ?r) = (Some 0x6A, advance 3 ?r)"
    using read_mb_short [OF b(2)] by simp
  moreover have "read_mb_uint32 (advance 3 ?r) = (Some 0x00, advance 4 ?r)"
    using read_mb_short [OF b(3)] by simp
  ultimately show ?thesis
    using k(1) by (simp add: decode_wbxml_def document_tree_def)
qed



end
