(* ===== verification/Sim_Aid.thy ===== *)
theory Sim_Aid
  imports SMS_Rp
begin

text \<open>
  Reading the applications of a card (internal/simaid): the classification of AIDs, the
  search for a tag in BER-TLV data, the file control parameters of EF\_DIR, and the
  exchange of APDUs that reads the directory. The card is the function \<open>transmit\<close>, which the
  caller passes; it may answer anything.
\<close>

section \<open>Application identifiers\<close>

definition usim_prefix :: bytes where "usim_prefix = [0xA0, 0x00, 0x00, 0x00, 0x87, 0x10, 0x02]"
definition isim_prefix :: bytes where "isim_prefix = [0xA0, 0x00, 0x00, 0x00, 0x87, 0x10, 0x04]"

definition normalize_hex_aid :: "string \<Rightarrow> string" where
  "normalize_hex_aid aid = to_upper (trim_space aid)"

definition is_usim :: "bytes \<Rightarrow> bool" where
  "is_usim aid \<longleftrightarrow> length usim_prefix \<le> length aid \<and> take (length usim_prefix) aid = usim_prefix"

definition is_isim :: "bytes \<Rightarrow> bool" where
  "is_isim aid \<longleftrightarrow> length isim_prefix \<le> length aid \<and> take (length isim_prefix) aid = isim_prefix"

definition is_usim_hex :: "string \<Rightarrow> bool" where
  "is_usim_hex aid =
     (case hex_decode (normalize_hex_aid aid) of None \<Rightarrow> False | Some b \<Rightarrow> is_usim b)"

definition is_isim_hex :: "string \<Rightarrow> bool" where
  "is_isim_hex aid =
     (case hex_decode (normalize_hex_aid aid) of None \<Rightarrow> False | Some b \<Rightarrow> is_isim b)"

fun append_unique_aids :: "bytes list \<Rightarrow> bytes list \<Rightarrow> bytes list" where
  "append_unique_aids dst [] = dst"
| "append_unique_aids dst (aid # src) =
     (if aid = [] then append_unique_aids dst src
      else if list_ex (\<lambda>e. e = aid) dst then append_unique_aids dst src
      else append_unique_aids (dst @ [aid]) src)"

fun filter_aids :: "(bytes \<Rightarrow> bool) \<Rightarrow> bytes list \<Rightarrow> bytes list \<Rightarrow> bytes list" where
  "filter_aids P out [] = out"
| "filter_aids P out (aid # aids) =
     (if P aid then filter_aids P (append_unique_aids out [aid]) aids else filter_aids P out aids)"

definition filter_usim :: "bytes list \<Rightarrow> bytes list" where "filter_usim aids = filter_aids is_usim [] aids"
definition filter_isim :: "bytes list \<Rightarrow> bytes list" where "filter_isim aids = filter_aids is_isim [] aids"

section \<open>Status words\<close>

datatype 'e card_error =
  CardLink string 'e | AnswerTooShort string bytes | StatusWord string byte byte | NoAidFound "'e card_error option"

definition apdu_status :: "bytes \<Rightarrow> (byte \<times> byte) option" where
  "apdu_status rsp =
     (if length rsp < 2 then None
      else Some (rsp ! (length rsp - 2), rsp ! (length rsp - 1)))"

definition is_success :: "byte \<Rightarrow> byte \<Rightarrow> bool" where
  "is_success sw1 sw2 \<longleftrightarrow> sw1 = 0x90 \<or> sw1 = 0x62 \<or> sw1 = 0x63"

definition is_select_success :: "byte \<Rightarrow> byte \<Rightarrow> bool" where
  "is_select_success sw1 sw2 \<longleftrightarrow> sw1 = 0x90 \<or> sw1 = 0x61 \<or> sw1 = 0x62 \<or> sw1 = 0x63"

definition extract_success_data :: "string \<Rightarrow> bytes \<Rightarrow> ('e card_error, bytes) result" where
  "extract_success_data op rsp =
     (case apdu_status rsp of
        None \<Rightarrow> Fail (AnswerTooShort op rsp)
      | Some (sw1, sw2) \<Rightarrow>
          if \<not> is_success sw1 sw2 then Fail (StatusWord op sw1 sw2)
          else cut rsp 0 (length rsp - 2) Ok)"

section \<open>BER-TLV\<close>

text \<open>
  The length of the tag at the front of \<open>s\<close>: one byte, and for a tag number of all ones the
  bytes behind it up to and including the first without the high bit.
\<close>

fun tag_tail :: "bytes \<Rightarrow> nat" where
  "tag_tail [] = 0"
| "tag_tail (b # s) = (if b AND 0x80 = 0 then 1 else 1 + tag_tail s)"

lemma tag_tail_le: "tag_tail s \<le> length s"
  by (induction s) auto

definition tag_length :: "bytes \<Rightarrow> nat" where
  "tag_length s = (case s of [] \<Rightarrow> 0 | b # t \<Rightarrow> if b AND 0x1F = 0x1F then 1 + tag_tail t else 1)"

text \<open>Go's \<open>int\<close> is 64 bits wide: \<open>length = (length << 8) | int(b)\<close> loses its top byte.\<close>

definition shift_in :: "int \<Rightarrow> byte \<Rightarrow> int" where
  "shift_in l b = wrap_int (l * 256) + uint b"

definition be_length :: "bytes \<Rightarrow> int" where
  "be_length bs = foldl shift_in 0 bs"

text \<open>
  The length field at \<open>t\<close>: where the value starts and its length; None for the \<open>break\<close>s on a
  length of more than three bytes, of none, or cut off.
\<close>

definition tlv_length :: "bytes \<Rightarrow> nat \<Rightarrow> ('e, (nat \<times> int) option) result" where
  "tlv_length s t =
     at_index s t (\<lambda>lb.
       if lb AND 0x80 = 0 then Ok (Some (t + 1, uint lb))
       else
         (let n = unat (lb AND 0x7F) in
          if n = 0 \<or> n > 3 \<or> t + 1 + n > length s then Ok None
          else cut s (t + 1) (t + 1 + n) (\<lambda>lbs. Ok (Some (t + 1 + n, be_length lbs)))))"

lemma tlv_length_start: "tlv_length s t = Ok (Some (i, l)) \<Longrightarrow> t < i"
  by (auto simp: tlv_length_def at_index_def cut_def Let_def split: if_splits)

lemma dropWhile_shorter: "length (dropWhile P xs) \<le> length xs"
  by (rule length_dropWhile_le)

text \<open>\<open>CollectTLVValues\<close>; \<open>s\<close> is what the loop has left behind the padding.\<close>

function collect_tlv_values :: "bytes \<Rightarrow> byte \<Rightarrow> ('e, bytes list) result" where
  "collect_tlv_values data want =
     (let s = dropWhile (\<lambda>b. b = 0 \<or> b = 0xFF) data; t = tag_length s in
      if s = [] \<or> t \<ge> length s then Ok []
      else cut s 0 t (\<lambda>tag. and_then (tlv_length s t) (\<lambda>r.
        case r of
          None \<Rightarrow> Ok []
        | Some (i, l) \<Rightarrow>
            if l < 0 \<or> int i + l > int (length s) then Ok []
            else cut s i (i + nat l) (\<lambda>value. at_index tag 0 (\<lambda>t0.
              and_then (if t0 AND 0x20 \<noteq> 0 then collect_tlv_values value want else Ok []) (\<lambda>inner.
              and_then (collect_tlv_values (drop (i + nat l) s) want) (\<lambda>others.
                Ok ((if length tag = 1 \<and> t0 = want then [value] else []) @ inner @ others))))))))"
  by pat_completeness auto
termination
proof (relation "measure (length \<circ> fst)", goal_cases)
  case 1
  then show ?case by simp
next
  case (2 data want s t r p i l)
  have "length s \<le> length data" unfolding 2(1) by (rule dropWhile_shorter)
  moreover have "t < i" using 2 by (intro tlv_length_start [of s t i l]) auto
  moreover have "i + nat l \<le> length s" using 2 by auto
  ultimately show ?case by simp
next
  case (3 data want s t r p i l)
  have "length s \<le> length data" unfolding 3(1) by (rule dropWhile_shorter)
  moreover have "t < i" using 3 by (intro tlv_length_start [of s t i l]) auto
  moreover have "i + nat l \<le> length s" using 3 by auto
  ultimately show ?case by simp
qed

declare collect_tlv_values.simps [simp del]

section \<open>File control parameters\<close>

text \<open>
  The loop of \<open>ParseLinearFixedMetaFromFCP\<close> at index \<open>i\<close>. The length of the length field is not
  bounded here, so \<open>l\<close> may be any 64-bit value, and so may the wrapped sum \<open>i + l\<close>.
\<close>

definition fcp_length :: "bytes \<Rightarrow> nat \<Rightarrow> ('e, (nat \<times> int) option) result" where
  "fcp_length data i =
     at_index data i (\<lambda>lb.
       let l = uint lb; i = i + 1 in
       if lb AND 0x80 \<noteq> 0 then
         (let n = unat (lb AND 0x7F) in
          if n = 0 \<or> i + n > length data then Ok None
          else cut data i (i + n) (\<lambda>lbs. Ok (Some (i + n, be_length lbs))))
       else Ok (Some (i, l)))"

lemma fcp_length_start: "fcp_length data i = Ok (Some (j, l)) \<Longrightarrow> i < j"
  by (auto simp: fcp_length_def at_index_def cut_def Let_def split: if_splits)

definition cut_int :: "bytes \<Rightarrow> nat \<Rightarrow> int \<Rightarrow> (bytes \<Rightarrow> ('e, 'a) result) \<Rightarrow> ('e, 'a) result" where
  "cut_int xs i j k = (if j < 0 then Panic else cut xs i (nat j) k)"

lemma cut_int_cong [fundef_cong]:
  "xs = ys \<Longrightarrow> i = i' \<Longrightarrow> j = j' \<Longrightarrow>
     (0 \<le> j' \<Longrightarrow> i' \<le> nat j' \<Longrightarrow> nat j' \<le> length ys \<Longrightarrow>
        k (take (nat j' - i') (drop i' ys)) = k' (take (nat j' - i') (drop i' ys))) \<Longrightarrow>
     cut_int xs i j k = cut_int ys i' j' k'"
  by (auto simp: cut_int_def cut_def)

function fcp_loop :: "bytes \<Rightarrow> nat \<Rightarrow> int \<Rightarrow> int \<Rightarrow> ('e, int \<times> int) result" where
  "fcp_loop data i recLen recCount =
     (if i + 2 > length data then Ok (recLen, recCount)
      else at_index data i (\<lambda>tag. and_then (fcp_length data (i + 1)) (\<lambda>r.
        case r of
          None \<Rightarrow> Ok (recLen, recCount)
        | Some (i, l) \<Rightarrow>
            (let e = wrap_int (int i + l) in
             if e > int (length data) then Ok (recLen, recCount)
             else cut_int data i e (\<lambda>v.
               let n = length v in
               if tag = 0x82 \<and> 5 \<le> n then
                 at_index v (n - 3) (\<lambda>hi. at_index v (n - 2) (\<lambda>lo. at_index v (n - 1) (\<lambda>c.
                   let recLen = uint hi * 256 + uint lo in
                   if recLen > 0 then Ok (recLen, uint c)
                   else fcp_loop data (nat e) recLen (uint c))))
               else fcp_loop data (nat e) recLen recCount)))))"
  by pat_completeness auto
termination
proof (relation "measure (\<lambda>(data, i, _). length data - i)", goal_cases)
  case 1
  then show ?case by simp
next
  case 2
  from fcp_length_start [OF 2(3) [unfolded 2(4) 2(5) [symmetric]]] 2(2,9)
  show ?case by (simp add: diff_less_mono2)
next
  case 3
  from fcp_length_start [OF 3(3) [unfolded 3(4) 3(5) [symmetric]]] 3(2,9)
  show ?case by (simp add: diff_less_mono2)
qed

declare fcp_loop.simps [simp del]

definition parse_linear_fixed_meta :: "bytes \<Rightarrow> ('e, int \<times> int) result" where
  "parse_linear_fixed_meta fcp =
     (if length fcp < 2 then Ok (0, 0)
      else at_index fcp 0 (\<lambda>f0.
        if f0 = 0x62 then
          at_index fcp 1 (\<lambda>f1.
            let tot = (if unat f1 > length fcp - 2 then length fcp - 2 else unat f1) in
            cut fcp 2 (2 + tot) (\<lambda>data. fcp_loop data 0 0 0))
        else fcp_loop fcp 0 0 0))"

section \<open>Reading the directory\<close>

type_synonym ('d, 'e) card_link = "bytes \<Rightarrow> 'd \<Rightarrow> ('e, bytes) result \<times> 'd"

text \<open>
  \<open>selectFileWithTransmit\<close>; the wrapper that keeps the answer to the selection of EF\_DIR makes
  it the value.
\<close>

definition select_file ::
  "('d, 'e) card_link \<Rightarrow> string \<Rightarrow> bytes \<Rightarrow> 'd \<Rightarrow> ('e card_error, bytes) result \<times> 'd" where
  "select_file transmit name apdu d =
     (case transmit apdu d of
        (Panic, d') \<Rightarrow> (Panic, d')
      | (Fail e, d') \<Rightarrow> (Fail (CardLink name e), d')
      | (Ok rsp, d') \<Rightarrow>
          (case apdu_status rsp of
             None \<Rightarrow> (Fail (AnswerTooShort name rsp), d')
           | Some (sw1, sw2) \<Rightarrow>
               if \<not> is_select_success sw1 sw2 then (Fail (StatusWord name sw1 sw2), d')
               else (Ok rsp, d')))"

definition select_mf :: bytes where "select_mf = [0x00, 0xA4, 0x00, 0x04, 0x02, 0x3F, 0x00]"
definition select_ef_dir :: bytes where "select_ef_dir = [0x00, 0xA4, 0x00, 0x04, 0x02, 0x2F, 0x00]"

text \<open>What one record adds: \<open>End\<close> is the \<open>break\<close> on a status that says there is no such record.\<close>

datatype 'e record_outcome = End | Skip "'e card_error" | Found "bytes list"

definition read_record_outcome :: "('e, bytes) result \<Rightarrow> ('e, 'e record_outcome) result" where
  "read_record_outcome r =
     (case r of
        Panic \<Rightarrow> Panic
      | Fail e \<Rightarrow> Ok (Skip (CardLink ''EF_DIR'' e))
      | Ok rsp \<Rightarrow>
          (case apdu_status rsp of
             None \<Rightarrow> Ok (Skip (AnswerTooShort ''EF_DIR'' rsp))
           | Some (sw1, sw2) \<Rightarrow>
               if sw1 = 0x6A \<and> (sw2 = 0x83 \<or> sw2 = 0x82) then Ok End
               else if \<not> is_success sw1 sw2 then Ok (Skip (StatusWord ''EF_DIR'' sw1 sw2))
               else cut rsp 0 (length rsp - 2) (\<lambda>data.
                 and_then (collect_tlv_values data 0x4F) (\<lambda>vs. Ok (Found vs)))))"

fun read_records ::
  "('d, 'e) card_link \<Rightarrow> int \<Rightarrow> nat \<Rightarrow> nat \<Rightarrow> bytes list \<Rightarrow> 'e card_error option \<Rightarrow> 'd
   \<Rightarrow> ('e, bytes list \<times> 'e card_error option) result \<times> 'd" where
  "read_records transmit recLen record 0 aids lastErr d = (Ok (aids, lastErr), d)"
| "read_records transmit recLen record (Suc n) aids lastErr d =
     (case transmit [0x00, 0xB2, of_nat record, 0x04, of_int recLen] d of
        (r, d') \<Rightarrow>
          (case read_record_outcome r of
             Panic \<Rightarrow> (Panic, d')
           | Fail e \<Rightarrow> (Fail e, d')
           | Ok End \<Rightarrow> (Ok (aids, lastErr), d')
           | Ok (Skip e) \<Rightarrow> read_records transmit recLen (record + 1) n aids (Some e) d'
           | Ok (Found vs) \<Rightarrow>
               read_records transmit recLen (record + 1) n (append_unique_aids aids vs) lastErr d'))"

definition record_plan :: "int \<times> int \<Rightarrow> int \<times> nat" where
  "record_plan meta =
     (let recLen = (if fst meta < 0 \<or> fst meta > 0xFF then 0 else fst meta);
          maxRecords = (if 0 < snd meta \<and> snd meta < 32 then nat (snd meta) else 32)
      in (recLen, maxRecords))"

definition read_directory_aids ::
  "('d, 'e) card_link \<Rightarrow> 'd \<Rightarrow> ('e card_error, bytes list) result \<times> 'd" where
  "read_directory_aids transmit d =
     (case select_file transmit ''MF'' select_mf d of
        (Panic, d) \<Rightarrow> (Panic, d)
      | (Fail e, d) \<Rightarrow> (Fail e, d)
      | (Ok _, d) \<Rightarrow>
     (case select_file transmit ''EF_DIR'' select_ef_dir d of
        (Panic, d) \<Rightarrow> (Panic, d)
      | (Fail e, d) \<Rightarrow> (Fail e, d)
      | (Ok rsp, d) \<Rightarrow>
     (case and_then (extract_success_data ''EF_DIR'' rsp) parse_linear_fixed_meta of
        Panic \<Rightarrow> (Panic, d)
      | Fail e \<Rightarrow> (Fail e, d)
      | Ok meta \<Rightarrow>
     (case record_plan meta of (recLen, maxRecords) \<Rightarrow>
     (case read_records transmit recLen 1 maxRecords [] None d of
        (Panic, d) \<Rightarrow> (Panic, d)
      | (Fail e, d) \<Rightarrow> (Fail (CardLink ''EF_DIR'' e), d)
      | (Ok (aids, lastErr), d) \<Rightarrow>
          if aids = [] then (Fail (NoAidFound lastErr), d) else (Ok aids, d))))))"

text \<open>
  \<open>SelectAIDWithTransmit\<close>: both select variants of each candidate in turn. Its error is nil on
  every way out except for the missing transmit function.
\<close>

fun select_variants ::
  "('d, 'e) card_link \<Rightarrow> bytes \<Rightarrow> byte list \<Rightarrow> 'd \<Rightarrow> ('e, bool) result \<times> 'd" where
  "select_variants transmit aid [] d = (Ok False, d)"
| "select_variants transmit aid (p2 # p2s) d =
     (case transmit ([0x00, 0xA4, 0x04, p2, of_nat (length aid)] @ aid) d of
        (Panic, d') \<Rightarrow> (Panic, d')
      | (Fail e, d') \<Rightarrow> select_variants transmit aid p2s d'
      | (Ok rsp, d') \<Rightarrow>
          (case apdu_status rsp of
             None \<Rightarrow> select_variants transmit aid p2s d'
           | Some (sw1, sw2) \<Rightarrow>
               if is_select_success sw1 sw2 then (Ok True, d')
               else select_variants transmit aid p2s d'))"

fun select_aid_with_transmit ::
  "bytes list \<Rightarrow> (bytes \<Rightarrow> bool) \<Rightarrow> ('d, 'e) card_link \<Rightarrow> 'd \<Rightarrow> ('e, bytes option) result \<times> 'd" where
  "select_aid_with_transmit [] matches transmit d = (Ok None, d)"
| "select_aid_with_transmit (aid # aids) matches transmit d =
     (if \<not> matches aid then select_aid_with_transmit aids matches transmit d
      else if aid = [] \<or> length aid > 0xFF then select_aid_with_transmit aids matches transmit d
      else
        (case select_variants transmit aid [0x04, 0x00] d of
           (Ok True, d') \<Rightarrow> (Ok (Some aid), d')
         | (Ok False, d') \<Rightarrow> select_aid_with_transmit aids matches transmit d'
         | (Fail e, d') \<Rightarrow> (Fail e, d')
         | (Panic, d') \<Rightarrow> (Panic, d')))"

section \<open>The search finds every value\<close>

lemma option_no_panic [no_panic]:
  "(r = None \<Longrightarrow> f \<noteq> Panic) \<Longrightarrow> (\<And>x. r = Some x \<Longrightarrow> g x \<noteq> Panic) \<Longrightarrow>
     (case r of None \<Rightarrow> f | Some x \<Rightarrow> g x) \<noteq> Panic"
  by (cases r) simp_all

lemma tag_length_bounds: "s \<noteq> [] \<Longrightarrow> 0 < tag_length s \<and> tag_length s \<le> length s"
  using tag_tail_le by (cases s) (auto simp: tag_length_def)

lemma tlv_length_no_panic [no_panic]: "t < length s \<Longrightarrow> tlv_length s t \<noteq> Panic"
  unfolding tlv_length_def Let_def by (intro no_panic) auto

lemma collect_no_panic [no_panic]: "collect_tlv_values data want \<noteq> (Panic :: ('e, bytes list) result)"
proof (induction "length data" arbitrary: data rule: less_induct)
  case less
  let ?s = "dropWhile (\<lambda>b. b = 0 \<or> b = 0xFF) data"
  let ?t = "tag_length ?s"
  have s: "length ?s \<le> length data" by (rule dropWhile_shorter)
  have t: "0 < ?t" if "?s \<noteq> []" using tag_length_bounds [OF that] by simp
  show ?case
  proof (subst collect_tlv_values.simps, unfold Let_def, intro no_panic)
    assume ne: "\<not> (?s = [] \<or> ?t \<ge> length ?s)"
    then show "0 \<le> ?t" "?t \<le> length ?s" "?t < length ?s" by simp_all
    fix tag :: bytes and r i l p and v :: bytes
    assume tag: "length tag = ?t - 0"
    assume "tlv_length ?s ?t = (Ok r :: ('e, (nat \<times> int) option) result)" "r = Some p" "p = (i, l)"
    then have i: "?t < i" by (intro tlv_length_start) simp
    assume room: "\<not> (l < 0 \<or> int i + l > int (length ?s))"
    then have "0 \<le> l" "int i + l \<le> int (length ?s)" by simp_all
    then show fits: "i + nat l \<le> length ?s" by linarith
    show "i \<le> i + nat l" by simp
    assume v: "length v = i + nat l - i"
    show "0 < length tag" using ne t tag by simp
    show "collect_tlv_values v want \<noteq> (Panic :: ('e, bytes list) result)"
      by (rule less) (use v fits i s in auto)
    show "collect_tlv_values (drop (i + nat l) ?s) want \<noteq> (Panic :: ('e, bytes list) result)"
      by (rule less) (use ne i s in auto)
  qed
qed

text \<open>Well-formed BER data: single-byte tags, lengths in their shortest form.\<close>

datatype ber = Leaf byte bytes | Node byte "ber list"

definition ber_length_bytes :: "nat \<Rightarrow> bytes" where
  "ber_length_bytes n =
     (if n < 0x80 then [of_nat n]
      else if n < 0x100 then [0x81, of_nat n]
      else if n < 0x10000 then [0x82, of_nat (n div 256), of_nat n]
      else [0x83, of_nat (n div 65536), of_nat (n div 256), of_nat n])"

fun ber_bytes :: "ber \<Rightarrow> bytes" where
  "ber_bytes (Leaf t v) = t # ber_length_bytes (length v) @ v"
| "ber_bytes (Node t bs) =
     (let v = concat (map ber_bytes bs) in t # ber_length_bytes (length v) @ v)"

fun ber_ok :: "ber \<Rightarrow> bool" where
  "ber_ok (Leaf t v) \<longleftrightarrow>
     t \<noteq> 0 \<and> t AND 0x1F \<noteq> 0x1F \<and> t AND 0x20 = 0 \<and> length v < 2 ^ 24"
| "ber_ok (Node t bs) \<longleftrightarrow>
     t AND 0x1F \<noteq> 0x1F \<and> t AND 0x20 \<noteq> 0 \<and> length (concat (map ber_bytes bs)) < 2 ^ 24
     \<and> (\<forall>b \<in> set bs. ber_ok b)"

fun ber_values :: "byte \<Rightarrow> ber \<Rightarrow> bytes list" where
  "ber_values want (Leaf t v) = (if t = want then [v] else [])"
| "ber_values want (Node t bs) =
     (if t = want then [concat (map ber_bytes bs)] else []) @ concat (map (ber_values want) bs)"

definition padding :: "bytes \<Rightarrow> bool" where
  "padding p \<longleftrightarrow> list_all (\<lambda>b. b = 0 \<or> b = 0xFF) p"

lemma collect_padding: "padding p \<Longrightarrow> collect_tlv_values p want = Ok []"
  by (subst collect_tlv_values.simps) (auto simp: padding_def list_all_iff Let_def dropWhile_eq_Nil_conv)

lemma uint_of_nat_byte: "uint (of_nat n :: byte) = int (n mod 256)"
  by (simp add: unsigned_of_nat take_bit_eq_mod zmod_int)

lemma shift_in_small: "0 \<le> l \<Longrightarrow> l < 2 ^ 32 \<Longrightarrow> shift_in l b = l * 256 + uint b"
  by (simp add: shift_in_def wrap_int_id in_int64_def)

lemma digit_split: "int (n div 256) * 256 + int (n mod 256) = int n"
  by (metis div_mult_mod_eq of_nat_add of_nat_mult of_nat_numeral)

lemma shift_in_next: "n < 2 ^ 32 \<Longrightarrow> shift_in (int (n div 256)) (of_nat n) = int n"
  by (subst shift_in_small) (simp_all add: uint_of_nat_byte digit_split)

lemma be_length_written:
  "n < 0x100 \<Longrightarrow> be_length [of_nat n] = int n"
  "n < 0x10000 \<Longrightarrow> be_length [of_nat (n div 256), of_nat n] = int n"
  "n < 2 ^ 24 \<Longrightarrow> be_length [of_nat (n div 65536), of_nat (n div 256), of_nat n] = int n"
proof -
  have s0: "shift_in 0 (of_nat n) = int n" if "n < 0x100" for n
    using that by (simp add: shift_in_small uint_of_nat_byte)
  show "n < 0x100 \<Longrightarrow> be_length [of_nat n] = int n"
    by (simp add: be_length_def s0)
  show "n < 0x10000 \<Longrightarrow> be_length [of_nat (n div 256), of_nat n] = int n"
    using shift_in_next [of n] s0 [of "n div 256"] by (simp add: be_length_def)
  assume n: "n < 2 ^ 24"
  have d: "n div 65536 = n div 256 div 256" by (simp flip: div_mult2_eq)
  have "shift_in 0 (of_nat (n div 65536)) = int (n div 256 div 256)"
    using n s0 [of "n div 256 div 256"] unfolding d by simp
  then show "be_length [of_nat (n div 65536), of_nat (n div 256), of_nat n] = int n"
    using n shift_in_next [of "n div 256"] shift_in_next [of n] by (simp add: be_length_def)
qed

lemma high_bit_clear:
  assumes "n < 0x80"
  shows "(of_nat n :: byte) AND 0x80 = 0"
proof -
  have "\<not> bit n 7" using assms by (simp add: bit_iff_odd)
  then have "\<not> bit (of_nat n :: byte) 7" by (simp add: bit_simps)
  then show ?thesis using and_exp_eq_0_iff_not_bit [of "of_nat n :: byte" 7] by simp
qed

lemma tlv_length_written:
  assumes "n < 2 ^ 24"
  shows "tlv_length (t # ber_length_bytes n @ rest) (Suc 0)
    = Ok (Some (1 + length (ber_length_bytes n), int n))"
proof -
  consider "n < 0x80" | "0x80 \<le> n" "n < 0x100" | "0x100 \<le> n" "n < 0x10000" | "0x10000 \<le> n"
    by linarith
  then show ?thesis
  proof cases
    case 1
    then show ?thesis
      by (simp add: tlv_length_def ber_length_bytes_def high_bit_clear uint_of_nat_byte)
  next
    case 2
    then show ?thesis
      by (simp add: tlv_length_def ber_length_bytes_def be_length_written)
  next
    case 3
    then show ?thesis
      by (simp add: tlv_length_def ber_length_bytes_def be_length_written)
  next
    case 4
    then show ?thesis using assms
      by (simp add: tlv_length_def ber_length_bytes_def be_length_written)
  qed
qed

lemma tag_first: "t AND 0x1F \<noteq> 0x1F \<Longrightarrow> tag_length (t # s) = 1"
  by (simp add: tag_length_def)

lemma collect_item:
  assumes "t \<noteq> 0" and "t AND 0x1F \<noteq> 0x1F" and "length v < 2 ^ 24"
  shows "collect_tlv_values (t # ber_length_bytes (length v) @ v @ rest) want =
    and_then (if t AND 0x20 \<noteq> 0 then collect_tlv_values v want else Ok []) (\<lambda>inner.
    and_then (collect_tlv_values rest want) (\<lambda>others.
      Ok ((if t = want then [v] else []) @ inner @ others)))"
proof -
  have "t \<noteq> 0xFF" using assms(2) by auto
  moreover have "ber_length_bytes (length v) \<noteq> []" by (simp add: ber_length_bytes_def)
  ultimately show ?thesis using assms
    by (subst collect_tlv_values.simps) (simp add: tag_first Let_def tlv_length_written [OF assms(3)])
qed


definition demo_record :: "ber list" where
  "demo_record =
     [Node 0x61 [Leaf 0x4F [0xA0, 0, 0, 0, 0x87, 0x10, 2], Leaf 0x50 [0x55, 0x53, 0x49, 0x4D]]]"


section \<open>Record layout\<close>

definition item_bytes :: "byte \<times> bytes \<Rightarrow> bytes" where
  "item_bytes tv = fst tv # ber_length_bytes (length (snd tv)) @ snd tv"

text \<open>The descriptor 82 of a linear fixed file ends in record length and number of records.\<close>

definition record_meta :: "bytes \<Rightarrow> int \<times> int" where
  "record_meta v =
     (uint (v ! (length v - 3)) * 256 + uint (v ! (length v - 2)), uint (v ! (length v - 1)))"

fun first_record_meta :: "int \<times> int \<Rightarrow> (byte \<times> bytes) list \<Rightarrow> int \<times> int" where
  "first_record_meta m [] = m"
| "first_record_meta m ((t, v) # tvs) =
     (if t = 0x82 \<and> 5 \<le> length v
      then (if fst (record_meta v) > 0 then record_meta v else first_record_meta (record_meta v) tvs)
      else first_record_meta m tvs)"

lemma fcp_length_written:
  assumes "n < 2 ^ 24" and "length pre = i"
  shows "fcp_length (pre @ t # ber_length_bytes n @ rest) (i + 1)
    = Ok (Some (i + 1 + length (ber_length_bytes n), int n))"
proof -
  consider "n < 0x80" | "0x80 \<le> n" "n < 0x100" | "0x100 \<le> n" "n < 0x10000" | "0x10000 \<le> n"
    by linarith
  then show ?thesis using assms
  proof cases
    case 1
    then show ?thesis using assms
      by (simp add: fcp_length_def ber_length_bytes_def high_bit_clear uint_of_nat_byte nth_append)
  qed (simp_all add: fcp_length_def ber_length_bytes_def be_length_written nth_append)
qed

lemma fcp_loop_item:
  assumes "length v < 2 ^ 24" and "length pre = i"
    and data: "data = pre @ item_bytes (t, v) @ rest" and "length data < 2 ^ 62"
  shows "(fcp_loop data i a b :: ('e, int \<times> int) result) =
    (if t = 0x82 \<and> 5 \<le> length v
     then (if fst (record_meta v) > 0 then Ok (record_meta v)
           else fcp_loop data (i + length (item_bytes (t, v))) (fst (record_meta v)) (snd (record_meta v)))
     else fcp_loop data (i + length (item_bytes (t, v))) a b)"
proof -
  let ?k = "i + 1 + length (ber_length_bytes (length v))"
  have k: "i + length (item_bytes (t, v)) = ?k + length v" by (simp add: item_bytes_def)
  have fl: "fcp_length data (Suc i) = (Ok (Some (?k, int (length v))) :: ('e, (nat \<times> int) option) result)"
    using fcp_length_written [OF assms(1,2), of t "v @ rest"] by (simp add: data item_bytes_def)
  have fits: "?k + length v \<le> length data" using assms(2) by (simp add: data item_bytes_def)
  have e: "wrap_int (int ?k + int (length v)) = int (?k + length v)"
    using fits assms(4) by (subst wrap_int_id) (simp_all add: in_int64_def)
  have tag: "data ! i = t" using assms(2) by (simp add: data item_bytes_def nth_append)
  have "drop ?k data = v @ rest"
    using assms(2) by (simp add: data item_bytes_def)
  then have val: "take (?k + length v - ?k) (drop ?k data) = v" by simp
  have b: "ber_length_bytes (length v) \<noteq> []" by (simp add: ber_length_bytes_def)
  have two: "\<not> i + 2 > length data" using fits b by (cases "ber_length_bytes (length v)") simp_all
  have "cut_int data ?k (int (?k + length v)) f = f v"
    for f :: "bytes \<Rightarrow> ('e, int \<times> int) result"
    using fits val by (simp add: cut_int_def del: of_nat_add of_nat_Suc)
  then show ?thesis
    unfolding k using fl e tag two fits
    by (subst fcp_loop.simps) (auto simp: record_meta_def Let_def simp del: of_nat_add of_nat_Suc)
qed

lemma fcp_loop_items:
  assumes "list_all (\<lambda>tv. length (snd tv) < 2 ^ 24) tvs"
    and "data = pre @ concat (map item_bytes tvs)" and "length pre = i" and "length data < 2 ^ 62"
  shows "fcp_loop data i a b = (Ok (first_record_meta (a, b) tvs) :: ('e, int \<times> int) result)"
  using assms
proof (induction tvs arbitrary: pre i a b)
  case Nil
  then show ?case by (subst fcp_loop.simps) simp
next
  case (Cons tv tvs)
  obtain t v where tv: "tv = (t, v)" by (cases tv)
  have data: "data = pre @ item_bytes (t, v) @ concat (map item_bytes tvs)"
    using Cons.prems(2) tv by simp
  have more_items: "fcp_loop data (i + length (item_bytes (t, v))) x y
      = (Ok (first_record_meta (x, y) tvs) :: ('e, int \<times> int) result)" for x y
    using Cons.IH [of "pre @ item_bytes (t, v)" "i + length (item_bytes (t, v))" x y] Cons.prems data
    by simp
  have v: "length v < 2 ^ 24" using Cons.prems(1) tv by simp
  show ?case
    using fcp_loop_item [OF v Cons.prems(3) data Cons.prems(4), of a b, where 'e = 'e]
    unfolding more_items by (simp add: tv)
qed

text \<open>
  The record layout of a linear fixed file is read from its control parameters: in any template 62
  whose items have their lengths in the shortest form, it is what the first descriptor 82
  with a non-zero record length says, zero when there is none, and nothing panics.
\<close>

theorem record_layout_is_found:
  assumes "list_all (\<lambda>tv. length (snd tv) < 2 ^ 24) tvs"
    and "length (concat (map item_bytes tvs)) < 0x80"
  shows "parse_linear_fixed_meta
      (0x62 # of_nat (length (concat (map item_bytes tvs))) # concat (map item_bytes tvs))
    = (Ok (first_record_meta (0, 0) tvs) :: ('e, int \<times> int) result)"
proof -
  let ?d = "concat (map item_bytes tvs)"
  have "unat (of_nat (length ?d) :: byte) = length ?d"
    using assms(2) by (simp add: unat_of_nat take_bit_eq_mod)
  then show ?thesis
    using fcp_loop_items [OF assms(1), of ?d "[]" 0 0 0] assms(2)
    by (simp add: parse_linear_fixed_meta_def)
qed

definition demo_items :: "(byte \<times> bytes) list" where
  "demo_items = [(0x82, [0x42, 0x21, 0x00, 0x0A, 0x01]), (0x80, [0x00, 0x0A]), (0x83, [0x2F, 0x00])]"

theorem record_layout_is_found_witness:
  "parse_linear_fixed_meta [0x62, 0x0F, 0x82, 0x05, 0x42, 0x21, 0x00, 0x0A, 0x01, 0x80, 0x02, 0x00,
     0x0A, 0x83, 0x02, 0x2F, 0x00] = (Ok (10, 1) :: (unit, int \<times> int) result)"
  using record_layout_is_found [of demo_items, where 'e = unit]
  by (simp add: demo_items_def item_bytes_def ber_length_bytes_def record_meta_def)

text \<open>
  A length of eight octets with its top bit set is a negative \<open>int\<close>, which passes the bounds
  check and panics in the slice: a card, or whoever answers for it, can stop the reader.
\<close>

definition hostile_fcp :: bytes where
  "hostile_fcp = [0x62, 0x0A, 0x82, 0x88, 0x80, 0, 0, 0, 0, 0, 0, 0]"

lemma overlong_length_panics: "parse_linear_fixed_meta hostile_fcp = Panic"
  by (simp add: parse_linear_fixed_meta_def hostile_fcp_def, subst fcp_loop.simps)
    (simp add: fcp_length_def be_length_def shift_in_def wrap_int_def cut_int_def)

lemma hostile_card_stops_the_reader:
  assumes "transmit select_mf d = (Ok [0x90, 0], d1)"
    and "transmit select_ef_dir d1 = (Ok (hostile_fcp @ [0x90, 0]), d2)"
  shows "read_directory_aids transmit d = (Panic, d2)"
  using assms
  by (simp add: read_directory_aids_def select_file_def apdu_status_def is_select_success_def
      extract_success_data_def is_success_def overlong_length_panics)

section \<open>The directory\<close>

definition fresh_aids :: "bytes list \<Rightarrow> bool" where
  "fresh_aids aids \<longleftrightarrow> distinct aids \<and> [] \<notin> set aids"

lemma append_unique_fresh: "fresh_aids dst \<Longrightarrow> fresh_aids (append_unique_aids dst src)"
  by (induction src arbitrary: dst) (auto simp: fresh_aids_def list_ex_iff)

lemma append_unique_set: "set (append_unique_aids dst src) = set dst \<union> (set src - {[]})"
  by (induction src arbitrary: dst) (auto simp: list_ex_iff)

lemma read_records_fresh:
  "fresh_aids aids \<Longrightarrow> read_records transmit recLen i n aids err d = (Ok (aids', err'), d') \<Longrightarrow>
     fresh_aids aids'"
proof (induction n arbitrary: i aids err d)
  case (Suc n)
  note ih = Suc.IH [OF Suc.prems(1)] Suc.IH [OF append_unique_fresh [OF Suc.prems(1)]]
  from Suc.prems show ?case
    by (auto split: prod.splits result.splits record_outcome.splits dest: ih)
qed simp

text \<open>
  What the reader returns is usable as a list of applications: it is not empty, no AID in it is
  empty, and none appears twice, whatever the card answers.
\<close>

theorem directory_aids_are_distinct:
  assumes "read_directory_aids transmit d = (Ok aids, d')"
  shows "aids \<noteq> [] \<and> distinct aids \<and> [] \<notin> set aids"
proof -
  have "fresh_aids []" by (simp add: fresh_aids_def)
  with assms show ?thesis
    by (auto simp: read_directory_aids_def fresh_aids_def [symmetric]
        split: prod.splits result.splits if_splits dest: read_records_fresh)
qed

end
