(* ===== verification/Mbim_Message.thy ===== *)
theory Mbim_Message
  imports Go_Bytes
begin

text \<open>
  MBIM messages (pkg/mbim: protocol.go, message.go, fragment.go, transport.go): the header,
  the OPEN, CLOSE and COMMAND encoders, the split of a command into fragments, the collector
  that puts a COMMAND\_DONE together, and the framing of a byte stream into messages.
\<close>

section \<open>Constants\<close>

definition message_type_open :: u32 where "message_type_open = 1"
definition message_type_close :: u32 where "message_type_close = 2"
definition message_type_command :: u32 where "message_type_command = 3"
definition message_type_open_done :: u32 where "message_type_open_done = 0x80000001"
definition message_type_close_done :: u32 where "message_type_close_done = 0x80000002"
definition message_type_command_done :: u32 where "message_type_command_done = 0x80000003"
definition message_type_indicate_status :: u32 where "message_type_indicate_status = 0x80000007"

lemmas message_types =
  message_type_open_def message_type_close_def message_type_command_def
  message_type_open_done_def message_type_close_done_def message_type_command_done_def
  message_type_indicate_status_def

definition header_len :: nat where "header_len = 12"
definition frag_hdr_len :: nat where "frag_hdr_len = 8"
definition uuid_len :: nat where "uuid_len = 16"
definition fixed_done_offset :: nat where
  "fixed_done_offset = header_len + frag_hdr_len + uuid_len + 4 + 4 + 4"
definition fixed_cmd_offset :: nat where
  "fixed_cmd_offset = header_len + frag_hdr_len + uuid_len + 4 + 4 + 4"
definition max_message_size :: nat where "max_message_size = 64 * 1024"

lemmas layout_consts =
  header_len_def frag_hdr_len_def uuid_len_def fixed_done_offset_def fixed_cmd_offset_def

text \<open>A UUID is its 16 bytes; \<open>fit 16\<close> is the array a UUID is copied from.\<close>

type_synonym uuid = bytes

section \<open>Encoders\<close>

definition put_header :: "u32 \<Rightarrow> nat \<Rightarrow> u32 \<Rightarrow> bytes" where
  "put_header mt len tx = le32_bytes mt @ le32_bytes (of_nat len) @ le32_bytes tx"

definition encode_open :: "u32 \<Rightarrow> u32 \<Rightarrow> bytes" where
  "encode_open tx maxctrl = put_header message_type_open (header_len + 4) tx @ le32_bytes maxctrl"

definition encode_close :: "u32 \<Rightarrow> bytes" where
  "encode_close tx = put_header message_type_close header_len tx"

definition encode_command :: "u32 \<Rightarrow> uuid \<Rightarrow> u32 \<Rightarrow> u32 \<Rightarrow> bytes \<Rightarrow> bytes" where
  "encode_command tx service cid ct info =
     (let bodyLen = frag_hdr_len + uuid_len + 4 + 4 + 4 + length info in
      put_header message_type_command (header_len + bodyLen) tx
      @ le32_bytes 1 @ le32_bytes 0 @ fit uuid_len service
      @ le32_bytes cid @ le32_bytes ct @ le32_bytes (of_nat (length info)) @ info)"

record header =
  hd_type :: u32
  hd_length :: u32
  hd_tx :: u32

datatype mbim_error =
  HeaderShort | FragmentShort | FirstNotZero u32 | FirstShort | OutOfOrder u32 u32
  | CollectorEmpty | InfoShort nat u32 | MessageLength nat | StreamEOF | StreamUnexpectedEOF
  | NoProgress | ReadFailed

definition decode_header :: "bytes \<Rightarrow> (mbim_error, header) result" where
  "decode_header b =
     (if length b < header_len then Fail HeaderShort
      else get_u32 b 0 (\<lambda>t. get_u32 b 4 (\<lambda>l. get_u32 b 8 (\<lambda>tx.
        Ok \<lparr>hd_type = t, hd_length = l, hd_tx = tx\<rparr>))))"

section \<open>The collector\<close>

record collector =
  co_started :: bool
  co_total :: u32
  co_next :: u32
  co_service :: uuid
  co_cid :: u32
  co_status :: u32
  co_full_len :: u32
  co_info :: bytes

definition new_collector :: collector where
  "new_collector =
     \<lparr>co_started = False, co_total = 0, co_next = 0, co_service = zeros 16, co_cid = 0,
      co_status = 0, co_full_len = 0, co_info = []\<rparr>"

text \<open>\<open>add\<close>: on an error the collector keeps its state.\<close>

definition collector_add :: "bytes \<Rightarrow> collector \<Rightarrow> (mbim_error, bool \<times> collector) result" where
  "collector_add b c =
     (if length b < header_len + frag_hdr_len then Fail FragmentShort
      else get_u32 b 12 (\<lambda>tot. get_u32 b 16 (\<lambda>current.
        if \<not> co_started c then
          (if current \<noteq> 0 then Fail (FirstNotZero current)
           else if length b < fixed_done_offset then Fail FirstShort
           else cut b 20 36 (\<lambda>service. get_u32 b 36 (\<lambda>cid. get_u32 b 40 (\<lambda>status.
             get_u32 b 44 (\<lambda>fullLen. cut b fixed_done_offset (length b) (\<lambda>rest.
               let c' = c\<lparr>co_service := service, co_cid := cid, co_status := status,
                          co_full_len := fullLen, co_total := tot, co_next := 1,
                          co_started := True, co_info := co_info c @ rest\<rparr>
               in Ok (co_next c' \<ge> co_total c', c')))))))
        else if current \<noteq> co_next c then Fail (OutOfOrder current (co_next c))
        else cut b (header_len + frag_hdr_len) (length b) (\<lambda>rest.
          let c' = c\<lparr>co_next := co_next c + 1, co_info := co_info c @ rest\<rparr>
          in Ok (co_next c' \<ge> co_total c', c')))))"

record command_done =
  cd_service :: uuid
  cd_cid :: u32
  cd_status :: u32
  cd_info :: bytes

definition collector_done :: "collector \<Rightarrow> (mbim_error, command_done) result" where
  "collector_done c =
     (if \<not> co_started c then Fail CollectorEmpty
      else if unat (co_full_len c) > length (co_info c)
      then Fail (InfoShort (length (co_info c)) (co_full_len c))
      else
        (let info = (if unat (co_full_len c) \<le> length (co_info c)
                     then take (unat (co_full_len c)) (co_info c) else co_info c)
         in Ok \<lparr>cd_service = co_service c, cd_cid = co_cid c, cd_status = co_status c,
               cd_info = info\<rparr>))"

section \<open>Splitting a command\<close>

text \<open>The sizes behind the first one: as much as fits, then the rest.\<close>

function chunk_sizes :: "nat \<Rightarrow> nat \<Rightarrow> nat list" where
  "chunk_sizes cap remaining =
     (if remaining = 0 \<or> cap = 0 then []
      else (let n = (if cap > remaining then remaining else cap)
            in n # chunk_sizes cap (remaining - n)))"
  by pat_completeness auto
termination by (relation "measure snd") auto

declare chunk_sizes.simps [simp del]

definition first_fragment ::
  "u32 \<Rightarrow> uuid \<Rightarrow> u32 \<Rightarrow> u32 \<Rightarrow> bytes \<Rightarrow> u32 \<Rightarrow> bytes \<Rightarrow> bytes" where
  "first_fragment tx service cid ct info tot chunk =
     put_header message_type_command (fixed_cmd_offset + length chunk) tx
     @ le32_bytes tot @ le32_bytes 0 @ fit uuid_len service
     @ le32_bytes cid @ le32_bytes ct @ le32_bytes (of_nat (length info)) @ chunk"

definition next_fragment :: "u32 \<Rightarrow> u32 \<Rightarrow> nat \<Rightarrow> bytes \<Rightarrow> bytes" where
  "next_fragment tx tot i chunk =
     put_header message_type_command (header_len + frag_hdr_len + length chunk) tx
     @ le32_bytes tot @ le32_bytes (of_nat i) @ chunk"

text \<open>The loop over the sizes: fragment number, position in the info buffer.\<close>

fun make_fragments ::
  "u32 \<Rightarrow> uuid \<Rightarrow> u32 \<Rightarrow> u32 \<Rightarrow> bytes \<Rightarrow> u32 \<Rightarrow> nat \<Rightarrow> nat \<Rightarrow> nat list \<Rightarrow> bytes list" where
  "make_fragments tx service cid ct info tot i pos [] = []"
| "make_fragments tx service cid ct info tot i pos (n # ns) =
     (let chunk = take n (drop pos info);
          frag = (if i = 0 then first_fragment tx service cid ct info tot chunk
                  else next_fragment tx tot i chunk)
      in frag # make_fragments tx service cid ct info tot (i + 1) (pos + n) ns)"

definition split_command ::
  "u32 \<Rightarrow> uuid \<Rightarrow> u32 \<Rightarrow> u32 \<Rightarrow> bytes \<Rightarrow> u32 \<Rightarrow> bytes list" where
  "split_command tx service cid ct info maxctrl =
     (let mx = int (unat maxctrl);
          firstCap = mx - int fixed_cmd_offset;
          contCap = mx - int (header_len + frag_hdr_len)
      in if firstCap \<le> 0 \<or> contCap \<le> 0 \<or> int (length info) \<le> firstCap
         then [encode_command tx service cid ct info]
         else
           (let sizes = nat firstCap # chunk_sizes (nat contCap) (length info - nat firstCap)
            in make_fragments tx service cid ct info (of_nat (length sizes)) 0 0 sizes))"

section \<open>The byte stream\<close>

text \<open>
  The transport reads from a stream: each \<open>Read\<close> returns a chunk of at most 4096 bytes and
  possibly an error. \<open>read_message\<close> takes the reads that follow as a list; None is a reader
  that still blocks.
\<close>

datatype read_error = EOF | OtherError

type_synonym read_result = "bytes \<times> read_error option"

definition next_frame :: "bytes \<Rightarrow> (mbim_error, (bytes \<times> bytes) option) result" where
  "next_frame buf =
     (if length buf \<ge> header_len then
        get_u32 buf 4 (\<lambda>l. let msgLen = unat l in
          if msgLen < header_len then Fail (MessageLength msgLen)
          else if msgLen > max_message_size then Fail (MessageLength msgLen)
          else if length buf \<ge> msgLen then
            cut buf 0 msgLen (\<lambda>msg. cut buf msgLen (length buf) (\<lambda>rest. Ok (Some (msg, rest))))
          else Ok None)
      else Ok None)"

fun read_message ::
  "bytes \<Rightarrow> read_result list \<Rightarrow> (mbim_error, (bytes \<times> bytes \<times> read_result list) option) result" where
  "read_message buf [] =
     and_then (next_frame buf) (\<lambda>f.
       case f of Some (msg, rest) \<Rightarrow> Ok (Some (msg, rest, [])) | None \<Rightarrow> Ok None)"
| "read_message buf ((chunk, err) # reads) =
     and_then (next_frame buf) (\<lambda>f.
       case f of Some (msg, rest) \<Rightarrow> Ok (Some (msg, rest, (chunk, err) # reads))
       | None \<Rightarrow>
           (let buf = buf @ chunk in
            case err of
              Some EOF \<Rightarrow> if buf \<noteq> [] then Fail StreamUnexpectedEOF else Fail StreamEOF
            | Some OtherError \<Rightarrow> Fail ReadFailed
            | None \<Rightarrow> if chunk = [] then Fail NoProgress else read_message buf reads))"

section \<open>Layout facts\<close>

lemma put_header_length [simp, wire_simps]: "length (put_header mt n tx) = 12"
  by (simp add: put_header_def)

lemma header_fields:
  "le32 (put_header mt n tx @ rest) = mt"
  "drop 4 (put_header mt n tx) = le32_bytes (of_nat n) @ le32_bytes tx"
  "drop 8 (put_header mt n tx) = le32_bytes tx"
  by (simp_all add: put_header_def)

lemma decode_header_put:
  "decode_header (put_header mt n tx @ rest) = Ok \<lparr>hd_type = mt, hd_length = of_nat n, hd_tx = tx\<rparr>"
  by (simp add: decode_header_def layout_consts header_fields)

lemma of_nat_word_less:
  "m < 2 ^ 32 \<Longrightarrow> n < 2 ^ 32 \<Longrightarrow> (of_nat m :: u32) \<le> of_nat n \<longleftrightarrow> m \<le> n"
  by (simp add: word_le_nat_alt unat_of_nat take_bit_eq_mod)

lemma of_nat_word_inj:
  "m < 2 ^ 32 \<Longrightarrow> n < 2 ^ 32 \<Longrightarrow> (of_nat m :: u32) = of_nat n \<longleftrightarrow> m = n"
  by (simp add: word_unat_eq_iff unat_of_nat take_bit_eq_mod)

lemma unat_of_nat_u32: "n < 2 ^ 32 \<Longrightarrow> unat (of_nat n :: u32) = n"
  by (simp add: unat_of_nat take_bit_eq_mod)

section \<open>Collecting what was split\<close>

fun collect :: "bytes list \<Rightarrow> collector \<Rightarrow> (mbim_error, bool list \<times> collector) result" where
  "collect [] c = Ok ([], c)"
| "collect (b # bs) c =
     and_then (collector_add b c) (\<lambda>(d, c').
     and_then (collect bs c') (\<lambda>(ds, c''). Ok (d # ds, c'')))"

lemma add_next_fragment:
  assumes "co_started c" and "co_next c = of_nat i"
  shows "collector_add (next_fragment tx tot i chunk) c =
     Ok (of_nat i + 1 \<ge> co_total c, c\<lparr>co_next := of_nat i + 1, co_info := co_info c @ chunk\<rparr>)"
  using assms by (simp add: collector_add_def next_fragment_def layout_consts Let_def)

lemma add_first_fragment:
  assumes "length service = 16"
  shows "collector_add (first_fragment tx service cid ct info tot chunk) new_collector =
     Ok (1 \<ge> tot,
       \<lparr>co_started = True, co_total = tot, co_next = 1, co_service = service, co_cid = cid,
        co_status = ct, co_full_len = of_nat (length info), co_info = chunk\<rparr>)"
  using assms
  by (simp add: collector_add_def first_fragment_def layout_consts Let_def new_collector_def
      fit_exact)

lemma chunk_sizes_sum: "0 < cap \<Longrightarrow> sum_list (chunk_sizes cap n) = n"
proof (induction n rule: less_induct)
  case (less n)
  show ?case
  proof (cases "n = 0")
    case True
    then show ?thesis by (simp add: chunk_sizes.simps [of cap 0])
  next
    case False
    then have "sum_list (chunk_sizes cap (n - (if cap > n then n else cap))) =
        n - (if cap > n then n else cap)"
      using less.prems by (intro less.IH) auto
    then show ?thesis using False less.prems
      by (subst chunk_sizes.simps) (simp add: Let_def)
  qed
qed

lemma chunk_sizes_bounds: "n \<in> set (chunk_sizes cap m) \<Longrightarrow> 0 < n \<and> n \<le> cap"
proof (induction cap m rule: chunk_sizes.induct)
  case (1 cap m)
  then show ?case
    by (subst (asm) (2) chunk_sizes.simps) (auto simp: Let_def split: if_splits)
qed

lemma length_sizes: "(\<And>n. n \<in> set ns \<Longrightarrow> 0 < n) \<Longrightarrow> length ns \<le> (sum_list ns :: nat)"
proof (induction ns)
  case (Cons n ns)
  then have "0 < n" "length ns \<le> sum_list ns" by auto
  then show ?case by simp
qed simp

lemma collect_fragments:
  assumes "co_started c" and "co_next c = of_nat i" and "co_total c = of_nat (i + length ns)"
    and "0 < i" and "ns \<noteq> []" and "i + length ns < 2 ^ 32"
  shows "collect (make_fragments tx service cid ct info tot i pos ns) c =
     Ok (replicate (length ns - 1) False @ [True],
         c\<lparr>co_next := of_nat (i + length ns),
           co_info := co_info c @ take (sum_list ns) (drop pos info)\<rparr>)"
  using assms
proof (induction ns arbitrary: i pos c)
  case Nil
  then show ?case by simp
next
  case (Cons n ns)
  let ?c = "c\<lparr>co_next := of_nat i + 1, co_info := co_info c @ take n (drop pos info)\<rparr>"
  have step: "collector_add (next_fragment tx tot i (take n (drop pos info))) c =
      Ok (of_nat i + 1 \<ge> co_total c, ?c)"
    by (rule add_next_fragment [OF Cons.prems(1,2)])
  have le: "of_nat i + 1 \<ge> co_total c \<longleftrightarrow> ns = []"
  proof -
    have "(of_nat (i + length (n # ns)) :: u32) \<le> of_nat (i + 1) \<longleftrightarrow> i + length (n # ns) \<le> i + 1"
      using Cons.prems(6) by (intro of_nat_word_less) simp_all
    then show ?thesis unfolding Cons.prems(3) by (simp add: add.commute)
  qed
  show ?case
  proof (cases "ns = []")
    case True
    with step le Cons.prems(4) show ?thesis by (simp add: add.commute)
  next
    case False
    have "collect (make_fragments tx service cid ct info tot (i + 1) (pos + n) ns) ?c =
       Ok (replicate (length ns - 1) False @ [True],
         ?c\<lparr>co_next := of_nat (i + 1 + length ns),
           co_info := co_info ?c @ take (sum_list ns) (drop (pos + n) info)\<rparr>)"
      by (rule Cons.IH) (use Cons.prems False in \<open>simp_all add: ac_simps\<close>)
    moreover have "take n (drop pos info) @ take (sum_list ns) (drop (pos + n) info) =
        take (n + sum_list ns) (drop pos info)"
      by (simp add: take_add add.commute)
    moreover have "replicate (length (n # ns) - 1) False = False # replicate (length ns - 1) False"
      using False by (cases ns) auto
    ultimately show ?thesis using step le False Cons.prems(4) by (simp add: ac_simps)
  qed
qed

lemma encode_command_fragment:
  "encode_command tx service cid ct info = first_fragment tx service cid ct info 1 info"
  by (simp add: encode_command_def first_fragment_def layout_consts Let_def)

lemma split_command_cases:
  assumes m: "m = unat maxctrl"
  shows "split_command tx service cid ct info maxctrl =
    (if m \<le> 48 \<or> length info \<le> m - 48 then [first_fragment tx service cid ct info 1 info]
     else (let sizes = (m - 48) # chunk_sizes (m - 20) (length info - (m - 48)) in
       make_fragments tx service cid ct info (of_nat (length sizes)) 0 0 sizes))"
proof -
  have n: "nat (int m - 48) = m - 48" "nat (int m - 20) = m - 20" by arith+
  have g: "(int m - 48 \<le> 0 \<or> int m - 20 \<le> 0 \<or> int (length info) \<le> int m - 48) \<longleftrightarrow>
      m \<le> 48 \<or> length info \<le> m - 48" by arith
  have o: "int (header_len + frag_hdr_len + uuid_len + 4 + 4 + 4) = 48" "int (header_len + frag_hdr_len) = 20"
    by (simp_all add: layout_consts)
  show ?thesis
    unfolding split_command_def Let_def m [symmetric] fixed_cmd_offset_def o g n
      encode_command_fragment ..
qed

lemma make_fragments_size:
  assumes "f \<in> set (make_fragments tx service cid ct info tot i pos ns)"
  shows "\<exists>n \<in> set ns. length f \<le> 20 + n
    \<or> i = 0 \<and> length f \<le> 48 + n \<and> n = hd ns"
  using assms
proof (induction ns arbitrary: i pos)
  case (Cons n ns)
  show ?case
  proof (cases "f \<in> set (make_fragments tx service cid ct info tot (i + 1) (pos + n) ns)")
    case True
    from Cons.IH [OF this] show ?thesis by auto
  next
    case False
    with Cons.prems show ?thesis
      by (auto simp: Let_def first_fragment_def next_fragment_def layout_consts)
  qed
qed simp

lemma make_fragments_length [simp]:
  "length (make_fragments tx service cid ct info tot i pos ns) = length ns"
  by (induction ns arbitrary: i pos) (simp_all add: Let_def)

lemma split_collect:
  assumes "length service = 16" and "length info < 2 ^ 32"
  shows "(\<exists>c. collect (split_command tx service cid ct info maxctrl) new_collector =
        Ok (replicate (length (split_command tx service cid ct info maxctrl) - 1) False @ [True], c)
      \<and> collector_done c = Ok \<lparr>cd_service = service, cd_cid = cid, cd_status = ct, cd_info = info\<rparr>)
    \<and> (fixed_cmd_offset < unat maxctrl \<longrightarrow>
        (\<forall>f \<in> set (split_command tx service cid ct info maxctrl). length f \<le> unat maxctrl))
    \<and> split_command tx service cid ct info maxctrl \<noteq> []"
proof (cases "unat maxctrl \<le> 48 \<or> length info \<le> unat maxctrl - 48")
  case True
  then have s: "split_command tx service cid ct info maxctrl =
      [first_fragment tx service cid ct info 1 info]"
    by (simp only: split_command_cases [OF refl] if_True)
  have l: "length (first_fragment tx service cid ct info 1 info) = 48 + length info"
    by (simp add: first_fragment_def layout_consts)
  have "collector_done \<lparr>co_started = True, co_total = 1, co_next = 1, co_service = service,
      co_cid = cid, co_status = ct, co_full_len = of_nat (length info), co_info = info\<rparr> =
      Ok \<lparr>cd_service = service, cd_cid = cid, cd_status = ct, cd_info = info\<rparr>"
    using unat_of_nat_u32 [OF assms(2)] by (simp add: collector_done_def)
  then show ?thesis
    unfolding s using add_first_fragment [OF assms(1), of tx cid ct info 1 info] l True
    by (auto simp: layout_consts)
next
  case False
  define cap where "cap = unat maxctrl - 48"
  define ns where "ns = chunk_sizes (unat maxctrl - 20) (length info - cap)"
  define tot where "tot = length (cap # ns)"
  have cap: "0 < cap" "cap < length info" "0 < unat maxctrl - 20" using False by (auto simp: cap_def)
  have sum: "sum_list ns = length info - cap" using chunk_sizes_sum [OF cap(3)] by (simp add: ns_def)
  then have ne: "ns \<noteq> []" using cap(2) by auto
  have pos: "0 < n \<and> n \<le> unat maxctrl - 20" if "n \<in> set ns" for n
    using that unfolding ns_def by (rule chunk_sizes_bounds)
  have "length ns \<le> length info - cap" using length_sizes [of ns] pos sum by simp
  then have bound: "1 + length ns < 2 ^ 32" using assms(2) cap by linarith
  have s: "split_command tx service cid ct info maxctrl =
      make_fragments tx service cid ct info (of_nat tot) 0 0 (cap # ns)"
    using False by (simp only: split_command_cases [OF refl] if_False Let_def cap_def ns_def tot_def)
  let ?c1 = "\<lparr>co_started = True, co_total = of_nat tot, co_next = 1, co_service = service,
      co_cid = cid, co_status = ct, co_full_len = of_nat (length info), co_info = take cap info\<rparr>"
  have "\<not> (of_nat tot :: u32) \<le> of_nat 1"
    using ne bound by (subst of_nat_word_less) (auto simp: tot_def)
  then have one: "collector_add (first_fragment tx service cid ct info (of_nat tot) (take cap info))
      new_collector = Ok (False, ?c1)"
    using add_first_fragment [OF assms(1), of tx cid ct info "of_nat tot" "take cap info"] by simp
  have flags: "replicate (length (split_command tx service cid ct info maxctrl) - 1) False @ [True] =
      (False # replicate (length ns - 1) False) @ [True]"
    using ne by (cases ns) (simp_all add: s)
  let ?c2 = "?c1\<lparr>co_next := of_nat tot, co_info := take cap info @ drop cap info\<rparr>"
  have "collect (make_fragments tx service cid ct info (of_nat tot) 1 cap ns) ?c1 =
      Ok (replicate (length ns - 1) False @ [True],
        ?c1\<lparr>co_next := of_nat (1 + length ns),
          co_info := co_info ?c1 @ take (sum_list ns) (drop cap info)\<rparr>)"
    by (rule collect_fragments) (use ne bound in \<open>simp_all add: tot_def\<close>)
  then have "collect (split_command tx service cid ct info maxctrl) new_collector =
      Ok (replicate (length (split_command tx service cid ct info maxctrl) - 1) False @ [True], ?c2)"
    unfolding flags unfolding s using one by (simp add: sum tot_def)
  moreover have "collector_done ?c2 =
      Ok \<lparr>cd_service = service, cd_cid = cid, cd_status = ct, cd_info = info\<rparr>"
    using unat_of_nat_u32 [OF assms(2)] by (simp add: collector_done_def)
  moreover have "length f \<le> unat maxctrl"
    if "f \<in> set (split_command tx service cid ct info maxctrl)" for f
    using make_fragments_size [OF that [unfolded s]] pos False by (force simp: cap_def)
  moreover have "split_command tx service cid ct info maxctrl \<noteq> []" by (simp add: s)
  ultimately show ?thesis by blast
qed

section \<open>Properties\<close>

text \<open>
  C13. Fragmentation is lossless: whatever the transfer limit, the collector fed with the
  fragments of a command asks for more until the last one and then holds the service, the
  command and the whole info buffer; and when the limit leaves room for any info at all, no
  fragment exceeds it.
\<close>

theorem split_command_collects:
  assumes "length service = 16" and "length info < 2 ^ 32"
  shows "(\<exists>ds c. collect (split_command tx service cid ct info maxctrl) new_collector = Ok (ds @ [True], c)
      \<and> True \<notin> set ds
      \<and> collector_done c = Ok \<lparr>cd_service = service, cd_cid = cid, cd_status = ct, cd_info = info\<rparr>)
    \<and> (fixed_cmd_offset < unat maxctrl \<longrightarrow>
        (\<forall>f \<in> set (split_command tx service cid ct info maxctrl). length f \<le> unat maxctrl))"
  using split_collect [OF assms, of tx cid ct maxctrl]
  by (metis in_set_replicate)

definition demo_service :: uuid where
  "demo_service = zeros 16"

theorem split_command_collects_witness:
  "\<exists>ds c. collect (split_command 7 demo_service 3 1 [1, 2, 3, 4, 5, 6, 7] 50) new_collector
     = Ok (ds @ [True], c)
     \<and> collector_done c =
        Ok \<lparr>cd_service = demo_service, cd_cid = 3, cd_status = 1, cd_info = [1, 2, 3, 4, 5, 6, 7]\<rparr>"
  using split_command_collects [of demo_service "[1, 2, 3, 4, 5, 6, 7]" 7 3 1 50]
  by (auto simp: demo_service_def)

section \<open>Framing\<close>

definition framed :: "bytes \<Rightarrow> bool" where
  "framed m \<longleftrightarrow> header_len \<le> length m \<and> length m \<le> max_message_size
     \<and> unat (le32 (drop 4 m)) = length m"

lemma le32_prefix: "4 \<le> length x \<Longrightarrow> le32 (x @ y) = le32 x"
  by (simp add: le32_def)

lemma le32_take: "4 \<le> n \<Longrightarrow> le32 (take n x) = le32 x"
  by (simp add: le32_def min_def)

lemma next_frame_partial:
  assumes "framed m" and "buf @ later = m @ rest"
  shows "next_frame buf =
     (if length m \<le> length buf then Ok (Some (m, drop (length m) buf)) else Ok None)"
proof (cases "12 \<le> length buf")
  case True
  have "le32 (drop 4 buf) = le32 (drop 4 (buf @ later))"
    using True by (simp add: le32_prefix)
  also have "\<dots> = le32 (drop 4 m @ rest)"
    using assms by (simp add: framed_def layout_consts)
  also have "\<dots> = le32 (drop 4 m)"
    using assms(1) by (intro le32_prefix) (auto simp: framed_def layout_consts)
  finally have l: "unat (le32 (drop 4 buf)) = length m" using assms(1) by (simp add: framed_def)
  have "take (length m) buf = m" if "length m \<le> length buf"
  proof -
    have "take (length m) (buf @ later) = m" unfolding assms(2) by simp
    with that show ?thesis by simp
  qed
  then show ?thesis
    using True l assms(1) by (simp add: next_frame_def framed_def layout_consts Let_def)
next
  case False
  then show ?thesis using assms(1) by (simp add: next_frame_def framed_def layout_consts)
qed

definition steady :: "read_result list \<Rightarrow> bool" where
  "steady reads \<longleftrightarrow> (\<forall>(chunk, err) \<in> set reads. chunk \<noteq> [] \<and> err = None)"

lemma read_message_framed:
  assumes "framed m" and "buf @ concat (map fst reads) = m @ rest" and "steady reads"
  shows "\<exists>buf' reads'. read_message buf reads = Ok (Some (m, buf', reads'))
    \<and> buf' @ concat (map fst reads') = rest \<and> steady reads'"
  using assms(2,3)
proof (induction reads arbitrary: buf)
  case Nil
  then have "next_frame buf = Ok (Some (m, rest))"
    using next_frame_partial [OF assms(1), of buf "[]" rest] by simp
  then show ?case using Nil by (simp add: steady_def)
next
  case (Cons r reads)
  obtain chunk where r: "r = (chunk, None)" and ne: "chunk \<noteq> []"
    using Cons.prems(2) by (cases r) (auto simp: steady_def)
  have n: "next_frame buf =
      (if length m \<le> length buf then Ok (Some (m, drop (length m) buf)) else Ok None)"
    using next_frame_partial [OF assms(1)] Cons.prems(1) by blast
  show ?case
  proof (cases "length m \<le> length buf")
    case True
    have "drop (length m) (buf @ concat (map fst (r # reads))) = rest"
      unfolding Cons.prems(1) by simp
    then have "drop (length m) buf @ concat (map fst (r # reads)) = rest" using True by simp
    then show ?thesis using True n r Cons.prems(2) by auto
  next
    case False
    have "(buf @ chunk) @ concat (map fst reads) = m @ rest" using Cons.prems(1) r by simp
    then obtain buf' reads' where "read_message (buf @ chunk) reads = Ok (Some (m, buf', reads'))"
      "buf' @ concat (map fst reads') = rest" "steady reads'"
      using Cons.IH [of "buf @ chunk"] Cons.prems(2) by (auto simp: steady_def)
    then show ?thesis using False n r ne by auto
  qed
qed

text \<open>The read loop of the device: one message after the other.\<close>

fun read_all :: "nat \<Rightarrow> bytes \<Rightarrow> read_result list \<Rightarrow> (mbim_error, bytes list) result" where
  "read_all 0 buf reads = Ok []"
| "read_all (Suc n) buf reads =
     and_then (read_message buf reads) (\<lambda>r. case r of None \<Rightarrow> Ok []
       | Some (m, buf', reads') \<Rightarrow> and_then (read_all n buf' reads') (\<lambda>ms. Ok (m # ms)))"

lemma read_all_framed:
  "\<forall>m \<in> set ms. framed m \<Longrightarrow> buf @ concat (map fst reads) = concat ms @ rest \<Longrightarrow> steady reads
     \<Longrightarrow> read_all (length ms) buf reads = Ok ms"
proof (induction ms arbitrary: buf reads)
  case (Cons m ms)
  have "framed m" "buf @ concat (map fst reads) = m @ concat ms @ rest" using Cons.prems by simp_all
  from read_message_framed [OF this Cons.prems(3)] obtain buf' reads' where
    "read_message buf reads = Ok (Some (m, buf', reads'))"
    "buf' @ concat (map fst reads') = concat ms @ rest" "steady reads'" by blast
  with Cons show ?case by simp
qed simp

text \<open>
  The stream transport recovers the messages however the stream is cut into reads: from
  any chunks whose concatenation starts with the messages one after the other, it returns
  exactly these messages, in order.
\<close>

theorem stream_framing:
  assumes "\<forall>m \<in> set ms. framed m" and "concat (map fst reads) = concat ms @ rest"
    and "steady reads"
  shows "read_all (length ms) [] reads = Ok ms"
  using read_all_framed [OF assms(1), of "[]" reads rest] assms(2,3) by simp

theorem stream_framing_witness:
  "read_all 2 []
     [(take 5 (encode_close 1), None),
      (drop 5 (encode_close 1) @ take 9 (encode_open 2 4096), None),
      (drop 9 (encode_open 2 4096), None)]
   = Ok [encode_close 1, encode_open 2 4096]"
proof -
  have f: "framed (encode_close 1)" "framed (encode_open 2 4096)"
    by (simp_all add: framed_def encode_close_def encode_open_def layout_consts
        max_message_size_def header_fields)
  have n: "length (encode_close 1) = 12" "length (encode_open 2 4096) = 16"
    by (simp_all add: encode_close_def encode_open_def)
  let ?reads = "[(take 5 (encode_close 1), None),
      (drop 5 (encode_close 1) @ take 9 (encode_open 2 4096), None),
      (drop 9 (encode_open 2 4096), None)]"
  have "steady ?reads" using n by (auto simp: steady_def)
  moreover have "concat (map fst ?reads) = concat [encode_close 1, encode_open 2 4096] @ []"
    by simp
  moreover have "\<forall>m \<in> set [encode_close 1, encode_open 2 4096]. framed m" using f by simp
  moreover have "2 = length [encode_close 1, encode_open 2 4096]" by simp
  ultimately show ?thesis by (metis stream_framing)
qed

end
