(* ===== verification/Mbim_Device.thy ===== *)
theory Mbim_Device
  imports Mbim_Message
begin

text \<open>
  The MBIM device (pkg/mbim/device.go): transactions, the map of pending commands, the
  collectors, and the indication queue. Each function is one critical section or one turn of
  the read loop; what it sends on the callers' result channels is returned with the new
  state. A channel is a number, made by the command that waits on it.
\<close>

section \<open>State\<close>

datatype command_result = Response command_done | ResultError mbim_error

record indication =
  in_service :: uuid
  in_cid :: u32
  in_info :: bytes

record device =
  dv_next_tx :: u32
  dv_pending :: "u32 \<Rightarrow> nat option"
  dv_max_ctrl :: u32
  dv_closed :: bool
  dv_collectors :: "u32 \<Rightarrow> collector option"
  dv_indications :: "indication list"

type_synonym sends = "(nat \<times> command_result) list"

definition new_device :: device where
  "new_device =
     \<lparr>dv_next_tx = 0, dv_pending = (\<lambda>_. None), dv_max_ctrl = 0, dv_closed = False,
      dv_collectors = (\<lambda>_. None), dv_indications = []\<rparr>"

text \<open>The capacity of the indication channel.\<close>

definition indication_buffer :: nat where "indication_buffer = 16"

section \<open>Transactions\<close>

definition alloc_tx :: "device \<Rightarrow> u32 \<times> device" where
  "alloc_tx d = (dv_next_tx d + 1, d\<lparr>dv_next_tx := dv_next_tx d + 1\<rparr>)"

definition register_pending :: "u32 \<Rightarrow> nat \<Rightarrow> device \<Rightarrow> device" where
  "register_pending tx ch d = d\<lparr>dv_pending := (dv_pending d)(tx \<mapsto> ch)\<rparr>"

definition remove_pending :: "u32 \<Rightarrow> device \<Rightarrow> device" where
  "remove_pending tx d = d\<lparr>dv_pending := (dv_pending d)(tx := None)\<rparr>"

text \<open>\<open>Command\<close> up to the select: the transaction, the fragments to write, the new state.\<close>

definition start_command ::
  "nat \<Rightarrow> uuid \<Rightarrow> u32 \<Rightarrow> u32 \<Rightarrow> bytes \<Rightarrow> device \<Rightarrow> (u32 \<times> bytes list) \<times> device" where
  "start_command ch service cid ct info d =
     (let (tx, d) = alloc_tx d;
          d = register_pending tx ch d
      in ((tx, split_command tx service cid ct info (dv_max_ctrl d)), d))"

text \<open>\<open>Open\<close> up to its select, for a transport that needs no proxy configuration.\<close>

definition start_open :: "nat \<Rightarrow> u32 \<Rightarrow> device \<Rightarrow> (u32 \<times> bytes list) \<times> device" where
  "start_open ch maxctrl d =
     (let (tx, d) = alloc_tx (d\<lparr>dv_max_ctrl := maxctrl\<rparr>);
          d = register_pending tx ch d
      in ((tx, [encode_open tx maxctrl]), d))"

definition close_device :: "device \<Rightarrow> bytes list \<times> device" where
  "close_device d =
     (if dv_closed d then ([], d)
      else (let tx = dv_next_tx d + 1 in
        ([encode_close tx], d\<lparr>dv_closed := True, dv_next_tx := tx\<rparr>)))"

section \<open>Delivery\<close>

definition deliver_result :: "u32 \<Rightarrow> command_result \<Rightarrow> device \<Rightarrow> sends \<times> device" where
  "deliver_result tx r d =
     (case dv_pending d tx of
        None \<Rightarrow> ([], remove_pending tx d)
      | Some ch \<Rightarrow> ([(ch, r)], remove_pending tx d))"

definition deliver :: "u32 \<Rightarrow> command_done \<Rightarrow> device \<Rightarrow> sends \<times> device" where
  "deliver tx resp d = deliver_result tx (Response resp) d"

definition deliver_error :: "u32 \<Rightarrow> mbim_error \<Rightarrow> device \<Rightarrow> sends \<times> device" where
  "deliver_error tx e d = deliver_result tx (ResultError e) d"

text \<open>
  \<open>failPending\<close> sends to every pending channel, in the order of the map iteration: any
  order of the pending transactions, here a list the caller gives.
\<close>

definition fail_pending :: "mbim_error \<Rightarrow> u32 list \<Rightarrow> device \<Rightarrow> sends \<times> device" where
  "fail_pending e txs d =
     (map (\<lambda>tx. (the (dv_pending d tx), ResultError e)) txs,
      d\<lparr>dv_pending := (\<lambda>_. None), dv_collectors := (\<lambda>_. None)\<rparr>)"

definition command_collector :: "u32 \<Rightarrow> device \<Rightarrow> collector \<times> device" where
  "command_collector tx d =
     (case dv_collectors d tx of
        Some c \<Rightarrow> (c, d)
      | None \<Rightarrow> (new_collector, d\<lparr>dv_collectors := (dv_collectors d)(tx \<mapsto> new_collector)\<rparr>))"

definition remove_collector :: "u32 \<Rightarrow> device \<Rightarrow> device" where
  "remove_collector tx d = d\<lparr>dv_collectors := (dv_collectors d)(tx := None)\<rparr>"

section \<open>The read loop\<close>

text \<open>None is a panic of the read loop.\<close>

definition handle_command_done_fragment :: "u32 \<Rightarrow> bytes \<Rightarrow> device \<Rightarrow> (sends \<times> device) option" where
  "handle_command_done_fragment tx msg d =
     (let (c, d) = command_collector tx d in
      case collector_add msg c of
        Panic \<Rightarrow> None
      | Fail _ \<Rightarrow> Some ([], d)
      | Ok (fin, c) \<Rightarrow>
          (let d = d\<lparr>dv_collectors := (dv_collectors d)(tx \<mapsto> c)\<rparr> in
           if \<not> fin then Some ([], d)
           else (let r = collector_done c; d = remove_collector tx d in
             case r of
               Panic \<Rightarrow> None
             | Fail e \<Rightarrow> Some (deliver_error tx e d)
             | Ok resp \<Rightarrow> Some (deliver tx resp d))))"

text \<open>An indication has no status field: a zero one is inserted for the shared collector.\<close>

definition command_done_shape_indication :: "bytes \<Rightarrow> (mbim_error, bytes) result" where
  "command_done_shape_indication msg =
     (if length msg < header_len + frag_hdr_len then Ok msg
      else get_u32 msg (header_len + 4) (\<lambda>current.
        if current \<noteq> 0 then Ok msg
        else if length msg < header_len + frag_hdr_len + uuid_len + 4 + 4 then Ok msg
        else
          (let n = header_len + frag_hdr_len + uuid_len + 4 in
           cut msg 0 n (\<lambda>h. cut msg n (length msg) (\<lambda>rest.
             let out = h @ zeros 4 @ rest
             in Ok (take 4 out @ le32_bytes (of_nat (length out)) @ drop 8 out))))))"

definition handle_indication_fragment :: "u32 \<Rightarrow> bytes \<Rightarrow> device \<Rightarrow> (sends \<times> device) option" where
  "handle_indication_fragment tx msg d =
     (let (c, d) = command_collector tx d in
      case and_then (command_done_shape_indication msg) (\<lambda>m. collector_add m c) of
        Panic \<Rightarrow> None
      | Fail _ \<Rightarrow> Some ([], d)
      | Ok (fin, c) \<Rightarrow>
          (let d = d\<lparr>dv_collectors := (dv_collectors d)(tx \<mapsto> c)\<rparr> in
           if \<not> fin then Some ([], d)
           else (let r = collector_done c; d = remove_collector tx d in
             case r of
               Panic \<Rightarrow> None
             | Fail _ \<Rightarrow> Some ([], d)
             | Ok resp \<Rightarrow>
                 Some ([], if length (dv_indications d) < indication_buffer
                           then d\<lparr>dv_indications := dv_indications d @
                                  [\<lparr>in_service = cd_service resp, in_cid = cd_cid resp,
                                    in_info = cd_info resp\<rparr>]\<rparr>
                           else d))))"

text \<open>One message of the read loop.\<close>

definition read_step :: "bytes \<Rightarrow> device \<Rightarrow> (sends \<times> device) option" where
  "read_step msg d =
     (case decode_header msg of
        Panic \<Rightarrow> None
      | Fail _ \<Rightarrow> Some ([], d)
      | Ok h \<Rightarrow>
          if hd_type h = message_type_open_done \<or> hd_type h = message_type_close_done then
            (if length msg < header_len + 4 then Some ([], d)
             else (case get_u32 msg header_len (\<lambda>s. Ok s :: (mbim_error, u32) result) of
                 Ok s \<Rightarrow> Some (deliver (hd_tx h)
                   \<lparr>cd_service = zeros 16, cd_cid = 0, cd_status = s, cd_info = []\<rparr> d)
               | _ \<Rightarrow> None))
          else if hd_type h = message_type_command_done then
            handle_command_done_fragment (hd_tx h) msg d
          else if hd_type h = message_type_indicate_status then
            handle_indication_fragment (hd_tx h) msg d
          else Some ([], d))"

text \<open>A client takes the oldest indication from the channel.\<close>

definition take_indication :: "device \<Rightarrow> indication option \<times> device" where
  "take_indication d =
     (case dv_indications d of [] \<Rightarrow> (None, d)
      | i # is \<Rightarrow> (Some i, d\<lparr>dv_indications := is\<rparr>))"

section \<open>No panic\<close>

lemma collector_add_no_panic: "collector_add b c \<noteq> Panic"
  by (auto simp: collector_add_def get_u32_def cut_def layout_consts Let_def)

lemma collector_done_no_panic: "collector_done c \<noteq> Panic"
  by (simp add: collector_done_def)

lemma shape_no_panic: "command_done_shape_indication msg \<noteq> Panic"
  by (auto simp: command_done_shape_indication_def get_u32_def cut_def layout_consts Let_def)

lemma handle_command_total: "handle_command_done_fragment tx msg d \<noteq> None"
  using collector_add_no_panic [of msg] collector_done_no_panic
  by (auto simp: handle_command_done_fragment_def Let_def split: prod.splits result.splits)

lemma handle_indication_total: "handle_indication_fragment tx msg d \<noteq> None"
  using collector_add_no_panic collector_done_no_panic shape_no_panic [of msg]
  by (auto simp: handle_indication_fragment_def Let_def and_then_Panic_iff
      split: prod.splits result.splits)

lemma read_step_total: "read_step msg d \<noteq> None"
  using handle_command_total handle_indication_total
  by (auto simp: read_step_def decode_header_def layout_consts split: result.splits)

section \<open>The device and its callers\<close>

text \<open>
  \<open>ms_chans\<close>: how many result channels have been made; \<open>ms_sent\<close>: everything sent on them.
  The transaction counter is a 32-bit word: the rules that advance it are for fewer than
  \<open>2^32\<close> transactions.
\<close>

record mbim_sys =
  ms_dev :: device
  ms_chans :: nat
  ms_sent :: sends

definition mbim_init :: "mbim_sys \<Rightarrow> bool" where
  "mbim_init s \<longleftrightarrow> s = \<lparr>ms_dev = new_device, ms_chans = 0, ms_sent = []\<rparr>"

inductive mbim_step :: "mbim_sys \<Rightarrow> mbim_sys \<Rightarrow> bool" where
  open_device:
    "dv_next_tx (ms_dev s) \<noteq> - 1 \<Longrightarrow> start_open (ms_chans s) maxctrl (ms_dev s) = (w, d) \<Longrightarrow>
     mbim_step s (s\<lparr>ms_dev := d, ms_chans := ms_chans s + 1\<rparr>)"
| command:
    "dv_next_tx (ms_dev s) \<noteq> - 1 \<Longrightarrow>
     start_command (ms_chans s) service cid ct info (ms_dev s) = (w, d) \<Longrightarrow>
     mbim_step s (s\<lparr>ms_dev := d, ms_chans := ms_chans s + 1\<rparr>)"
| give_up_command:
    "mbim_step s (s\<lparr>ms_dev := remove_pending tx (ms_dev s)\<rparr>)"
| receive:
    "read_step msg (ms_dev s) = Some (out, d) \<Longrightarrow>
     mbim_step s (s\<lparr>ms_dev := d, ms_sent := ms_sent s @ out\<rparr>)"
| stream_broken:
    "set txs = dom (dv_pending (ms_dev s)) \<Longrightarrow> distinct txs \<Longrightarrow>
     fail_pending e txs (ms_dev s) = (out, d) \<Longrightarrow>
     mbim_step s (s\<lparr>ms_dev := d, ms_sent := ms_sent s @ out\<rparr>)"
| consume:
    "mbim_step s (s\<lparr>ms_dev := snd (take_indication (ms_dev s))\<rparr>)"
| close:
    "dv_next_tx (ms_dev s) \<noteq> - 1 \<Longrightarrow> mbim_step s (s\<lparr>ms_dev := snd (close_device (ms_dev s))\<rparr>)"

abbreviation mbim_reachable :: "mbim_sys \<Rightarrow> bool" where
  "mbim_reachable \<equiv> reachable mbim_init mbim_step"

text \<open>
  Channels: nothing is sent twice on one, and a pending one is used by one transaction and
  has had nothing sent on it. Transactions: the pending ones are not ahead of the counter.
\<close>

definition chans_ok :: "nat \<Rightarrow> sends \<Rightarrow> (u32 \<Rightarrow> nat option) \<Rightarrow> bool" where
  "chans_ok n sent pend \<longleftrightarrow>
     distinct (map fst sent) \<and> fst ` set sent \<inter> ran pend = {}
     \<and> inj_on pend (dom pend) \<and> (\<forall>ch \<in> ran pend. ch < n) \<and> (\<forall>ch \<in> fst ` set sent. ch < n)"

definition txs_ok :: "device \<Rightarrow> bool" where
  "txs_ok d \<longleftrightarrow> (\<forall>tx \<in> dom (dv_pending d). tx \<le> dv_next_tx d)"

definition mbim_inv :: "mbim_sys \<Rightarrow> bool" where
  "mbim_inv s \<longleftrightarrow>
     chans_ok (ms_chans s) (ms_sent s) (dv_pending (ms_dev s)) \<and> txs_ok (ms_dev s)
     \<and> length (dv_indications (ms_dev s)) \<le> indication_buffer"

text \<open>Growing the map by a new channel, and taking entries away.\<close>

lemma chans_ok_new:
  assumes "chans_ok n sent pend" and "pend tx = None"
  shows "chans_ok (n + 1) sent (pend(tx \<mapsto> n))"
proof -
  have r: "ran (pend(tx \<mapsto> n)) = insert n (ran pend)" using assms(2) by (simp add: ran_map_upd)
  have "n \<notin> fst ` set sent" "n \<notin> ran pend" using assms(1) by (auto simp: chans_ok_def)
  moreover have "inj_on (pend(tx \<mapsto> n)) (dom (pend(tx \<mapsto> n)))"
    using assms \<open>n \<notin> ran pend\<close> by (auto simp: chans_ok_def inj_on_def ran_def)
  ultimately show ?thesis using assms(1) unfolding chans_ok_def r by auto
qed

lemma chans_ok_less:
  assumes "chans_ok n sent pend" and "\<And>k. pend' k = None \<or> pend' k = pend k"
  shows "chans_ok n sent pend'"
proof -
  have d: "dom pend' \<subseteq> dom pend" using assms(2) by (metis domIff subsetI)
  have r: "ran pend' \<subseteq> ran pend" using assms(2) by (auto simp: ran_def) (metis option.distinct(1))
  have "inj_on pend' (dom pend')"
    using assms d unfolding chans_ok_def inj_on_def by (metis domIff subsetD)
  with assms(1) r show ?thesis unfolding chans_ok_def by blast
qed

lemma chans_ok_drop: "chans_ok n sent pend \<Longrightarrow> chans_ok n sent (pend(tx := None))"
  by (erule chans_ok_less) simp

lemma chans_ok_send:
  assumes "chans_ok n sent pend" and "pend tx = Some ch"
  shows "chans_ok n (sent @ [(ch, r)]) (pend(tx := None))"
proof -
  have "ch \<in> ran pend" using assms(2) by (auto simp: ran_def)
  then have c: "ch \<notin> fst ` set sent" "ch < n" using assms(1) by (auto simp: chans_ok_def)
  have "ch \<notin> ran (pend(tx := None))"
    using assms by (auto simp: chans_ok_def ran_def inj_on_def dom_def split: if_splits)
  with c chans_ok_less [OF assms(1), of "pend(tx := None)"] show ?thesis
    by (auto simp: chans_ok_def)
qed

lemma deliver_result_ok:
  assumes "chans_ok n sent (dv_pending d)" and "deliver_result tx r d = (out, d')"
  shows "chans_ok n (sent @ out) (dv_pending d')"
  using assms chans_ok_send [OF assms(1)]
    chans_ok_less [OF assms(1), of "(dv_pending d)(tx := None)"]
  by (auto simp: deliver_result_def remove_pending_def split: option.splits)

text \<open>What a step of the read loop leaves alone.\<close>

definition quiet :: "device \<Rightarrow> sends \<Rightarrow> device \<Rightarrow> bool" where
  "quiet d out d' \<longleftrightarrow>
     dv_next_tx d' = dv_next_tx d \<and> dv_max_ctrl d' = dv_max_ctrl d \<and> dv_closed d' = dv_closed d
     \<and> (\<forall>k. dv_pending d' k = None \<or> dv_pending d' k = dv_pending d k)
     \<and> (length (dv_indications d) \<le> indication_buffer \<longrightarrow>
          length (dv_indications d') \<le> indication_buffer)
     \<and> (\<forall>n sent. chans_ok n sent (dv_pending d) \<longrightarrow> chans_ok n (sent @ out) (dv_pending d'))"

lemma quiet_same:
  "dv_next_tx d' = dv_next_tx d \<Longrightarrow> dv_max_ctrl d' = dv_max_ctrl d \<Longrightarrow>
   dv_closed d' = dv_closed d \<Longrightarrow> dv_pending d' = dv_pending d \<Longrightarrow>
   (length (dv_indications d) \<le> indication_buffer \<Longrightarrow>
      length (dv_indications d') \<le> indication_buffer) \<Longrightarrow> quiet d [] d'"
  by (simp add: quiet_def)

lemma quiet_deliver:
  assumes "deliver_result tx r d1 = (out, d')" and "dv_pending d1 = dv_pending d"
    and "dv_next_tx d1 = dv_next_tx d" and "dv_max_ctrl d1 = dv_max_ctrl d"
    and "dv_closed d1 = dv_closed d" and "dv_indications d1 = dv_indications d"
  shows "quiet d out d'"
  using assms deliver_result_ok [of _ _ d1 tx r out d']
  by (auto simp: quiet_def deliver_result_def remove_pending_def split: option.splits)

lemma command_collector_fields:
  assumes "command_collector tx d = (c, d1)"
  shows "dv_pending d1 = dv_pending d" "dv_next_tx d1 = dv_next_tx d"
    "dv_max_ctrl d1 = dv_max_ctrl d" "dv_closed d1 = dv_closed d"
    "dv_indications d1 = dv_indications d"
  using assms by (auto simp: command_collector_def split: option.splits)

lemma handle_command_quiet:
  assumes "handle_command_done_fragment tx msg d = Some (out, d')"
  shows "quiet d out d'"
proof -
  obtain c d1 where c: "command_collector tx d = (c, d1)" by (cases "command_collector tx d")
  note f = command_collector_fields [OF c]
  show ?thesis
    using assms c f unfolding handle_command_done_fragment_def
    by (auto simp: Let_def deliver_def deliver_error_def remove_collector_def
        split: result.splits prod.splits if_splits intro!: quiet_same intro: quiet_deliver)
qed

lemma handle_indication_quiet:
  assumes "handle_indication_fragment tx msg d = Some (out, d')"
  shows "quiet d out d'"
proof -
  obtain c d1 where c: "command_collector tx d = (c, d1)" by (cases "command_collector tx d")
  note f = command_collector_fields [OF c]
  show ?thesis
    using assms c f unfolding handle_indication_fragment_def
    by (auto simp: Let_def remove_collector_def indication_buffer_def
        split: result.splits prod.splits if_splits intro!: quiet_same)
qed

lemma read_step_quiet:
  assumes "read_step msg d = Some (out, d')"
  shows "quiet d out d'"
proof -
  have "deliver tx resp d = (out, d') \<Longrightarrow> quiet d out d'" for tx resp
    unfolding deliver_def by (rule quiet_deliver) simp_all
  then show ?thesis
    using assms handle_command_quiet handle_indication_quiet
    by (auto simp: read_step_def quiet_same split: result.splits if_splits)
qed

lemma chans_ok_all:
  assumes "chans_ok n sent pend" and "set txs = dom pend" and "distinct txs"
  shows "chans_ok n (sent @ map (\<lambda>tx. (the (pend tx), r)) txs) (\<lambda>_. None)"
proof -
  have "distinct (map (\<lambda>tx. the (pend tx)) txs)"
    using assms by (auto simp: distinct_map chans_ok_def inj_on_def dom_def)
  moreover have "the (pend tx) \<in> ran pend" if "tx \<in> set txs" for tx
    using that assms(2) by (auto simp: ran_def)
  moreover have "distinct (map fst (sent @ map (\<lambda>tx. (the (pend tx), r)) txs))"
    using calculation assms(1) by (auto simp: chans_ok_def comp_def)
  moreover have "\<forall>ch \<in> fst ` set (sent @ map (\<lambda>tx. (the (pend tx), r)) txs). ch < n"
    using calculation(2) assms(1) by (auto simp: chans_ok_def)
  ultimately show ?thesis by (simp add: chans_ok_def)
qed

lemma register_ok:
  assumes "mbim_inv s" and n: "dv_next_tx (ms_dev s) \<noteq> - 1"
    and "dv_next_tx d = dv_next_tx (ms_dev s) + 1"
    and "dv_pending d = (dv_pending (ms_dev s))(dv_next_tx (ms_dev s) + 1 \<mapsto> ms_chans s)"
    and "dv_indications d = dv_indications (ms_dev s)"
  shows "mbim_inv (s\<lparr>ms_dev := d, ms_chans := ms_chans s + 1\<rparr>)"
proof -
  let ?d = "ms_dev s"
  have less: "dv_next_tx ?d < dv_next_tx ?d + 1" by (rule next_word(1) [OF n])
  have "dv_pending ?d (dv_next_tx ?d + 1) = None"
    using assms(1) less by (force simp: mbim_inv_def txs_ok_def)
  moreover have "tx \<le> dv_next_tx ?d + 1" if "tx \<le> dv_next_tx ?d" for tx
    using that less by simp
  ultimately show ?thesis
    using assms chans_ok_new [of "ms_chans s" "ms_sent s" "dv_pending ?d"]
    by (auto simp: mbim_inv_def txs_ok_def)
qed

lemma quiet_inv_step:
  assumes "mbim_inv s" and "quiet (ms_dev s) out d"
  shows "mbim_inv (s\<lparr>ms_dev := d, ms_sent := ms_sent s @ out\<rparr>)"
proof -
  have "\<forall>k. dv_pending d k = None \<or> dv_pending d k = dv_pending (ms_dev s) k"
    using assms(2) by (simp add: quiet_def)
  then have "dom (dv_pending d) \<subseteq> dom (dv_pending (ms_dev s))" by (metis domIff subsetI)
  then show ?thesis using assms by (auto simp: mbim_inv_def quiet_def txs_ok_def)
qed

lemma mbim_init_inv: "mbim_init s \<Longrightarrow> mbim_inv s"
  by (auto simp: mbim_init_def mbim_inv_def new_device_def chans_ok_def txs_ok_def)

lemma mbim_step_inv:
  assumes "mbim_inv s" and "mbim_step s s'"
  shows "mbim_inv s'"
  using assms(2)
proof cases
  case (open_device maxctrl w d)
  show ?thesis
    unfolding open_device(1)
    by (rule register_ok [OF assms(1) open_device(2)])
      (use open_device(3) in \<open>auto simp: start_open_def alloc_tx_def register_pending_def Let_def\<close>)
next
  case (command service cid ct info w d)
  show ?thesis
    unfolding command(1)
    by (rule register_ok [OF assms(1) command(2)])
      (use command(3) in \<open>auto simp: start_command_def alloc_tx_def register_pending_def Let_def\<close>)
next
  case (give_up_command tx)
  have "quiet (ms_dev s) [] (remove_pending tx (ms_dev s))"
    by (auto simp: quiet_def remove_pending_def chans_ok_drop)
  from quiet_inv_step [OF assms(1) this] show ?thesis using give_up_command by simp
next
  case (receive msg out d)
  from quiet_inv_step [OF assms(1) read_step_quiet [OF receive(2)]] receive(1) show ?thesis by simp
next
  case (stream_broken txs e out d)
  then show ?thesis
    using assms(1) chans_ok_all [of "ms_chans s" "ms_sent s" "dv_pending (ms_dev s)" txs]
    by (auto simp: mbim_inv_def fail_pending_def txs_ok_def)
next
  case consume
  then show ?thesis
    using assms(1)
    by (auto simp: mbim_inv_def take_indication_def txs_ok_def split: list.splits)
next
  case close
  have "tx \<le> dv_next_tx (ms_dev s) + 1" if "tx \<le> dv_next_tx (ms_dev s)" for tx
    using that next_word(1) [OF close(2)] by simp
  then show ?thesis
    using close assms(1) by (auto simp: mbim_inv_def close_device_def txs_ok_def Let_def)
qed

interpretation mbim_safety: safety mbim_init mbim_step mbim_inv
  by unfold_locales (auto intro: mbim_init_inv mbim_step_inv)

section \<open>Properties\<close>

text \<open>
  C14. Every command gets at most one result, whatever the modem sends and in whatever order
  replies, time-outs and a broken stream fall: nothing is ever sent on a channel twice, so a
  send on these channels of capacity one never blocks the read loop; a channel that is still
  pending has had no result; and the indication queue never exceeds its capacity.
\<close>

theorem one_result_per_command:
  assumes "mbim_reachable s"
  shows "distinct (map fst (ms_sent s))
    \<and> fst ` set (ms_sent s) \<inter> ran (dv_pending (ms_dev s)) = {}
    \<and> inj_on (dv_pending (ms_dev s)) (dom (dv_pending (ms_dev s)))
    \<and> length (dv_indications (ms_dev s)) \<le> indication_buffer"
  using mbim_safety.always_good [OF assms] by (simp add: mbim_inv_def chans_ok_def)

theorem one_result_per_command_witness:
  "\<exists>s. mbim_reachable s \<and> dv_pending (ms_dev s) 1 = Some 0
     \<and> fst ` set (ms_sent s) \<inter> ran (dv_pending (ms_dev s)) = {}"
proof -
  let ?s = "\<lparr>ms_dev = new_device, ms_chans = 0, ms_sent = []\<rparr>"
  obtain w d where c: "start_command 0 demo_service 3 1 [] new_device = (w, d)"
    by (cases "start_command 0 demo_service 3 1 [] new_device")
  have "mbim_reachable ?s" by (rule reachable_init) (simp add: mbim_init_def)
  moreover have "mbim_step ?s (?s\<lparr>ms_dev := d, ms_chans := 1\<rparr>)"
    using mbim_step.command [of ?s demo_service 3 1 "[]" w d] c by (simp add: new_device_def)
  ultimately have r: "mbim_reachable (?s\<lparr>ms_dev := d, ms_chans := 1\<rparr>)" by (rule reachable_step)
  have "dv_pending d 1 = Some 0"
    using c by (auto simp: start_command_def alloc_tx_def register_pending_def new_device_def)
  with r one_result_per_command [OF r] show ?thesis by auto
qed

text \<open>Feeding the fragments of one reply to the read loop.\<close>

fun feed_reply :: "u32 \<Rightarrow> bytes list \<Rightarrow> device \<Rightarrow> (sends \<times> device) option" where
  "feed_reply tx [] d = Some ([], d)"
| "feed_reply tx (m # ms) d =
     (case handle_command_done_fragment tx m d of None \<Rightarrow> None
      | Some (out, d') \<Rightarrow> (case feed_reply tx ms d' of None \<Rightarrow> None
          | Some (out', d'') \<Rightarrow> Some (out @ out', d'')))"

lemma feed_reply_collect:
  assumes "collect ms c = Ok (replicate (length ms - 1) False @ [True], c')" and "ms \<noteq> []"
    and "collector_done c' = Ok resp"
    and "dv_collectors d tx = Some c \<or> c = new_collector \<and> dv_collectors d tx = None"
  shows "feed_reply tx ms d =
     Some (deliver tx resp (d\<lparr>dv_collectors := (dv_collectors d)(tx := None)\<rparr>))"
  using assms
proof (induction ms arbitrary: c d)
  case Nil
  then show ?case by simp
next
  case (Cons m ms)
  obtain b c1 where a: "collector_add m c = Ok (b, c1)"
    using Cons.prems(1) by (cases "collector_add m c") auto
  have cc: "command_collector tx d = (c, d\<lparr>dv_collectors := (dv_collectors d)(tx \<mapsto> c)\<rparr>)"
    using Cons.prems(4) by (auto simp: command_collector_def fun_upd_idem)
  show ?case
  proof (cases "ms = []")
    case True
    then have "b" "c1 = c'" using Cons.prems(1) a by auto
    then show ?thesis
      using True a cc Cons.prems(3)
      by (simp add: handle_command_done_fragment_def Let_def remove_collector_def deliver_def
          fun_upd_def cong: if_cong split: prod.splits)
  next
    case False
    then obtain k where k: "length ms = Suc k" by (cases ms) auto
    have b: "\<not> b" and r: "collect ms c1 = Ok (replicate (length ms - 1) False @ [True], c')"
      using Cons.prems(1) a k by (auto simp: and_then_Ok_iff)
    let ?d = "d\<lparr>dv_collectors := (dv_collectors d)(tx \<mapsto> c1)\<rparr>"
    have "handle_command_done_fragment tx m d = Some ([], ?d)"
      using a b cc by (simp add: handle_command_done_fragment_def Let_def)
    moreover have "feed_reply tx ms ?d =
        Some (deliver tx resp (?d\<lparr>dv_collectors := (dv_collectors ?d)(tx := None)\<rparr>))"
      by (rule Cons.IH [OF r False Cons.prems(3)]) simp
    ultimately show ?thesis by (simp add: fun_upd_def cong: if_cong split: prod.splits)
  qed
qed



fun feed_indications :: "u32 \<Rightarrow> bytes list \<Rightarrow> device \<Rightarrow> device option" where
  "feed_indications tx [] d = Some d"
| "feed_indications tx (m # ms) d =
     (case handle_indication_fragment tx m d of None \<Rightarrow> None
      | Some (out, d') \<Rightarrow> feed_indications tx ms d')"

lemma shape_current:
  assumes "20 \<le> length m"
  shows "\<exists>m'. command_done_shape_indication m = Ok m' \<and> 20 \<le> length m'
    \<and> le32 (drop 16 m') = le32 (drop 16 m)"
proof (cases "le32 (drop 16 m) \<noteq> 0 \<or> length m < 44")
  case True
  then show ?thesis
    using assms by (auto simp: command_done_shape_indication_def layout_consts)
next
  case False
  define out where "out = take 40 m @ zeros 4 @ drop 40 m"
  define m' where "m' = take 4 out @ le32_bytes (of_nat (length out)) @ drop 8 out"
  have n: "length out = length m + 4" using False by (simp add: out_def)
  have s: "command_done_shape_indication m = Ok m'"
    using False by (simp add: command_done_shape_indication_def layout_consts Let_def out_def m'_def)
  have l: "20 \<le> length m'" using n False by (simp add: m'_def)
  have "drop 16 m' = drop 16 out" using n by (simp add: m'_def)
  also have "\<dots> = drop 16 (take 40 m) @ zeros 4 @ drop 40 m" using False by (simp add: out_def)
  finally have "le32 (drop 16 m') = le32 (drop 16 (take 40 m))"
    using False by (simp add: le32_prefix)
  also have "\<dots> = le32 (drop 16 m)" by (simp add: drop_take le32_take)
  finally show ?thesis using s l by blast
qed

lemma stuck_collector:
  assumes "dv_collectors d tx = Some c" and "co_started c" and "20 \<le> length m"
    and "le32 (drop 16 m) \<noteq> co_next c"
  shows "handle_indication_fragment tx m d = Some ([], d)"
proof -
  obtain m' where m': "command_done_shape_indication m = Ok m'" "20 \<le> length m'"
    "le32 (drop 16 m') \<noteq> co_next c" using shape_current [OF assms(3)] assms(4) by auto
  then have "collector_add m' c = Fail (OutOfOrder (le32 (drop 16 m')) (co_next c))"
    using assms(2) by (simp add: collector_add_def layout_consts)
  then show ?thesis
    using assms(1) m'(1) by (simp add: handle_indication_fragment_def command_collector_def)
qed


text \<open>A two-fragment indication whose second fragment never comes, and a later whole one.\<close>

definition broken_indication :: bytes where
  "broken_indication =
     put_header message_type_indicate_status 48 0 @ le32_bytes 2 @ le32_bytes 0
     @ demo_service @ le32_bytes 11 @ le32_bytes 8 @ zeros 4"

definition whole_indication :: bytes where
  "whole_indication =
     put_header message_type_indicate_status 48 0 @ le32_bytes 1 @ le32_bytes 0
     @ demo_service @ le32_bytes 11 @ le32_bytes 4 @ zeros 4"


end
