(* ===== verification/Mbim_Info.thy ===== *)
theory Mbim_Info
  imports Mbim_Message Go_Unicode
begin

text \<open>
  The reader of MBIM information buffers (pkg/mbim/databuffer.go): integers at fixed
  positions, the (offset, size) references into the variable part, and the UTF-16LE strings
  they point to. Every access keeps its bounds check; \<open>no_panic\<close> collects the facts that the
  checks are enough, from which the parsers of Mbim_Services are shown free of panics.
\<close>

datatype info_error =
  OutOfRange nat | ArrayRange u32 u32 | OddText u32 | TextRange u32 u32
| InfoTooShort string nat | BadStatus string u32 | RecordRange nat u32 u32
| Within string info_error | NoRecord u32 | CardStatus u32 | FixedHeader u32

text \<open>\<open>x, _ := f()\<close>: the zero value when \<open>f\<close> returns an error.\<close>

fun or_default :: "'a \<Rightarrow> ('e, 'a) result \<Rightarrow> ('e, 'a) result" where
  "or_default d (Ok x) = Ok x"
| "or_default d (Fail e) = Ok d"
| "or_default d Panic = Panic"

text \<open>\<open>fmt.Errorf("...: %w", err)\<close>.\<close>

fun wrap_error :: "string \<Rightarrow> (info_error, 'a) result \<Rightarrow> (info_error, 'a) result" where
  "wrap_error op (Ok x) = Ok x"
| "wrap_error op (Fail e) = Fail (Within op e)"
| "wrap_error op Panic = Panic"

definition u32_at :: "bytes \<Rightarrow> nat \<Rightarrow> (info_error, u32) result" where
  "u32_at b pos =
     (if int pos > int (length b) - 4 then Fail (OutOfRange pos) else get_u32 b pos Ok)"

definition u64_at :: "bytes \<Rightarrow> nat \<Rightarrow> (info_error, u64) result" where
  "u64_at b pos =
     (if int pos > int (length b) - 8 then Fail (OutOfRange pos) else get_u64 b pos Ok)"

definition uicc_byte_array_at :: "bytes \<Rightarrow> nat \<Rightarrow> (info_error, bytes) result" where
  "uicc_byte_array_at b pos =
     and_then (u32_at b pos) (\<lambda>size. and_then (u32_at b (pos + 4)) (\<lambda>offset.
       if size = 0 then Ok []
       else if unat offset + unat size > length b then Fail (ArrayRange offset size)
       else cut b (unat offset) (unat offset + unat size) Ok))"

definition byte_array_at :: "bytes \<Rightarrow> nat \<Rightarrow> (info_error, bytes) result" where
  "byte_array_at b pos =
     and_then (u32_at b pos) (\<lambda>offset. and_then (u32_at b (pos + 4)) (\<lambda>size.
       if size = 0 then Ok []
       else if unat offset + unat size > length b then Fail (ArrayRange offset size)
       else cut b (unat offset) (unat offset + unat size) Ok))"

text \<open>The loop over the code units from \<open>pos\<close>, \<open>n\<close> of them.\<close>

fun read_units :: "bytes \<Rightarrow> nat \<Rightarrow> nat \<Rightarrow> (info_error, u16 list) result" where
  "read_units b pos 0 = Ok []"
| "read_units b pos (Suc n) =
     get_u16 b pos (\<lambda>u. and_then (read_units b (pos + 2) n) (\<lambda>us. Ok (u # us)))"

definition decode_utf16_range :: "bytes \<Rightarrow> u32 \<Rightarrow> u32 \<Rightarrow> (info_error, string) result" where
  "decode_utf16_range b offset len =
     (if len = 0 then Ok []
      else if unat len mod 2 \<noteq> 0 then Fail (OddText len)
      else if unat offset + unat len > length b then Fail (TextRange offset len)
      else and_then (read_units b (unat offset) (unat len div 2))
        (\<lambda>us. Ok (string_of_runes (utf16_decode us))))"

definition string_at :: "bytes \<Rightarrow> nat \<Rightarrow> (info_error, string) result" where
  "string_at b pos =
     and_then (u32_at b pos) (\<lambda>offset. and_then (u32_at b (pos + 4)) (\<lambda>len.
       if len = 0 then Ok [] else decode_utf16_range b offset len))"

fun read_strings :: "bytes \<Rightarrow> nat \<Rightarrow> nat \<Rightarrow> (info_error, string list) result" where
  "read_strings b pos 0 = Ok []"
| "read_strings b pos (Suc n) =
     and_then (string_at b pos) (\<lambda>s. and_then (read_strings b (pos + 8) n) (\<lambda>ss. Ok (s # ss)))"

definition string_array_count_at :: "bytes \<Rightarrow> nat \<Rightarrow> (info_error, string list) result" where
  "string_array_count_at b pos =
     and_then (u32_at b pos) (\<lambda>count. read_strings b (pos + 4) (unat count))"

section \<open>No reader panics\<close>

lemma or_default_no_panic [no_panic]: "r \<noteq> Panic \<Longrightarrow> or_default d r \<noteq> Panic"
  by (cases r) auto

lemma wrap_error_no_panic [no_panic]: "r \<noteq> Panic \<Longrightarrow> wrap_error op r \<noteq> Panic"
  by (cases r) auto

lemma u32_at_no_panic [no_panic]: "u32_at b pos \<noteq> Panic"
  by (auto simp: u32_at_def get_u32_def)

lemma u64_at_no_panic [no_panic]: "u64_at b pos \<noteq> Panic"
  by (auto simp: u64_at_def get_u64_def)

lemma uicc_byte_array_at_no_panic [no_panic]: "uicc_byte_array_at b pos \<noteq> Panic"
  unfolding uicc_byte_array_at_def by (intro no_panic) auto

lemma byte_array_at_no_panic [no_panic]: "byte_array_at b pos \<noteq> Panic"
  unfolding byte_array_at_def by (intro no_panic) auto

lemma read_units_no_panic [no_panic]: "pos + 2 * n \<le> length b \<Longrightarrow> read_units b pos n \<noteq> Panic"
proof (induction n arbitrary: pos)
  case (Suc n)
  then show ?case unfolding read_units.simps by (intro no_panic) simp_all
qed simp

lemma decode_utf16_range_no_panic [no_panic]: "decode_utf16_range b offset len \<noteq> Panic"
  unfolding decode_utf16_range_def by (intro no_panic) auto

lemma string_at_no_panic [no_panic]: "string_at b pos \<noteq> Panic"
  unfolding string_at_def by (intro no_panic)

lemma read_strings_no_panic [no_panic]: "read_strings b pos n \<noteq> Panic"
proof (induction n arbitrary: pos)
  case (Suc n)
  then show ?case unfolding read_strings.simps by (intro no_panic)
qed simp

lemma string_array_count_at_no_panic [no_panic]: "string_array_count_at b pos \<noteq> Panic"
  unfolding string_array_count_at_def by (intro no_panic)

section \<open>What the readers find\<close>

lemma word_zero_iff: "w = 0 \<longleftrightarrow> unat w = 0"
  by (simp add: word_unat_eq_iff)

lemma u32_at_in: "pos + 4 \<le> length b \<Longrightarrow> u32_at b pos = Ok (le32 (drop pos b))"
  by (simp add: u32_at_def)

lemma u32_at_out: "length b < pos + 4 \<Longrightarrow> u32_at b pos = Fail (OutOfRange pos)"
  by (simp add: u32_at_def)

lemma u32_at_put: "length a = pos \<Longrightarrow> u32_at (a @ le32_bytes w @ rest) pos = Ok w"
  by (simp add: u32_at_in)

definition utf16_bytes :: "u16 list \<Rightarrow> bytes" where
  "utf16_bytes us = concat (map le16_bytes us)"

lemma utf16_bytes_length [simp]: "length (utf16_bytes us) = 2 * length us"
  by (induction us) (simp_all add: utf16_bytes_def)

lemma read_units_bytes:
  "length a = pos \<Longrightarrow> read_units (a @ utf16_bytes us @ rest) pos (length us) = Ok us"
proof (induction us arbitrary: a pos)
  case Nil
  then show ?case by simp
next
  case (Cons u us)
  have "read_units ((a @ le16_bytes u) @ utf16_bytes us @ rest) (pos + 2) (length us) = Ok us"
    using Cons.prems by (intro Cons.IH) simp
  then show ?case using Cons.prems by (simp add: utf16_bytes_def)
qed

text \<open>
  A reference field that holds the place and size of a block finds the block; an encoder
  that lays its buffer out this way writes strings that the reader gets back.
\<close>

definition refers :: "bytes \<Rightarrow> nat \<Rightarrow> bytes \<Rightarrow> bool" where
  "refers b pos blk \<longleftrightarrow>
     (\<exists>off len. u32_at b pos = Ok off \<and> u32_at b (pos + 4) = Ok len \<and> unat len = length blk \<and>
        (blk \<noteq> [] \<longrightarrow> (\<exists>a c. b = a @ blk @ c \<and> length a = unat off)))"

lemma byte_array_at_refers:
  assumes "refers b pos blk"
  shows "byte_array_at b pos = Ok blk"
proof -
  obtain off len where o: "u32_at b pos = Ok off" "u32_at b (pos + 4) = Ok len"
      and len: "unat len = length blk"
      and place: "blk \<noteq> [] \<longrightarrow> (\<exists>a c. b = a @ blk @ c \<and> length a = unat off)"
    using assms by (auto simp: refers_def)
  show ?thesis
  proof (cases "blk = []")
    case True
    with len have "len = 0" by (simp add: word_zero_iff)
    with o True show ?thesis by (simp add: byte_array_at_def)
  next
    case False
    with len have "len \<noteq> 0" by auto
    moreover obtain a c where "b = a @ blk @ c" "length a = unat off" using place False by blast
    ultimately show ?thesis using o len by (simp add: byte_array_at_def)
  qed
qed

lemma string_at_refers:
  assumes "refers b pos (utf16_bytes (utf16_encode (runes_of s)))" and "valid_utf8 s"
  shows "string_at b pos = Ok s"
proof -
  let ?us = "utf16_encode (runes_of s)"
  obtain off len where o: "u32_at b pos = Ok off" "u32_at b (pos + 4) = Ok len"
      and len: "unat len = 2 * length ?us"
      and place: "utf16_bytes ?us \<noteq> [] \<longrightarrow> (\<exists>a c. b = a @ utf16_bytes ?us @ c \<and> length a = unat off)"
    using assms(1) by (auto simp: refers_def)
  show ?thesis
  proof (cases "len = 0")
    case True
    with len have "?us = []" by simp
    then have "s = []" using utf16_text_round_trip [OF assms(2)]
      by (simp add: utf16_decode_def string_of_runes_def)
    with True o show ?thesis by (simp add: string_at_def)
  next
    case False
    then have "unat len \<noteq> 0" by (simp only: word_zero_iff not_False_eq_True)
    with len have "length (utf16_bytes ?us) \<noteq> 0" by simp
    then have "utf16_bytes ?us \<noteq> []" unfolding length_0_conv .
    with place obtain a c where b: "b = a @ utf16_bytes ?us @ c" and a: "length a = unat off"
      by blast
    have "read_units b (unat off) (length ?us) = Ok ?us"
      unfolding b by (rule read_units_bytes [OF a])
    moreover have "unat off + unat len \<le> length b" using b a len by simp
    ultimately show ?thesis
      using o len False utf16_text_round_trip [OF assms(2)]
      by (simp add: string_at_def decode_utf16_range_def)
  qed
qed

end
