(* ===== verification/Mbim_Parsers.thy ===== *)
theory Mbim_Parsers
  imports Mbim_Info Go_Net
begin

text \<open>
  The parsers of MBIM responses and indications (pkg/mbim: one Go file per service). A
  device can send any bytes; \<open>parsers_total\<close> shows that no parser panics on any of them.
  \<open>opt32 b pos k\<close> is \<open>v, _ := r.u32At(pos)\<close> followed by \<open>k v\<close>.
\<close>

definition opt32 :: "bytes \<Rightarrow> nat \<Rightarrow> (u32 \<Rightarrow> (info_error, 'a) result) \<Rightarrow> (info_error, 'a) result" where
  "opt32 b pos k = and_then (or_default 0 (u32_at b pos)) k"

definition opt64 :: "bytes \<Rightarrow> nat \<Rightarrow> (u64 \<Rightarrow> (info_error, 'a) result) \<Rightarrow> (info_error, 'a) result" where
  "opt64 b pos k = and_then (or_default 0 (u64_at b pos)) k"

lemma opt_no_panic [no_panic]:
  "(\<And>v. k32 v \<noteq> Panic) \<Longrightarrow> opt32 b pos k32 \<noteq> Panic"
  "(\<And>v. k64 v \<noteq> Panic) \<Longrightarrow> opt64 b pos k64 \<noteq> Panic"
  unfolding opt32_def opt64_def by (intro no_panic; assumption)+

lemma opt32_in [simp]: "pos + 4 \<le> length b \<Longrightarrow> opt32 b pos k = k (le32 (drop pos b))"
  by (simp add: opt32_def u32_at_in)

lemma opt64_in [simp]: "pos + 8 \<le> length b \<Longrightarrow> opt64 b pos k = k (le64 (drop pos b))"
  by (simp add: opt64_def u64_at_def)

section \<open>Device capabilities and services\<close>

record caps =
  cp_device_type :: u32
  cp_cellular_class :: u32
  cp_data_class :: u32
  cp_sms_caps :: u32
  cp_device_id :: string
  cp_firmware :: string
  cp_hardware :: string

definition caps_fixed_len :: nat where "caps_fixed_len = 8 * 4 + 4 * 8"

definition parse_device_caps :: "bytes \<Rightarrow> (info_error, caps) result" where
  "parse_device_caps b =
     (if length b < caps_fixed_len then Fail (InfoTooShort ''DEVICE_CAPS'' (length b))
      else opt32 b 0 (\<lambda>ty. opt32 b 4 (\<lambda>cc. opt32 b 16 (\<lambda>dc. opt32 b 20 (\<lambda>sc.
        and_then (wrap_error ''parse DeviceId'' (string_at b 40)) (\<lambda>dev.
        and_then (or_default [] (string_at b 48)) (\<lambda>fw.
        and_then (or_default [] (string_at b 56)) (\<lambda>hw.
          Ok \<lparr>cp_device_type = ty, cp_cellular_class = cc, cp_data_class = dc, cp_sms_caps = sc,
              cp_device_id = dev, cp_firmware = fw, cp_hardware = hw\<rparr>))))))))"

record service_element =
  se_service :: uuid
  se_cids :: "u32 list"

record device_services =
  ds_max_sessions :: u32
  ds_elements :: "service_element list"

definition has_service :: "uuid \<Rightarrow> device_services \<Rightarrow> bool" where
  "has_service svc ds \<longleftrightarrow> list_ex (\<lambda>e. se_service e = svc) (ds_elements ds)"

fun supports_in :: "service_element list \<Rightarrow> uuid \<Rightarrow> u32 \<Rightarrow> bool" where
  "supports_in [] svc cid = False"
| "supports_in (e # es) svc cid =
     (if se_service e \<noteq> svc then supports_in es svc cid
      else list_ex (\<lambda>c. c = cid) (se_cids e))"

definition supports :: "device_services \<Rightarrow> uuid \<Rightarrow> u32 \<Rightarrow> bool" where
  "supports ds svc cid = supports_in (ds_elements ds) svc cid"

fun read_cids :: "bytes \<Rightarrow> nat \<Rightarrow> nat \<Rightarrow> (info_error, u32 list) result" where
  "read_cids b pos 0 = Ok []"
| "read_cids b pos (Suc n) =
     opt32 b pos (\<lambda>c. and_then (read_cids b (pos + 4) n) (\<lambda>cs. Ok (c # cs)))"

text \<open>One element: None when the loop passes over it.\<close>

definition parse_service_element :: "bytes \<Rightarrow> (info_error, service_element option) result" where
  "parse_service_element elem =
     (if length elem < 28 then Ok None
      else cut elem 0 16 (\<lambda>svc. opt32 elem 24 (\<lambda>n.
        if 28 + unat n * 4 > length elem then Ok None
        else and_then (read_cids elem 28 (unat n))
          (\<lambda>cids. Ok (Some \<lparr>se_service = svc, se_cids = cids\<rparr>)))))"

fun read_elements :: "bytes \<Rightarrow> nat \<Rightarrow> nat \<Rightarrow> (info_error, service_element list) result" where
  "read_elements b pos 0 = Ok []"
| "read_elements b pos (Suc n) =
     (case byte_array_at b pos of
        Panic \<Rightarrow> Panic
      | Fail e \<Rightarrow> read_elements b (pos + 8) n
      | Ok elem \<Rightarrow>
          and_then (parse_service_element elem) (\<lambda>se.
          and_then (read_elements b (pos + 8) n) (\<lambda>es.
            Ok (case se of None \<Rightarrow> es | Some e \<Rightarrow> e # es))))"

definition parse_device_services :: "bytes \<Rightarrow> (info_error, device_services) result" where
  "parse_device_services b =
     (if length b < 8 then Fail (InfoTooShort ''DEVICE_SERVICES'' (length b))
      else opt32 b 0 (\<lambda>count. opt32 b 4 (\<lambda>maxDss.
        and_then (read_elements b 8 (unat count)) (\<lambda>es.
          Ok \<lparr>ds_max_sessions = maxDss, ds_elements = es\<rparr>))))"

section \<open>Connection, radio, packet service and signal\<close>

record connect_state =
  cs_session :: u32
  cs_activation :: u32
  cs_ip_type :: u32
  cs_nw_error :: u32

definition parse_connect :: "bytes \<Rightarrow> (info_error, connect_state) result" where
  "parse_connect b =
     (if length b < 36 then Fail (InfoTooShort ''CONNECT'' (length b))
      else opt32 b 0 (\<lambda>sid. opt32 b 4 (\<lambda>st. opt32 b 12 (\<lambda>ip. opt32 b 32 (\<lambda>err.
        Ok \<lparr>cs_session = sid, cs_activation = st, cs_ip_type = ip, cs_nw_error = err\<rparr>)))))"

record radio_state =
  rd_hardware :: u32
  rd_software :: u32

definition parse_radio_state :: "bytes \<Rightarrow> (info_error, radio_state) result" where
  "parse_radio_state b =
     (if length b < 8 then Fail (InfoTooShort ''RADIO_STATE'' (length b))
      else opt32 b 0 (\<lambda>hw. opt32 b 4 (\<lambda>sw. Ok \<lparr>rd_hardware = hw, rd_software = sw\<rparr>)))"

record packet_service =
  pk_nw_error :: u32
  pk_state :: u32
  pk_class :: u32
  pk_up :: u64
  pk_down :: u64

definition packet_fixed_len :: nat where "packet_fixed_len = 3 * 4 + 2 * 8"

definition parse_packet_service :: "bytes \<Rightarrow> (info_error, packet_service) result" where
  "parse_packet_service b =
     (if length b < packet_fixed_len then Fail (InfoTooShort ''PACKET_SERVICE'' (length b))
      else opt32 b 0 (\<lambda>err. opt32 b 4 (\<lambda>st. opt32 b 8 (\<lambda>cl. opt64 b 12 (\<lambda>up. opt64 b 20 (\<lambda>down.
        Ok \<lparr>pk_nw_error = err, pk_state = st, pk_class = cl, pk_up = up, pk_down = down\<rparr>))))))"

record slot_info =
  sl_index :: u32
  sl_state :: u32

definition parse_slot_info_status :: "bytes \<Rightarrow> (info_error, slot_info) result" where
  "parse_slot_info_status b =
     (if length b < 8 then Fail (InfoTooShort ''SLOT_INFO_STATUS'' (length b))
      else opt32 b 0 (\<lambda>i. opt32 b 4 (\<lambda>st. Ok \<lparr>sl_index = i, sl_state = st\<rparr>)))"

record signal_state =
  sg_rssi :: u32
  sg_dbm :: int
  sg_unknown :: bool
  sg_error_rate :: u32
  sg_rsrp :: int
  sg_has_rsrp :: bool
  sg_snr :: int
  sg_has_snr :: bool

definition rssi_to_dbm :: "u32 \<Rightarrow> int \<times> bool" where
  "rssi_to_dbm rssi = (if rssi = 99 \<or> rssi > 31 then (0, True) else (- 113 + 2 * int (unat rssi), False))"

definition rsrp_coded_to_dbm :: "u32 \<Rightarrow> int \<times> bool" where
  "rsrp_coded_to_dbm coded = (if coded > 126 then (0, False) else (int (unat coded) - 157, True))"

text \<open>Go divides towards zero.\<close>

definition go_div2 :: "int \<Rightarrow> int" where
  "go_div2 n = (if n < 0 then - (- n div 2) else n div 2)"

definition snr_coded_to_db :: "u32 \<Rightarrow> int \<times> bool" where
  "snr_coded_to_db coded = (if coded > 127 then (0, False) else (go_div2 (int (unat coded) - 46), True))"

definition take_rsrp :: "u32 \<Rightarrow> signal_state \<Rightarrow> signal_state" where
  "take_rsrp coded s =
     (case rsrp_coded_to_dbm coded of (v, ok) \<Rightarrow> if ok then s\<lparr>sg_rsrp := v, sg_has_rsrp := True\<rparr> else s)"

definition take_snr :: "u32 \<Rightarrow> signal_state \<Rightarrow> signal_state" where
  "take_snr coded s =
     (case snr_coded_to_db coded of (v, ok) \<Rightarrow> if ok then s\<lparr>sg_snr := v, sg_has_snr := True\<rparr> else s)"

fun rsrp_entries :: "bytes \<Rightarrow> nat \<Rightarrow> nat \<Rightarrow> signal_state \<Rightarrow> (info_error, signal_state) result" where
  "rsrp_entries b base 0 s = Ok s"
| "rsrp_entries b base (Suc n) s =
     (if base + 20 > length b then Ok s
      else opt32 b base (\<lambda>rsrp. opt32 b (base + 4) (\<lambda>snr. opt32 b (base + 16) (\<lambda>ty.
        if ty AND (0x20 OR 0x40 OR 0x80) = 0 then rsrp_entries b (base + 20) n s
        else
          (let s = take_snr snr (take_rsrp rsrp s) in
           if sg_has_rsrp s \<or> sg_has_snr s then Ok s else rsrp_entries b (base + 20) n s)))))"

definition parse_signal_rsrp_snr :: "bytes \<Rightarrow> signal_state \<Rightarrow> (info_error, signal_state) result" where
  "parse_signal_rsrp_snr b s =
     (if length b < 7 * 4 then Ok s
      else
        (case byte_array_at b 20 of
           Panic \<Rightarrow> Panic
         | Fail e \<Rightarrow> Ok s
         | Ok buf \<Rightarrow>
             if length buf < 4 then Ok s
             else opt32 buf 0 (\<lambda>count. rsrp_entries buf 4 (unat count) s)))"

definition parse_signal_state :: "bytes \<Rightarrow> (info_error, signal_state) result" where
  "parse_signal_state b =
     (if length b < 5 * 4 then Fail (InfoTooShort ''SIGNAL_STATE'' (length b))
      else opt32 b 0 (\<lambda>rssi. opt32 b 4 (\<lambda>er.
        let (dbm, unknown) = rssi_to_dbm rssi in
        parse_signal_rsrp_snr b
          \<lparr>sg_rssi = rssi, sg_dbm = dbm, sg_unknown = unknown, sg_error_rate = er,
           sg_rsrp = 0, sg_has_rsrp = False, sg_snr = 0, sg_has_snr = False\<rparr>)))"

section \<open>Registration, providers and subscriber\<close>

definition split_plmn :: "string \<Rightarrow> string \<times> string" where
  "split_plmn plmn = (if length plmn < 5 then ([], []) else (take 3 plmn, drop 3 plmn))"

record register_info =
  rg_nw_error :: u32
  rg_state :: u32
  rg_mode :: u32
  rg_provider_id :: string
  rg_provider_name :: string
  rg_mcc :: string
  rg_mnc :: string

definition parse_register_state :: "bytes \<Rightarrow> (info_error, register_info) result" where
  "parse_register_state b =
     (if length b < 5 * 4 + 3 * 8 then Fail (InfoTooShort ''REGISTER_STATE'' (length b))
      else opt32 b 0 (\<lambda>err. opt32 b 4 (\<lambda>st. opt32 b 8 (\<lambda>mode.
        and_then (wrap_error ''parse ProviderId'' (string_at b 20)) (\<lambda>pid.
        and_then (wrap_error ''parse ProviderName'' (string_at b 28)) (\<lambda>name.
          let (mcc, mnc) = split_plmn pid in
          Ok \<lparr>rg_nw_error = err, rg_state = st, rg_mode = mode, rg_provider_id = pid,
              rg_provider_name = name, rg_mcc = mcc, rg_mnc = mnc\<rparr>))))))"

record provider =
  pv_plmn :: string
  pv_name :: string
  pv_state :: u32
  pv_class :: u32
  pv_rssi :: u32

definition parse_provider :: "bytes \<Rightarrow> (info_error, provider) result" where
  "parse_provider b =
     opt32 b 0 (\<lambda>idOff. opt32 b 4 (\<lambda>idLen. opt32 b 8 (\<lambda>st.
     opt32 b 12 (\<lambda>nameOff. opt32 b 16 (\<lambda>nameLen. opt32 b 20 (\<lambda>cl. opt32 b 24 (\<lambda>rssi.
       and_then (wrap_error ''parse ProviderId'' (decode_utf16_range b idOff idLen)) (\<lambda>plmn.
       and_then (wrap_error ''parse ProviderName'' (decode_utf16_range b nameOff nameLen)) (\<lambda>name.
         Ok \<lparr>pv_plmn = plmn, pv_name = name, pv_state = st, pv_class = cl, pv_rssi = rssi\<rparr>)))))))))"

fun read_providers :: "bytes \<Rightarrow> nat \<Rightarrow> nat \<Rightarrow> (info_error, provider list) result" where
  "read_providers b i 0 = Ok []"
| "read_providers b i (Suc n) =
     and_then (wrap_error ''visible provider offset'' (u32_at b (4 + i * 8))) (\<lambda>offset.
     and_then (wrap_error ''visible provider size'' (u32_at b (4 + i * 8 + 4))) (\<lambda>size.
       if size < 32 \<or> unat offset + unat size > length b then Fail (RecordRange i offset size)
       else cut b (unat offset) (unat offset + unat size) (\<lambda>rec.
         and_then (wrap_error ''visible provider'' (parse_provider rec)) (\<lambda>p.
         and_then (read_providers b (i + 1) n) (\<lambda>ps. Ok (p # ps))))))"

definition parse_visible_providers :: "bytes \<Rightarrow> (info_error, provider list) result" where
  "parse_visible_providers b = and_then (u32_at b 0) (\<lambda>count. read_providers b 0 (unat count))"

record subscriber =
  sb_ready :: u32
  sb_imsi :: string
  sb_iccid :: string
  sb_msisdn :: string

definition parse_subscriber_ready :: "bytes \<Rightarrow> (info_error, subscriber) result" where
  "parse_subscriber_ready b =
     (if length b < 4 + 8 + 8 + 4 + 4 then Fail (InfoTooShort ''SUBSCRIBER_READY'' (length b))
      else opt32 b 0 (\<lambda>ready.
        and_then (wrap_error ''parse IMSI'' (string_at b 4)) (\<lambda>imsi.
        and_then (wrap_error ''parse ICCID'' (string_at b 12)) (\<lambda>iccid.
        and_then (wrap_error ''parse telephone numbers'' (string_array_count_at b 24)) (\<lambda>nums.
          Ok \<lparr>sb_ready = ready, sb_imsi = imsi, sb_iccid = iccid,
              sb_msisdn = (if nums = [] then [] else hd nums)\<rparr>)))))"

end
