(* ===== verification/Mbim_Services.thy ===== *)
theory Mbim_Services
  imports Mbim_Parsers
begin

text \<open>
  The MBIM responses with references into the buffer or with a card behind them (pkg/mbim:
  ipconfig.go, sms.go, ussd.go, uicc.go, uicc\_fileaccess.go, auth.go, version.go), and the
  totality of all the parsers of this theory and of Mbim_Parsers.
\<close>

section \<open>IP configuration\<close>

record ip_config =
  ip_v4_address :: string
  ip_v4_prefix :: u32
  ip_v4_gateway :: string
  ip_v4_dns :: "string list"
  ip_v4_mtu :: u32
  ip_v6_address :: string
  ip_v6_prefix :: u32
  ip_v6_gateway :: string
  ip_v6_dns :: "string list"
  ip_v6_mtu :: u32

definition empty_ip_config :: ip_config where
  "empty_ip_config =
     \<lparr>ip_v4_address = [], ip_v4_prefix = 0, ip_v4_gateway = [], ip_v4_dns = [], ip_v4_mtu = 0,
      ip_v6_address = [], ip_v6_prefix = 0, ip_v6_gateway = [], ip_v6_dns = [], ip_v6_mtu = 0\<rparr>"

definition ip_at :: "bytes \<Rightarrow> nat \<Rightarrow> nat \<Rightarrow> (info_error, string) result" where
  "ip_at b off n =
     (if off = 0 then Ok []
      else if off + n > length b then Fail (OutOfRange off)
      else cut b off (off + n) (\<lambda>a. Ok (ip_string a)))"

text \<open>The loop over the DNS servers: unreadable and empty ones are passed over.\<close>

fun read_dns :: "bytes \<Rightarrow> nat \<Rightarrow> nat \<Rightarrow> nat \<Rightarrow> (info_error, string list) result" where
  "read_dns b pos w 0 = Ok []"
| "read_dns b pos w (Suc n) =
     (case ip_at b pos w of
        Panic \<Rightarrow> Panic
      | Fail e \<Rightarrow> read_dns b (pos + w) w n
      | Ok s \<Rightarrow> and_then (read_dns b (pos + w) w n)
          (\<lambda>ss. Ok (if s \<noteq> [] then s # ss else ss)))"

text \<open>
  The three groups of fields of one family: where its address count, address offset, gateway
  offset, DNS count and DNS offset stand, and the width of an address.
\<close>

definition read_address :: "bytes \<Rightarrow> nat \<Rightarrow> nat \<Rightarrow> nat \<Rightarrow> (info_error, u32 \<times> string) result" where
  "read_address b cntPos offPos w =
     opt32 b cntPos (\<lambda>count.
       if count > 0 then
         opt32 b offPos (\<lambda>off.
           if unat off + (4 + w) \<le> length b then
             get_u32 b (unat off) (\<lambda>prefix.
               and_then (or_default [] (ip_at b (unat off + 4) w)) (\<lambda>a. Ok (prefix, a)))
           else Ok (0, []))
       else Ok (0, []))"

definition read_gateway :: "bytes \<Rightarrow> nat \<Rightarrow> nat \<Rightarrow> (info_error, string) result" where
  "read_gateway b pos w =
     opt32 b pos (\<lambda>off. if off > 0 then or_default [] (ip_at b (unat off) w) else Ok [])"

definition read_servers :: "bytes \<Rightarrow> nat \<Rightarrow> nat \<Rightarrow> nat \<Rightarrow> (info_error, string list) result" where
  "read_servers b cntPos offPos w =
     opt32 b cntPos (\<lambda>count.
       if count > 0 then opt32 b offPos (\<lambda>off. read_dns b (unat off) w (unat count)) else Ok [])"

definition parse_ip_configuration :: "bytes \<Rightarrow> (info_error, ip_config) result" where
  "parse_ip_configuration b =
     (if length b < 60 then Fail (InfoTooShort ''IP_CONFIGURATION'' (length b))
      else
        and_then (read_address b 12 16 4) (\<lambda>(p4, a4).
        and_then (read_gateway b 28 4) (\<lambda>g4.
        and_then (read_servers b 36 40 4) (\<lambda>d4.
        opt32 b 52 (\<lambda>m4.
        and_then (read_address b 20 24 16) (\<lambda>(p6, a6).
        and_then (read_gateway b 32 16) (\<lambda>g6.
        and_then (read_servers b 44 48 16) (\<lambda>d6.
        opt32 b 56 (\<lambda>m6.
          Ok \<lparr>ip_v4_address = a4, ip_v4_prefix = p4, ip_v4_gateway = g4, ip_v4_dns = d4,
              ip_v4_mtu = m4, ip_v6_address = a6, ip_v6_prefix = p6, ip_v6_gateway = g6,
              ip_v6_dns = d6, ip_v6_mtu = m6\<rparr>)))))))))"

section \<open>SMS and USSD\<close>

record sms_record =
  sr_index :: u32
  sr_status :: u32
  sr_pdu :: bytes

definition parse_sms_record :: "nat \<Rightarrow> bytes \<Rightarrow> (info_error, sms_record) result" where
  "parse_sms_record i rec =
     opt32 rec 0 (\<lambda>ix. opt32 rec 4 (\<lambda>st. opt32 rec 8 (\<lambda>off. opt32 rec 12 (\<lambda>size.
       if unat off + unat size > length rec then Fail (RecordRange i off size)
       else cut rec (unat off) (unat off + unat size) (\<lambda>pdu.
         Ok \<lparr>sr_index = ix, sr_status = st, sr_pdu = pdu\<rparr>)))))"

text \<open>The slice \<open>info[recOff : recOff+recSize]\<close> adds in 32 bits.\<close>

fun read_sms_records :: "bytes \<Rightarrow> nat \<Rightarrow> nat \<Rightarrow> (info_error, sms_record list) result" where
  "read_sms_records b i 0 = Ok []"
| "read_sms_records b i (Suc n) =
     and_then (wrap_error ''SMS_READ record offset'' (u32_at b (8 + i * 8))) (\<lambda>off.
     and_then (wrap_error ''SMS_READ record size'' (u32_at b (8 + i * 8 + 4))) (\<lambda>size.
       if size < 16 \<or> unat off + unat size > length b then Fail (RecordRange i off size)
       else cut b (unat off) (unat (off + size)) (\<lambda>rec.
         and_then (parse_sms_record i rec) (\<lambda>r.
         and_then (read_sms_records b (i + 1) n) (\<lambda>rs. Ok (r # rs))))))"

definition parse_sms_read :: "bytes \<Rightarrow> (info_error, sms_record list) result" where
  "parse_sms_read b =
     (if length b < 8 then Fail (InfoTooShort ''SMS_READ'' (length b))
      else opt32 b 4 (\<lambda>count. read_sms_records b 0 (unat count)))"

definition parse_smsc :: "bytes \<Rightarrow> (info_error, string) result" where
  "parse_smsc b =
     (if length b < 16 + 8 then Fail (InfoTooShort ''SMS_CONFIGURATION'' (length b))
      else string_at b 16)"

record ussd_response =
  us_response :: u32
  us_session :: u32
  us_dcs :: u32
  us_payload :: bytes

definition parse_ussd_response :: "bytes \<Rightarrow> (info_error, ussd_response) result" where
  "parse_ussd_response b =
     (if length b < 20 then Fail (InfoTooShort ''USSD'' (length b))
      else opt32 b 0 (\<lambda>resp. opt32 b 4 (\<lambda>sess. opt32 b 8 (\<lambda>dcs.
        opt32 b 12 (\<lambda>off. opt32 b 16 (\<lambda>size.
          if size \<noteq> 0 \<and> off < 20 then Fail (FixedHeader off)
          else and_then (byte_array_at b 12) (\<lambda>payload.
            Ok \<lparr>us_response = resp, us_session = sess, us_dcs = dcs, us_payload = payload\<rparr>)))))))"

section \<open>UICC access, authentication and version\<close>

definition uicc_open_channel_ok :: "u32 \<Rightarrow> bool" where
  "uicc_open_channel_ok status =
     (if status = 0 then True
      else let sw1 = (if status > 0xFF then drop_bit 8 status AND 0xFF else status)
           in sw1 \<in> set [0x90, 0x91, 0x61, 0x62, 0x63])"

definition parse_uicc_open_channel :: "bytes \<Rightarrow> (info_error, u32) result" where
  "parse_uicc_open_channel b =
     (if length b < 8 then Fail (InfoTooShort ''UICC_OPEN_CHANNEL'' (length b))
      else opt32 b 0 (\<lambda>status. opt32 b 4 (\<lambda>channel.
        if \<not> uicc_open_channel_ok status then Fail (CardStatus status) else Ok channel)))"

definition uicc_status_word_bytes :: "u32 \<Rightarrow> bytes" where
  "uicc_status_word_bytes status =
     (if status \<le> 0xFF then [ucast status, 0]
      else [ucast (drop_bit 8 status AND 0xFF), ucast (status AND 0xFF)])"

definition parse_uicc_apdu :: "bytes \<Rightarrow> (info_error, bytes) result" where
  "parse_uicc_apdu b =
     (if length b < 4 then Fail (InfoTooShort ''UICC_APDU'' (length b))
      else opt32 b 0 (\<lambda>status. and_then (uicc_byte_array_at b 4) (\<lambda>data.
        Ok (if status \<noteq> 0 then data @ uicc_status_word_bytes status else data))))"

record uicc_file_result =
  uf_sw1 :: u32
  uf_sw2 :: u32
  uf_data :: bytes

definition parse_uicc_file_response :: "bytes \<Rightarrow> (info_error, uicc_file_result) result" where
  "parse_uicc_file_response b =
     and_then (u32_at b 4) (\<lambda>sw1. and_then (u32_at b 8) (\<lambda>sw2.
     and_then (byte_array_at b 12) (\<lambda>data.
       Ok \<lparr>uf_sw1 = sw1, uf_sw2 = sw2, uf_data = data\<rparr>)))"

record uicc_application =
  ua_type :: u32
  ua_aid :: bytes

fun read_applications :: "bytes \<Rightarrow> nat \<Rightarrow> nat \<Rightarrow> (info_error, uicc_application list) result" where
  "read_applications b i 0 = Ok []"
| "read_applications b i (Suc n) =
     and_then (u32_at b (16 + i * 8)) (\<lambda>off. and_then (u32_at b (16 + i * 8 + 4)) (\<lambda>size.
       if unat off + unat size > length b then Fail (RecordRange i off size)
       else cut b (unat off) (unat off + unat size) (\<lambda>rec.
         and_then (u32_at rec 0) (\<lambda>ty. and_then (byte_array_at rec 4) (\<lambda>aid.
         and_then (read_applications b (i + 1) n) (\<lambda>apps.
           Ok (\<lparr>ua_type = ty, ua_aid = aid\<rparr> # apps)))))))"

definition parse_uicc_application_list :: "bytes \<Rightarrow> (info_error, uicc_application list) result" where
  "parse_uicc_application_list b =
     and_then (u32_at b 4) (\<lambda>count. read_applications b 0 (unat count))"

text \<open>
  \<open>AuthAKA\<close> returns RES, IK, CK and AUTS; on a synchronisation failure (status 35) AUTS comes
  with the error.
\<close>

record aka_result =
  ak_res :: bytes
  ak_ik :: bytes
  ak_ck :: bytes
  ak_auts :: bytes

definition parse_auth_aka :: "bytes \<Rightarrow> (info_error, aka_result) result" where
  "parse_auth_aka b =
     (if length b < 66 then Fail (InfoTooShort ''AUTH_AKA'' (length b))
      else get_u32 b 16 (\<lambda>resLen.
        let resLen = (if resLen > 16 then 16 else resLen) in
        cut b 0 (unat resLen) (\<lambda>res. cut b 20 36 (\<lambda>ik. cut b 36 52 (\<lambda>ck. cut b 52 66 (\<lambda>auts.
          Ok \<lparr>ak_res = res, ak_ik = ik, ak_ck = ck, ak_auts = auts\<rparr>))))))"

definition mbim_status_auth_sync_failure :: u32 where "mbim_status_auth_sync_failure = 35"

definition auts_of_failure :: "u32 \<Rightarrow> bytes \<Rightarrow> (info_error, bytes) result" where
  "auts_of_failure status b =
     (if status = mbim_status_auth_sync_failure then
        (if 66 \<le> length b then cut b 52 66 Ok
         else if 14 \<le> length b then cut b 0 14 Ok
         else Ok [])
      else Ok [])"

definition parse_auth_sim :: "bytes \<Rightarrow> (info_error, u32 \<times> u64) result" where
  "parse_auth_sim b =
     (if length b < 12 then Fail (InfoTooShort ''AUTH_SIM'' (length b))
      else get_u32 b 0 (\<lambda>sres. get_u64 b 4 (\<lambda>kc. Ok (sres, kc))))"

definition parse_version :: "bytes \<Rightarrow> (info_error, u16 \<times> u16) result" where
  "parse_version b =
     (if length b < 4 then Fail (InfoTooShort ''CID_VERSION'' (length b))
      else get_u16 b 0 (\<lambda>mbim. get_u16 b 2 (\<lambda>mbimex. Ok (mbim, mbimex))))"

definition parse_sms_send :: "bytes \<Rightarrow> (info_error, u32) result" where
  "parse_sms_send b =
     (if length b < 4 then Fail (InfoTooShort ''SMS_SEND'' (length b)) else get_u32 b 0 Ok)"

section \<open>No parser panics\<close>

lemma ip_at_no_panic [no_panic]: "ip_at b off n \<noteq> Panic"
  unfolding ip_at_def by (intro no_panic) simp_all

lemma read_dns_no_panic [no_panic]: "read_dns b pos w n \<noteq> Panic"
proof (induction n arbitrary: pos)
  case (Suc n)
  show ?case unfolding read_dns.simps by (intro no_panic Suc)
qed simp

lemma read_cids_no_panic [no_panic]: "read_cids b pos n \<noteq> Panic"
proof (induction n arbitrary: pos)
  case (Suc n)
  show ?case unfolding read_cids.simps by (intro no_panic Suc)
qed simp

lemma parse_service_element_no_panic [no_panic]: "parse_service_element e \<noteq> Panic"
  unfolding parse_service_element_def by (intro no_panic) simp_all

lemma read_elements_no_panic [no_panic]: "read_elements b pos n \<noteq> Panic"
proof (induction n arbitrary: pos)
  case (Suc n)
  show ?case unfolding read_elements.simps by (intro no_panic Suc)
qed simp

lemma rsrp_entries_no_panic [no_panic]: "rsrp_entries b base n s \<noteq> Panic"
proof (induction n arbitrary: base s)
  case (Suc n)
  show ?case unfolding rsrp_entries.simps Let_def by (intro no_panic Suc)
qed simp

lemma parse_provider_no_panic [no_panic]: "parse_provider b \<noteq> Panic"
  unfolding parse_provider_def by (intro no_panic)

lemma read_providers_no_panic [no_panic]: "read_providers b i n \<noteq> Panic"
proof (induction n arbitrary: i)
  case (Suc n)
  show ?case unfolding read_providers.simps by (intro no_panic Suc) auto
qed simp

lemma parse_sms_record_no_panic [no_panic]: "parse_sms_record i r \<noteq> Panic"
  unfolding parse_sms_record_def by (intro no_panic) auto

lemma unat_add_small: "unat a + unat b < 2 ^ LENGTH('a) \<Longrightarrow> unat (a + b :: 'a::len word) = unat a + unat b"
  by (simp add: unat_word_ariths)

lemma read_sms_records_no_panic [no_panic]:
  assumes "length b < 2 ^ 32"
  shows "read_sms_records b i n \<noteq> Panic"
proof (induction n arbitrary: i)
  case (Suc n)
  have "unat off \<le> unat (off + size) \<and> unat (off + size) \<le> length b"
    if "\<not> (size < 16 \<or> unat off + unat size > length b)" for off size :: u32
    using that assms by (simp add: unat_add_small)
  then show ?case unfolding read_sms_records.simps by (intro no_panic Suc) blast+
qed simp

lemma read_applications_no_panic [no_panic]: "read_applications b i n \<noteq> Panic"
proof (induction n arbitrary: i)
  case (Suc n)
  show ?case unfolding read_applications.simps by (intro no_panic Suc) auto
qed simp

lemma read_address_no_panic [no_panic]: "read_address b i j w \<noteq> Panic"
  unfolding read_address_def by (intro no_panic) simp_all

lemma read_gateway_no_panic [no_panic]: "read_gateway b i w \<noteq> Panic"
  unfolding read_gateway_def by (intro no_panic)

lemma read_servers_no_panic [no_panic]: "read_servers b i j w \<noteq> Panic"
  unfolding read_servers_def by (intro no_panic)

lemma parse_signal_rsrp_snr_no_panic [no_panic]: "parse_signal_rsrp_snr b s \<noteq> Panic"
  unfolding parse_signal_rsrp_snr_def by (intro no_panic)

lemma parse_device_caps_no_panic [no_panic]: "parse_device_caps b \<noteq> Panic"
  unfolding parse_device_caps_def by (intro no_panic)

lemma parse_device_services_no_panic [no_panic]: "parse_device_services b \<noteq> Panic"
  unfolding parse_device_services_def by (intro no_panic)

lemma parse_connect_no_panic [no_panic]: "parse_connect b \<noteq> Panic"
  unfolding parse_connect_def by (intro no_panic)

lemma parse_radio_state_no_panic [no_panic]: "parse_radio_state b \<noteq> Panic"
  unfolding parse_radio_state_def by (intro no_panic)

lemma parse_packet_service_no_panic [no_panic]: "parse_packet_service b \<noteq> Panic"
  unfolding parse_packet_service_def by (intro no_panic)

lemma parse_slot_info_status_no_panic [no_panic]: "parse_slot_info_status b \<noteq> Panic"
  unfolding parse_slot_info_status_def by (intro no_panic)

lemma parse_register_state_no_panic [no_panic]: "parse_register_state b \<noteq> Panic"
  unfolding parse_register_state_def Let_def by (intro no_panic)

lemma parse_signal_state_no_panic [no_panic]: "parse_signal_state b \<noteq> Panic"
  unfolding parse_signal_state_def Let_def by (intro no_panic)

lemma parse_visible_providers_no_panic [no_panic]: "parse_visible_providers b \<noteq> Panic"
  unfolding parse_visible_providers_def by (intro no_panic)

lemma parse_subscriber_ready_no_panic [no_panic]: "parse_subscriber_ready b \<noteq> Panic"
  unfolding parse_subscriber_ready_def by (intro no_panic)

lemma parse_ip_configuration_no_panic [no_panic]: "parse_ip_configuration b \<noteq> Panic"
  unfolding parse_ip_configuration_def by (intro no_panic)

lemma parse_smsc_no_panic [no_panic]: "parse_smsc b \<noteq> Panic"
  unfolding parse_smsc_def by (intro no_panic)

lemma parse_ussd_response_no_panic [no_panic]: "parse_ussd_response b \<noteq> Panic"
  unfolding parse_ussd_response_def by (intro no_panic)

lemma parse_uicc_open_channel_no_panic [no_panic]: "parse_uicc_open_channel b \<noteq> Panic"
  unfolding parse_uicc_open_channel_def by (intro no_panic)

lemma parse_uicc_apdu_no_panic [no_panic]: "parse_uicc_apdu b \<noteq> Panic"
  unfolding parse_uicc_apdu_def by (intro no_panic)

lemma parse_uicc_file_response_no_panic [no_panic]: "parse_uicc_file_response b \<noteq> Panic"
  unfolding parse_uicc_file_response_def by (intro no_panic)

lemma parse_uicc_application_list_no_panic [no_panic]: "parse_uicc_application_list b \<noteq> Panic"
  unfolding parse_uicc_application_list_def by (intro no_panic)

lemma parse_version_no_panic [no_panic]: "parse_version b \<noteq> Panic"
  unfolding parse_version_def by (intro no_panic) simp_all

lemma parse_sms_send_no_panic [no_panic]: "parse_sms_send b \<noteq> Panic"
  unfolding parse_sms_send_def by (intro no_panic) simp_all

lemma parse_auth_sim_no_panic [no_panic]: "parse_auth_sim b \<noteq> Panic"
  unfolding parse_auth_sim_def by (intro no_panic) simp_all

lemma parse_sms_read_no_panic [no_panic]: "length b < 2 ^ 32 \<Longrightarrow> parse_sms_read b \<noteq> Panic"
  unfolding parse_sms_read_def by (intro no_panic)

lemma parse_auth_aka_no_panic [no_panic]: "parse_auth_aka b \<noteq> Panic"
proof -
  have n: "unat (if n > 16 then 16 else n) \<le> 16" for n :: u32
    by (auto simp: word_less_nat_alt)
  have "unat (if n > 16 then 16 else n) \<le> length b" if "\<not> length b < 66" for n :: u32
    using n [of n] that by linarith
  then show ?thesis unfolding parse_auth_aka_def Let_def by (intro no_panic) simp_all
qed



section \<open>The signal figures\<close>

definition signal_ok :: "signal_state \<Rightarrow> bool" where
  "signal_ok s \<longleftrightarrow>
     (if sg_unknown s then sg_dbm s = 0 else - 113 \<le> sg_dbm s \<and> sg_dbm s \<le> - 51)
     \<and> (sg_has_rsrp s \<longrightarrow> - 157 \<le> sg_rsrp s \<and> sg_rsrp s \<le> - 31)
     \<and> (sg_has_snr s \<longrightarrow> - 23 \<le> sg_snr s \<and> sg_snr s \<le> 40)"

lemma word_not_above: "\<not> n < (w :: 'a::len word) \<Longrightarrow> uint w \<le> uint n"
  by (simp add: word_less_def)

lemma take_rsrp_ok: "signal_ok s \<Longrightarrow> signal_ok (take_rsrp c s)"
  using word_not_above [of 126 c]
  by (auto simp: signal_ok_def take_rsrp_def rsrp_coded_to_dbm_def split: if_splits)

lemma go_div2_range:
  "0 \<le> n \<Longrightarrow> n \<le> 127 \<Longrightarrow> - 23 \<le> go_div2 (n - 46) \<and> go_div2 (n - 46) \<le> 40"
  by (auto simp: go_div2_def)

lemma take_snr_ok: "signal_ok s \<Longrightarrow> signal_ok (take_snr c s)"
  using word_not_above [of 127 c] go_div2_range [of "uint c"]
  by (auto simp: signal_ok_def take_snr_def snr_coded_to_db_def split: if_splits)

lemma rsrp_entries_ok: "signal_ok s \<Longrightarrow> rsrp_entries b base n s = Ok s' \<Longrightarrow> signal_ok s'"
proof (induction n arbitrary: base s)
  case (Suc n)
  let ?b = "\<lambda>k. le32 (drop (base + k) b)"
  have next_ok: "signal_ok (take_snr (?b 4) (take_rsrp (le32 (drop base b)) s))"
    by (intro take_snr_ok take_rsrp_ok Suc.prems)
  then show ?case
    using Suc.prems Suc.IH [OF Suc.prems(1)] Suc.IH [OF next_ok] by (auto simp: Let_def split: if_splits)
qed simp

text \<open>
  The signal figures shown to the user are possible ones: whatever the modem reports, the RSSI is
  unknown or between -113 and -51 dBm, RSRP when present is between -157 and -31 dBm, and SNR
  when present between -23 and 40 dB.
\<close>

theorem signal_figures_in_range:
  assumes "parse_signal_state b = Ok s"
  shows "signal_ok s"
proof -
  let ?rssi = "le32 (drop 0 b)"
  define s0 where "s0 = \<lparr>sg_rssi = ?rssi, sg_dbm = fst (rssi_to_dbm ?rssi),
    sg_unknown = snd (rssi_to_dbm ?rssi), sg_error_rate = le32 (drop 4 b), sg_rsrp = 0,
    sg_has_rsrp = False, sg_snr = 0, sg_has_snr = False\<rparr>"
  have "signal_ok s0"
    using word_not_above [of 31 ?rssi] by (auto simp: s0_def signal_ok_def rssi_to_dbm_def)
  moreover have "parse_signal_rsrp_snr b s0 = Ok s"
    using assms by (auto simp: parse_signal_state_def s0_def split: if_splits prod.splits)
  ultimately show ?thesis
    by (auto simp: parse_signal_rsrp_snr_def split: if_splits result.splits dest: rsrp_entries_ok)
qed

definition signal_example :: bytes where
  "signal_example = le32_bytes 20 @ zeros 16 @ le32_bytes 28 @ le32_bytes 24
     @ le32_bytes 1 @ le32_bytes 60 @ le32_bytes 0 @ zeros 8 @ le32_bytes 0x20"

theorem signal_figures_in_range_witness:
  "\<exists>s. parse_signal_state signal_example = Ok s \<and> sg_dbm s = - 73 \<and> sg_rsrp s = - 97
     \<and> sg_snr s = - 23 \<and> signal_ok s"
proof -
  obtain s where s: "parse_signal_state signal_example = Ok s" "sg_dbm s = - 73"
      "sg_rsrp s = - 97" "sg_snr s = - 23"
    by (rule that [of "\<lparr>sg_rssi = 20, sg_dbm = - 73, sg_unknown = False, sg_error_rate = 0,
          sg_rsrp = - 97, sg_has_rsrp = True, sg_snr = - 23, sg_has_snr = True\<rparr>"]) code_simp+
  then show ?thesis using signal_figures_in_range [OF s(1)] by blast
qed

text \<open>
  An address offset of zero, which \<open>ipAt\<close> takes for an absent address, is not absent to the
  caller that adds 4 to it: the prefix is then the session of the response.
\<close>

lemma zero_address_offset_reads_the_header:
  assumes "60 \<le> length b" and "le32 (drop 12 b) > 0" and "le32 (drop 16 b) = 0"
  shows "read_address b 12 16 4 = Ok (le32 b, ip_string (take 4 (drop 4 b)))"
  using assms by (simp add: read_address_def ip_at_def)

end
