(* ===== verification/Mbim_Requests.thy ===== *)
theory Mbim_Requests
  imports Mbim_Services
begin

text \<open>
  The MBIM requests (pkg/mbim): service and command identifiers of protocol.go, the encoders
  of information buffers, and the exported operations, each one \<open>Command\<close> and the parser of its
  answer. \<open>Device.Command\<close> is the parameter \<open>link\<close>: Mbim_Device models how it pairs the
  request with its answer, and the answer itself is whatever the modem sends.
\<close>

section \<open>Identifiers\<close>

definition command_type_query :: u32 where "command_type_query = 0"
definition command_type_set :: u32 where "command_type_set = 1"
definition cid_basic_connect_device_caps :: u32 where "cid_basic_connect_device_caps = 1"
definition cid_basic_connect_subscriber_ready_status :: u32 where "cid_basic_connect_subscriber_ready_status = 2"
definition cid_basic_connect_radio_state :: u32 where "cid_basic_connect_radio_state = 3"
definition cid_basic_connect_home_provider :: u32 where "cid_basic_connect_home_provider = 7"
definition cid_basic_connect_visible_providers :: u32 where "cid_basic_connect_visible_providers = 8"
definition cid_basic_connect_register_state :: u32 where "cid_basic_connect_register_state = 9"
definition cid_basic_connect_packet_service :: u32 where "cid_basic_connect_packet_service = 10"
definition cid_basic_connect_signal_state :: u32 where "cid_basic_connect_signal_state = 11"
definition cid_basic_connect_connect :: u32 where "cid_basic_connect_connect = 12"
definition cid_basic_connect_ip_configuration :: u32 where "cid_basic_connect_ip_configuration = 15"
definition cid_basic_connect_device_services :: u32 where "cid_basic_connect_device_services = 16"
definition cid_basic_connect_device_service_subscribe_list :: u32 where "cid_basic_connect_device_service_subscribe_list = 19"
definition cid_proxy_control_configuration :: u32 where "cid_proxy_control_configuration = 1"
definition cid_sms_configuration :: u32 where "cid_sms_configuration = 1"
definition cid_sms_read :: u32 where "cid_sms_read = 2"
definition cid_sms_send :: u32 where "cid_sms_send = 3"
definition cid_sms_delete :: u32 where "cid_sms_delete = 4"
definition cid_ussd :: u32 where "cid_ussd = 1"
definition sms_flag_all :: u32 where "sms_flag_all = 0"
definition sms_flag_index :: u32 where "sms_flag_index = 1"
definition sms_format_pdu :: u32 where "sms_format_pdu = 0"
definition cid_uicc_open_channel :: u32 where "cid_uicc_open_channel = 2"
definition cid_uicc_close_channel :: u32 where "cid_uicc_close_channel = 3"
definition cid_uicc_apdu :: u32 where "cid_uicc_apdu = 4"
definition cid_uicc_application_list :: u32 where "cid_uicc_application_list = 7"
definition cid_uicc_read_binary :: u32 where "cid_uicc_read_binary = 9"
definition cid_uicc_read_record :: u32 where "cid_uicc_read_record = 10"
definition cid_auth_aka :: u32 where "cid_auth_aka = 1"
definition cid_auth_sim :: u32 where "cid_auth_sim = 3"
definition cid_ms_basic_connect_ext_device_reset :: u32 where "cid_ms_basic_connect_ext_device_reset = 10"
definition cid_ms_basic_connect_ext_slot_info_status :: u32 where "cid_ms_basic_connect_ext_slot_info_status = 8"
definition cid_ms_basic_connect_ext_version :: u32 where "cid_ms_basic_connect_ext_version = 15"
definition uuid_basic_connect :: uuid where
  "uuid_basic_connect = [0xa2, 0x89, 0xcc, 0x33, 0xbc, 0xbb, 0x8b, 0x4f, 0xb6, 0xb0, 0x13, 0x3e, 0xc2, 0xaa, 0xe6, 0xdf]"
definition uuid_sms :: uuid where
  "uuid_sms = [0x53, 0x3f, 0xbe, 0xeb, 0x14, 0xfe, 0x44, 0x67, 0x9f, 0x90, 0x33, 0xa2, 0x23, 0xe5, 0x6c, 0x3f]"
definition uuid_ussd :: uuid where
  "uuid_ussd = [0xe5, 0x50, 0xa0, 0xc8, 0x5e, 0x82, 0x47, 0x9e, 0x82, 0xf7, 0x10, 0xab, 0xf4, 0xc3, 0x35, 0x1f]"
definition uuid_proxy_control :: uuid where
  "uuid_proxy_control = [0x83, 0x8c, 0xf7, 0xfb, 0x8d, 0x0d, 0x4d, 0x7f, 0x87, 0x1e, 0xd7, 0x1d, 0xbe, 0xfb, 0xb3, 0x9b]"
definition uuid_ms_uicc_low_level_access :: uuid where
  "uuid_ms_uicc_low_level_access = [0xc2, 0xf6, 0x58, 0x8e, 0xf0, 0x37, 0x4b, 0xc9, 0x86, 0x65, 0xf4, 0xd4, 0x4b, 0xd0, 0x93, 0x67]"
definition uuid_ms_basic_connect_extensions :: uuid where
  "uuid_ms_basic_connect_extensions = [0x3d, 0x01, 0xdc, 0xc5, 0xfe, 0xf5, 0x4d, 0x05, 0x0d, 0x3a, 0xbe, 0xf7, 0x05, 0x8e, 0x9a, 0xaf]"
definition uuid_auth :: uuid where
  "uuid_auth = [0x1d, 0x2b, 0x5f, 0xf7, 0x0a, 0xa1, 0x48, 0xb2, 0xaa, 0x52, 0x50, 0xf1, 0x57, 0x67, 0x17, 0x4e]"
definition uuid_context_type_internet :: uuid where
  "uuid_context_type_internet = [0x7e, 0x5e, 0x2a, 0x7e, 0x4e, 0x6f, 0x72, 0x72, 0x73, 0x6b, 0x65, 0x6e, 0x7e, 0x5e, 0x2a, 0x7e]"
definition uuid_qmi :: uuid where
  "uuid_qmi = [0xd1, 0xa3, 0x0b, 0xc2, 0xf9, 0x7a, 0x6e, 0x43, 0xbf, 0x65, 0xc7, 0xe2, 0x4f, 0xb0, 0xf0, 0xd3]"
definition cid_qmi_msg :: u32 where "cid_qmi_msg = 1"

section \<open>Encoders\<close>

definition pad4 :: "nat \<Rightarrow> nat" where
  "pad4 n = (n + 3) div 4 * 4"

text \<open>A block of the variable part, and the (offset, length) pair of the fixed part.\<close>

definition padded :: "bytes \<Rightarrow> bytes" where
  "padded b = b @ zeros (pad4 (length b) - length b)"

definition put_pair :: "nat \<Rightarrow> bytes \<Rightarrow> bytes" where
  "put_pair off b = le32_bytes (of_nat off) @ le32_bytes (of_nat (length b))"

definition put_ref :: "nat \<Rightarrow> bytes \<Rightarrow> bytes" where
  "put_ref off b = (if b = [] then zeros 8 else put_pair off b)"

definition encode_utf16_le :: "string \<Rightarrow> bytes" where
  "encode_utf16_le s = concat (map le16_bytes (utf16_encode (runes_of s)))"

definition encode_connect ::
  "u32 \<Rightarrow> u32 \<Rightarrow> string \<Rightarrow> string \<Rightarrow> string \<Rightarrow> u32 \<Rightarrow> u32 \<Rightarrow> bytes" where
  "encode_connect session command accessString userName password auth ipType =
     (let access = encode_utf16_le accessString; user = encode_utf16_le userName;
          pass = encode_utf16_le password;
          userOff = 60 + pad4 (length access); passOff = userOff + pad4 (length user)
      in le32_bytes session @ le32_bytes command @ put_ref 60 access @ put_ref userOff user
         @ put_ref passOff pass @ le32_bytes 0 @ le32_bytes auth @ le32_bytes ipType
         @ uuid_context_type_internet @ padded access @ padded user @ padded pass)"

definition encode_set_register_state :: "u32 \<Rightarrow> string \<Rightarrow> bytes" where
  "encode_set_register_state action plmn =
     (let pid = (if plmn \<noteq> [] then encode_utf16_le plmn else [])
      in put_ref 16 pid @ le32_bytes action @ zeros 4 @ pid)"

definition encode_set_sms_config :: "string \<Rightarrow> bytes" where
  "encode_set_sms_config smsc =
     (let sc = (if smsc \<noteq> [] then encode_utf16_le smsc else [])
      in le32_bytes sms_format_pdu @ put_ref 12 sc @ padded sc)"

definition encode_proxy_config_info :: "string \<Rightarrow> u32 \<Rightarrow> bytes" where
  "encode_proxy_config_info devicePath timeoutSecs =
     (let path = encode_utf16_le devicePath
      in put_pair 12 path @ le32_bytes timeoutSecs @ path)"

definition encode_sms_send :: "bytes \<Rightarrow> bytes" where
  "encode_sms_send pdu = le32_bytes sms_format_pdu @ put_pair 12 pdu @ padded pdu"

definition encode_sms_read_query :: "u32 \<Rightarrow> u32 \<Rightarrow> bytes" where
  "encode_sms_read_query flag index = le32_bytes sms_format_pdu @ le32_bytes flag @ le32_bytes index"

definition encode_ussd :: "u32 \<Rightarrow> u32 \<Rightarrow> bytes \<Rightarrow> bytes" where
  "encode_ussd action dcs payload =
     le32_bytes action @ le32_bytes dcs @ put_pair 16 payload @ padded payload"

record event_entry =
  ev_service :: uuid
  ev_cids :: "u32 list"

definition subscribe_blob :: "event_entry \<Rightarrow> bytes" where
  "subscribe_blob e =
     fit 16 (ev_service e) @ le32_bytes (of_nat (length (ev_cids e)))
     @ concat (map le32_bytes (ev_cids e))"

fun blob_refs :: "nat \<Rightarrow> bytes list \<Rightarrow> bytes" where
  "blob_refs pos [] = []"
| "blob_refs pos (b # bs) = put_pair pos b @ blob_refs (pos + length b) bs"

definition encode_subscribe_list :: "event_entry list \<Rightarrow> bytes" where
  "encode_subscribe_list es =
     (let blobs = map subscribe_blob es
      in le32_bytes (of_nat (length es)) @ blob_refs (4 + length es * 8) blobs @ concat blobs)"

definition fixed16 :: "bytes \<Rightarrow> bytes" where "fixed16 b = fit 16 b"

definition encode_auth_aka :: "bytes \<Rightarrow> bytes \<Rightarrow> bytes" where
  "encode_auth_aka rand autn = fixed16 rand @ fixed16 autn"

definition encode_auth_sim :: "bytes \<Rightarrow> bytes \<Rightarrow> bytes \<Rightarrow> u32 \<Rightarrow> bytes" where
  "encode_auth_sim r1 r2 r3 n = fixed16 r1 @ fixed16 r2 @ fixed16 r3 @ le32_bytes n"

definition encode_version_info :: "u16 \<Rightarrow> u16 \<Rightarrow> bytes" where
  "encode_version_info mbim mbimex = le16_bytes mbim @ le16_bytes mbimex"

definition encode_slot_info_query :: "u32 \<Rightarrow> bytes" where
  "encode_slot_info_query slot = le32_bytes slot"

text \<open>The UICC open request has its pair the other way round, and offset 0 for an empty AID.\<close>

definition encode_uicc_open_channel :: "bytes \<Rightarrow> u32 \<Rightarrow> u32 \<Rightarrow> bytes" where
  "encode_uicc_open_channel aid p2 grp =
     le32_bytes (of_nat (length aid)) @ le32_bytes (if aid \<noteq> [] then 16 else 0)
     @ le32_bytes p2 @ le32_bytes grp @ padded aid"

definition encode_uicc_apdu :: "u32 \<Rightarrow> bytes \<Rightarrow> bytes" where
  "encode_uicc_apdu channel command =
     le32_bytes channel @ le32_bytes 0 @ le32_bytes 0
     @ le32_bytes (of_nat (length command)) @ le32_bytes 20 @ padded command"

definition encode_uicc_read_binary :: "bytes \<Rightarrow> bytes \<Rightarrow> u32 \<Rightarrow> u32 \<Rightarrow> bytes" where
  "encode_uicc_read_binary aid path readOffset readSize =
     le32_bytes 1 @ put_pair 44 aid @ put_pair (44 + pad4 (length aid)) path
     @ le32_bytes readOffset @ le32_bytes readSize @ zeros 16 @ padded aid @ padded path"

definition encode_uicc_read_record :: "bytes \<Rightarrow> bytes \<Rightarrow> u32 \<Rightarrow> bytes" where
  "encode_uicc_read_record aid path recordNumber =
     le32_bytes 1 @ put_pair 40 aid @ put_pair (40 + pad4 (length aid)) path
     @ le32_bytes recordNumber @ zeros 16 @ padded aid @ padded path"

section \<open>Operations\<close>

text \<open>
  \<open>ask\<close> is the shape all the operations share: send, return the transport's error, turn a
  non-zero status into an error, parse the answer.
\<close>

type_synonym ('d, 'e) link =
  "uuid \<Rightarrow> u32 \<Rightarrow> u32 \<Rightarrow> bytes \<Rightarrow> 'd \<Rightarrow> ('e, command_done) result \<times> 'd"

datatype 'e query_error = Transport 'e | Info info_error

fun lift_info :: "(info_error, 'a) result \<Rightarrow> ('e query_error, 'a) result" where
  "lift_info (Ok x) = Ok x"
| "lift_info (Fail e) = Fail (Info e)"
| "lift_info Panic = Panic"

definition ask ::
  "string \<Rightarrow> (bytes \<Rightarrow> (info_error, 'a) result) \<Rightarrow> ('d, 'e) link \<Rightarrow> uuid \<Rightarrow> u32 \<Rightarrow> u32 \<Rightarrow> bytes
   \<Rightarrow> 'd \<Rightarrow> ('e query_error, 'a) result \<times> 'd" where
  "ask op parse lk svc cid ct info d =
     (case lk svc cid ct info d of
        (Panic, d') \<Rightarrow> (Panic, d')
      | (Fail e, d') \<Rightarrow> (Fail (Transport e), d')
      | (Ok r, d') \<Rightarrow>
          (if cd_status r \<noteq> 0 then Fail (Info (BadStatus op (cd_status r)))
           else lift_info (parse (cd_info r)), d'))"

definition no_info :: "bytes \<Rightarrow> (info_error, unit) result" where
  "no_info b = Ok ()"

definition device_caps where
  "device_caps lk =
     ask ''DEVICE_CAPS'' parse_device_caps lk uuid_basic_connect cid_basic_connect_device_caps
       command_type_query []"

definition query_device_services where
  "query_device_services lk =
     ask ''DEVICE_SERVICES'' parse_device_services lk uuid_basic_connect
       cid_basic_connect_device_services command_type_query []"

definition query_ip_configuration where
  "query_ip_configuration lk session =
     ask ''IP_CONFIGURATION'' parse_ip_configuration lk uuid_basic_connect
       cid_basic_connect_ip_configuration command_type_query (le32_bytes session @ zeros 56)"

definition connect where
  "connect lk session command access user pass auth ipType =
     ask ''CONNECT'' parse_connect lk uuid_basic_connect cid_basic_connect_connect
       command_type_set (encode_connect session command access user pass auth ipType)"

definition query_packet_service where
  "query_packet_service lk =
     ask ''PACKET_SERVICE'' parse_packet_service lk uuid_basic_connect
       cid_basic_connect_packet_service command_type_query []"

definition set_packet_service where
  "set_packet_service lk action =
     ask ''PACKET_SERVICE set'' parse_packet_service lk uuid_basic_connect
       cid_basic_connect_packet_service command_type_set (le32_bytes action)"

definition query_home_provider where
  "query_home_provider lk =
     ask ''HOME_PROVIDER'' parse_provider lk uuid_basic_connect cid_basic_connect_home_provider
       command_type_query []"

definition query_visible_providers where
  "query_visible_providers lk =
     ask ''VISIBLE_PROVIDERS'' parse_visible_providers lk uuid_basic_connect
       cid_basic_connect_visible_providers command_type_query (le32_bytes 0)"

definition query_radio_state where
  "query_radio_state lk =
     ask ''RADIO_STATE'' parse_radio_state lk uuid_basic_connect cid_basic_connect_radio_state
       command_type_query []"

definition set_radio_state where
  "set_radio_state lk sw =
     ask ''RADIO_STATE set'' parse_radio_state lk uuid_basic_connect
       cid_basic_connect_radio_state command_type_set (le32_bytes sw)"

definition query_register_state where
  "query_register_state lk =
     ask ''REGISTER_STATE'' parse_register_state lk uuid_basic_connect
       cid_basic_connect_register_state command_type_query []"

definition set_register_state where
  "set_register_state lk action plmn =
     ask ''REGISTER_STATE set'' parse_register_state lk uuid_basic_connect
       cid_basic_connect_register_state command_type_set (encode_set_register_state action plmn)"

definition device_reset where
  "device_reset lk =
     ask ''DEVICE_RESET'' no_info lk uuid_ms_basic_connect_extensions
       cid_ms_basic_connect_ext_device_reset command_type_set []"

definition query_signal_state where
  "query_signal_state lk =
     ask ''SIGNAL_STATE'' parse_signal_state lk uuid_basic_connect
       cid_basic_connect_signal_state command_type_query []"

definition query_slot_info_status where
  "query_slot_info_status lk slot =
     ask ''SLOT_INFO_STATUS'' parse_slot_info_status lk uuid_ms_basic_connect_extensions
       cid_ms_basic_connect_ext_slot_info_status command_type_query (encode_slot_info_query slot)"

definition query_subscriber_ready where
  "query_subscriber_ready lk =
     ask ''SUBSCRIBER_READY'' parse_subscriber_ready lk uuid_basic_connect
       cid_basic_connect_subscriber_ready_status command_type_query []"

definition negotiate_version where
  "negotiate_version lk mbim mbimex =
     ask ''CID_VERSION'' parse_version lk uuid_ms_basic_connect_extensions
       cid_ms_basic_connect_ext_version command_type_query (encode_version_info mbim mbimex)"

definition subscribe_events where
  "subscribe_events lk entries =
     ask ''SUBSCRIBE_LIST'' no_info lk uuid_basic_connect
       cid_basic_connect_device_service_subscribe_list command_type_set
       (encode_subscribe_list entries)"

definition default_events :: "event_entry list" where
  "default_events =
     [\<lparr>ev_service = uuid_basic_connect,
       ev_cids = [cid_basic_connect_signal_state, cid_basic_connect_register_state,
                  cid_basic_connect_packet_service, cid_basic_connect_subscriber_ready_status]\<rparr>,
      \<lparr>ev_service = uuid_sms, ev_cids = [cid_sms_read]\<rparr>]"

definition subscribe_default_events where
  "subscribe_default_events lk = subscribe_events lk default_events"

definition send_sms where
  "send_sms lk pdu =
     ask ''SMS_SEND'' parse_sms_send lk uuid_sms cid_sms_send command_type_set
       (encode_sms_send pdu)"

definition first_record :: "u32 \<Rightarrow> bytes \<Rightarrow> (info_error, sms_record) result" where
  "first_record index b =
     and_then (parse_sms_read b) (\<lambda>recs. case recs of [] \<Rightarrow> Fail (NoRecord index) | r # _ \<Rightarrow> Ok r)"

definition read_sms where
  "read_sms lk index =
     ask ''SMS_READ'' (first_record index) lk uuid_sms cid_sms_read command_type_query
       (encode_sms_read_query sms_flag_index index)"

definition list_sms where
  "list_sms lk =
     ask ''SMS_READ(all)'' parse_sms_read lk uuid_sms cid_sms_read command_type_query
       (encode_sms_read_query sms_flag_all 0)"

definition delete_sms_flag where
  "delete_sms_flag lk flag index =
     ask ''SMS_DELETE'' no_info lk uuid_sms cid_sms_delete command_type_set
       (le32_bytes flag @ le32_bytes index)"

definition delete_sms where "delete_sms lk index = delete_sms_flag lk sms_flag_index index"
definition delete_all_sms where "delete_all_sms lk = delete_sms_flag lk sms_flag_all 0"

definition get_smsc where
  "get_smsc lk =
     ask ''SMS_CONFIGURATION'' parse_smsc lk uuid_sms cid_sms_configuration command_type_query []"

definition set_smsc where
  "set_smsc lk smsc =
     ask ''SMS_CONFIGURATION set'' no_info lk uuid_sms cid_sms_configuration command_type_set
       (encode_set_sms_config smsc)"

definition send_ussd where
  "send_ussd lk action dcs payload =
     ask ''USSD'' parse_ussd_response lk uuid_ussd cid_ussd command_type_set
       (encode_ussd action dcs payload)"

definition uicc_open_channel where
  "uicc_open_channel lk aid =
     ask ''UICC_OPEN_CHANNEL'' parse_uicc_open_channel lk uuid_ms_uicc_low_level_access
       cid_uicc_open_channel command_type_set (encode_uicc_open_channel aid 0 0)"

definition uicc_apdu where
  "uicc_apdu lk channel command =
     ask ''UICC_APDU'' parse_uicc_apdu lk uuid_ms_uicc_low_level_access cid_uicc_apdu
       command_type_set (encode_uicc_apdu channel command)"

definition uicc_close_channel where
  "uicc_close_channel lk channel =
     ask ''UICC_CLOSE_CHANNEL'' no_info lk uuid_ms_uicc_low_level_access cid_uicc_close_channel
       command_type_set (le32_bytes channel @ le32_bytes 0)"

definition query_uicc_application_list where
  "query_uicc_application_list lk =
     ask ''UICC_APPLICATION_LIST'' parse_uicc_application_list lk uuid_ms_uicc_low_level_access
       cid_uicc_application_list command_type_query []"

definition uicc_read_binary where
  "uicc_read_binary lk aid path readOffset readSize =
     ask ''UICC_READ_BINARY'' parse_uicc_file_response lk uuid_ms_uicc_low_level_access
       cid_uicc_read_binary command_type_query
       (encode_uicc_read_binary aid path readOffset readSize)"

definition uicc_read_record where
  "uicc_read_record lk aid path recordNumber =
     ask ''UICC_READ_RECORD'' parse_uicc_file_response lk uuid_ms_uicc_low_level_access
       cid_uicc_read_record command_type_query (encode_uicc_read_record aid path recordNumber)"

definition auth_sim where
  "auth_sim lk rand =
     ask ''AUTH_SIM'' parse_auth_sim lk uuid_auth cid_auth_sim command_type_query
       (encode_auth_sim rand [] [] 1)"

text \<open>\<open>AuthAKA\<close> returns AUTS beside its error; the other three results are then nil.\<close>

definition auth_aka ::
  "('d, 'e) link \<Rightarrow> bytes \<Rightarrow> bytes \<Rightarrow> 'd
   \<Rightarrow> (aka_result \<times> 'e query_error option) option \<times> 'd" where
  "auth_aka lk rand autn d =
     (let no_keys = (\<lambda>auts. \<lparr>ak_res = [], ak_ik = [], ak_ck = [], ak_auts = auts\<rparr>) in
      case lk uuid_auth cid_auth_aka command_type_query (encode_auth_aka rand autn) d of
        (Panic, d') \<Rightarrow> (None, d')
      | (Fail e, d') \<Rightarrow> (Some (no_keys [], Some (Transport e)), d')
      | (Ok r, d') \<Rightarrow>
          (if cd_status r \<noteq> 0 then
             (case auts_of_failure (cd_status r) (cd_info r) of
                Ok auts \<Rightarrow> Some (no_keys auts, Some (Info (BadStatus ''AUTH_AKA'' (cd_status r))))
              | _ \<Rightarrow> None)
           else
             (case parse_auth_aka (cd_info r) of
                Ok keys \<Rightarrow> Some (keys, None)
              | Fail e \<Rightarrow> Some (no_keys [], Some (Info e))
              | Panic \<Rightarrow> None), d'))"

section \<open>What the encoders write is what the reader finds\<close>

lemma encode_utf16_le_bytes: "encode_utf16_le s = utf16_bytes (utf16_encode (runes_of s))"
  by (simp add: encode_utf16_le_def utf16_bytes_def)

lemma pad4_le: "n \<le> pad4 n"
  by (simp add: pad4_def)

lemma padded_length [simp, wire_simps]: "length (padded b) = pad4 (length b)"
  using pad4_le [of "length b"] by (simp add: padded_def)

lemma put_ref_length [simp, wire_simps]: "length (put_ref off b) = 8"
  by (simp add: put_ref_def put_pair_def)

lemma put_pair_length [simp, wire_simps]: "length (put_pair off b) = 8"
  by (simp add: put_pair_def)

lemma u32_at_put_pair:
  assumes "length a = pos"
  shows "u32_at (a @ put_pair off blk @ rest) pos = Ok (of_nat off)"
    and "u32_at (a @ put_pair off blk @ rest) (pos + 4) = Ok (of_nat (length blk))"
proof -
  have "a @ put_pair off blk @ rest
        = (a @ le32_bytes (of_nat off)) @ le32_bytes (of_nat (length blk)) @ rest"
    by (simp add: put_pair_def)
  then show "u32_at (a @ put_pair off blk @ rest) (pos + 4) = Ok (of_nat (length blk))"
    using assms by (simp only: u32_at_put length_append le32_bytes_length)
  show "u32_at (a @ put_pair off blk @ rest) pos = Ok (of_nat off)"
    using assms by (simp add: put_pair_def u32_at_put)
qed

lemma refers_put_pair:
  assumes b: "b = a @ put_pair off blk @ rest" and a: "length a = pos"
    and place: "b = x @ blk @ y" "length x = off" and small: "length b < 2 ^ 32"
  shows "refers b pos blk"
proof -
  have "off < 2 ^ 32" "length blk < 2 ^ 32" using place small by simp_all
  then have "unat (of_nat off :: u32) = off" "unat (of_nat (length blk) :: u32) = length blk"
    by (simp_all add: unat_of_nat_u32)
  then show ?thesis
    unfolding refers_def using u32_at_put_pair [OF a, of off blk rest] place
    by (metis b)
qed

lemma refers_put_ref:
  assumes b: "b = a @ put_ref off blk @ rest" and a: "length a = pos"
    and place: "b = x @ blk @ y" "length x = off" and small: "length b < 2 ^ 32"
  shows "refers b pos blk"
proof (cases "blk = []")
  case True
  have z: "zeros 8 = put_pair 0 []"
    by code_simp
  have "refers b pos []"
    by (rule refers_put_pair [where a = a and off = 0 and rest = rest and x = "[]" and y = b])
      (use True b a small z in \<open>simp_all add: put_ref_def\<close>)
  with True show ?thesis by simp
next
  case False
  then show ?thesis
    using refers_put_pair [OF _ a place small, of rest] b by (simp add: put_ref_def)
qed

lemma string_at_put_ref:
  assumes "b = a @ put_ref off (encode_utf16_le s) @ rest" and "length a = pos"
    and "b = x @ encode_utf16_le s @ y" and "length x = off" and "length b < 2 ^ 32"
    and "valid_utf8 s"
  shows "string_at b pos = Ok s"
  using refers_put_ref [OF assms(1-5)] assms(6)
  by (intro string_at_refers) (simp_all add: encode_utf16_le_bytes)

lemma connect_words:
  "u32_at (encode_connect session command access user pass auth ipType) 0 = Ok session"
  "u32_at (encode_connect session command access user pass auth ipType) 4 = Ok command"
  "u32_at (encode_connect session command access user pass auth ipType) 36 = Ok auth"
  "u32_at (encode_connect session command access user pass auth ipType) 40 = Ok ipType"
proof -
  obtain A U P uo po rest where
    b: "encode_connect session command access user pass auth ipType =
      le32_bytes session @ le32_bytes command @ put_ref 60 A @ put_ref uo U @ put_ref po P
      @ le32_bytes 0 @ le32_bytes auth @ le32_bytes ipType @ rest"
    by (simp add: encode_connect_def Let_def)
  let ?refs = "put_ref 60 A @ put_ref uo U @ put_ref po P @ le32_bytes 0"
  show "u32_at (encode_connect session command access user pass auth ipType) 0 = Ok session"
      "u32_at (encode_connect session command access user pass auth ipType) 4 = Ok command"
      "u32_at (encode_connect session command access user pass auth ipType) 36 = Ok auth"
      "u32_at (encode_connect session command access user pass auth ipType) 40 = Ok ipType"
    unfolding b using u32_at_put [of "[]"] u32_at_put [of "le32_bytes session"]
      u32_at_put [of "le32_bytes session @ le32_bytes command @ ?refs" 36]
      u32_at_put [of "le32_bytes session @ le32_bytes command @ ?refs @ le32_bytes auth" 40]
    by simp_all
qed

text \<open>
  The CONNECT request says what was asked: reading its information buffer back, the session, the
  command, the authentication and the IP type stand at their places, and the access point
  name, the user name and the password are the strings given, whatever their lengths and
  characters.
\<close>

theorem connect_request_carries_its_arguments:
  assumes "valid_utf8 access" and "valid_utf8 user" and "valid_utf8 pass"
    and "length (encode_connect session command access user pass auth ipType) < 2 ^ 32"
  shows "string_at (encode_connect session command access user pass auth ipType) 8 = Ok access
    \<and> string_at (encode_connect session command access user pass auth ipType) 16 = Ok user
    \<and> string_at (encode_connect session command access user pass auth ipType) 24 = Ok pass
    \<and> u32_at (encode_connect session command access user pass auth ipType) 0 = Ok session
    \<and> u32_at (encode_connect session command access user pass auth ipType) 4 = Ok command
    \<and> u32_at (encode_connect session command access user pass auth ipType) 36 = Ok auth
    \<and> u32_at (encode_connect session command access user pass auth ipType) 40 = Ok ipType"
proof -
  define A U P where "A = encode_utf16_le access" and "U = encode_utf16_le user"
    and "P = encode_utf16_le pass"
  define uo po where "uo = 60 + pad4 (length A)" and "po = uo + pad4 (length U)"
  define za zu zp where "za = zeros (pad4 (length A) - length A)"
    and "zu = zeros (pad4 (length U) - length U)" and "zp = zeros (pad4 (length P) - length P)"
  define head where "head = le32_bytes session @ le32_bytes command"
  define mid where "mid = le32_bytes 0 @ le32_bytes auth @ le32_bytes ipType
    @ uuid_context_type_internet"
  let ?b = "encode_connect session command access user pass auth ipType"
  have b: "?b = head @ put_ref 60 A @ put_ref uo U @ put_ref po P @ mid
      @ A @ za @ U @ zu @ P @ zp"
    by (simp add: encode_connect_def Let_def A_def U_def P_def uo_def po_def za_def zu_def zp_def
        head_def mid_def padded_def)
  have len: "length head = 8" "length mid = 28" "length (A @ za) = pad4 (length A)"
      "length (U @ zu) = pad4 (length U)"
    using pad4_le by (simp_all add: head_def mid_def uuid_context_type_internet_def za_def zu_def)
  have "string_at ?b 8 = Ok access"
    by (rule string_at_put_ref [where a = head and off = 60
          and rest = "put_ref uo U @ put_ref po P @ mid @ A @ za @ U @ zu @ P @ zp"
          and x = "head @ put_ref 60 A @ put_ref uo U @ put_ref po P @ mid"
          and y = "za @ U @ zu @ P @ zp"])
      (use b len assms in \<open>simp_all add: A_def\<close>)
  moreover have "string_at ?b 16 = Ok user"
    by (rule string_at_put_ref [where a = "head @ put_ref 60 A" and off = uo
          and rest = "put_ref po P @ mid @ A @ za @ U @ zu @ P @ zp"
          and x = "head @ put_ref 60 A @ put_ref uo U @ put_ref po P @ mid @ A @ za"
          and y = "zu @ P @ zp"])
      (use b len assms in \<open>simp_all add: U_def uo_def\<close>)
  moreover have "string_at ?b 24 = Ok pass"
    by (rule string_at_put_ref [where a = "head @ put_ref 60 A @ put_ref uo U" and off = po
          and rest = "mid @ A @ za @ U @ zu @ P @ zp"
          and x = "head @ put_ref 60 A @ put_ref uo U @ put_ref po P @ mid @ A @ za @ U @ zu"
          and y = "zp"])
      (use b len assms in \<open>simp_all add: P_def uo_def po_def\<close>)
  ultimately show ?thesis by (simp only: connect_words simp_thms)
qed

theorem connect_request_carries_its_arguments_witness:
  "string_at (encode_connect 0 1 ''ims.home'' ''user'' [] 2 3) 8 = Ok ''ims.home''
   \<and> string_at (encode_connect 0 1 ''ims.home'' ''user'' [] 2 3) 16 = Ok ''user''
   \<and> string_at (encode_connect 0 1 ''ims.home'' ''user'' [] 2 3) 24 = Ok []
   \<and> u32_at (encode_connect 0 1 ''ims.home'' ''user'' [] 2 3) 40 = Ok 3"
proof -
  have a: "ascii ''ims.home''" "ascii ''user''" "ascii []" by code_simp+
  then have "length (encode_connect 0 1 ''ims.home'' ''user'' [] 2 3) = 84"
    by (simp add: encode_connect_def Let_def encode_utf16_le_bytes ascii_utf16_length pad4_def
        uuid_context_type_internet_def)
  then show ?thesis
    using connect_request_carries_its_arguments [of "''ims.home''" "''user''" "[]" 0 1 2 3]
      ascii_valid a by simp
qed

section \<open>Subscriptions\<close>

lemma subscribe_blob_length [simp]: "length (subscribe_blob e) = 20 + 4 * length (ev_cids e)"
  by (induction "ev_cids e" arbitrary: e rule: list.induct)
    (simp_all add: subscribe_blob_def length_concat comp_def sum_list_triv)

lemma blob_refs_length [simp]: "length (blob_refs pos bs) = 8 * length bs"
  by (induction bs arbitrary: pos) auto

lemma blob_refs_split:
  "i < length bs \<Longrightarrow>
     blob_refs pos bs = blob_refs pos (take i bs)
       @ put_pair (pos + length (concat (take i bs))) (bs ! i)
       @ blob_refs (pos + length (concat (take (Suc i) bs))) (drop (Suc i) bs)"
proof (induction bs arbitrary: pos i)
  case Nil
  then show ?case by simp
next
  case (Cons b bs)
  then show ?case by (cases i) (simp_all add: add.assoc)
qed

lemma concat_split:
  "i < length bs \<Longrightarrow> concat bs = concat (take i bs) @ bs ! i @ concat (drop (Suc i) bs)"
  by (metis concat.simps(2) concat_append id_take_nth_drop)

lemma blob_found:
  assumes i: "i < length bs" and small: "4 + 8 * length bs + length (concat bs) < 2 ^ 32"
  shows "byte_array_at (le32_bytes n @ blob_refs (4 + length bs * 8) bs @ concat bs) (4 + 8 * i)
         = Ok (bs ! i)"
    (is "byte_array_at ?b _ = _")
proof (rule byte_array_at_refers, rule refers_put_pair)
  let ?pos = "4 + length bs * 8" and ?pre = "concat (take i bs)"
  show "?b = (le32_bytes n @ blob_refs ?pos (take i bs)) @ put_pair (?pos + length ?pre) (bs ! i)
      @ (blob_refs (?pos + length (concat (take (Suc i) bs))) (drop (Suc i) bs) @ concat bs)"
    using blob_refs_split [OF i, of ?pos] by simp
  show "?b = (le32_bytes n @ blob_refs ?pos bs @ ?pre) @ bs ! i @ concat (drop (Suc i) bs)"
    using concat_split [OF i] by simp
  show "length (le32_bytes n @ blob_refs ?pos (take i bs)) = 4 + 8 * i" using i by simp
  show "length (le32_bytes n @ blob_refs ?pos bs @ ?pre) = ?pos + length ?pre" by simp
  show "length ?b < 2 ^ 32" using small by simp
qed

lemma cid_found:
  "j < length ws \<Longrightarrow> length a = pos \<Longrightarrow> u32_at (a @ concat (map le32_bytes ws)) (pos + 4 * j) = Ok (ws ! j)"
proof (induction ws arbitrary: a pos j)
  case Nil
  then show ?case by simp
next
  case (Cons w ws)
  show ?case
  proof (cases j)
    case 0
    with Cons.prems show ?thesis by (simp add: u32_at_put)
  next
    case (Suc k)
    have "u32_at ((a @ le32_bytes w) @ concat (map le32_bytes ws)) (pos + 4 + 4 * k) = Ok (ws ! k)"
      using Cons.prems Suc by (intro Cons.IH) simp_all
    with Suc show ?thesis by (simp add: add.assoc)
  qed
qed

text \<open>
  A subscription reaches the modem as it was asked: the list of DEVICE\_SERVICE\_SUBSCRIBE\_LIST holds
  the number of services, the reference of each service leads to its own block, and the
  block holds the service's UUID, the number of its events and each event in order.
\<close>

theorem subscription_lists_every_event:
  assumes "i < length es" and "j < length (ev_cids (es ! i))" and "length (ev_service (es ! i)) = 16"
    and "length (encode_subscribe_list es) < 2 ^ 32"
  shows "u32_at (encode_subscribe_list es) 0 = Ok (of_nat (length es))
    \<and> byte_array_at (encode_subscribe_list es) (4 + 8 * i) = Ok (subscribe_blob (es ! i))
    \<and> take 16 (subscribe_blob (es ! i)) = ev_service (es ! i)
    \<and> u32_at (subscribe_blob (es ! i)) 16 = Ok (of_nat (length (ev_cids (es ! i))))
    \<and> u32_at (subscribe_blob (es ! i)) (20 + 4 * j) = Ok (ev_cids (es ! i) ! j)"
proof -
  let ?bs = "map subscribe_blob es"
  have b: "encode_subscribe_list es
      = le32_bytes (of_nat (length es)) @ blob_refs (4 + length ?bs * 8) ?bs @ concat ?bs"
    by (simp add: encode_subscribe_list_def Let_def)
  have "byte_array_at (encode_subscribe_list es) (4 + 8 * i) = Ok (?bs ! i)"
    unfolding b using assms(1,4) b by (intro blob_found) simp_all
  moreover have "u32_at (encode_subscribe_list es) 0 = Ok (of_nat (length es))"
    unfolding b using u32_at_put [of "[]"] by simp
  moreover have blob: "subscribe_blob (es ! i) = ev_service (es ! i)
      @ le32_bytes (of_nat (length (ev_cids (es ! i)))) @ concat (map le32_bytes (ev_cids (es ! i)))"
    using assms(3) by (simp add: subscribe_blob_def fit_exact)
  moreover have "u32_at (subscribe_blob (es ! i)) 16 = Ok (of_nat (length (ev_cids (es ! i))))"
    unfolding blob by (rule u32_at_put [OF assms(3)])
  moreover have "u32_at (subscribe_blob (es ! i)) (20 + 4 * j) = Ok (ev_cids (es ! i) ! j)"
    unfolding blob using cid_found [OF assms(2), of "ev_service (es ! i) @ le32_bytes (of_nat (length (ev_cids (es ! i))))" 20]
      assms(3) by simp
  ultimately show ?thesis using assms(1,3) by simp
qed

theorem subscription_lists_every_event_witness:
  "byte_array_at (encode_subscribe_list default_events) 12 = Ok (subscribe_blob (default_events ! 1))
   \<and> u32_at (subscribe_blob (default_events ! 1)) 20 = Ok cid_sms_read"
proof -
  have "length (encode_subscribe_list default_events) < 2 ^ 32"
    by (simp add: encode_subscribe_list_def default_events_def)
  moreover have "(1::nat) < length default_events" "(0::nat) < length (ev_cids (default_events ! 1))"
      "length (ev_service (default_events ! 1)) = 16" "ev_cids (default_events ! 1) ! 0 = cid_sms_read"
    by code_simp+
  ultimately show ?thesis
    using subscription_lists_every_event [of 1 default_events 0] by simp
qed

end
