(* ===== verification/Mbim_Monitor.thy ===== *)
theory Mbim_Monitor
  imports Mbim_Device Mbim_Requests
begin

text \<open>
  The monitor of pkg/mbim/snapshot.go: a snapshot of the modem kept from its indications,
  and callbacks. The callbacks are owned by the caller; what is modelled is which of them is
  called with what, as a list of \<open>monitor_event\<close>s. \<open>Capabilities\<close> (capability.go) are the flags
  found when the device was opened.
\<close>

section \<open>Capabilities\<close>

record capabilities =
  cap_services :: device_services
  cap_mbimex_ok :: bool
  cap_qmi_ok :: bool
  cap_read_ok :: bool
  cap_record_ok :: bool
  cap_channel_ok :: bool
  cap_app_list_ok :: bool
  cap_aka_dead :: bool

definition auth_aka_usable :: "capabilities option \<Rightarrow> bool" where
  "auth_aka_usable c =
     (case c of None \<Rightarrow> False | Some c \<Rightarrow> has_service uuid_auth (cap_services c) \<and> \<not> cap_aka_dead c)"

definition mark_auth_aka_dead :: "capabilities option \<Rightarrow> capabilities option" where
  "mark_auth_aka_dead c = (case c of None \<Rightarrow> None | Some c \<Rightarrow> Some (c\<lparr>cap_aka_dead := True\<rparr>))"

definition device_reset_usable :: "capabilities option \<Rightarrow> bool" where
  "device_reset_usable c =
     (case c of None \<Rightarrow> False
      | Some c \<Rightarrow> supports (cap_services c) uuid_ms_basic_connect_extensions
          cid_ms_basic_connect_ext_device_reset)"

definition app_list_known_unsupported :: "capabilities option \<Rightarrow> bool" where
  "app_list_known_unsupported c =
     (case c of None \<Rightarrow> False
      | Some c \<Rightarrow> has_service uuid_ms_uicc_low_level_access (cap_services c)
          \<and> \<not> cap_app_list_ok c)"

definition uicc_channel_aka_usable :: "capabilities option \<Rightarrow> bool" where
  "uicc_channel_aka_usable c = (case c of None \<Rightarrow> False | Some c \<Rightarrow> cap_channel_ok c)"

definition mbimex_usable :: "capabilities option \<Rightarrow> bool" where
  "mbimex_usable c = (case c of None \<Rightarrow> False | Some c \<Rightarrow> cap_mbimex_ok c)"

definition qmi_read_usable :: "capabilities option \<Rightarrow> bool" where
  "qmi_read_usable c = (case c of None \<Rightarrow> False | Some c \<Rightarrow> cap_qmi_ok c)"

section \<open>The monitor\<close>

record snapshot =
  sn_ready :: u32
  sn_imsi :: string
  sn_iccid :: string
  sn_register :: u32
  sn_provider :: string
  sn_mcc :: string
  sn_mnc :: string
  sn_packet :: u32
  sn_rssi :: u32
  sn_dbm :: int
  sn_unknown :: bool
  sn_updated :: nat

record monitor =
  mo_snap :: snapshot
  mo_on_sms :: bool
  mo_on_connect :: bool
  mo_on_ussd :: bool
  mo_on_ready :: bool
  mo_on_slot :: bool

datatype monitor_event =
  Fired_SMS | Fired_Connect connect_state | Fired_USSD ussd_response
| Fired_Ready snapshot | Fired_Slot slot_info

definition empty_snapshot :: snapshot where
  "empty_snapshot =
     \<lparr>sn_ready = 0, sn_imsi = [], sn_iccid = [], sn_register = 0, sn_provider = [], sn_mcc = [],
      sn_mnc = [], sn_packet = 0, sn_rssi = 0, sn_dbm = 0, sn_unknown = False, sn_updated = 0\<rparr>"

definition new_monitor :: monitor where
  "new_monitor =
     \<lparr>mo_snap = empty_snapshot, mo_on_sms = False, mo_on_connect = False, mo_on_ussd = False,
      mo_on_ready = False, mo_on_slot = False\<rparr>"

definition set_on_sms :: "monitor \<Rightarrow> monitor" where "set_on_sms m = m\<lparr>mo_on_sms := True\<rparr>"
definition set_on_connect :: "monitor \<Rightarrow> monitor" where "set_on_connect m = m\<lparr>mo_on_connect := True\<rparr>"
definition set_on_ussd :: "monitor \<Rightarrow> monitor" where "set_on_ussd m = m\<lparr>mo_on_ussd := True\<rparr>"
definition set_on_ready :: "monitor \<Rightarrow> monitor" where "set_on_ready m = m\<lparr>mo_on_ready := True\<rparr>"
definition set_on_slot :: "monitor \<Rightarrow> monitor" where "set_on_slot m = m\<lparr>mo_on_slot := True\<rparr>"

text \<open>
  What an indication of Basic Connect does to the snapshot: the new snapshot and whether the
  card changed. A buffer that does not parse leaves the fields as they are.
\<close>

definition update_snapshot :: "u32 \<Rightarrow> bytes \<Rightarrow> snapshot \<Rightarrow> (info_error, snapshot \<times> bool) result" where
  "update_snapshot cid b s =
     (if cid = cid_basic_connect_signal_state then
        (case parse_signal_state b of
           Panic \<Rightarrow> Panic | Fail e \<Rightarrow> Ok (s, False)
         | Ok g \<Rightarrow> Ok (s\<lparr>sn_rssi := sg_rssi g, sn_dbm := sg_dbm g, sn_unknown := sg_unknown g\<rparr>, False))
      else if cid = cid_basic_connect_register_state then
        (case parse_register_state b of
           Panic \<Rightarrow> Panic | Fail e \<Rightarrow> Ok (s, False)
         | Ok r \<Rightarrow> Ok (s\<lparr>sn_register := rg_state r, sn_provider := rg_provider_name r,
                         sn_mcc := rg_mcc r, sn_mnc := rg_mnc r\<rparr>, False))
      else if cid = cid_basic_connect_packet_service then
        (case parse_packet_service b of
           Panic \<Rightarrow> Panic | Fail e \<Rightarrow> Ok (s, False)
         | Ok p \<Rightarrow> Ok (s\<lparr>sn_packet := pk_state p\<rparr>, False))
      else
        (case parse_subscriber_ready b of
           Panic \<Rightarrow> Panic | Fail e \<Rightarrow> Ok (s, False)
         | Ok sub \<Rightarrow>
             Ok (s\<lparr>sn_ready := sb_ready sub, sn_imsi := sb_imsi sub, sn_iccid := sb_iccid sub\<rparr>,
                 sb_ready sub \<noteq> sn_ready s \<or> sb_iccid sub \<noteq> sn_iccid s)))"

text \<open>The callback of one parsed indication, when it is set.\<close>

fun fire :: "bool \<Rightarrow> ('a \<Rightarrow> monitor_event) \<Rightarrow> (info_error, 'a) result
    \<Rightarrow> (info_error, monitor_event list) result" where
  "fire cb ev (Ok x) = Ok (if cb then [ev x] else [])"
| "fire cb ev (Fail e) = Ok []"
| "fire cb ev Panic = Panic"

definition monitor_apply ::
  "nat \<Rightarrow> indication \<Rightarrow> monitor \<Rightarrow> (info_error, monitor_event list \<times> monitor) result" where
  "monitor_apply now ind m =
     (let keep = (\<lambda>evs. Ok (evs, m)); b = in_info ind; cid = in_cid ind in
      if in_service ind = uuid_sms then
        (if cid = cid_sms_read then keep (if mo_on_sms m then [Fired_SMS] else []) else keep [])
      else if in_service ind = uuid_ussd then
        (if cid = cid_ussd
         then and_then (fire (mo_on_ussd m) Fired_USSD (parse_ussd_response b)) keep else keep [])
      else if in_service ind = uuid_ms_basic_connect_extensions then
        (if cid = cid_ms_basic_connect_ext_slot_info_status
         then and_then (fire (mo_on_slot m) Fired_Slot (parse_slot_info_status b)) keep else keep [])
      else if in_service ind \<noteq> uuid_basic_connect then keep []
      else if cid = cid_basic_connect_connect then
        and_then (fire (mo_on_connect m) Fired_Connect (parse_connect b)) keep
      else if cid \<notin> set [cid_basic_connect_signal_state, cid_basic_connect_register_state,
                           cid_basic_connect_packet_service,
                           cid_basic_connect_subscriber_ready_status] then keep []
      else and_then (update_snapshot cid b (mo_snap m)) (\<lambda>(s, changed).
        let s = s\<lparr>sn_updated := now\<rparr>
        in Ok (if changed \<and> mo_on_ready m then [Fired_Ready s] else [], m\<lparr>mo_snap := s\<rparr>)))"

text \<open>\<open>Run\<close> on the indications that arrive until the channel closes or the monitor stops.\<close>

fun monitor_run ::
  "(nat \<times> indication) list \<Rightarrow> monitor \<Rightarrow> (info_error, monitor_event list \<times> monitor) result" where
  "monitor_run [] m = Ok ([], m)"
| "monitor_run ((now, ind) # inds) m =
     and_then (monitor_apply now ind m) (\<lambda>(evs, m').
     and_then (monitor_run inds m') (\<lambda>(evs', m''). Ok (evs @ evs', m'')))"

section \<open>Every change of the card is reported\<close>

definition sim_card :: "monitor \<Rightarrow> u32 \<times> string" where
  "sim_card m = (sn_ready (mo_snap m), sn_iccid (mo_snap m))"

definition ready_status :: "indication \<Rightarrow> (u32 \<times> string) option" where
  "ready_status ind =
     (if in_service ind = uuid_basic_connect \<and> in_cid ind = cid_basic_connect_subscriber_ready_status
      then (case parse_subscriber_ready (in_info ind) of
              Ok s \<Rightarrow> Some (sb_ready s, sb_iccid s) | _ \<Rightarrow> None)
      else None)"

fun ready_statuses :: "(nat \<times> indication) list \<Rightarrow> (u32 \<times> string) list" where
  "ready_statuses [] = []"
| "ready_statuses ((now, ind) # inds) =
     (case ready_status ind of None \<Rightarrow> ready_statuses inds | Some q \<Rightarrow> q # ready_statuses inds)"

fun reported_cards :: "monitor_event list \<Rightarrow> (u32 \<times> string) list" where
  "reported_cards [] = []"
| "reported_cards (Fired_Ready s # evs) = (sn_ready s, sn_iccid s) # reported_cards evs"
| "reported_cards (_ # evs) = reported_cards evs"

fun card_changes :: "u32 \<times> string \<Rightarrow> (u32 \<times> string) list \<Rightarrow> (u32 \<times> string) list" where
  "card_changes p [] = []"
| "card_changes p (q # qs) = (if q \<noteq> p then q # card_changes q qs else card_changes p qs)"

lemma reported_cards_append [simp]:
  "reported_cards (evs @ evs') = reported_cards evs @ reported_cards evs'"
  by (induction evs rule: reported_cards.induct) auto

lemma uuids_distinct:
  "uuid_basic_connect \<noteq> uuid_sms" "uuid_basic_connect \<noteq> uuid_ussd"
  "uuid_basic_connect \<noteq> uuid_ms_basic_connect_extensions"
  by code_simp+

lemma cids_distinct:
  "cid_basic_connect_subscriber_ready_status \<noteq> cid_basic_connect_connect"
  "cid_basic_connect_subscriber_ready_status \<noteq> cid_basic_connect_signal_state"
  "cid_basic_connect_subscriber_ready_status \<noteq> cid_basic_connect_register_state"
  "cid_basic_connect_subscriber_ready_status \<noteq> cid_basic_connect_packet_service"
  by code_simp+

lemma fire_silent:
  assumes "r \<noteq> Panic" and "\<And>x. reported_cards [ev x] = []"
  shows "\<exists>evs. fire cb ev r = Ok evs \<and> reported_cards evs = []"
  using assms by (cases r) auto

lemma update_snapshot_total: "\<exists>s' ch. update_snapshot cid b s = Ok (s', ch)"
  by (cases "cid = cid_basic_connect_signal_state"; cases "cid = cid_basic_connect_register_state";
      cases "cid = cid_basic_connect_packet_service")
    (auto simp: update_snapshot_def no_panic split: result.split)

lemma update_snapshot_other:
  assumes "update_snapshot cid b s = Ok (s', ch)" and "cid \<noteq> cid_basic_connect_subscriber_ready_status"
    and "cid \<in> set [cid_basic_connect_signal_state, cid_basic_connect_register_state,
                    cid_basic_connect_packet_service, cid_basic_connect_subscriber_ready_status]"
  shows "sn_ready s' = sn_ready s \<and> sn_iccid s' = sn_iccid s \<and> \<not> ch"
  using assms by (auto simp: update_snapshot_def split: if_splits result.splits)

lemma update_snapshot_ready:
  "update_snapshot cid_basic_connect_subscriber_ready_status b s =
     (case parse_subscriber_ready b of
        Panic \<Rightarrow> Panic | Fail e \<Rightarrow> Ok (s, False)
      | Ok sub \<Rightarrow>
          Ok (s\<lparr>sn_ready := sb_ready sub, sn_imsi := sb_imsi sub, sn_iccid := sb_iccid sub\<rparr>,
              sb_ready sub \<noteq> sn_ready s \<or> sb_iccid sub \<noteq> sn_iccid s))"
  using cids_distinct by (simp add: update_snapshot_def)

definition applied :: "indication \<Rightarrow> monitor \<Rightarrow> monitor_event list \<Rightarrow> monitor \<Rightarrow> bool" where
  "applied ind m evs m' \<longleftrightarrow>
     mo_on_ready m' = mo_on_ready m \<and>
     (case ready_status ind of
        None \<Rightarrow> sim_card m' = sim_card m \<and> reported_cards evs = []
      | Some q \<Rightarrow> sim_card m' = q \<and> reported_cards evs = (if q \<noteq> sim_card m \<and> mo_on_ready m then [q] else []))"

lemma applied_silent: "ready_status ind = None \<Longrightarrow> reported_cards evs = [] \<Longrightarrow> applied ind m evs m"
  by (simp add: applied_def)

lemma fired_kept:
  assumes "r \<noteq> Panic" and "\<And>x. reported_cards [ev x] = []" and "ready_status ind = None"
  shows "\<exists>evs m'. and_then (fire cb ev r) (\<lambda>evs. Ok (evs, m)) = Ok (evs, m') \<and> applied ind m evs m'"
  using fire_silent [of r ev cb] assms applied_silent [OF assms(3)] by auto

lemma monitor_apply_applied:
  "\<exists>evs m'. monitor_apply now ind m = Ok (evs, m') \<and> applied ind m evs m'"
proof -
  let ?svc = "in_service ind" and ?cid = "in_cid ind" and ?b = "in_info ind"
  have other: "ready_status ind = None" if "?svc \<noteq> uuid_basic_connect"
    using that by (simp add: ready_status_def)
  consider (sms) "?svc = uuid_sms" | (ussd) "?svc = uuid_ussd" "?svc \<noteq> uuid_sms"
    | (ext) "?svc = uuid_ms_basic_connect_extensions" "?svc \<noteq> uuid_sms" "?svc \<noteq> uuid_ussd"
    | (basic) "?svc = uuid_basic_connect"
    | (unknown) "?svc \<noteq> uuid_sms" "?svc \<noteq> uuid_ussd" "?svc \<noteq> uuid_ms_basic_connect_extensions"
        "?svc \<noteq> uuid_basic_connect" by blast
  then show ?thesis
  proof cases
    case sms
    then have "ready_status ind = None" using other uuids_distinct by metis
    then show ?thesis using sms by (simp add: monitor_apply_def applied_silent)
  next
    case ussd
    then have "ready_status ind = None" using other uuids_distinct by metis
    with ussd show ?thesis
      using fired_kept [OF parse_ussd_response_no_panic, of Fired_USSD ind "mo_on_ussd m" ?b m]
      by (auto simp: monitor_apply_def Let_def applied_silent)
  next
    case ext
    then have "ready_status ind = None" using other uuids_distinct by metis
    with ext show ?thesis
      using fired_kept [OF parse_slot_info_status_no_panic, of Fired_Slot ind "mo_on_slot m" ?b m]
      by (auto simp: monitor_apply_def Let_def applied_silent)
  next
    case unknown
    then show ?thesis by (simp add: monitor_apply_def other applied_silent)
  next
    case basic
    note s = uuids_distinct basic
    let ?known = "[cid_basic_connect_signal_state, cid_basic_connect_register_state,
                   cid_basic_connect_packet_service, cid_basic_connect_subscriber_ready_status]"
    consider (conn) "?cid = cid_basic_connect_connect"
      | (ready) "?cid = cid_basic_connect_subscriber_ready_status"
      | (skip) "?cid \<noteq> cid_basic_connect_connect" "?cid \<notin> set ?known"
      | (field) "?cid \<noteq> cid_basic_connect_connect" "?cid \<in> set ?known"
          "?cid \<noteq> cid_basic_connect_subscriber_ready_status"
      by auto
    then show ?thesis
    proof cases
      case conn
      then have "ready_status ind = None" using cids_distinct by (simp add: ready_status_def)
      then show ?thesis
        using fired_kept [OF parse_connect_no_panic, of Fired_Connect ind "mo_on_connect m" ?b m] conn s
        by (simp add: monitor_apply_def Let_def)
    next
      case skip
      then have "ready_status ind = None" by (simp add: ready_status_def)
      with skip s show ?thesis by (simp add: monitor_apply_def Let_def applied_silent)
    next
      case field
      then have n: "ready_status ind = None" by (simp add: ready_status_def)
      obtain s' ch where u: "update_snapshot ?cid ?b (mo_snap m) = Ok (s', ch)"
        using update_snapshot_total by blast
      from update_snapshot_other [OF u field(3,2)] u field s n show ?thesis
        by (auto simp: monitor_apply_def Let_def applied_def sim_card_def)
    next
      case ready
      then show ?thesis
        using cids_distinct s parse_subscriber_ready_no_panic [of ?b]
        by (cases "parse_subscriber_ready ?b")
          (auto simp: monitor_apply_def Let_def update_snapshot_ready applied_def ready_status_def
            sim_card_def)
    qed
  qed
qed

lemma monitor_run_cards:
  "\<exists>evs m'. monitor_run inds m = Ok (evs, m')
     \<and> sim_card m' = last (sim_card m # ready_statuses inds)
     \<and> (mo_on_ready m \<longrightarrow>
          reported_cards evs = card_changes (sim_card m) (ready_statuses inds))"
proof (induction inds arbitrary: m)
  case Nil
  then show ?case by (simp)
next
  case (Cons i inds)
  obtain now ind where i: "i = (now, ind)" by (cases i)
  obtain evs m1 where a: "monitor_apply now ind m = Ok (evs, m1)" and ap: "applied ind m evs m1"
    using monitor_apply_applied by blast
  obtain evs' m2 where r: "monitor_run inds m1 = Ok (evs', m2)"
      and l: "sim_card m2 = last (sim_card m1 # ready_statuses inds)"
      and c: "mo_on_ready m1 \<longrightarrow> reported_cards evs'
                = card_changes (sim_card m1) (ready_statuses inds)"
    using Cons.IH by blast
  show ?case using i a ap r l c
    by (auto simp: applied_def split: option.splits)
qed

text \<open>
  C18. A change of the card is reported, once, and nothing else is: with the callback set, the
  snapshots it is called with are, over any indications in any order, exactly the changes of
  ready state or ICCID in the sequence of SUBSCRIBER\_READY\_STATUS indications that parse.
  The run never fails, whatever the modem sends.
\<close>

theorem card_changes_are_reported:
  assumes "mo_on_ready m"
  shows "\<exists>evs m'. monitor_run inds m = Ok (evs, m')
    \<and> reported_cards evs = card_changes (sim_card m) (ready_statuses inds)
    \<and> sim_card m' = last (sim_card m # ready_statuses inds)"
  using monitor_run_cards [of inds m] assms by blast

definition ready_indication :: "u32 \<Rightarrow> indication" where
  "ready_indication state =
     \<lparr>in_service = uuid_basic_connect, in_cid = cid_basic_connect_subscriber_ready_status,
      in_info = le32_bytes state @ zeros 24\<rparr>"

theorem card_changes_are_reported_witness:
  "\<exists>evs m'. monitor_run [(1, ready_indication 1), (2, ready_indication 1), (3, ready_indication 2)]
      (set_on_ready new_monitor) = Ok (evs, m') \<and> reported_cards evs = [(1, []), (2, [])]"
proof -
  have "card_changes (sim_card (set_on_ready new_monitor))
      (ready_statuses
        [(1, ready_indication 1), (2, ready_indication 1), (3, ready_indication 2)])
      = [(1, []), (2, [])]"
    by code_simp
  moreover have "mo_on_ready (set_on_ready new_monitor)" by code_simp
  ultimately show ?thesis
    using card_changes_are_reported [of "set_on_ready new_monitor"
        "[(1, ready_indication 1), (2, ready_indication 1), (3, ready_indication 2)]"] by auto
qed

end
