(* ===== verification/Mbim_Ussd.thy ===== *)
theory Mbim_Ussd
  imports Mbim_Requests
begin

text \<open>
  USSD texts (pkg/mbim/ussd.go). The GSM 7-bit alphabet and its packing are calls of the
  third-party package gsm7 and so the record \<open>gsm7\<close> of functions; the UCS-2 branch is here.
\<close>

record gsm7 =
  g7_encode :: "bytes \<Rightarrow> bytes option"
  g7_pack :: "bytes \<Rightarrow> bytes"
  g7_unpack :: "bytes \<Rightarrow> bytes"
  g7_decode :: "bytes \<Rightarrow> bytes option"

text \<open>\<open>binary.BigEndian.PutUint16\<close> and \<open>Uint16\<close>.\<close>

definition be16_bytes :: "u16 \<Rightarrow> bytes" where
  "be16_bytes w = [ucast (drop_bit 8 w), ucast w]"

definition be16 :: "byte \<Rightarrow> byte \<Rightarrow> u16" where
  "be16 a b = (push_bit 8 (ucast a)) OR ucast b"

lemma be16_put: "be16 (ucast (drop_bit 8 w)) (ucast w) = w"
  unfolding be16_def
  by (rule bit_word_eqI) (auto simp: bit_simps)

definition encode_ussd_request :: "gsm7 \<Rightarrow> string \<Rightarrow> u32 \<times> bytes" where
  "encode_ussd_request g command =
     (case g7_encode g (bytes_of_string command) of
        None \<Rightarrow> (0x48, concat (map be16_bytes (utf16_encode (runes_of command))))
      | Some septets \<Rightarrow> (0x0F, g7_pack g septets))"

fun be16_units :: "bytes \<Rightarrow> u16 list" where
  "be16_units (a # b # bs) = be16 a b # be16_units bs"
| "be16_units _ = []"

definition decode_ussd_text :: "gsm7 \<Rightarrow> u32 \<Rightarrow> bytes \<Rightarrow> string" where
  "decode_ussd_text g dcs payload =
     (if payload = [] then []
      else if dcs = 0x48 \<or> dcs AND 0xC0 = 0x40 then
        (if length payload mod 2 \<noteq> 0 then []
         else string_of_runes (utf16_decode (be16_units payload)))
      else
        (case g7_decode g (g7_unpack g payload) of
           None \<Rightarrow> [] | Some decoded \<Rightarrow> string_of_bytes decoded))"

record ussd_result =
  ur_response :: u32
  ur_dcs :: u32
  ur_text :: string
  ur_raw_hex :: string

definition new_ussd_result :: "gsm7 \<Rightarrow> ussd_response \<Rightarrow> ussd_result" where
  "new_ussd_result g u =
     \<lparr>ur_response = us_response u, ur_dcs = us_dcs u,
      ur_text = decode_ussd_text g (us_dcs u) (us_payload u),
      ur_raw_hex = hex_of_bytes (us_payload u)\<rparr>"

lemma be16_bytes_nonempty [simp]: "be16_bytes u \<noteq> []"
  by (simp add: be16_bytes_def)

lemma be16_units_bytes: "be16_units (concat (map be16_bytes us)) = us"
  by (induction us) (simp_all add: be16_bytes_def be16_put)

lemma be16_bytes_length: "length (concat (map be16_bytes us)) = 2 * length us"
  by (induction us) (simp_all add: be16_bytes_def)

text \<open>What the package documents of a text it can encode.\<close>

definition gsm7_inverse :: "gsm7 \<Rightarrow> string \<Rightarrow> bool" where
  "gsm7_inverse g s \<longleftrightarrow>
     (case g7_encode g (bytes_of_string s) of
        None \<Rightarrow> True
      | Some septets \<Rightarrow> g7_pack g septets \<noteq> []
          \<and> g7_decode g (g7_unpack g (g7_pack g septets)) = Some (bytes_of_string s))"

text \<open>
  A USSD text comes back as it was sent, whichever alphabet it takes: if the text has a GSM
  7-bit form, as the package's own codec reads it back, and otherwise, through UCS-2, for
  any valid text.
\<close>

theorem ussd_text_round_trip:
  assumes "valid_utf8 s" and "gsm7_inverse g s"
  shows "decode_ussd_text g (fst (encode_ussd_request g s)) (snd (encode_ussd_request g s)) = s"
proof (cases "g7_encode g (bytes_of_string s)")
  case None
  let ?us = "utf16_encode (runes_of s)"
  have again: "string_of_runes (utf16_decode ?us) = s" by (rule utf16_text_round_trip [OF assms(1)])
  show ?thesis
  proof (cases "?us = []")
    case True
    with again have "s = []" by (simp add: utf16_decode_def string_of_runes_def)
    with True None show ?thesis by (simp add: encode_ussd_request_def decode_ussd_text_def)
  next
    case False
    with None again show ?thesis
      by (simp add: encode_ussd_request_def decode_ussd_text_def be16_units_bytes be16_bytes_length)
  qed
next
  case (Some septets)
  with assms(2) show ?thesis
    by (simp add: encode_ussd_request_def decode_ussd_text_def gsm7_inverse_def)
qed

text \<open>A codec that refuses every text, so that the text goes through UCS-2.\<close>

definition no_gsm7 :: gsm7 where
  "no_gsm7 = \<lparr>g7_encode = \<lambda>_. None, g7_pack = id, g7_unpack = id, g7_decode = \<lambda>_. None\<rparr>"

theorem ussd_text_round_trip_witness:
  "decode_ussd_text no_gsm7 (fst (encode_ussd_request no_gsm7 ''*100#''))
     (snd (encode_ussd_request no_gsm7 ''*100#'')) = ''*100#''"
proof -
  have "ascii ''*100#''" by code_simp
  moreover have "gsm7_inverse no_gsm7 ''*100#''" by (simp add: gsm7_inverse_def no_gsm7_def)
  ultimately show ?thesis using ussd_text_round_trip ascii_valid by blast
qed

end
