(* ===== verification/Mbim_Qmi.thy ===== *)
theory Mbim_Qmi
  imports Mbim_Requests
begin

text \<open>
  QMI through the MBIM channel (pkg/mbim: uicc\_qmi.go, uicc\_qmi\_power.go, uicc\_qmi\_read.go): the
  frames, the walks over the type-length-value list of an answer, and the operations that
  allocate a client of the UIM service, use it and release it. The index that a walk advances
  through the list is the suffix it has left.
\<close>

datatype qmi_error =
  AnswerShort nat | NoClientTlv | NoResultTlv | QmiRefused u16 | NoReadTlv | CardStatusShort
| SlotTruncated | AppTruncated | AidTruncated | NoCardStatus

section \<open>Frames\<close>

definition build_qmi_message :: "byte \<Rightarrow> byte \<Rightarrow> u16 \<Rightarrow> u16 \<Rightarrow> bytes \<Rightarrow> bytes" where
  "build_qmi_message service client tx msg tlvs =
     (let isCTL = (service = 0);
          sduLen = (if isCTL then 6 + length tlvs else 7 + length tlvs);
          qmuxLen = 5 + sduLen
      in [1] @ le16_bytes (of_nat qmuxLen) @ [0, service, client] @ [0]
         @ (if isCTL then [ucast tx] else le16_bytes tx)
         @ le16_bytes msg @ le16_bytes (of_nat (length tlvs)) @ tlvs)"

definition qmi_session_tlv :: "bytes \<Rightarrow> bytes" where
  "qmi_session_tlv aid =
     (let sessionType = (if aid \<noteq> [] then 4 else 0);
          val = [sessionType, of_nat (length aid)] @ aid
      in [1, of_nat (length val), of_nat (length val div 256)] @ val)"

definition qmi_file_tlv :: "u16 \<Rightarrow> bytes \<Rightarrow> bytes" where
  "qmi_file_tlv fileID path =
     (let val = [ucast fileID, ucast (drop_bit 8 fileID), of_nat (length path)] @ path
      in [2, of_nat (length val), of_nat (length val div 256)] @ val)"

definition qmi_offset_len_tlv :: "u16 \<Rightarrow> u16 \<Rightarrow> bytes" where
  "qmi_offset_len_tlv a b =
     [3, 4, 0, ucast a, ucast (drop_bit 8 a), ucast b, ucast (drop_bit 8 b)]"

definition build_qmi_read_transparent ::
  "byte \<Rightarrow> u16 \<Rightarrow> u16 \<Rightarrow> bytes \<Rightarrow> bytes \<Rightarrow> u16 \<Rightarrow> u16 \<Rightarrow> bytes" where
  "build_qmi_read_transparent client tx fileID aid path off len =
     build_qmi_message 0x0B client tx 0x20
       (qmi_session_tlv aid @ qmi_file_tlv fileID path @ qmi_offset_len_tlv off len)"

definition build_qmi_read_record ::
  "byte \<Rightarrow> u16 \<Rightarrow> u16 \<Rightarrow> bytes \<Rightarrow> bytes \<Rightarrow> u16 \<Rightarrow> u16 \<Rightarrow> bytes" where
  "build_qmi_read_record client tx fileID aid path rec len =
     build_qmi_message 0x0B client tx 0x21
       (qmi_session_tlv aid @ qmi_file_tlv fileID path @ qmi_offset_len_tlv rec len)"

definition build_qmi_uim_power_request :: "byte \<Rightarrow> u16 \<Rightarrow> byte \<Rightarrow> bytes" where
  "build_qmi_uim_power_request client msg slot = build_qmi_message 0x0B client 2 msg [1, 1, 0, slot]"

section \<open>Walks over the list\<close>

function client_id_walk :: "bytes \<Rightarrow> (qmi_error, byte) result" where
  "client_id_walk rest =
     (if length rest < 3 then Fail NoClientTlv
      else at_index rest 0 (\<lambda>typ. get_u16 rest 1 (\<lambda>l.
        if 3 + unat l > length rest then Fail NoClientTlv
        else cut rest 3 (3 + unat l) (\<lambda>val.
          if typ = 1 \<and> 2 \<le> length val then at_index val 1 Ok
          else client_id_walk (drop (3 + unat l) rest)))))"
  by pat_completeness auto
termination by (relation "measure length") auto

definition extract_client_id :: "bytes \<Rightarrow> (qmi_error, byte) result" where
  "extract_client_id data =
     (if length data < 12 then Fail (AnswerShort (length data))
      else cut data 12 (length data) client_id_walk)"

function result_walk :: "bytes \<Rightarrow> (qmi_error, unit) result" where
  "result_walk rest =
     (if length rest < 3 then Fail NoResultTlv
      else at_index rest 0 (\<lambda>typ. get_u16 rest 1 (\<lambda>l.
        if 3 + unat l > length rest then Fail NoResultTlv
        else if typ = 2 \<and> 4 \<le> unat l then
          get_u16 rest 3 (\<lambda>res.
            if res \<noteq> 0 then get_u16 rest 5 (\<lambda>err. Fail (QmiRefused err)) else Ok ())
        else result_walk (drop (3 + unat l) rest))))"
  by pat_completeness auto
termination by (relation "measure length") auto

definition parse_qmi_result_only :: "bytes \<Rightarrow> (qmi_error, unit) result" where
  "parse_qmi_result_only frame =
     (if length frame < 13 then Fail (AnswerShort (length frame))
      else cut frame 13 (length frame) result_walk)"

text \<open>
  The variables of \<open>parseQMIReadResult\<close>: the error code once a result TLV says failed, the
  card's status words once seen, and the data, None while it is nil.
\<close>

record read_vars =
  rv_failed :: bool
  rv_error :: u16
  rv_have :: bool
  rv_sw1 :: byte
  rv_sw2 :: byte
  rv_data :: "bytes option"

definition read_tlv :: "byte \<Rightarrow> bytes \<Rightarrow> read_vars \<Rightarrow> (qmi_error, read_vars) result" where
  "read_tlv typ val v =
     (if typ = 0x02 then
        (if 4 \<le> length val then
           get_u16 val 0 (\<lambda>res.
             if res \<noteq> 0
             then get_u16 val 2 (\<lambda>err. Ok (v\<lparr>rv_failed := True, rv_error := err\<rparr>))
             else Ok v)
         else Ok v)
      else if typ = 0x10 then
        (if 2 \<le> length val then
           at_index val 0 (\<lambda>a. at_index val 1 (\<lambda>b.
             Ok (v\<lparr>rv_sw1 := a, rv_sw2 := b, rv_have := True\<rparr>)))
         else Ok v)
      else if typ = 0x11 then
        (if 2 \<le> length val then
           get_u16 val 0 (\<lambda>n.
             if 2 + unat n \<le> length val
             then cut val 2 (2 + unat n) (\<lambda>d. Ok (v\<lparr>rv_data := Some d\<rparr>))
             else Ok v)
         else Ok v)
      else Ok v)"

function read_walk :: "bytes \<Rightarrow> read_vars \<Rightarrow> (qmi_error, read_vars) result" where
  "read_walk rest v =
     (if length rest < 3 then Ok v
      else at_index rest 0 (\<lambda>typ. get_u16 rest 1 (\<lambda>l.
        if 3 + unat l > length rest then Ok v
        else cut rest 3 (3 + unat l) (\<lambda>val.
          and_then (read_tlv typ val v) (\<lambda>v'. read_walk (drop (3 + unat l) rest) v')))))"
  by pat_completeness auto
termination by (relation "measure (length \<circ> fst)") auto

definition read_vars0 :: read_vars where
  "read_vars0 =
     \<lparr>rv_failed = False, rv_error = 0, rv_have = False, rv_sw1 = 0, rv_sw2 = 0, rv_data = None\<rparr>"

definition parse_qmi_read_result ::
  "bytes \<Rightarrow> (qmi_error, bytes option \<times> byte \<times> byte) result" where
  "parse_qmi_read_result frame =
     (if length frame < 13 then Fail (AnswerShort (length frame))
      else cut frame 13 (length frame) (\<lambda>tlvs.
        and_then (read_walk tlvs read_vars0) (\<lambda>v.
          if rv_failed v then Fail (QmiRefused (rv_error v))
          else if \<not> rv_have v \<and> rv_data v = None then Fail NoReadTlv
          else Ok (rv_data v, rv_sw1 v, rv_sw2 v))))"

declare client_id_walk.simps [simp del] result_walk.simps [simp del] read_walk.simps [simp del]

section \<open>The card status\<close>

record uicc_app_info =
  ai_type :: byte
  ai_aid :: bytes

text \<open>
  The nested loops of \<open>parseAllAIDs\<close>: \<open>Stop\<close> when a loop has run to its end, \<open>Next\<close> for
  \<open>goto nextTlv\<close>. Both keep the applications collected so far.
\<close>

datatype 'a walk = Stop nat 'a | Next 'a

fun card_apps :: "bytes \<Rightarrow> nat \<Rightarrow> nat \<Rightarrow> uicc_app_info list
    \<Rightarrow> (qmi_error, uicc_app_info list walk) result" where
  "card_apps val v 0 apps = Ok (Stop v apps)"
| "card_apps val v (Suc n) apps =
     (if v + 6 > length val then Ok (Next apps)
      else at_index val v (\<lambda>ty.
        let v = v + 6 in
        if v \<ge> length val then Ok (Next apps)
        else at_index val v (\<lambda>al.
          let v = v + 1 in
          if v + unat al > length val then Ok (Next apps)
          else cut val v (v + unat al) (\<lambda>aid.
            let apps = apps @ [\<lparr>ai_type = ty, ai_aid = aid\<rparr>]; v = v + unat al in
            if v + 7 > length val then Ok (Next apps) else card_apps val (v + 7) n apps))))"

fun card_slots :: "bytes \<Rightarrow> nat \<Rightarrow> nat \<Rightarrow> uicc_app_info list
    \<Rightarrow> (qmi_error, uicc_app_info list walk) result" where
  "card_slots val v 0 apps = Ok (Stop v apps)"
| "card_slots val v (Suc n) apps =
     (if v + 5 > length val then Ok (Next apps)
      else let v = v + 5 in
        if v \<ge> length val then Ok (Next apps)
        else at_index val v (\<lambda>na.
          and_then (card_apps val (v + 1) (unat na) apps) (\<lambda>w.
            case w of Next apps \<Rightarrow> Ok (Next apps) | Stop v apps \<Rightarrow> card_slots val v n apps)))"

definition card_status_apps :: "bytes \<Rightarrow> uicc_app_info list
    \<Rightarrow> (qmi_error, uicc_app_info list walk) result" where
  "card_status_apps val apps =
     (if 8 > length val then Ok (Next apps)
      else if 8 \<ge> length val then Ok (Next apps)
      else at_index val 8 (\<lambda>ns. card_slots val 9 (unat ns) apps))"

function aids_walk :: "bytes \<Rightarrow> uicc_app_info list \<Rightarrow> (qmi_error, uicc_app_info list) result" where
  "aids_walk rest apps =
     (if length rest < 3 then Ok apps
      else at_index rest 0 (\<lambda>typ. get_u16 rest 1 (\<lambda>l.
        if 3 + unat l > length rest then Ok apps
        else cut rest 3 (3 + unat l) (\<lambda>val.
          if typ = 0x10 then
            and_then (card_status_apps val apps) (\<lambda>w.
              case w of Stop v apps \<Rightarrow> Ok apps
              | Next apps \<Rightarrow> aids_walk (drop (3 + unat l) rest) apps)
          else aids_walk (drop (3 + unat l) rest) apps))))"
  by pat_completeness auto
termination by (relation "measure (length \<circ> fst)") auto

definition parse_all_aids :: "bytes \<Rightarrow> (qmi_error, uicc_app_info list) result" where
  "parse_all_aids data =
     (if length data < 13 then Fail (AnswerShort (length data))
      else cut data 13 (length data) (\<lambda>tlvs. aids_walk tlvs []))"

text \<open>
  \<open>ParseActiveSlot\<close>: the slot and where its number comes from, None when no slot is active.
\<close>

fun skip_apps :: "bytes \<Rightarrow> nat \<Rightarrow> nat \<Rightarrow> (qmi_error, nat) result" where
  "skip_apps val v 0 = Ok v"
| "skip_apps val v (Suc n) =
     (if v + 7 > length val then Fail AppTruncated
      else at_index val (v + 6) (\<lambda>al.
        let v = v + (7 + unat al + 7) in
        if v > length val then Fail AidTruncated else skip_apps val v n))"

fun active_slots :: "bytes \<Rightarrow> nat \<Rightarrow> nat \<Rightarrow> nat \<Rightarrow> (qmi_error, (byte \<times> string) option) result" where
  "active_slots val v s 0 = Ok None"
| "active_slots val v s (Suc n) =
     (if v + 6 > length val then Fail SlotTruncated
      else at_index val v (\<lambda>cardState. at_index val (v + 1) (\<lambda>slotState.
        at_index val (v + 4) (\<lambda>logicalSlot. at_index val (v + 5) (\<lambda>na.
          if cardState = 1 \<and> slotState = 1 then
            (if logicalSlot \<noteq> 0 then Ok (Some (logicalSlot, ''uim_slot_status''))
             else Ok (Some (of_nat (s + 1), ''uim_slot_status_index'')))
          else and_then (skip_apps val (v + 6) (unat na)) (\<lambda>v. active_slots val v (s + 1) n))))))"

function slot_walk :: "bytes \<Rightarrow> (qmi_error, (byte \<times> string) option) result" where
  "slot_walk rest =
     (if length rest < 3 then Fail NoCardStatus
      else at_index rest 0 (\<lambda>typ. get_u16 rest 1 (\<lambda>l.
        if 3 + unat l > length rest then Fail NoCardStatus
        else if typ = 0x10 then
          cut rest 3 (3 + unat l) (\<lambda>val.
            if length val < 9 then Fail CardStatusShort
            else at_index val 8 (\<lambda>ns. active_slots val 9 0 (unat ns)))
        else slot_walk (drop (3 + unat l) rest))))"
  by pat_completeness auto
termination by (relation "measure length") auto

definition parse_active_slot :: "bytes \<Rightarrow> (qmi_error, (byte \<times> string) option) result" where
  "parse_active_slot frame =
     and_then (parse_qmi_result_only frame) (\<lambda>_.
       if length frame < 13 then Fail (AnswerShort (length frame))
       else cut frame 13 (length frame) slot_walk)"

declare aids_walk.simps [simp del] slot_walk.simps [simp del]

section \<open>Operations\<close>

text \<open>\<open>SendQMI\<close> returns the information buffer whatever the status of the response.\<close>

datatype 'e qmi_call_error = QmiLink string 'e | QmiAnswer string qmi_error

definition send_qmi :: "string \<Rightarrow> ('d, 'e) link \<Rightarrow> bytes \<Rightarrow> 'd
    \<Rightarrow> ('e qmi_call_error, bytes) result \<times> 'd" where
  "send_qmi op lk payload d =
     (case lk uuid_qmi cid_qmi_msg command_type_set payload d of
        (Ok r, d') \<Rightarrow> (Ok (cd_info r), d')
      | (Fail e, d') \<Rightarrow> (Fail (QmiLink op e), d')
      | (Panic, d') \<Rightarrow> (Panic, d'))"

fun lift_qmi :: "string \<Rightarrow> (qmi_error, 'a) result \<Rightarrow> ('e qmi_call_error, 'a) result" where
  "lift_qmi op (Ok x) = Ok x"
| "lift_qmi op (Fail e) = Fail (QmiAnswer op e)"
| "lift_qmi op Panic = Panic"

definition alloc_uim_client :: "('d, 'e) link \<Rightarrow> 'd \<Rightarrow> ('e qmi_call_error, byte) result \<times> 'd" where
  "alloc_uim_client lk d =
     (case send_qmi ''ctl allocate'' lk (build_qmi_message 0 0 1 0x22 [1, 1, 0, 0x0B]) d of
        (Ok resp, d') \<Rightarrow> (lift_qmi ''parse ctl client id'' (extract_client_id resp), d')
      | (Fail e, d') \<Rightarrow> (Fail e, d')
      | (Panic, d') \<Rightarrow> (Panic, d'))"

definition release_uim_client :: "('d, 'e) link \<Rightarrow> byte \<Rightarrow> 'd \<Rightarrow> 'd" where
  "release_uim_client lk client d =
     snd (send_qmi ''ctl release'' lk (build_qmi_message 0 0 2 0x23 [1, 2, 0, 0x0B, client]) d)"

text \<open>
  The shape of the operations: allocate, defer the release, send one request, parse its
  answer. The deferred call runs on every way out, a panic included.
\<close>

definition with_uim_client ::
  "string \<Rightarrow> (byte \<Rightarrow> bytes) \<Rightarrow> (bytes \<Rightarrow> (qmi_error, 'a) result) \<Rightarrow> ('d, 'e) link \<Rightarrow> 'd
   \<Rightarrow> ('e qmi_call_error, 'a) result \<times> 'd" where
  "with_uim_client op req parse lk d =
     (case alloc_uim_client lk d of
        (Ok client, d1) \<Rightarrow>
          (case send_qmi op lk (req client) d1 of
             (Ok resp, d2) \<Rightarrow> (lift_qmi op (parse resp), release_uim_client lk client d2)
           | (Fail e, d2) \<Rightarrow> (Fail e, release_uim_client lk client d2)
           | (Panic, d2) \<Rightarrow> (Panic, release_uim_client lk client d2))
      | (Fail e, d1) \<Rightarrow> (Fail e, d1)
      | (Panic, d1) \<Rightarrow> (Panic, d1))"

definition qmi_uim_application_list where
  "qmi_uim_application_list lk =
     with_uim_client ''get_card_status'' (\<lambda>c. build_qmi_message 0x0B c 3 0x2F []) parse_all_aids lk"

definition uim_power_off_sim where
  "uim_power_off_sim lk slot =
     with_uim_client ''power_off'' (\<lambda>c. build_qmi_uim_power_request c 0x30 slot)
       parse_qmi_result_only lk"

definition uim_power_on_sim where
  "uim_power_on_sim lk slot =
     with_uim_client ''power_on'' (\<lambda>c. build_qmi_uim_power_request c 0x31 slot)
       parse_qmi_result_only lk"

definition qmi_uim_get_card_status where
  "qmi_uim_get_card_status lk =
     with_uim_client ''get_card_status'' (\<lambda>c. build_qmi_message 0x0B c 3 0x2F []) Ok lk"

definition qmi_read_transparent_ef where
  "qmi_read_transparent_ef lk fileID aid path off len =
     with_uim_client ''read_transparent''
       (\<lambda>c. build_qmi_read_transparent c 2 fileID aid path off len) parse_qmi_read_result lk"

definition qmi_read_record_ef where
  "qmi_read_record_ef lk fileID aid path rec len =
     with_uim_client ''read_record''
       (\<lambda>c. build_qmi_read_record c 2 fileID aid path rec len) parse_qmi_read_result lk"

section \<open>The walks are searches in the list of items\<close>

text \<open>The complete items of a list, in order; a truncated one ends it.\<close>

function qmi_tlvs :: "bytes \<Rightarrow> (byte \<times> bytes) list" where
  "qmi_tlvs rest =
     (if length rest < 3 then []
      else let l = unat (le16 (drop 1 rest)) in
        if 3 + l > length rest then []
        else (rest ! 0, take l (drop 3 rest)) # qmi_tlvs (drop (3 + l) rest))"
  by pat_completeness auto
termination by (relation "measure length") auto

declare qmi_tlvs.simps [simp del]

definition encode_tlv :: "byte \<times> bytes \<Rightarrow> bytes" where
  "encode_tlv tv = fst tv # le16_bytes (of_nat (length (snd tv))) @ snd tv"

lemma qmi_tlvs_none: "length rest < 3 \<or> 3 + unat (le16 (drop 1 rest)) > length rest \<Longrightarrow> qmi_tlvs rest = []"
  by (auto simp: qmi_tlvs.simps Let_def)

lemma qmi_tlvs_item:
  "3 \<le> length rest \<Longrightarrow> 3 + unat (le16 (drop 1 rest)) \<le> length rest \<Longrightarrow>
     qmi_tlvs rest = (rest ! 0, take (unat (le16 (drop 1 rest))) (drop 3 rest))
       # qmi_tlvs (drop (3 + unat (le16 (drop 1 rest))) rest)"
  by (subst qmi_tlvs.simps) (simp add: Let_def)

text \<open>
  The rule the walks are proved with: a suffix that holds no complete item, or one that
  starts with an item \<open>(t, v)\<close> and goes on with a shorter suffix.
\<close>

lemma tlv_induct [case_names stop item]:
  assumes stop: "\<And>rest. length rest < 3 \<or> 3 + unat (le16 (drop 1 rest)) > length rest \<Longrightarrow> P rest"
    and item: "\<And>rest. 3 \<le> length rest \<Longrightarrow> 3 + unat (le16 (drop 1 rest)) \<le> length rest \<Longrightarrow>
      P (drop (3 + unat (le16 (drop 1 rest))) rest) \<Longrightarrow> P rest"
  shows "P rest"
proof (induction "length rest" arbitrary: rest rule: less_induct)
  case less
  show ?case
  proof (cases "length rest < 3 \<or> 3 + unat (le16 (drop 1 rest)) > length rest")
    case False
    then have l: "3 \<le> length rest" "3 + unat (le16 (drop 1 rest)) \<le> length rest" by linarith+
    then have "length (drop (3 + unat (le16 (drop 1 rest))) rest) < length rest" by simp
    from item [OF l less [OF this]] show ?thesis .
  qed (rule stop)
qed

lemma le16_take: "2 \<le> n \<Longrightarrow> le16 (take n b) = le16 b"
  by (simp add: le16_def min_def)

lemma le16_take2: "4 \<le> n \<Longrightarrow> le16 (take (n - 2) b) = le16 b"
  by (rule le16_take) simp

lemma client_id_walk_find:
  "client_id_walk rest =
     (case find (\<lambda>(t, v). t = 1 \<and> 2 \<le> length v) (qmi_tlvs rest) of
        None \<Rightarrow> Fail NoClientTlv | Some (t, v) \<Rightarrow> Ok (v ! 1))"
proof (induction rest rule: tlv_induct)
  case (stop rest)
  then show ?case by (subst client_id_walk.simps) (auto simp: qmi_tlvs_none at_index_def)
next
  case (item rest)
  then have "rest \<noteq> []" by auto
  with item show ?case by (subst client_id_walk.simps) (simp add: qmi_tlvs_item [OF item(1,2)])
qed

lemma result_walk_find:
  "result_walk rest =
     (case find (\<lambda>(t, v). t = 2 \<and> 4 \<le> length v) (qmi_tlvs rest) of
        None \<Rightarrow> Fail NoResultTlv
      | Some (t, v) \<Rightarrow> if le16 v \<noteq> 0 then Fail (QmiRefused (le16 (drop 2 v))) else Ok ())"
proof (induction rest rule: tlv_induct)
  case (stop rest)
  then show ?case by (subst result_walk.simps) (auto simp: qmi_tlvs_none at_index_def)
next
  case (item rest)
  then have "rest \<noteq> []" by auto
  with item show ?case
    by (subst result_walk.simps) (simp add: qmi_tlvs_item [OF item(1,2)] le16_take le16_take2 drop_take)
qed

fun last_match :: "('a \<Rightarrow> 'b option) \<Rightarrow> 'a list \<Rightarrow> 'b option" where
  "last_match f [] = None"
| "last_match f (x # xs) = (case last_match f xs of Some y \<Rightarrow> Some y | None \<Rightarrow> f x)"

definition failure_of :: "byte \<times> bytes \<Rightarrow> u16 option" where
  "failure_of tv = (case tv of (t, v) \<Rightarrow>
     if t = 0x02 \<and> 4 \<le> length v \<and> le16 v \<noteq> 0 then Some (le16 (drop 2 v)) else None)"

definition words_of :: "byte \<times> bytes \<Rightarrow> (byte \<times> byte) option" where
  "words_of tv = (case tv of (t, v) \<Rightarrow>
     if t = 0x10 \<and> 2 \<le> length v then Some (v ! 0, v ! 1) else None)"

definition data_of :: "byte \<times> bytes \<Rightarrow> bytes option" where
  "data_of tv = (case tv of (t, v) \<Rightarrow>
     if t = 0x11 \<and> 2 \<le> length v \<and> 2 + unat (le16 v) \<le> length v
     then Some (take (unat (le16 v)) (drop 2 v)) else None)"

definition absorb :: "(byte \<times> bytes) list \<Rightarrow> read_vars \<Rightarrow> read_vars" where
  "absorb tvs v =
     \<lparr>rv_failed = rv_failed v \<or> last_match failure_of tvs \<noteq> None,
      rv_error = (case last_match failure_of tvs of None \<Rightarrow> rv_error v | Some e \<Rightarrow> e),
      rv_have = rv_have v \<or> last_match words_of tvs \<noteq> None,
      rv_sw1 = (case last_match words_of tvs of None \<Rightarrow> rv_sw1 v | Some w \<Rightarrow> fst w),
      rv_sw2 = (case last_match words_of tvs of None \<Rightarrow> rv_sw2 v | Some w \<Rightarrow> snd w),
      rv_data = (case last_match data_of tvs of None \<Rightarrow> rv_data v | Some d \<Rightarrow> Some d)\<rparr>"

lemma read_tlv_absorb: "read_tlv t val v = Ok (absorb [(t, val)] v)"
  by (auto simp: read_tlv_def absorb_def failure_of_def words_of_def data_of_def at_index_def)

lemma absorb_Cons: "absorb (tv # tvs) v = absorb tvs (absorb [tv] v)"
  by (auto simp: absorb_def split: option.splits)

lemma absorb_Nil: "absorb [] v = v"
  by (simp add: absorb_def)

lemma read_walk_absorb: "read_walk rest v = Ok (absorb (qmi_tlvs rest) v)"
proof (induction rest arbitrary: v rule: tlv_induct)
  case (stop rest)
  then show ?case by (subst read_walk.simps) (auto simp: qmi_tlvs_none absorb_Nil at_index_def)
next
  case (item rest)
  then have "rest \<noteq> []" by auto
  with item show ?case
    by (subst read_walk.simps, subst qmi_tlvs_item [OF item(1,2)], subst absorb_Cons)
      (simp add: read_tlv_absorb)
qed

text \<open>
  The parsers of QMI answers are searches in the list of the answer's items, on any bytes and
  without a panic: the client id is in the first item 1 that is long enough, the result is
  that of the first complete item 2, and a read gives the error of the last item 2 that
  reports one, else the last card status words and the last data that fits its item.
\<close>

theorem qmi_walks_follow_the_items:
  "extract_client_id data =
     (if length data < 12 then Fail (AnswerShort (length data))
      else case find (\<lambda>(t, v). t = 1 \<and> 2 \<le> length v) (qmi_tlvs (drop 12 data)) of
        None \<Rightarrow> Fail NoClientTlv | Some (t, v) \<Rightarrow> Ok (v ! 1))
   \<and> parse_qmi_result_only data =
     (if length data < 13 then Fail (AnswerShort (length data))
      else case find (\<lambda>(t, v). t = 2 \<and> 4 \<le> length v) (qmi_tlvs (drop 13 data)) of
        None \<Rightarrow> Fail NoResultTlv
      | Some (t, v) \<Rightarrow> if le16 v \<noteq> 0 then Fail (QmiRefused (le16 (drop 2 v))) else Ok ())
   \<and> parse_qmi_read_result data =
     (if length data < 13 then Fail (AnswerShort (length data))
      else let items = qmi_tlvs (drop 13 data) in
        case last_match failure_of items of
          Some e \<Rightarrow> Fail (QmiRefused e)
        | None \<Rightarrow>
            (case (last_match words_of items, last_match data_of items) of
               (None, None) \<Rightarrow> Fail NoReadTlv
             | (None, d) \<Rightarrow> Ok (d, 0, 0)
             | (Some (sw1, sw2), d) \<Rightarrow> Ok (d, sw1, sw2)))"
proof (intro conjI)
  show "extract_client_id data =
     (if length data < 12 then Fail (AnswerShort (length data))
      else case find (\<lambda>(t, v). t = 1 \<and> 2 \<le> length v) (qmi_tlvs (drop 12 data)) of
        None \<Rightarrow> Fail NoClientTlv | Some (t, v) \<Rightarrow> Ok (v ! 1))"
    by (simp add: extract_client_id_def client_id_walk_find)
  show "parse_qmi_result_only data =
     (if length data < 13 then Fail (AnswerShort (length data))
      else case find (\<lambda>(t, v). t = 2 \<and> 4 \<le> length v) (qmi_tlvs (drop 13 data)) of
        None \<Rightarrow> Fail NoResultTlv
      | Some (t, v) \<Rightarrow> if le16 v \<noteq> 0 then Fail (QmiRefused (le16 (drop 2 v))) else Ok ())"
    by (simp add: parse_qmi_result_only_def result_walk_find)
  show "parse_qmi_read_result data =
     (if length data < 13 then Fail (AnswerShort (length data))
      else let items = qmi_tlvs (drop 13 data) in
        case last_match failure_of items of
          Some e \<Rightarrow> Fail (QmiRefused e)
        | None \<Rightarrow>
            (case (last_match words_of items, last_match data_of items) of
               (None, None) \<Rightarrow> Fail NoReadTlv
             | (None, d) \<Rightarrow> Ok (d, 0, 0)
             | (Some (sw1, sw2), d) \<Rightarrow> Ok (d, sw1, sw2)))"
    by (auto simp: parse_qmi_read_result_def read_walk_absorb absorb_def read_vars0_def Let_def
        split: option.splits)
qed

section \<open>Reading the card status a card reports\<close>

text \<open>
  The layout of UIM\_GET\_CARD\_STATUS that both comments of the package give: eight bytes of
  indexes, the number of slots, per slot card state, UPIN state, UPIN retries, UPUK retries,
  error code and the number of applications, per application type, five state bytes, the
  AID with its length, and seven bytes of PIN states.
\<close>

record app_status =
  as_type :: byte
  as_states :: bytes
  as_aid :: bytes
  as_pins :: bytes

record slot_status =
  ss_card :: byte
  ss_upin :: byte
  ss_upin_retries :: byte
  ss_upuk_retries :: byte
  ss_error :: byte
  ss_apps :: "app_status list"

definition app_ok :: "app_status \<Rightarrow> bool" where
  "app_ok a \<longleftrightarrow> length (as_states a) = 5 \<and> length (as_aid a) < 256 \<and> length (as_pins a) = 7"

definition slot_ok :: "slot_status \<Rightarrow> bool" where
  "slot_ok s \<longleftrightarrow> length (ss_apps s) < 256 \<and> list_all app_ok (ss_apps s)"

definition app_bytes :: "app_status \<Rightarrow> bytes" where
  "app_bytes a = [as_type a] @ as_states a @ [of_nat (length (as_aid a))] @ as_aid a @ as_pins a"

definition slot_bytes :: "slot_status \<Rightarrow> bytes" where
  "slot_bytes s =
     [ss_card s, ss_upin s, ss_upin_retries s, ss_upuk_retries s, ss_error s,
      of_nat (length (ss_apps s))] @ concat (map app_bytes (ss_apps s))"

definition status_bytes :: "bytes \<Rightarrow> slot_status list \<Rightarrow> bytes" where
  "status_bytes idx slots = idx @ [of_nat (length slots)] @ concat (map slot_bytes slots)"

definition app_info :: "app_status \<Rightarrow> uicc_app_info" where
  "app_info a = \<lparr>ai_type = as_type a, ai_aid = as_aid a\<rparr>"

lemma small_length_byte: "n < 256 \<Longrightarrow> unat (of_nat n :: byte) = n"
  by (simp add: unat_of_nat take_bit_eq_mod)

lemma app_bytes_length: "app_ok a \<Longrightarrow> length (app_bytes a) = 14 + length (as_aid a)"
  by (simp add: app_bytes_def app_ok_def)

lemma card_apps_step:
  assumes "w ! v = ty" and "w ! (v + 6) = al" and "take (unat al) (drop (v + 7) w) = aid"
    and "v + 14 + unat al \<le> length w"
  shows "card_apps w v (Suc n) apps
    = card_apps w (v + 14 + unat al) n (apps @ [\<lparr>ai_type = ty, ai_aid = aid\<rparr>])"
proof -
  have "v + 6 + 1 = v + 7" "v + 7 + unat al + 7 = v + 14 + unat al" by simp_all
  then show ?thesis using assms by (simp only: card_apps.simps Let_def) (simp add: add_ac)
qed

lemma card_apps_all:
  "list_all app_ok as \<Longrightarrow> length pre = v \<Longrightarrow>
     card_apps (pre @ concat (map app_bytes as) @ rest) v (length as) apps
     = Ok (Stop (v + length (concat (map app_bytes as))) (apps @ map app_info as))"
proof (induction as arbitrary: pre v apps)
  case Nil
  then show ?case by simp
next
  case (Cons a as)
  let ?val = "pre @ concat (map app_bytes (a # as)) @ rest"
  have a: "length (as_states a) = 5" "length (as_aid a) < 256" "length (as_pins a) = 7"
    using Cons.prems by (auto simp: app_ok_def)
  let ?n = "length (as_aid a)"
  have parts: "?val ! v = as_type a" "?val ! (v + 6) = of_nat ?n"
      "take ?n (drop (v + 7) ?val) = as_aid a"
    using Cons.prems(2) a by (simp_all add: app_bytes_def nth_append)
  have len: "v + 14 + ?n \<le> length ?val"
    using Cons.prems by (simp add: app_bytes_length)
  have "card_apps ((pre @ app_bytes a) @ concat (map app_bytes as) @ rest) (v + 14 + ?n)
      (length as) (apps @ [app_info a])
      = Ok (Stop (v + 14 + ?n + length (concat (map app_bytes as)))
          ((apps @ [app_info a]) @ map app_info as))"
    using Cons.prems by (intro Cons.IH) (simp_all add: app_bytes_length)
  moreover have "(pre @ app_bytes a) @ concat (map app_bytes as) @ rest = ?val" by simp
  moreover have "card_apps ?val v (Suc (length as)) apps
      = card_apps ?val (v + 14 + ?n) (length as) (apps @ [app_info a])"
    using card_apps_step [OF parts(1,2), of "as_aid a"] parts(3) len a
    by (simp only: small_length_byte app_info_def)
  ultimately show ?case using Cons.prems by (simp add: app_bytes_length)
qed

lemma slot_bytes_length:
  "length (slot_bytes s) = 6 + length (concat (map app_bytes (ss_apps s)))"
  by (simp add: slot_bytes_def)

lemma card_slots_all:
  "list_all slot_ok ss \<Longrightarrow> length pre = v \<Longrightarrow>
     card_slots (pre @ concat (map slot_bytes ss) @ rest) v (length ss) apps
     = Ok (Stop (v + length (concat (map slot_bytes ss)))
         (apps @ map app_info (concat (map ss_apps ss))))"
proof (induction ss arbitrary: pre v apps)
  case Nil
  then show ?case by simp
next
  case (Cons s ss)
  let ?val = "pre @ concat (map slot_bytes (s # ss)) @ rest"
  let ?body = "concat (map app_bytes (ss_apps s))"
  have s: "length (ss_apps s) < 256" "list_all app_ok (ss_apps s)"
    using Cons.prems by (auto simp: slot_ok_def)
  define fixed where "fixed = [ss_card s, ss_upin s, ss_upin_retries s, ss_upuk_retries s,
      ss_error s, of_nat (length (ss_apps s)) :: byte]"
  have val: "?val = (pre @ fixed) @ ?body @ (concat (map slot_bytes ss) @ rest)"
    by (simp add: slot_bytes_def fixed_def)
  have na: "?val ! (v + 5) = of_nat (length (ss_apps s))"
    using Cons.prems(2) by (simp add: slot_bytes_def nth_append)
  have len: "v + 6 + length ?body \<le> length ?val" unfolding val using Cons.prems(2)
    by (simp add: fixed_def)
  have "card_apps ?val (6 + v) (length (ss_apps s)) apps
      = Ok (Stop (6 + v + length ?body) (apps @ map app_info (ss_apps s)))"
    unfolding val by (rule card_apps_all [OF s(2)]) (use Cons.prems(2) in \<open>simp add: fixed_def\<close>)
  moreover have "card_slots ?val (6 + v + length ?body) (length ss) (apps @ map app_info (ss_apps s))
      = Ok (Stop (6 + v + length ?body + length (concat (map slot_bytes ss)))
          ((apps @ map app_info (ss_apps s)) @ map app_info (concat (map ss_apps ss))))"
    using Cons.IH [of "pre @ slot_bytes s" "6 + v + length ?body" "apps @ map app_info (ss_apps s)"]
      Cons.prems by (simp add: slot_bytes_length)
  ultimately have "card_slots ?val v (length (s # ss)) apps
      = Ok (Stop (6 + v + length ?body + length (concat (map slot_bytes ss)))
          ((apps @ map app_info (ss_apps s)) @ map app_info (concat (map ss_apps ss))))"
    using len na s
    by (simp add: Let_def small_length_byte del: concat.simps list.map)
  then show ?case by (simp add: slot_bytes_length add.assoc)
qed

lemma encode_tlv_length [simp]: "length (encode_tlv tv) = 3 + length (snd tv)"
  by (simp add: encode_tlv_def)

lemma encode_tlv_nonempty [simp]: "encode_tlv tv \<noteq> []"
  by (simp add: encode_tlv_def)

lemma encode_tlv_parts:
  assumes "length (snd tv) < 65536"
  shows "unat (le16 (drop (Suc 0) (encode_tlv tv @ rest))) = length (snd tv)"
    and "(encode_tlv tv @ rest) ! 0 = fst tv"
    and "take (length (snd tv)) (drop 3 (encode_tlv tv @ rest)) = snd tv"
    and "drop (3 + length (snd tv)) (encode_tlv tv @ rest) = rest"
  using assms append_eq_conv_conj [of "encode_tlv tv" rest "encode_tlv tv @ rest"]
  by (simp_all add: encode_tlv_def unat_of_nat take_bit_eq_mod numeral_3_eq_3)

lemma qmi_tlvs_encode:
  "length (snd tv) < 65536 \<Longrightarrow> qmi_tlvs (encode_tlv tv @ rest) = tv # qmi_tlvs rest"
  using qmi_tlvs_item [of "encode_tlv tv @ rest"] encode_tlv_parts [of tv rest] by simp

lemma aids_walk_skip:
  assumes "list_all (\<lambda>(t, v). t \<noteq> 0x10 \<and> length v < 65536) pre"
  shows "aids_walk (concat (map encode_tlv pre) @ rest) apps = aids_walk rest apps"
  using assms
proof (induction pre)
  case (Cons tv pre)
  have n: "length (snd tv) < 65536" "fst tv \<noteq> 0x10" using Cons.prems by auto
  note parts = encode_tlv_parts [OF n(1), of "concat (map encode_tlv pre) @ rest"]
  show ?case using Cons parts n(2) by (simp, subst aids_walk.simps) simp
qed simp

lemma slot_walk_skip:
  assumes "list_all (\<lambda>(t, v). t \<noteq> 0x10 \<and> length v < 65536) pre"
  shows "slot_walk (concat (map encode_tlv pre) @ rest) = slot_walk rest"
  using assms
proof (induction pre)
  case (Cons tv pre)
  have n: "length (snd tv) < 65536" "fst tv \<noteq> 0x10" using Cons.prems by auto
  note parts = encode_tlv_parts [OF n(1), of "concat (map encode_tlv pre) @ rest"]
  show ?case using Cons parts n(2) by (simp, subst slot_walk.simps) simp
qed simp

definition status_ok :: "bytes \<Rightarrow> slot_status list \<Rightarrow> bool" where
  "status_ok idx slots \<longleftrightarrow>
     length idx = 8 \<and> length slots < 256 \<and> list_all slot_ok slots
     \<and> length (status_bytes idx slots) < 65536"

lemma card_status_apps_all:
  assumes "status_ok idx slots"
  shows "card_status_apps (status_bytes idx slots) apps
    = Ok (Stop (length (status_bytes idx slots)) (apps @ map app_info (concat (map ss_apps slots))))"
proof -
  have ok: "length idx = 8" "length slots < 256" "list_all slot_ok slots"
    using assms by (auto simp: status_ok_def)
  have "(idx @ [of_nat (length slots)] @ concat (map slot_bytes slots)) ! 8 = of_nat (length slots)"
    using ok(1) by (simp add: nth_append)
  moreover have "card_slots ((idx @ [of_nat (length slots)]) @ concat (map slot_bytes slots) @ [])
      9 (length slots) apps
      = Ok (Stop (9 + length (concat (map slot_bytes slots)))
          (apps @ map app_info (concat (map ss_apps slots))))"
    using ok by (intro card_slots_all) simp_all
  ultimately show ?thesis using ok
    by (simp add: card_status_apps_def status_bytes_def small_length_byte)
qed

text \<open>
  Every application a card reports is found: for any slots and applications, with any items
  before and after the card status, \<open>parseAllAIDs\<close> returns the type and the complete AID of
  each, in order, over all the slots.
\<close>

theorem card_applications_are_found:
  assumes "length hdr = 13" and "list_all (\<lambda>(t, v). t \<noteq> 0x10 \<and> length v < 65536) pre"
    and "status_ok idx slots"
  shows "parse_all_aids (hdr @ concat (map encode_tlv pre)
           @ encode_tlv (0x10, status_bytes idx slots) @ post)
         = Ok (map app_info (concat (map ss_apps slots)))"
proof -
  let ?tv = "(0x10 :: byte, status_bytes idx slots)"
  have n: "length (snd ?tv) < 65536" using assms(3) by (simp add: status_ok_def)
  have "aids_walk (encode_tlv ?tv @ post) [] = Ok (map app_info (concat (map ss_apps slots)))"
    using encode_tlv_parts [OF n, of post] card_status_apps_all [OF assms(3)]
    by (subst aids_walk.simps) simp
  with aids_walk_skip [OF assms(2)] show ?thesis
    using assms(1) by (simp add: parse_all_aids_def)
qed

definition demo_slots :: "slot_status list" where
  "demo_slots =
     [\<lparr>ss_card = 1, ss_upin = 0, ss_upin_retries = 3, ss_upuk_retries = 10, ss_error = 0,
       ss_apps = [\<lparr>as_type = 2, as_states = [7, 0, 0, 0, 0], as_aid = [0xA0, 0, 0, 0, 0x87],
                   as_pins = [0, 1, 3, 10, 1, 3, 10]\<rparr>]\<rparr>]"

theorem card_applications_are_found_witness:
  "parse_all_aids (zeros 13 @ concat (map encode_tlv [(2, zeros 4)])
     @ encode_tlv (0x10, status_bytes (zeros 8) demo_slots) @ [])
   = Ok [\<lparr>ai_type = 2, ai_aid = [0xA0, 0, 0, 0, 0x87]\<rparr>]"
proof -
  have "length (status_bytes (zeros 8) demo_slots) = 34" by code_simp
  then have "status_ok (zeros 8) demo_slots"
    by (simp add: status_ok_def demo_slots_def slot_ok_def app_ok_def)
  from card_applications_are_found [of "zeros 13" "[(2, zeros 4)]", OF _ _ this, of "[]"]
  show ?thesis by (simp add: demo_slots_def app_info_def)
qed

section \<open>The active slot\<close>

text \<open>
  What \<open>ParseActiveSlot\<close> computes on the same layout: it takes the UPIN state for a slot
  state and the error code for a slot number.
\<close>

fun first_active :: "nat \<Rightarrow> slot_status list \<Rightarrow> (byte \<times> string) option" where
  "first_active i [] = None"
| "first_active i (s # ss) =
     (if ss_card s = 1 \<and> ss_upin s = 1 then
        (if ss_error s \<noteq> 0 then Some (ss_error s, ''uim_slot_status'')
         else Some (of_nat (i + 1), ''uim_slot_status_index''))
      else first_active (i + 1) ss)"

lemma skip_apps_all:
  "list_all app_ok as \<Longrightarrow> length pre = v \<Longrightarrow>
     skip_apps (pre @ concat (map app_bytes as) @ rest) v (length as)
     = Ok (v + length (concat (map app_bytes as)))"
proof (induction as arbitrary: pre v)
  case Nil
  then show ?case by simp
next
  case (Cons a as)
  let ?val = "pre @ concat (map app_bytes (a # as)) @ rest" and ?n = "length (as_aid a)"
  have a: "length (as_states a) = 5" "?n < 256" "length (as_pins a) = 7"
    using Cons.prems by (auto simp: app_ok_def)
  have al: "?val ! (v + 6) = of_nat ?n"
    using Cons.prems(2) a by (simp add: app_bytes_def nth_append)
  have len: "v + 14 + ?n \<le> length ?val" using Cons.prems by (simp add: app_bytes_length)
  have "skip_apps ?val (v + 14 + ?n) (length as) = Ok (v + 14 + ?n + length (concat (map app_bytes as)))"
    using Cons.IH [of "pre @ app_bytes a" "v + 14 + ?n"] Cons.prems by (simp add: app_bytes_length)
  moreover have "v + (7 + ?n + 7) = v + 14 + ?n" by simp
  ultimately have "skip_apps ?val v (Suc (length as))
      = Ok (v + 14 + ?n + length (concat (map app_bytes as)))"
    using len al a by (simp only: skip_apps.simps Let_def at_index_def small_length_byte) simp
  then show ?case using Cons.prems by (simp add: app_bytes_length)
qed

lemma active_slots_all:
  "list_all slot_ok ss \<Longrightarrow> length pre = v \<Longrightarrow>
     active_slots (pre @ concat (map slot_bytes ss) @ rest) v i (length ss) = Ok (first_active i ss)"
proof (induction ss arbitrary: pre v i)
  case Nil
  then show ?case by simp
next
  case (Cons s ss)
  let ?val = "pre @ concat (map slot_bytes (s # ss)) @ rest"
  let ?body = "concat (map app_bytes (ss_apps s))"
  have s: "length (ss_apps s) < 256" "list_all app_ok (ss_apps s)"
    using Cons.prems by (auto simp: slot_ok_def)
  define fixed where "fixed = [ss_card s, ss_upin s, ss_upin_retries s, ss_upuk_retries s,
      ss_error s, of_nat (length (ss_apps s)) :: byte]"
  have val: "?val = (pre @ fixed) @ ?body @ (concat (map slot_bytes ss) @ rest)"
    by (simp add: slot_bytes_def fixed_def)
  have f: "?val ! v = ss_card s" "?val ! (v + 1) = ss_upin s" "?val ! (v + 4) = ss_error s"
      "?val ! (v + 5) = of_nat (length (ss_apps s))"
    using Cons.prems(2) by (simp_all add: slot_bytes_def nth_append)
  have len: "v + 6 + length ?body \<le> length ?val" unfolding val using Cons.prems(2)
    by (simp add: fixed_def)
  have skip: "skip_apps ?val (v + 6) (length (ss_apps s)) = Ok (v + 6 + length ?body)"
    unfolding val by (rule skip_apps_all [OF s(2)]) (use Cons.prems(2) in \<open>simp add: fixed_def\<close>)
  have go_on: "active_slots ?val (v + 6 + length ?body) (i + 1) (length ss) = Ok (first_active (i + 1) ss)"
    using Cons.IH [of "pre @ slot_bytes s" "v + 6 + length ?body" "i + 1"] Cons.prems
    by (simp add: slot_bytes_length)
  have "active_slots ?val v i (Suc (length ss)) = Ok (first_active i (s # ss))"
    using len f skip go_on s(1)
    by (simp only: active_slots.simps first_active.simps at_index_def small_length_byte) simp
  then show ?case by simp
qed

lemma parse_active_slot_all:
  assumes "length hdr = 13" and "status_ok idx slots" and "length (snd ok) = 4" and "fst ok = 2"
    and "le16 (snd ok) = 0"
  shows "parse_active_slot (hdr @ encode_tlv ok @ encode_tlv (0x10, status_bytes idx slots) @ post)
    = Ok (first_active 0 slots)"
proof -
  let ?tv = "(0x10 :: byte, status_bytes idx slots)"
  let ?frame = "hdr @ encode_tlv ok @ encode_tlv ?tv @ post"
  have n: "length (snd ?tv) < 65536" "length (snd ok) < 65536"
    using assms by (auto simp: status_ok_def)
  have "parse_qmi_result_only ?frame = Ok ()"
    using assms qmi_tlvs_encode [OF n(2)]
    by (cases ok) (simp add: parse_qmi_result_only_def result_walk_find)
  moreover have "slot_walk (concat (map encode_tlv [ok]) @ encode_tlv ?tv @ post)
      = slot_walk (encode_tlv ?tv @ post)"
    using assms by (intro slot_walk_skip) (cases ok, simp)
  moreover have "slot_walk (encode_tlv ?tv @ post) = Ok (first_active 0 slots)"
  proof -
    have s: "length idx = 8" "length slots < 256" "list_all slot_ok slots"
      using assms by (auto simp: status_ok_def)
    have "active_slots ((idx @ [of_nat (length slots)]) @ concat (map slot_bytes slots) @ []) 9 0
        (length slots) = Ok (first_active 0 slots)"
      using s by (intro active_slots_all) simp_all
    moreover have "status_bytes idx slots ! 8 = of_nat (length slots)"
        "9 \<le> length (status_bytes idx slots)"
      using s(1) by (simp_all add: status_bytes_def nth_append)
    ultimately show ?thesis
      using encode_tlv_parts [OF n(1), of post] s
      by (subst slot_walk.simps) (simp add: status_bytes_def small_length_byte)
  qed
  ultimately show ?thesis using assms(1) by (simp add: parse_active_slot_def)
qed

text \<open>
  The number of the active slot is not a slot number: by the layout above, a card that is present
  in the first slot, with UPIN enabled and error code \<open>e\<close>, is reported as active in slot
  \<open>e\<close>; the same card with UPIN not enabled is reported as no active slot at all.
\<close>

theorem active_slot_is_an_error_code:
  assumes "e \<noteq> 0" and "length apps < 256" and "list_all app_ok apps"
    and "length (status_bytes (zeros 8) [\<lparr>ss_card = 1, ss_upin = p, ss_upin_retries = 3,
           ss_upuk_retries = 10, ss_error = e, ss_apps = apps\<rparr>]) < 65536"
  shows "parse_active_slot (zeros 13 @ encode_tlv (2, zeros 4) @ encode_tlv (0x10,
           status_bytes (zeros 8) [\<lparr>ss_card = 1, ss_upin = p, ss_upin_retries = 3,
             ss_upuk_retries = 10, ss_error = e, ss_apps = apps\<rparr>]))
         = Ok (if p = 1 then Some (e, ''uim_slot_status'') else None)"
proof -
  have "status_ok (zeros 8) [\<lparr>ss_card = 1, ss_upin = p, ss_upin_retries = 3,
           ss_upuk_retries = 10, ss_error = e, ss_apps = apps\<rparr>]"
    using assms by (simp add: status_ok_def slot_ok_def)
  moreover have "le16 (zeros 4) = 0" by code_simp
  ultimately show ?thesis
    using parse_active_slot_all [of "zeros 13" "zeros 8" _ "(2, zeros 4)" "[]"] assms(1) by simp
qed

theorem active_slot_is_an_error_code_witness:
  "parse_active_slot (zeros 13 @ encode_tlv (2, zeros 4) @ encode_tlv (0x10,
     status_bytes (zeros 8) [\<lparr>ss_card = 1, ss_upin = 1, ss_upin_retries = 3,
       ss_upuk_retries = 10, ss_error = 3, ss_apps = []\<rparr>])) = Ok (Some (3, ''uim_slot_status''))"
proof -
  have "length (status_bytes (zeros 8) [\<lparr>ss_card = 1, ss_upin = 1, ss_upin_retries = 3,
      ss_upuk_retries = 10, ss_error = 3, ss_apps = []\<rparr>]) < 65536"
    by (simp add: status_bytes_def slot_bytes_def)
  then show ?thesis using active_slot_is_an_error_code [of 3 "[]" 1] by simp
qed

section \<open>Clients are released\<close>

text \<open>
  A link that records the frames it is given and answers the \<open>n\<close>-th one from a script.
\<close>

definition scripted_link :: "(nat \<Rightarrow> ('e, command_done) result) \<Rightarrow> (bytes list, 'e) link" where
  "scripted_link ans svc cid ct info log = (ans (length log), log @ [info])"

definition client_given :: "('e, command_done) result \<Rightarrow> byte option" where
  "client_given a =
     (case a of Ok r \<Rightarrow> (case extract_client_id (cd_info r) of Ok c \<Rightarrow> Some c | _ \<Rightarrow> None) | _ \<Rightarrow> None)"

text \<open>
  C19. No client leaks: whatever the modem answers and whether or not the request in the middle
  fails, an operation of the UIM service sends an allocation, and if that gave it a client,
  its one request and the release of that very client, in this order, and nothing else.
\<close>

theorem every_uim_client_is_released:
  "snd (with_uim_client op req parse (scripted_link ans) [])
   = build_qmi_message 0 0 1 0x22 [1, 1, 0, 0x0B]
     # (case client_given (ans 0) of
          None \<Rightarrow> []
        | Some c \<Rightarrow> [req c, build_qmi_message 0 0 2 0x23 [1, 2, 0, 0x0B, c]])"
  by (cases "ans 0"; cases "ans 1")
    (auto simp: with_uim_client_def alloc_uim_client_def send_qmi_def scripted_link_def
      client_given_def release_uim_client_def split: result.splits)

end
