(* ===== verification/Go_Text.thy ===== *)
theory Go_Text
  imports Go_Strings
begin

text \<open>
  More of packages \<open>strings\<close>, \<open>strconv\<close> and \<open>fmt\<close> on byte strings: searching and splitting by a
  string, trimming by a set of ASCII bytes, the unsigned decimal parser and \<open>%d\<close> of \<open>fmt.Sscanf\<close>.
\<close>

section \<open>Searching\<close>

text \<open>\<open>strings.Index\<close>, \<open>strings.Contains\<close>, \<open>strings.ReplaceAll\<close> of one byte by nothing.\<close>

fun index_of :: "string \<Rightarrow> string \<Rightarrow> nat option" where
  "index_of p [] = (if p = [] then Some 0 else None)"
| "index_of p (c # s) = (if has_prefix (c # s) p then Some 0 else map_option Suc (index_of p s))"

definition contains :: "string \<Rightarrow> string \<Rightarrow> bool" where
  "contains s p \<longleftrightarrow> index_of p s \<noteq> None"

definition remove_char :: "char \<Rightarrow> string \<Rightarrow> string" where
  "remove_char c s = filter (\<lambda>d. d \<noteq> c) s"

lemma index_of_SomeD: "index_of p s = Some i \<Longrightarrow> \<exists>r. drop i s = p @ r \<and> i + length p \<le> length s"
proof (induction s arbitrary: i)
  case Nil
  then show ?case by (simp split: if_splits)
next
  case (Cons c s)
  show ?case
  proof (cases "has_prefix (c # s) p")
    case True
    then obtain r where "c # s = p @ r" by (auto simp: has_prefix_iff)
    with True Cons.prems show ?thesis by (metis add_0 drop0 index_of.simps(2) le_add1 length_append
        option.inject)
  next
    case False
    with Cons.prems obtain j where "index_of p s = Some j" "i = Suc j" by auto
    with Cons.IH [of j] show ?thesis by auto
  qed
qed

lemma index_of_None: "index_of p s = None \<longleftrightarrow> (\<forall>a b. s \<noteq> a @ p @ b)"
proof (induction s)
  case Nil
  then show ?case by auto
next
  case (Cons c s)
  show ?case
  proof (cases "has_prefix (c # s) p")
    case True
    then obtain r where "c # s = [] @ p @ r" by (auto simp: has_prefix_iff)
    with True show ?thesis by (metis index_of.simps(2) option.distinct(1))
  next
    case False
    have "(\<exists>a b. c # s = a @ p @ b) \<longleftrightarrow> (\<exists>a b. s = a @ p @ b)"
    proof
      assume "\<exists>a b. c # s = a @ p @ b"
      then obtain a b where ab: "c # s = a @ p @ b" by blast
      with False have "a \<noteq> []" by (auto simp: has_prefix_iff)
      with ab show "\<exists>a b. s = a @ p @ b" by (cases a) auto
    next
      assume "\<exists>a b. s = a @ p @ b"
      then show "\<exists>a b. c # s = a @ p @ b" by (metis append_Cons)
    qed
    with False Cons show ?thesis by auto
  qed
qed

lemma contains_iff: "contains s p \<longleftrightarrow> (\<exists>a b. s = a @ p @ b)"
  using index_of_None [of p s] by (auto simp: contains_def)

section \<open>Splitting\<close>

text \<open>\<open>strings.Split\<close> for a separator that is not empty, and \<open>strings.SplitN\<close> for one byte.\<close>

function split_str :: "string \<Rightarrow> string \<Rightarrow> string list" where
  "split_str sep s =
     (if sep = [] then [s]
      else case index_of sep s of
        None \<Rightarrow> [s]
      | Some i \<Rightarrow> take i s # split_str sep (drop (i + length sep) s))"
  by pat_completeness auto
termination
proof (relation "measure (length \<circ> snd)", goal_cases)
  case (2 sep s i)
  then have "i + length sep \<le> length s" "0 < length sep" by (auto dest: index_of_SomeD)
  then have "length s - (i + length sep) < length s" by linarith
  then show ?case by simp
qed simp

declare split_str.simps [simp del]

fun split_n :: "nat \<Rightarrow> char \<Rightarrow> string \<Rightarrow> string list" where
  "split_n 0 c s = []"
| "split_n (Suc 0) c s = [s]"
| "split_n (Suc (Suc n)) c s =
     (case index_byte c s of
        None \<Rightarrow> [s] | Some i \<Rightarrow> take i s # split_n (Suc n) c (drop (i + 1) s))"

lemma split_on_nonempty [simp]: "split_on c s \<noteq> []"
  by (induction s) (auto split: list.splits)

lemma split_on_plain: "c \<notin> set s \<Longrightarrow> split_on c s = [s]"
  by (induction s) auto

lemma split_on_append: "c \<notin> set s \<Longrightarrow> split_on c (s @ c # t) = s # split_on c t"
  by (induction s) auto

section \<open>Trimming\<close>

text \<open>\<open>strings.Trim\<close> and \<open>strings.TrimRight\<close> for a set of ASCII bytes, and the affixes.\<close>

definition trim_left_of :: "string \<Rightarrow> string \<Rightarrow> string" where
  "trim_left_of cs s = dropWhile (\<lambda>c. c \<in> set cs) s"

definition trim_right_of :: "string \<Rightarrow> string \<Rightarrow> string" where
  "trim_right_of cs s = rev (dropWhile (\<lambda>c. c \<in> set cs) (rev s))"

definition trim_of :: "string \<Rightarrow> string \<Rightarrow> string" where
  "trim_of cs s = trim_right_of cs (trim_left_of cs s)"

definition has_suffix :: "string \<Rightarrow> string \<Rightarrow> bool" where
  "has_suffix s p \<longleftrightarrow> has_prefix (rev s) (rev p)"

definition trim_prefix :: "string \<Rightarrow> string \<Rightarrow> string" where
  "trim_prefix s p = (if has_prefix s p then drop (length p) s else s)"

definition trim_suffix :: "string \<Rightarrow> string \<Rightarrow> string" where
  "trim_suffix s p = (if has_suffix s p then take (length s - length p) s else s)"

lemma trim_prefix_append [simp]: "trim_prefix (p @ s) p = s"
  by (simp add: trim_prefix_def has_prefix_iff)

lemma trim_of_id: "s = [] \<or> hd s \<notin> set cs \<and> last s \<notin> set cs \<Longrightarrow> trim_of cs s = s"
proof (cases s)
  case (Cons c t)
  assume "s = [] \<or> hd s \<notin> set cs \<and> last s \<notin> set cs"
  with Cons have l: "trim_left_of cs s = s" and last: "last s \<notin> set cs"
    by (auto simp: trim_left_of_def)
  from last have "hd (rev s) \<notin> set cs" by (simp only: hd_rev not_False_eq_True)
  moreover obtain d u where d: "rev s = d # u" using Cons by (cases "rev s") auto
  ultimately have "dropWhile (\<lambda>c. c \<in> set cs) (rev s) = rev s" by simp
  then have "trim_right_of cs s = s" by (simp add: trim_right_of_def)
  with l show ?thesis by (simp add: trim_of_def)
qed (simp add: trim_of_def trim_left_of_def trim_right_of_def)

section \<open>Numbers\<close>

definition is_digit :: "char \<Rightarrow> bool" where
  "is_digit c \<longleftrightarrow> digit_value c \<noteq> None"

text \<open>\<open>strconv.ParseUint (s, 10, bits)\<close>.\<close>

definition parse_uint :: "nat \<Rightarrow> string \<Rightarrow> nat option" where
  "parse_uint bits s =
     (if s = [] then None
      else case digits_value 0 s of
        None \<Rightarrow> None | Some n \<Rightarrow> if n < 2 ^ bits then Some n else None)"

text \<open>
  \<open>fmt.Sscanf (s, "%d", &v)\<close> for a string that has no white space in front: an optional sign,
  the digits up to the first other byte, a value of 64 bits.
\<close>

definition scan_int :: "string \<Rightarrow> int option" where
  "scan_int s =
     (let neg = has_prefix s ''-'';
          t = (if neg \<or> has_prefix s ''+'' then drop 1 s else s);
          ds = takeWhile is_digit t
      in if ds = [] then None
         else case digits_value 0 ds of
           None \<Rightarrow> None
         | Some n \<Rightarrow>
             (let v = (if neg then - int n else int n) in if in_int64 v then Some v else None))"

lemma nat_digits_are_digits: "\<forall>c \<in> set (nat_digits n). is_digit c"
  using digits_value_chars [OF digits_value_nat_digits] by (simp add: is_digit_def)

lemma scan_int_itoa:
  assumes "in_int64 n" and "s = [] \<or> \<not> is_digit (hd s)"
  shows "scan_int (itoa n @ s) = Some n"
proof -
  have sign: "digit_value (CHR ''-'') = None" "digit_value (CHR ''+'') = None" by code_simp+
  have t: "takeWhile is_digit (nat_digits m @ s) = nat_digits m" for m
    using assms(2) nat_digits_are_digits by (cases s) (auto simp: takeWhile_append)
  obtain c r where c: "nat_digits (nat n) = c # r" "digit_value c \<noteq> None"
    using nat_digits_head by blast
  then have "c \<noteq> CHR ''-''" "c \<noteq> CHR ''+''" using sign by auto
  with c assms(1) show ?thesis
    using digits_value_nat_digits [of "nat n"] digits_value_nat_digits [of "nat (- n)"] t [of "nat n"]
      t [of "nat (- n)"]
    by (auto simp: scan_int_def itoa_def Let_def)
qed

lemma parse_uint_digits: "n < 2 ^ bits \<Longrightarrow> parse_uint bits (nat_digits n) = Some n"
  by (simp add: parse_uint_def digits_value_nat_digits)

end
