(* ===== verification/Sms_Binary.thy ===== *)
theory Sms_Binary
  imports Wbxml_Document Go_Text Go_Unicode Go_Net
begin

text \<open>
  Binary short messages (pkg/smscodec/binary\_classifier.go) and the summary of provisioning
  documents (the end of pkg/smscodec/wbxml\_omacp.go). The fields of the third-party TPDU that
  the code reads are a record. Go walks the parameters of a characteristic in any order: the
  order is the argument \<open>pairs\<close>, which gives the entries of a map as a list.
\<close>

section \<open>The summary of a provisioning document\<close>

definition app_id_names :: "(string \<times> string) list" where
  "app_id_names =
     [(''w2'', ''WAP '' @ string_of_runes [0x6D4F, 0x89C8, 0x5668]),
      (''w4'', string_of_runes [0x6D4F, 0x89C8, 0x5668, 0x4E66, 0x7B7E]),
      (''w5'', ''MMS '' @ string_of_runes [0x5F69, 0x4FE1]),
      (''w7'', ''SyncML DM''),
      (''25'', ''SMTP '' @ string_of_runes [0x90AE, 0x4EF6]),
      (''110'', ''POP3 '' @ string_of_runes [0x90AE, 0x4EF6]),
      (''143'', ''IMAP4 '' @ string_of_runes [0x90AE, 0x4EF6]),
      (''ap0004'', ''MMS''),
      (''ap0005'', ''SyncML DM''),
      (''APSERVICE'', string_of_runes [0x901A, 0x7528, 0x5E94, 0x7528, 0x670D, 0x52A1]),
      (''OTA-HTTP-TO'', ''OTA HTTP''),
      (''OTA-HTTP-TLS-TO'', ''OTA HTTPS'')]"

type_synonym map_order = "(string \<rightharpoonup> string) \<Rightarrow> (string \<times> string) list"

definition newline :: string where "newline = [CHR 0x0A]"

fun join_lines :: "string list \<Rightarrow> string" where
  "join_lines [] = []"
| "join_lines [s] = s"
| "join_lines (s # t # ss) = s @ newline @ join_lines (t # ss)"

fun format_characteristic :: "map_order \<Rightarrow> nat \<Rightarrow> characteristic \<Rightarrow> string" where
  "format_characteristic pairs indent (Characteristic ty ps subs) =
     (let prefix = concat (replicate indent ''  '') in
      if ty = ''wap-provisioningdoc''
      then join_lines (map (format_characteristic pairs indent) subs)
      else prefix @ string_of_runes [0x1F4CB] @ '' '' @ ty
        @ (if ty = ''APPLICATION'' then
             (case ps ''APPID'' of None \<Rightarrow> []
              | Some appID \<Rightarrow> (case map_of app_id_names appID of None \<Rightarrow> []
                  | Some n \<Rightarrow> '' ('' @ n @ '')''))
           else [])
        @ newline
        @ concat (map (\<lambda>(n, v). prefix @ ''  '' @ n @ '': '' @ v @ newline) (pairs ps))
        @ concat (map (format_characteristic pairs (indent + 1)) subs))"

definition format_oma_cp_summary :: "map_order \<Rightarrow> oma_config \<Rightarrow> string" where
  "format_oma_cp_summary pairs cfg =
     (if oc_characteristics cfg = [] then ''('' @ string_of_runes [0x7A7A, 0x914D, 0x7F6E] @ '')''
      else join_lines (map (format_characteristic pairs 0) (oc_characteristics cfg)))"

section \<open>Ports\<close>

record info_element =
  ie_id :: byte
  ie_data :: bytes

record udh_ports =
  dest_port16 :: u16
  src_port16 :: u16
  has_16bit :: bool
  dest_port8 :: byte
  src_port8 :: byte
  has_8bit :: bool

definition no_ports :: udh_ports where
  "no_ports = \<lparr>dest_port16 = 0, src_port16 = 0, has_16bit = False,
     dest_port8 = 0, src_port8 = 0, has_8bit = False\<rparr>"

definition preferred_dest_port :: "udh_ports \<Rightarrow> u16 option" where
  "preferred_dest_port p =
     (if has_16bit p then Some (dest_port16 p)
      else if has_8bit p then Some (ucast (dest_port8 p)) else None)"

definition be16_at :: "bytes \<Rightarrow> nat \<Rightarrow> u16" where
  "be16_at d i = push_bit 8 (ucast (d ! i)) OR ucast (d ! (i + 1))"

definition port_element :: "info_element \<Rightarrow> udh_ports \<Rightarrow> udh_ports" where
  "port_element ie p =
     (let d = ie_data ie in
      if ie_id ie = 0x05 then
        (if length d \<ge> 4
         then p\<lparr>dest_port16 := be16_at d 0, src_port16 := be16_at d 2, has_16bit := True\<rparr> else p)
      else if ie_id ie = 0x04 then
        (if length d \<ge> 2
         then p\<lparr>dest_port8 := d ! 0, src_port8 := d ! 1, has_8bit := True\<rparr> else p)
      else p)"

definition parse_udh_ports :: "info_element list \<Rightarrow> udh_ports" where
  "parse_udh_ports udh = foldl (\<lambda>p ie. port_element ie p) no_ports udh"

definition wap_push_port :: u16 where "wap_push_port = 2948"

fun extract_udh_dest_port16 :: "info_element list \<Rightarrow> u16 option" where
  "extract_udh_dest_port16 [] = None"
| "extract_udh_dest_port16 (ie # udh) =
     (if ie_id ie = 0x05 \<and> length (ie_data ie) \<ge> 4 then Some (be16_at (ie_data ie) 0)
      else extract_udh_dest_port16 udh)"

definition is_oma_cp_message :: "info_element list \<Rightarrow> bool" where
  "is_oma_cp_message udh \<longleftrightarrow> preferred_dest_port (parse_udh_ports udh) = Some wap_push_port"

section \<open>WSP push\<close>

definition map_wsp_content_type_token :: "byte \<Rightarrow> string" where
  "map_wsp_content_type_token tok =
     (if tok = 0x2E then ''application/vnd.wap.sic''
      else if tok = 0x30 then ''application/vnd.wap.connectivity-wbxml''
      else if tok = 0x31 then ''application/vnd.wap.slc''
      else if tok = 0x3E then ''application/vnd.wap.mms-message''
      else ''token:0x'' @ hex_of_bytes [tok])"

definition read_c_string :: "bytes \<Rightarrow> string" where
  "read_c_string b = string_of_bytes (takeWhile (\<lambda>x. x \<noteq> 0) b)"

definition normalize_content_type :: "string \<Rightarrow> string" where
  "normalize_content_type s = to_lower (trim_space s)"

definition is_likely_ascii :: "byte \<Rightarrow> bool" where
  "is_likely_ascii b \<longleftrightarrow> b \<ge> 0x20 \<and> b \<le> 0x7E"

definition parse_wsp_content_type :: "bytes \<Rightarrow> string" where
  "parse_wsp_content_type headers =
     (case headers of [] \<Rightarrow> []
      | h # rest \<Rightarrow>
          if h AND 0x80 \<noteq> 0 then map_wsp_content_type_token (h AND 0x7F)
          else if is_likely_ascii h then normalize_content_type (read_c_string headers)
          else
            (let valueLen = unat h in
             if valueLen > 0 \<and> 1 + valueLen \<le> length headers then
               (let v = take valueLen rest in
                if v \<noteq> [] \<and> v ! 0 AND 0x80 \<noteq> 0 then map_wsp_content_type_token (v ! 0 AND 0x7F)
                else normalize_content_type (read_c_string v))
             else []))"

record wsp_push =
  wp_transaction_id :: byte
  wp_pdu_type :: byte
  wp_content_type :: string
  wp_body :: bytes

definition parse_wsp_push :: "bytes \<Rightarrow> wsp_push option" where
  "parse_wsp_push data =
     (if length data < 4 then None
      else if data ! 1 \<noteq> 0x06 \<and> data ! 1 \<noteq> 0x07 then None
      else
        (let headersLen = unat (data ! 2) in
         if 3 + headersLen > length data then None
         else Some \<lparr>wp_transaction_id = data ! 0, wp_pdu_type = data ! 1,
                    wp_content_type = parse_wsp_content_type (take headersLen (drop 3 data)),
                    wp_body = drop (3 + headersLen) data\<rparr>))"

section \<open>Recognising the content\<close>

definition is_likely_oma_content_type :: "string \<Rightarrow> bool" where
  "is_likely_oma_content_type ct \<longleftrightarrow> ct = ''application/vnd.wap.connectivity-wbxml''"

definition is_likely_si_content_type :: "string \<Rightarrow> bool" where
  "is_likely_si_content_type ct \<longleftrightarrow> ct = ''application/vnd.wap.sic'' \<or> ct = ''application/vnd.wap.si''"

definition is_likely_sl_content_type :: "string \<Rightarrow> bool" where
  "is_likely_sl_content_type ct \<longleftrightarrow> ct = ''application/vnd.wap.slc'' \<or> ct = ''application/vnd.wap.sl''"

definition is_likely_mms_content_type :: "string \<Rightarrow> bool" where
  "is_likely_mms_content_type ct \<longleftrightarrow> ct = ''application/vnd.wap.mms-message''"

definition wbxml_public_id :: "bytes \<Rightarrow> u32 option" where
  "wbxml_public_id data =
     (if length data < 3 then None
      else if data ! 0 < 1 \<or> data ! 0 > 3 then None
      else map_option fst (parse_mb_uint32_at data 1))"

definition is_likely_si_wbxml :: "bytes \<Rightarrow> bool" where
  "is_likely_si_wbxml data \<longleftrightarrow> wbxml_public_id data \<in> {Some 0x05, Some 0x06}"

definition is_likely_sl_wbxml :: "bytes \<Rightarrow> bool" where
  "is_likely_sl_wbxml data \<longleftrightarrow> wbxml_public_id data \<in> {Some 0x06, Some 0x07}"

fun is_likely_mms_notification :: "bytes \<Rightarrow> bool" where
  "is_likely_mms_notification (a # b # p) = (a = 0x8C \<and> b = 0x82 \<or> is_likely_mms_notification (b # p))"
| "is_likely_mms_notification p = False"

definition is_likely_class2 :: "byte \<Rightarrow> bool" where
  "is_likely_class2 dcs \<longleftrightarrow> dcs AND 0x10 \<noteq> 0 \<and> dcs AND 0x03 = 0x02"

definition try_parse_sim_ota_header :: "bytes \<Rightarrow> (u16 \<times> byte \<times> byte) option" where
  "try_parse_sim_ota_header payload =
     (if length payload < 6 then None
      else let chl = unat (payload ! 1) in
        if chl < 5 \<or> 2 + chl > length payload then None
        else Some (be16_at payload 2, payload ! 4, payload ! 5))"

record tpdu =
  tp_pid :: byte
  tp_dcs :: byte
  tp_udh :: "info_element list"

definition is_likely_sim_ota :: "tpdu \<Rightarrow> bytes \<Rightarrow> string \<Rightarrow> u16 option \<Rightarrow> bool" where
  "is_likely_sim_ota t payload ct destPort =
     (if ct \<noteq> [] \<and> (is_likely_oma_content_type ct \<or> is_likely_si_content_type ct
            \<or> is_likely_sl_content_type ct \<or> is_likely_mms_content_type ct) then False
      else if destPort = Some wap_push_port then False
      else if tp_pid t = 0x7F then True
      else is_likely_class2 (tp_dcs t) \<and> try_parse_sim_ota_header payload \<noteq> None)"

section \<open>Hints\<close>

definition url_end :: "char \<Rightarrow> bool" where
  "url_end c \<longleftrightarrow> c \<in> {CHR 0x00, CHR '' '', CHR 0x0D, CHR 0x0A, CHR 0x22, CHR 0x27, CHR ''<'', CHR ''>''}"

definition extract_url :: "bytes \<Rightarrow> string" where
  "extract_url data =
     (let s = string_of_bytes data;
          from = (\<lambda>i. takeWhile (\<lambda>c. \<not> url_end c) (drop i s))
      in case index_of ''https://'' s of
           Some i \<Rightarrow> from i
         | None \<Rightarrow> (case index_of ''http://'' s of Some i \<Rightarrow> from i | None \<Rightarrow> []))"

fun hint_loop :: "nat \<Rightarrow> string \<Rightarrow> bytes \<Rightarrow> string" where
  "hint_loop mx acc [] = acc"
| "hint_loop mx acc (b # bs) =
     (let acc = (if is_likely_ascii b \<or> b = 0x0A \<or> b = 0x0D \<or> b = 0x09
                 then acc @ string_of_bytes [b] else acc)
      in if length acc \<ge> mx then acc else hint_loop mx acc bs)"

definition extract_printable_hint :: "bytes \<Rightarrow> nat \<Rightarrow> string" where
  "extract_printable_hint data mx = trim_space (hint_loop mx [] data)"

fun extract_tagged_c_string :: "bytes \<Rightarrow> byte \<Rightarrow> string" where
  "extract_tagged_c_string (a # b # d) tag =
     (if a \<noteq> tag then extract_tagged_c_string (b # d) tag
      else (let v = read_c_string (b # d) in
            if v \<noteq> [] then v else extract_tagged_c_string (b # d) tag))"
| "extract_tagged_c_string d tag = []"

fun tagged_uint_from :: "nat \<Rightarrow> nat \<Rightarrow> bytes \<Rightarrow> byte \<Rightarrow> u32 option" where
  "tagged_uint_from 0 i data tag = None"
| "tagged_uint_from (Suc n) i data tag =
     (if i + 1 \<ge> length data then None
      else if data ! i \<noteq> tag then tagged_uint_from n (i + 1) data tag
      else (case parse_mb_uint32_at data (i + 1) of
              Some (v, _) \<Rightarrow> Some v
            | None \<Rightarrow> tagged_uint_from n (i + 1) data tag))"

definition extract_tagged_uint :: "bytes \<Rightarrow> byte \<Rightarrow> u32 option" where
  "extract_tagged_uint data tag = tagged_uint_from (length data) 0 data tag"

definition if_text :: "string \<Rightarrow> string \<Rightarrow> string list" where
  "if_text label s = (if s \<noteq> [] then [label @ s] else [])"

definition sisl_hints :: "bytes \<Rightarrow> string list" where
  "sisl_hints payload =
     if_text ''url='' (extract_url payload) @ if_text ''hint='' (extract_printable_hint payload 80)"

definition mms_hints :: "bytes \<Rightarrow> string list" where
  "mms_hints payload =
     if_text ''x_mms_transaction_id='' (extract_tagged_c_string payload 0x98)
     @ if_text ''content_location='' (extract_tagged_c_string payload 0x83)
     @ (case extract_tagged_uint payload 0x8E of None \<Rightarrow> []
        | Some sz \<Rightarrow> [''message_size='' @ itoa (uint sz)])
     @ if_text ''url='' (extract_url payload)"

section \<open>Classification\<close>

datatype binary_kind = KUnknown | KOmaCP | KWAPSI | KWAPSL | KMMSNotification | KSIMOTA

record classification =
  bc_kind :: binary_kind
  bc_label :: string
  bc_lines :: "string list"
  bc_raw_hex :: string
  bc_payload :: bytes
  bc_content_type :: string
  bc_dest_port :: "u16 option"
  bc_encrypted :: bool

definition with_kind ::
  "binary_kind \<Rightarrow> string \<Rightarrow> string list \<Rightarrow> bool \<Rightarrow> classification \<Rightarrow> classification" where
  "with_kind k label ls enc c =
     c\<lparr>bc_kind := k, bc_label := label, bc_lines := bc_lines c @ ls, bc_encrypted := enc\<rparr>"

definition unwrapped :: "tpdu \<Rightarrow> bytes \<Rightarrow> classification" where
  "unwrapped t msg =
     (let c = \<lparr>bc_kind = KUnknown, bc_label = string_of_runes [0x4E8C, 0x8FDB, 0x5236, 0x6570, 0x636E], bc_lines = [],
               bc_raw_hex = hex_of_bytes msg, bc_payload = msg, bc_content_type = [],
               bc_dest_port = preferred_dest_port (parse_udh_ports (tp_udh t)),
               bc_encrypted = False\<rparr>
      in case parse_wsp_push msg of
           None \<Rightarrow> c
         | Some wsp \<Rightarrow>
             c\<lparr>bc_payload := wp_body wsp, bc_content_type := wp_content_type wsp,
               bc_lines := if_text ''content_type='' (wp_content_type wsp)
                 @ [''wsp_tid=0x'' @ hex_of_bytes [wp_transaction_id wsp]
                    @ '' pdu=0x'' @ hex_of_bytes [wp_pdu_type wsp]]\<rparr>)"

definition u16_hex :: "u16 \<Rightarrow> string" where
  "u16_hex w = hex_of_bytes [ucast (drop_bit 8 w), ucast w]"

definition classify_binary_sms :: "map_order \<Rightarrow> tpdu \<Rightarrow> bytes \<Rightarrow> classification" where
  "classify_binary_sms pairs t msg =
     (let c = unwrapped t msg; ct = bc_content_type c; p = bc_payload c in
      if bc_dest_port c = Some wap_push_port \<or> is_likely_oma_content_type ct then
        (case decode_oma_cp p of
           Ok cfg \<Rightarrow> with_kind KOmaCP (''OMA CP '' @ string_of_runes [0x8FD0, 0x8425, 0x5546, 0x914D, 0x7F6E, 0x77ED, 0x4FE1])
             (split_on (CHR 0x0A) (trim_space (format_oma_cp_summary pairs cfg))) False c
         | _ \<Rightarrow> with_kind KOmaCP (''OMA CP '' @ string_of_runes [0x8FD0, 0x8425, 0x5546, 0x914D, 0x7F6E, 0x77ED, 0x4FE1]) [''wbxml_decode=failed ('' @ string_of_runes [0x53EF, 0x80FD, 0x52A0, 0x5BC6] @ ''/'' @ string_of_runes [0x975E, 0x660E, 0x6587] @ '')''] True c)
      else if is_likely_si_content_type ct \<or> is_likely_si_wbxml p then
        with_kind KWAPSI ''WAP SI Push'' (sisl_hints p) False c
      else if is_likely_sl_content_type ct \<or> is_likely_sl_wbxml p then
        with_kind KWAPSL ''WAP SL Push'' (sisl_hints p) False c
      else if is_likely_mms_content_type ct \<or> is_likely_mms_notification p then
        with_kind KMMSNotification ''MMS Notification'' (mms_hints p) False c
      else if is_likely_sim_ota t p ct (bc_dest_port c) then
        with_kind KSIMOTA ''SIM OTA 23.048''
          ((case try_parse_sim_ota_header p of None \<Rightarrow> []
            | Some (spi, kic, kid) \<Rightarrow>
                [''spi=0x'' @ u16_hex spi @ '' kic=0x'' @ hex_of_bytes [kic]
                 @ '' kid=0x'' @ hex_of_bytes [kid]]) @ [''decrypt=not_attempted'']) True c
      else c)"

definition format_binary_classification :: "classification \<Rightarrow> string" where
  "format_binary_classification c =
     ''['' @ bc_label c @ '']'' @ newline
     @ (case bc_dest_port c of None \<Rightarrow> []
        | Some p \<Rightarrow> ''dest_port='' @ itoa (uint p) @ newline)
     @ concat (map (\<lambda>line. let line = trim_space line in
         if line = [] then [] else line @ newline) (bc_lines c))
     @ (if bc_encrypted c then ''security='' @ string_of_runes [0x53EF, 0x80FD, 0x52A0, 0x5BC6] @ newline else [])
     @ ''raw='' @ bc_raw_hex c"

section \<open>Pushed documents\<close>

definition push_message :: "byte \<Rightarrow> byte \<Rightarrow> bytes \<Rightarrow> bytes \<Rightarrow> bytes" where
  "push_message tid pdu headers body = [tid, pdu, of_nat (length headers)] @ headers @ body"

lemma push_parsed:
  assumes "length headers < 256" and "pdu \<in> {0x06, 0x07}" and "headers \<noteq> [] \<or> body \<noteq> []"
  shows "parse_wsp_push (push_message tid pdu headers body) =
    Some \<lparr>wp_transaction_id = tid, wp_pdu_type = pdu,
          wp_content_type = parse_wsp_content_type headers, wp_body = body\<rparr>"
proof -
  have "unat (of_nat (length headers) :: byte) = length headers"
    using assms(1) by (simp add: unat_of_nat take_bit_eq_mod)
  then show ?thesis
    using assms(2,3)
    by (auto simp: parse_wsp_push_def push_message_def Let_def numeral_2_eq_2 numeral_3_eq_3
        simp flip: length_greater_0_conv)
qed

lemma document_content:
  assumes "list_all provision_ok cs" and "cs \<noteq> []"
  shows "decode_oma_cp (encode_document cs) = Ok (document_tree cs)"
  using start_found [of "[]", OF _ document_header] document_decoded [OF assms]
  by (simp add: decode_oma_cp_def encode_document_def)


definition wap_push_header :: "info_element list" where
  "wap_push_header = [\<lparr>ie_id = 0x05, ie_data = [0x0B, 0x84, 0x23, 0xF0]\<rparr>]"


text \<open>
  Public identifier 6 is that of SL documents, says the comment of \<open>isLikelySLWBXML\<close>; but the
  test for SI comes first and takes it too, so an SL document that only its identifier tells
  is never shown as SL.
\<close>

lemma sl_identifier_is_taken_for_si:
  assumes "wbxml_public_id (bc_payload (unwrapped t msg)) = Some 0x06"
    and "bc_dest_port (unwrapped t msg) \<noteq> Some wap_push_port"
    and "\<not> is_likely_oma_content_type (bc_content_type (unwrapped t msg))"
  shows "bc_kind (classify_binary_sms pairs t msg) = KWAPSI"
  using assms by (simp add: classify_binary_sms_def Let_def is_likely_si_wbxml_def with_kind_def)

end
