(* ===== verification/At_Parse.thy ===== *)
theory At_Parse
  imports Go_Text Go_Unicode SMS_Trim
begin

text \<open>
  The answers of AT commands (internal/modem/at\_parse.go), the names of operators
  (operator\_name.go) and the fs of unsolicited codes (urc\_format.go). A result with its
  \<open>ok\<close> flag is an option. Responses are byte strings, split into trimmed lines.
\<close>

section \<open>Lines and fs\<close>

definition quote :: char where "quote = CHR 0x22"

definition split_lines :: "string \<Rightarrow> string list" where
  "split_lines resp = map trim_space (split_on (CHR 0x0A) (remove_char (CHR 0x0D) resp))"

definition find_line_with_prefix :: "string \<Rightarrow> string \<Rightarrow> string option" where
  "find_line_with_prefix resp prefix = find (\<lambda>line. has_prefix line prefix) (split_lines resp)"

definition extract_first_quoted :: "string \<Rightarrow> string option" where
  "extract_first_quoted resp =
     (case index_byte quote resp of
        None \<Rightarrow> None
      | Some i \<Rightarrow>
          (case index_byte quote (drop (i + 1) resp) of
             None \<Rightarrow> None | Some j \<Rightarrow> Some (take j (drop (i + 1) resp))))"

function extract_quoted_fields :: "string \<Rightarrow> string list" where
  "extract_quoted_fields s =
     (case index_byte quote s of
        None \<Rightarrow> []
      | Some i \<Rightarrow>
          (let s1 = drop (i + 1) s in
           case index_byte quote s1 of
             None \<Rightarrow> []
           | Some j \<Rightarrow> take j s1 # extract_quoted_fields (drop (j + 1) s1)))"
  by pat_completeness auto
termination
  by (relation "measure length") (auto dest: index_byte_bound)

declare extract_quoted_fields.simps [simp del]

definition trim_quotes :: "string \<Rightarrow> string" where
  "trim_quotes s = trim_of [quote] s"

definition all_digits :: "string \<Rightarrow> bool" where
  "all_digits s \<longleftrightarrow> list_all is_digit s"

definition parse_comma_fields :: "string \<Rightarrow> string list" where
  "parse_comma_fields s =
     (if s = [] then [] else map (\<lambda>p. trim_quotes (trim_space p)) (split_on (CHR '','') s))"

definition after_prefix :: "string \<Rightarrow> string \<Rightarrow> string" where
  "after_prefix line prefix = trim_space (trim_prefix line prefix)"

section \<open>Operators\<close>

definition serving_operator_names :: "(string \<times> string) list" where
  "serving_operator_names =
     [(''46000'', string_of_runes [0x4E2D, 0x56FD, 0x79FB, 0x52A8]),
      (''46002'', string_of_runes [0x4E2D, 0x56FD, 0x79FB, 0x52A8]),
      (''46004'', string_of_runes [0x4E2D, 0x56FD, 0x79FB, 0x52A8]),
      (''46007'', string_of_runes [0x4E2D, 0x56FD, 0x79FB, 0x52A8]),
      (''46008'', string_of_runes [0x4E2D, 0x56FD, 0x79FB, 0x52A8]),
      (''46013'', string_of_runes [0x4E2D, 0x56FD, 0x79FB, 0x52A8]),
      (''46001'', string_of_runes [0x4E2D, 0x56FD, 0x8054, 0x901A]),
      (''46006'', string_of_runes [0x4E2D, 0x56FD, 0x8054, 0x901A]),
      (''46009'', string_of_runes [0x4E2D, 0x56FD, 0x8054, 0x901A]),
      (''46003'', string_of_runes [0x4E2D, 0x56FD, 0x7535, 0x4FE1]),
      (''46005'', string_of_runes [0x4E2D, 0x56FD, 0x7535, 0x4FE1]),
      (''46011'', string_of_runes [0x4E2D, 0x56FD, 0x7535, 0x4FE1]),
      (''46015'', string_of_runes [0x4E2D, 0x56FD, 0x5E7F, 0x7535]),
      (''45400'', ''CSL''),
      (''45402'', ''CSL''),
      (''45410'', ''CSL''),
      (''45418'', ''CSL''),
      (''45403'', string_of_runes [0x7535, 0x8BAF, 0x76C8, 0x79D1]),
      (''45416'', string_of_runes [0x7535, 0x8BAF, 0x76C8, 0x79D1]),
      (''45419'', string_of_runes [0x7535, 0x8BAF, 0x76C8, 0x79D1]),
      (''45404'', ''3 HK''),
      (''45406'', string_of_runes [0x6570, 0x7801, 0x901A]),
      (''45415'', string_of_runes [0x6570, 0x7801, 0x901A]),
      (''45407'', string_of_runes [0x4E2D, 0x56FD, 0x79FB, 0x52A8, 0x9999, 0x6E2F]),
      (''45412'', string_of_runes [0x4E2D, 0x56FD, 0x8054, 0x901A, 0x9999, 0x6E2F]),
      (''46601'', string_of_runes [0x8FDC, 0x4F20, 0x7535, 0x4FE1]),
      (''46602'', string_of_runes [0x8FDC, 0x4F20, 0x7535, 0x4FE1]),
      (''46605'', string_of_runes [0x4E9A, 0x592A, 0x7535, 0x4FE1]),
      (''46689'', string_of_runes [0x53F0, 0x6E7E, 0x4E4B, 0x661F]),
      (''46692'', string_of_runes [0x4E2D, 0x534E, 0x7535, 0x4FE1]),
      (''46693'', string_of_runes [0x53F0, 0x6E7E, 0x5927, 0x54E5, 0x5927]),
      (''46697'', string_of_runes [0x53F0, 0x6E7E, 0x5927, 0x54E5, 0x5927]),
      (''46699'', string_of_runes [0x53F0, 0x6E7E, 0x5927, 0x54E5, 0x5927])]"

definition normalize_operator_code :: "string \<Rightarrow> string" where
  "normalize_operator_code code = trim_quotes (trim_space code)"

definition lookup_serving_operator_name :: "string \<Rightarrow> string option" where
  "lookup_serving_operator_name plmn =
     (let plmn = normalize_operator_code plmn in
      if plmn = [] then None else map_of serving_operator_names plmn)"

definition resolve_serving_operator_name :: "string \<Rightarrow> string" where
  "resolve_serving_operator_name plmn =
     (let plmn = normalize_operator_code plmn in
      if plmn = [] then []
      else case lookup_serving_operator_name plmn of Some n \<Rightarrow> n | None \<Rightarrow> plmn)"

section \<open>Identity of the module and the card\<close>

definition first_line :: "(string \<Rightarrow> bool) \<Rightarrow> string list \<Rightarrow> string" where
  "first_line P ls = (case find P ls of None \<Rightarrow> [] | Some l \<Rightarrow> l)"

definition parse_imei :: "string \<Rightarrow> string" where
  "parse_imei resp = first_line (\<lambda>l. length l = 15 \<and> all_digits l) (split_lines resp)"

definition parse_firmware :: "string \<Rightarrow> string" where
  "parse_firmware resp =
     first_line (\<lambda>l. l \<noteq> [] \<and> l \<noteq> ''OK'' \<and> \<not> has_prefix l ''+'') (split_lines resp)"

definition parse_qsimstat_inserted :: "string \<Rightarrow> bool option" where
  "parse_qsimstat_inserted resp =
     (case find_line_with_prefix resp ''+QSIMSTAT:'' of
        None \<Rightarrow> None
      | Some line \<Rightarrow>
          (let parts = split_on (CHR '','') line in
           if length parts < 2 then None
           else map_option (\<lambda>v. v = 1) (scan_int (trim_space (parts ! 1)))))"

definition parse_cpin_inserted :: "string \<Rightarrow> bool option" where
  "parse_cpin_inserted resp =
     (let s = to_upper resp in
      if contains s ''READY'' then Some True
      else if contains s ''NOT INSERTED'' then Some False
      else None)"

definition imsi_candidate :: "string \<Rightarrow> string" where
  "imsi_candidate line =
     (let s = trim_space line in
      if has_prefix s ''+CIMI:'' then trim_space (trim_prefix s ''+CIMI:'') else s)"

definition parse_imsi :: "string \<Rightarrow> string" where
  "parse_imsi resp =
     first_line (\<lambda>s. length s \<ge> 14 \<and> length s \<le> 15 \<and> all_digits s)
       (map imsi_candidate (split_lines resp))"

definition parse_iccid_value_after_colon :: "string \<Rightarrow> string" where
  "parse_iccid_value_after_colon line =
     (case index_byte (CHR '':'') line of
        None \<Rightarrow> []
      | Some idx \<Rightarrow> trim_right_of ''Ff'' (trim_quotes (trim_space (drop (idx + 1) line))))"

definition parse_qccid :: "string \<Rightarrow> string" where
  "parse_qccid resp =
     (case find_line_with_prefix resp ''+QCCID:'' of
        None \<Rightarrow> [] | Some line \<Rightarrow> parse_iccid_value_after_colon line)"

definition parse_iccid :: "string \<Rightarrow> string" where
  "parse_iccid resp =
     (case find_line_with_prefix resp ''+ICCID:'' of
        None \<Rightarrow> [] | Some line \<Rightarrow> parse_iccid_value_after_colon line)"

section \<open>Registration and signal\<close>

definition parse_cops_operator :: "string \<Rightarrow> string" where
  "parse_cops_operator resp =
     (case find_line_with_prefix resp ''+COPS:'' of
        None \<Rightarrow> []
      | Some line \<Rightarrow>
          (case extract_quoted_fields line of
             [] \<Rightarrow> [] | f # _ \<Rightarrow> resolve_serving_operator_name f))"

definition access_technology :: "int \<Rightarrow> string option" where
  "access_technology act =
     (if act = 0 then Some ''GSM'' else if act = 2 then Some ''WCDMA''
      else if act = 7 then Some ''LTE'' else if act = 10 then Some ''NR'' else None)"

definition parse_cops_act :: "string \<Rightarrow> string option" where
  "parse_cops_act resp =
     (let line = (case find_line_with_prefix resp ''+COPS:'' of
                    None \<Rightarrow> trim_space resp | Some l \<Rightarrow> l)
      in case last_index (CHR '','') line of
           None \<Rightarrow> None
         | Some lastComma \<Rightarrow>
             (case scan_int (trim_space (drop (lastComma + 1) line)) of
                None \<Rightarrow> None | Some act \<Rightarrow> access_technology act))"

definition parse_creg :: "string \<Rightarrow> (int \<times> string \<times> string) option" where
  "parse_creg resp =
     (case find_line_with_prefix resp ''+CREG:'' of
        None \<Rightarrow> None
      | Some line \<Rightarrow>
          (let parts = split_on (CHR '','') line in
           if length parts < 2 then None
           else case scan_int (trim_space (parts ! 1)) of
             None \<Rightarrow> None
           | Some regStatus \<Rightarrow>
               if length parts \<ge> 4
               then Some (regStatus, trim_quotes (trim_space (parts ! 2)),
                          trim_quotes (trim_space (parts ! 3)))
               else Some (regStatus, [], [])))"

definition parse_csq :: "string \<Rightarrow> (int \<times> int) option" where
  "parse_csq resp =
     (case find_line_with_prefix resp ''+CSQ:'' of
        None \<Rightarrow> None
      | Some line \<Rightarrow>
          (let parts = split_on (CHR '','') (after_prefix line ''+CSQ:'') in
           case scan_int (trim_space (parts ! 0)) of
             None \<Rightarrow> None
           | Some rssi \<Rightarrow>
               Some (rssi, if rssi \<ge> 0 \<and> rssi \<le> 31 then - 113 + rssi * 2 else - 999)))"

record serving_cell =
  sc_rsrp :: int
  sc_rsrq :: int
  sc_sinr :: int
  sc_duplex :: string
  sc_band :: string
  sc_channel :: nat

definition no_cell :: serving_cell where
  "no_cell = \<lparr>sc_rsrp = 0, sc_rsrq = 0, sc_sinr = 0, sc_duplex = [], sc_band = [], sc_channel = 0\<rparr>"

definition uint32_or_zero :: "string \<Rightarrow> nat" where
  "uint32_or_zero s = (case parse_uint 32 (trim_space s) of None \<Rightarrow> 0 | Some n \<Rightarrow> n)"

fun scan_ints :: "string list \<Rightarrow> int list option" where
  "scan_ints [] = Some []"
| "scan_ints (p # ps) =
     (case scan_int (trim_space p) of
        None \<Rightarrow> None | Some v \<Rightarrow> map_option (\<lambda>vs. v # vs) (scan_ints ps))"

definition plausible_cell :: "serving_cell \<Rightarrow> serving_cell option" where
  "plausible_cell i =
     (if sc_rsrp i < - 140 \<or> sc_rsrp i > - 40 then None
      else if sc_rsrq i < - 30 \<or> sc_rsrq i > 0 then None else Some i)"

definition parse_serving_cell_lte_info :: "string \<Rightarrow> serving_cell option" where
  "parse_serving_cell_lte_info resp =
     (case find_line_with_prefix resp ''+QENG:'' of
        None \<Rightarrow> None
      | Some line \<Rightarrow>
          if \<not> contains line ''LTE'' then None
          else
            (let parts = split_on (CHR '','') line in
             if length parts < 10 then None
             else
               (let band = trim_space (parts ! 9) in
                case scan_ints (drop (length parts - 5) parts) of
                  None \<Rightarrow> None
                | Some parsed \<Rightarrow>
                    plausible_cell
                      \<lparr>sc_rsrp = parsed ! 0, sc_rsrq = parsed ! 1, sc_sinr = parsed ! 3,
                       sc_duplex = trim_quotes (trim_space (parts ! 3)),
                       sc_band = (if band \<noteq> [] then ''LTE BAND '' @ trim_quotes band else []),
                       sc_channel = uint32_or_zero (parts ! 8)\<rparr>)))"

definition parse_int_default :: "string \<Rightarrow> int \<Rightarrow> int" where
  "parse_int_default s fallback =
     (case atoi (trim_space s) of None \<Rightarrow> fallback | Some v \<Rightarrow> v)"

text \<open>Go's division truncates towards zero.\<close>

definition go_div10 :: "int \<Rightarrow> int" where
  "go_div10 v = (if v < 0 then - (- v div 10) else v div 10)"

definition normalize_tenths_signal :: "int \<Rightarrow> int \<Rightarrow> int \<Rightarrow> int" where
  "normalize_tenths_signal v mn mx =
     (if v \<ge> mn \<and> v \<le> mx then v
      else let scaled = go_div10 v in if scaled \<ge> mn \<and> scaled \<le> mx then scaled else v)"

definition parse_cpsi_serving_cell :: "string \<Rightarrow> serving_cell option" where
  "parse_cpsi_serving_cell resp =
     (case find_line_with_prefix resp ''+CPSI:'' of
        None \<Rightarrow> None
      | Some line \<Rightarrow>
          if \<not> contains line ''LTE'' then None
          else
            (let fs = parse_comma_fields (after_prefix line ''+CPSI:'') in
             if length fs < 12 \<or> to_upper (trim_space (fs ! 0)) \<noteq> ''LTE'' then None
             else plausible_cell
               (no_cell\<lparr>sc_band := trim_space (fs ! 6),
                  sc_channel := uint32_or_zero (fs ! 7),
                  sc_rsrq := normalize_tenths_signal (parse_int_default (fs ! 10) 0) (- 30) 0,
                  sc_rsrp := normalize_tenths_signal (parse_int_default (fs ! 11) 0) (- 140) (- 40),
                  sc_sinr := (if length fs > 13
                    then normalize_tenths_signal (parse_int_default (fs ! 13) 0) (- 50) 50
                    else 0)\<rparr>)))"

definition field_text :: "string list \<Rightarrow> nat \<Rightarrow> string" where
  "field_text fs i = (if length fs > i then trim_space (fs ! i) else [])"

definition field_uint :: "string list \<Rightarrow> nat \<Rightarrow> nat" where
  "field_uint fs i = (if length fs > i then uint32_or_zero (fs ! i) else 0)"

definition parse_cpsi_network_radio :: "string \<Rightarrow> string \<times> string \<times> string \<times> nat" where
  "parse_cpsi_network_radio resp =
     (case find_line_with_prefix resp ''+CPSI:'' of
        None \<Rightarrow> ([], [], [], 0)
      | Some line \<Rightarrow>
          (let fs = parse_comma_fields (after_prefix line ''+CPSI:'') in
           if fs = [] then ([], [], [], 0)
           else
             (let mode = to_upper (trim_space (fs ! 0)) in
              if mode = ''NO SERVICE'' then ([], [], [], 0)
              else if mode = ''LTE'' then (mode, [], field_text fs 6, field_uint fs 7)
              else if mode = ''WCDMA'' then (mode, [], field_text fs 5, field_uint fs 7)
              else if mode = ''GSM'' then (mode, [], field_text fs 6, field_uint fs 5)
              else (mode, [], [], 0))))"

definition parse_qnwinfo_radio :: "string \<Rightarrow> string \<times> string \<times> string \<times> nat" where
  "parse_qnwinfo_radio resp =
     (case find_line_with_prefix resp ''+QNWINFO:'' of
        None \<Rightarrow> ([], [], [], 0)
      | Some line \<Rightarrow>
          (case extract_quoted_fields line of
             [] \<Rightarrow> ([], [], [], 0)
           | f # rest \<Rightarrow>
               (let mode = trim_space f;
                    (mode, duplex) =
                      (if mode = ''FDD LTE'' then (''LTE'', ''FDD'')
                       else if mode = ''TDD LTE'' then (''LTE'', ''TDD'') else (mode, []));
                    channel = (case last_index (CHR '','') line of
                        None \<Rightarrow> 0
                      | Some idx \<Rightarrow>
                          if idx + 1 < length line then uint32_or_zero (drop (idx + 1) line) else 0)
                in (mode, duplex, field_text (f # rest) 2, channel))))"

definition parse_qnwinfo :: "string \<Rightarrow> string" where
  "parse_qnwinfo resp =
     (case parse_qnwinfo_radio resp of (mode, duplex, _, _) \<Rightarrow>
        if mode = [] then [] else if duplex \<noteq> [] then duplex @ '' '' @ mode else mode)"

section \<open>Configuration of the module\<close>

definition parse_apn :: "string \<Rightarrow> string" where
  "parse_apn resp =
     (case find (\<lambda>fs. length fs \<ge> 2)
        (map extract_quoted_fields (filter (\<lambda>l. has_prefix l ''+CGDCONT:'') (split_lines resp))) of
        None \<Rightarrow> [] | Some fs \<Rightarrow> fs ! 1)"

definition parse_qims :: "string \<Rightarrow> int option" where
  "parse_qims resp =
     (case find_line_with_prefix resp ''+QIMS:'' of
        None \<Rightarrow> None
      | Some line \<Rightarrow>
          (case index_byte (CHR '':'') line of
             None \<Rightarrow> None | Some idx \<Rightarrow> scan_int (trim_space (drop (idx + 1) line))))"

definition parse_usb_net :: "string \<Rightarrow> int option" where
  "parse_usb_net resp =
     (case find_line_with_prefix resp ''+QCFG:'' of
        None \<Rightarrow> None
      | Some line \<Rightarrow>
          if \<not> contains line ([quote] @ ''usbnet'' @ [quote]) then None
          else (let parts = split_on (CHR '','') line in
                if length parts < 2 then None else scan_int (trim_space (parts ! 1))))"

definition parse_qpcmv_audio_mode :: "string \<Rightarrow> (bool \<times> int) option" where
  "parse_qpcmv_audio_mode resp =
     (case find_line_with_prefix resp ''+QPCMV:'' of
        None \<Rightarrow> None
      | Some line \<Rightarrow>
          (let parts = split_on (CHR '','') (after_prefix line ''+QPCMV:'') in
           Some (trim_space (parts ! 0) = ''1'',
                 if length parts > 1
                 then (case scan_int (trim_space (parts ! 1)) of None \<Rightarrow> 0 | Some v \<Rightarrow> v) else 0)))"

definition parse_cpcmreg_audio_mode :: "string \<Rightarrow> (bool \<times> int) option" where
  "parse_cpcmreg_audio_mode resp =
     (case find_line_with_prefix resp ''+CPCMREG:'' of
        None \<Rightarrow> None
      | Some line \<Rightarrow> map_option (\<lambda>v. (v = 1, v)) (scan_int (after_prefix line ''+CPCMREG:'')))"

section \<open>Messages\<close>

text \<open>\<open>alpha\<close> is the alphabet of a data coding scheme, as in the theory of the trimmer.\<close>

fun next_line_after :: "string \<Rightarrow> string list \<Rightarrow> string option" where
  "next_line_after prefix [] = None"
| "next_line_after prefix (l # ls) =
     (if has_prefix l prefix then
        (case ls of [] \<Rightarrow> None
         | n # _ \<Rightarrow> let nxt = trim_space n in if nxt \<noteq> [] \<and> nxt \<noteq> ''OK'' then Some nxt else None)
      else next_line_after prefix ls)"

definition extract_next_line_after_prefix :: "string \<Rightarrow> string \<Rightarrow> string option" where
  "extract_next_line_after_prefix resp prefix = next_line_after prefix (split_lines resp)"

fun pdus_after ::
  "(byte \<Rightarrow> alphabet option) \<Rightarrow> string \<Rightarrow> string list \<Rightarrow> (unit, string list) result" where
  "pdus_after alpha prefix [] = Ok []"
| "pdus_after alpha prefix [l] = Ok []"
| "pdus_after alpha prefix (l # n # ls) =
     (if has_prefix l prefix then
        (let nxt = trim_space n in
         if nxt \<noteq> [] \<and> nxt \<noteq> ''OK'' then
           and_then (trim_full_pdu_hex_by_at_header alpha nxt l) (\<lambda>(pdu, _).
             and_then (pdus_after alpha prefix ls) (\<lambda>out. Ok (pdu # out)))
         else pdus_after alpha prefix ls)
      else pdus_after alpha prefix (n # ls))"

fun lines_after :: "string \<Rightarrow> string list \<Rightarrow> string list" where
  "lines_after prefix [] = []"
| "lines_after prefix [l] = []"
| "lines_after prefix (l # n # ls) =
     (if has_prefix l prefix then
        (let nxt = trim_space n in
         (if nxt \<noteq> [] \<and> nxt \<noteq> ''OK'' then [nxt] else []) @ lines_after prefix ls)
      else lines_after prefix (n # ls))"

definition extract_all_next_lines_after_prefix :: "string \<Rightarrow> string \<Rightarrow> string list" where
  "extract_all_next_lines_after_prefix resp prefix = lines_after prefix (split_lines resp)"

definition extract_all_sms_pdus_after_prefix ::
  "(byte \<Rightarrow> alphabet option) \<Rightarrow> string \<Rightarrow> string \<Rightarrow> (unit, string list) result" where
  "extract_all_sms_pdus_after_prefix alpha resp prefix = pdus_after alpha prefix (split_lines resp)"

fun pdu_after ::
  "(byte \<Rightarrow> alphabet option) \<Rightarrow> string \<Rightarrow> string list \<Rightarrow> (unit, string option) result" where
  "pdu_after alpha prefix [] = Ok None"
| "pdu_after alpha prefix (l # ls) =
     (if has_prefix l prefix then
        (case ls of [] \<Rightarrow> Ok None
         | n # _ \<Rightarrow> let nxt = trim_space n in
             if nxt = [] \<or> nxt = ''OK'' then Ok None
             else and_then (trim_full_pdu_hex_by_at_header alpha nxt l) (\<lambda>(pdu, _). Ok (Some pdu)))
      else pdu_after alpha prefix ls)"

definition extract_sms_pdu_after_prefix ::
  "(byte \<Rightarrow> alphabet option) \<Rightarrow> string \<Rightarrow> string \<Rightarrow> (unit, string option) result" where
  "extract_sms_pdu_after_prefix alpha resp prefix = pdu_after alpha prefix (split_lines resp)"

section \<open>Numbers, channels and card commands\<close>

definition first_quoted_of :: "string \<Rightarrow> string \<Rightarrow> string option" where
  "first_quoted_of resp prefix =
     (case find_line_with_prefix resp prefix of
        None \<Rightarrow> None | Some line \<Rightarrow> extract_first_quoted line)"

definition parse_csca :: "string \<Rightarrow> string" where
  "parse_csca resp =
     (case first_quoted_of resp ''+CSCA:'' of None \<Rightarrow> [] | Some v \<Rightarrow> trim_space v)"

definition canonical_phone_candidate :: "string \<Rightarrow> string" where
  "canonical_phone_candidate v =
     (let s = trim_space v in
      if s = [] then []
      else if to_upper s = ''FFFFFFFF'' \<or> to_upper s = ''00000000000'' then []
      else if to_lower s = ''own number'' then []
      else
        (let s = trim_space (trim_prefix (to_lower s) ''tel:'');
             s = (if has_prefix (to_lower v) ''tel:'' then trim_space (drop 4 v) else s);
             s = filter (\<lambda>c. c \<notin> set '' -()'') s;
             digits = (if has_prefix s ''+'' then drop 1 s else s)
         in if s = [] \<or> length digits < 6 \<or> \<not> all_digits digits then [] else s))"

definition parse_cnum :: "string \<Rightarrow> string" where
  "parse_cnum resp =
     first_line (\<lambda>c. c \<noteq> [])
       (map canonical_phone_candidate
         (concat (map extract_quoted_fields
           (filter (\<lambda>l. has_prefix l ''+CNUM:'') (split_lines resp)))))"

definition parse_ccho :: "string \<Rightarrow> int option" where
  "parse_ccho resp =
     (case find_line_with_prefix resp ''+CCHO:'' of
        None \<Rightarrow> None
      | Some line \<Rightarrow>
          (let parts = split_on (CHR '':'') line in
           if length parts < 2 then None else scan_int (trim_space (parts ! 1))))"

definition parse_cgla :: "string \<Rightarrow> string option" where
  "parse_cgla resp = first_quoted_of resp ''+CGLA:''"

definition parse_csim :: "string \<Rightarrow> string option" where
  "parse_csim resp = first_quoted_of resp ''+CSIM:''"

definition scan_or_zero :: "string \<Rightarrow> int" where
  "scan_or_zero s = (case scan_int (trim_space s) of None \<Rightarrow> 0 | Some v \<Rightarrow> v)"

definition parse_crsm :: "string \<Rightarrow> (int \<times> int \<times> string) option" where
  "parse_crsm resp =
     (case find_line_with_prefix resp ''+CRSM:'' of
        None \<Rightarrow> None
      | Some line \<Rightarrow>
          (let parts = split_n 3 (CHR '','') (after_prefix line ''+CRSM:'') in
           if length parts < 2 then None
           else Some (scan_or_zero (parts ! 0), scan_or_zero (parts ! 1),
                      if length parts = 3 then trim_quotes (trim_space (parts ! 2)) else [])))"

definition bcd_digit :: "byte \<Rightarrow> string" where
  "bcd_digit n = (if n \<le> 9 then [char_of (48 + unat n)] else [])"

definition decode_swapped_bcd :: "bytes \<Rightarrow> string" where
  "decode_swapped_bcd data =
     concat (map (\<lambda>b. bcd_digit (b AND 0x0F) @ bcd_digit (drop_bit 4 b AND 0x0F)) data)"

section \<open>Operator lists\<close>

record operator_scan_entry =
  os_status :: int
  os_long :: string
  os_short :: string
  os_plmn :: string
  os_act :: int

definition scan_entry :: "string \<Rightarrow> operator_scan_entry option" where
  "scan_entry part =
     (let part = trim_suffix (trim_prefix part ''('') '')'';
          fs = split_on (CHR '','') part
      in if length fs < 4 then None
         else case atoi (fs ! 0) of
           None \<Rightarrow> None
         | Some stat \<Rightarrow>
             (let plmn = trim_quotes (fs ! 3) in
              if plmn = [] then None
              else Some \<lparr>os_status = stat, os_long = trim_quotes (fs ! 1),
                         os_short = trim_quotes (fs ! 2), os_plmn = plmn,
                         os_act = (if length fs \<ge> 5
                           then (case atoi (fs ! 4) of None \<Rightarrow> 0 | Some a \<Rightarrow> a) else 0)\<rparr>))"

definition parse_cops_scan :: "string \<Rightarrow> operator_scan_entry list" where
  "parse_cops_scan resp =
     (case find_line_with_prefix resp ''+COPS: '' of
        None \<Rightarrow> []
      | Some line \<Rightarrow> List.map_filter scan_entry (split_str ''),('' (drop 7 line)))"

record operator_selection =
  sel_mode :: int
  sel_format :: int
  sel_plmn :: string
  sel_act :: "int option"

definition parse_cops_selection :: "string \<Rightarrow> operator_selection option" where
  "parse_cops_selection resp =
     (case find_line_with_prefix resp ''+COPS: '' of
        None \<Rightarrow> None
      | Some line \<Rightarrow>
          (let fs = split_on (CHR '','') (drop 7 line) in
           case atoi (fs ! 0) of
             None \<Rightarrow> None
           | Some mode \<Rightarrow>
               Some \<lparr>sel_mode = mode,
                     sel_format = (if length fs \<ge> 3
                       then (case atoi (fs ! 1) of None \<Rightarrow> 0 | Some f \<Rightarrow> f) else 0),
                     sel_plmn = (if length fs \<ge> 3 then trim_quotes (fs ! 2) else []),
                     sel_act = (if length fs \<ge> 4 then atoi (fs ! 3) else None)\<rparr>))"

section \<open>Unsolicited codes\<close>

definition urc_key :: "string \<Rightarrow> string" where
  "urc_key line =
     (let s = trim_space line in
      if s = [] then []
      else if has_prefix s ''+'' \<or> has_prefix s ''^'' \<or> has_prefix s ''$'' then
        (case index_byte (CHR '':'') s of
           Some i \<Rightarrow> take i s
         | None \<Rightarrow> takeWhile (\<lambda>c. c \<noteq> CHR '' '' \<and> c \<noteq> CHR '','') s)
      else if s \<in> set [''NO CARRIER'', ''NO ANSWER'', ''SMS Ready'', ''Call Ready'', ''NORMAL POWER DOWN'']
      then s
      else takeWhile (\<lambda>c. c \<noteq> CHR '' '') s)"

definition parse_cmti :: "string \<Rightarrow> (string \<times> string) option" where
  "parse_cmti line =
     (let s = trim_space line in
      if \<not> has_prefix s ''+CMTI:'' then None
      else
        (let parts = split_on (CHR '','') (after_prefix s ''+CMTI:'') in
         if length parts < 2 then None
         else
           (let storage = trim_quotes (trim_space (parts ! 0)); idx = trim_space (parts ! 1) in
            if storage = [] \<or> idx = [] then None else Some (storage, idx))))"

definition parse_urc_after_colon :: "string \<Rightarrow> string" where
  "parse_urc_after_colon line =
     (case index_byte (CHR '':'') line of None \<Rightarrow> [] | Some i \<Rightarrow> trim_space (drop (i + 1) line))"

definition parse_int :: "string \<Rightarrow> int option" where
  "parse_int s = scan_int (trim_space s)"

section \<open>The scan for operators\<close>

text \<open>
  The answer to \<open>AT+COPS=?\<close> as the comment of \<open>parseCOPSScan\<close> gives it: the operators, each in
  parentheses, then the supported modes and formats.
\<close>

definition in_quotes :: "string \<Rightarrow> string" where
  "in_quotes s = [quote] @ s @ [quote]"

definition show_operator :: "operator_scan_entry \<Rightarrow> string" where
  "show_operator e =
     itoa (os_status e) @ CHR '','' # in_quotes (os_long e) @ CHR '','' # in_quotes (os_short e)
       @ CHR '','' # in_quotes (os_plmn e) @ CHR '','' # itoa (os_act e)"

fun join_operators :: "string list \<Rightarrow> string" where
  "join_operators [] = []"
| "join_operators [s] = s"
| "join_operators (s # t # ss) = s @ ''),('' @ join_operators (t # ss)"

definition cops_answer :: "operator_scan_entry list \<Rightarrow> string" where
  "cops_answer es =
     ''+COPS: ('' @ join_operators (map show_operator es) @ ''),,(0,1,2,3,4),(0,1,2)''"

definition plain_text :: "string \<Rightarrow> bool" where
  "plain_text s \<longleftrightarrow> set s \<inter> {CHR '','', quote, CHR ''('', CHR '')'', CHR 0x0A, CHR 0x0D} = {}"

definition operator_ok :: "operator_scan_entry \<Rightarrow> bool" where
  "operator_ok e \<longleftrightarrow> in_int64 (os_status e) \<and> in_int64 (os_act e) \<and> plain_text (os_long e)
     \<and> plain_text (os_short e) \<and> plain_text (os_plmn e) \<and> os_plmn e \<noteq> []"

lemma itoa_chars: "c \<in> set (itoa n) \<Longrightarrow> c = CHR ''-'' \<or> is_digit c"
  using nat_digits_are_digits by (auto simp: itoa_def split: if_splits)

lemma itoa_nonempty [simp]: "itoa n \<noteq> []"
  by (simp add: itoa_def)

lemma not_digits:
  "\<not> is_digit (CHR '','')" "\<not> is_digit quote" "\<not> is_digit (CHR ''('')" "\<not> is_digit (CHR '')'')"
  "\<not> is_digit (CHR 0x0A)" "\<not> is_digit (CHR 0x0D)"
  by code_simp+

lemma itoa_plain: "plain_text (itoa n)"
  using itoa_chars [of _ n] not_digits by (auto simp: plain_text_def quote_def)

lemma trim_in_quotes: "plain_text s \<Longrightarrow> trim_quotes (in_quotes s) = s"
proof -
  assume p: "plain_text s"
  have l: "trim_left_of [quote] (in_quotes s) = (if s = [] then [] else s @ [quote])"
    using p by (cases s) (auto simp: trim_left_of_def in_quotes_def plain_text_def)
  have "trim_right_of [quote] (s @ [quote]) = s"
    using p by (cases s rule: rev_cases) (auto simp: trim_right_of_def plain_text_def)
  then show ?thesis
    by (simp add: trim_quotes_def trim_of_def l trim_right_of_def)
qed

lemma has_suffix_last: "has_suffix s [c] \<longleftrightarrow> s \<noteq> [] \<and> last s = c"
  by (cases s rule: rev_cases) (auto simp: has_suffix_def)

lemma fields_of_operator:
  assumes "operator_ok e" and "CHR '','' \<notin> set pre"
  shows "split_on (CHR '','') (pre @ show_operator e @ rest) =
    [pre @ itoa (os_status e), in_quotes (os_long e), in_quotes (os_short e), in_quotes (os_plmn e)]
      @ split_on (CHR '','') (itoa (os_act e) @ rest)"
proof -
  have "CHR '','' \<notin> set (pre @ itoa (os_status e))" "CHR '','' \<notin> set (in_quotes (os_long e))"
    "CHR '','' \<notin> set (in_quotes (os_short e))" "CHR '','' \<notin> set (in_quotes (os_plmn e))"
    using assms itoa_plain by (auto simp: operator_ok_def plain_text_def in_quotes_def quote_def)
  moreover have "split_on c (a @ b @ c # t) = (a @ b) # split_on c t" if "c \<notin> set (a @ b)" for c a b t
    using split_on_append [OF that, of t] by simp
  ultimately show ?thesis
    by (simp add: show_operator_def split_on_append)
qed

text \<open>A part between separators, with the parenthesis the first one keeps.\<close>

lemma part_read:
  assumes "operator_ok e" and "pre \<in> {[], ''(''}"
  shows "scan_entry (pre @ show_operator e) = Some e"
proof -
  obtain c r where h: "show_operator e = c # r" "c = CHR ''-'' \<or> is_digit c"
    using itoa_chars [of "hd (itoa (os_status e))" "os_status e"]
    by (cases "itoa (os_status e)") (auto simp: show_operator_def)
  have "c \<noteq> CHR ''(''" using h(2) not_digits by auto
  then have p: "trim_prefix (pre @ show_operator e) ''('' = show_operator e"
    using assms(2) h(1) by (auto simp: trim_prefix_def)
  have "last (show_operator e) \<in> set (itoa (os_act e))"
    by (simp add: show_operator_def)
  then have "last (show_operator e) \<noteq> CHR '')''" using itoa_chars not_digits by fastforce
  then have s: "trim_suffix (show_operator e) '')'' = show_operator e"
    by (simp add: trim_suffix_def has_suffix_last)
  have f: "split_on (CHR '','') (show_operator e) =
    [itoa (os_status e), in_quotes (os_long e), in_quotes (os_short e), in_quotes (os_plmn e),
     itoa (os_act e)]"
    using fields_of_operator [OF assms(1), of "[]" "[]"] itoa_plain [of "os_act e"]
    by (simp add: split_on_plain plain_text_def)
  show ?thesis
    using assms(1) by (simp add: scan_entry_def Let_def p s f atoi_itoa trim_in_quotes operator_ok_def)
qed

lemma atoi_refuses: "c \<in> set (drop 1 s) \<Longrightarrow> \<not> is_digit c \<Longrightarrow> atoi s = None"
proof -
  assume c: "c \<in> set (drop 1 s)" "\<not> is_digit c"
  have "digits_value 0 t = None" if "c \<in> set t" for t
    using digits_value_chars [of 0 t] c(2) that by (cases "digits_value 0 t") (auto simp: is_digit_def)
  moreover have "c \<in> set s" using c(1) by (rule in_set_dropD)
  ultimately show ?thesis using c(1) by (simp add: atoi_def Let_def)
qed

text \<open>The last operator, which the list of modes follows, and the end of that list.\<close>

lemma last_part_read:
  assumes "operator_ok e" and "pre \<in> {[], ''(''}"
  shows "scan_entry (pre @ show_operator e @ ''),,(0,1,2,3,4'') = Some (e\<lparr>os_act := 0\<rparr>)"
proof -
  let ?tail = "''),,(0,1,2,3,4''"
  obtain c r where h: "show_operator e = c # r" "c = CHR ''-'' \<or> is_digit c"
    using itoa_chars [of "hd (itoa (os_status e))" "os_status e"]
    by (cases "itoa (os_status e)") (auto simp: show_operator_def)
  have "c \<noteq> CHR ''(''" using h(2) not_digits by auto
  then have p: "trim_prefix (pre @ show_operator e @ ?tail) ''('' = show_operator e @ ?tail"
    using assms(2) h(1) by (auto simp: trim_prefix_def)
  have s: "trim_suffix (show_operator e @ ?tail) '')'' = show_operator e @ ?tail"
    by (simp add: trim_suffix_def has_suffix_last)
  have f: "split_on (CHR '','') (show_operator e @ ?tail) =
    [itoa (os_status e), in_quotes (os_long e), in_quotes (os_short e), in_quotes (os_plmn e),
     itoa (os_act e) @ '')'', [], ''(0'', ''1'', ''2'', ''3'', ''4'']"
  proof -
    have "split_on (CHR '','') (itoa (os_act e) @ ?tail) =
        (itoa (os_act e) @ '')'') # split_on (CHR '','') '',(0,1,2,3,4''"
      using split_on_append [of "CHR '',''" "itoa (os_act e) @ '')''" "'',(0,1,2,3,4''"]
        itoa_plain [of "os_act e"] by (simp add: plain_text_def)
    then show ?thesis
      using fields_of_operator [OF assms(1), of "[]" ?tail] by simp
  qed
  have "atoi (itoa n @ '')'') = None" for n
    by (rule atoi_refuses [of "CHR '')''"]) (cases "itoa n", simp_all add: not_digits)
  then show ?thesis
    using assms(1) by (simp add: scan_entry_def Let_def p s f atoi_itoa trim_in_quotes operator_ok_def)
qed

lemma index_of_skip: "CHR '')'' \<notin> set a \<Longrightarrow> index_of ''),('' (a @ t) = map_option ((+) (length a)) (index_of ''),('' t)"
proof (induction a)
  case Nil
  then show ?case by (cases "index_of ''),('' t") simp_all
next
  case (Cons d a)
  then show ?case by (cases "index_of ''),('' t") auto
qed

lemma parts_of_answer:
  assumes "\<forall>p \<in> set ps. CHR '')'' \<notin> set p" and "ps \<noteq> []"
  shows "split_str ''),('' (join_operators ps @ ''),,(0,1,2,3,4),(0,1,2)'') =
    butlast ps @ [last ps @ ''),,(0,1,2,3,4'', ''0,1,2)'']"
  using assms
proof (induction ps rule: join_operators.induct)
  case (2 p)
  then show ?case
    by (subst split_str.simps, subst index_of_skip, simp, simp, subst split_str.simps, simp)
next
  case (3 p q ps)
  then have "split_str ''),('' (p @ ''),('' @ t) = p # split_str ''),('' t" for t
    by (subst split_str.simps, subst index_of_skip) simp_all
  with 3 show ?case by simp
qed simp

lemma operator_chars:
  assumes "list_all operator_ok es" and "e \<in> set es"
  shows "set (show_operator e) \<inter> {CHR '')'', CHR 0x0A, CHR 0x0D} = {}"
  using assms itoa_plain [of "os_status e"] itoa_plain [of "os_act e"]
  by (auto simp: list_all_iff operator_ok_def plain_text_def show_operator_def in_quotes_def quote_def)

lemma cops_answer_is_one_line:
  assumes "list_all operator_ok es"
  shows "find_line_with_prefix (cops_answer es) ''+COPS: '' = Some (cops_answer es)"
proof -
  let ?ps = "map show_operator es"
  have "set (join_operators ps) \<subseteq> \<Union> (set ` set ps) \<union> set ''),(''" for ps
    by (induction ps rule: join_operators.induct) auto
  from this [of ?ps] have line: "set (cops_answer es) \<inter> {CHR 0x0A, CHR 0x0D} = {}"
    using operator_chars [OF assms] by (fastforce simp: cops_answer_def)
  then have "remove_char (CHR 0x0D) (cops_answer es) = cops_answer es"
    by (auto simp: remove_char_def intro: filter_True)
  moreover have "trim_space (cops_answer es) = cops_answer es"
    by (rule trim_space_id) (simp_all add: cops_answer_def plain_char_def space_codes_def)
  ultimately have "split_lines (cops_answer es) = [cops_answer es]"
    using line by (simp add: split_lines_def split_on_plain)
  then show ?thesis
    by (simp add: find_line_with_prefix_def cops_answer_def)
qed

lemma complete_parts_read:
  "list_all operator_ok es \<Longrightarrow> List.map_filter scan_entry (map show_operator es) = es"
  using part_read [of _ "[]"] by (induction es) (simp_all add: List.map_filter_simps)

lemma list_all_butlast: "list_all P xs \<Longrightarrow> list_all P (butlast xs)"
  by (auto simp: list_all_iff dest: in_set_butlastD)

text \<open>
  A scan for operators returns every operator with its status, names and number, in the order
  of the answer, and with the access technology, except that of the last one: the list of
  modes behind it sticks to its last field, and its technology becomes 0, which means GSM.
\<close>

theorem operator_scan_loses_the_last_technology:
  assumes "list_all operator_ok es" and "es \<noteq> []"
  shows "parse_cops_scan (cops_answer es) = butlast es @ [(last es)\<lparr>os_act := 0\<rparr>]"
proof -
  let ?rest = "''),,(0,1,2,3,4),(0,1,2)''"
  obtain e es' where es: "es = e # es'" using assms(2) by (cases es) auto
  define qs where "qs = (''('' @ show_operator e) # map show_operator es'"
  have "drop 7 (cops_answer es) = join_operators qs @ ?rest"
    by (cases es') (simp_all add: cops_answer_def es qs_def)
  moreover have "split_str ''),('' (join_operators qs @ ?rest) =
      butlast qs @ [last qs @ ''),,(0,1,2,3,4'', ''0,1,2)'']"
    by (rule parts_of_answer) (use operator_chars [OF assms(1)] es in \<open>auto simp: qs_def\<close>)
  moreover have "scan_entry ''0,1,2)'' = None" by code_simp
  moreover have "List.map_filter scan_entry (butlast qs) = butlast es"
    using part_read [of e "''(''"] assms(1) complete_parts_read [OF list_all_butlast, of es']
    by (cases "es' = []") (simp_all add: es qs_def List.map_filter_simps map_butlast)
  moreover have "scan_entry (last qs @ ''),,(0,1,2,3,4'') = Some ((last es)\<lparr>os_act := 0\<rparr>)"
    using last_part_read [of "last es" "[]"] last_part_read [of e "''(''"] assms(1)
    by (cases es' rule: rev_cases) (auto simp: es qs_def)
  ultimately show ?thesis
    by (simp add: parse_cops_scan_def cops_answer_is_one_line [OF assms(1)] List.map_filter_def)
qed

definition two_operators :: "operator_scan_entry list" where
  "two_operators =
     [\<lparr>os_status = 2, os_long = ''CHN-UNICOM'', os_short = ''UNICOM'', os_plmn = ''46001'', os_act = 7\<rparr>,
      \<lparr>os_status = 3, os_long = ''CHINA MOBILE'', os_short = ''CMCC'', os_plmn = ''46000'', os_act = 7\<rparr>]"

theorem operator_scan_loses_the_last_technology_witness:
  "map os_act (parse_cops_scan (cops_answer two_operators)) = [7, 0]"
proof -
  have "list_all operator_ok two_operators"
    by (simp add: two_operators_def operator_ok_def in_int64_def plain_text_def quote_def)
  then show ?thesis
    using operator_scan_loses_the_last_technology [of two_operators] by (simp add: two_operators_def)
qed

end
