(* ===== verification/Sim_Metadata.thy ===== *)
theory Sim_Metadata
  imports Mbim_Ussd Go_Text
begin

text \<open>
  The files of a SIM card (internal/modem/sim\_metadata.go, spn.go): the number of digits of
  the network code, operator names, the list of operator names by network, the service table,
  and the alphabets of their texts. The GSM 7-bit table is the third-party package gsm7: the
  argument \<open>gsm\<close> maps septets to UTF-8 bytes. A result with an error is an option.
\<close>

type_synonym gsm_table = "bytes \<Rightarrow> bytes option"

section \<open>Padding\<close>

definition is_padding :: "byte \<Rightarrow> bool" where
  "is_padding b \<longleftrightarrow> b = 0xFF \<or> b = 0x00"

definition trim_sim_padding :: "bytes \<Rightarrow> bytes" where
  "trim_sim_padding data = rev (dropWhile is_padding (rev data))"

definition trim_spn_padding :: "bytes \<Rightarrow> bytes" where
  "trim_spn_padding data = rev (dropWhile is_padding (rev data))"

definition sim_raw_hex :: "bytes \<Rightarrow> string" where
  "sim_raw_hex data = to_upper (hex_of_bytes (trim_sim_padding data))"

section \<open>Alphabets\<close>

definition is_printable_ascii :: "bytes \<Rightarrow> bool" where
  "is_printable_ascii data \<longleftrightarrow> data \<noteq> [] \<and> list_all (\<lambda>b. 0x20 \<le> b \<and> b \<le> 0x7E) data"

definition decode_spn_gsm :: "gsm_table \<Rightarrow> bytes \<Rightarrow> string option" where
  "decode_spn_gsm gsm data =
     (case gsm data of
        None \<Rightarrow> None
      | Some decoded \<Rightarrow>
          if \<not> valid_utf8 (string_of_bytes decoded) then None else Some (string_of_bytes decoded))"

definition decode_spn_ucs2 :: "bytes \<Rightarrow> string option" where
  "decode_spn_ucs2 data =
     (let data = trim_spn_padding data in
      if data = [] then None
      else if length data mod 2 \<noteq> 0 then None
      else Some (string_of_runes (utf16_decode (be16_units data))))"

fun compressed_text :: "gsm_table \<Rightarrow> u16 \<Rightarrow> bytes \<Rightarrow> string option" where
  "compressed_text gsm base [] = Some []"
| "compressed_text gsm base (c # cs) =
     (if c < 0x80 then
        (case decode_spn_gsm gsm [c] of
           None \<Rightarrow> None | Some d \<Rightarrow> map_option (\<lambda>s. d @ s) (compressed_text gsm base cs))
      else map_option (\<lambda>s. string_of_runes [unat (base + ucast (c AND 0x7F))] @ s)
             (compressed_text gsm base cs))"

definition decode_spn_compressed_ucs2 :: "gsm_table \<Rightarrow> bytes \<Rightarrow> nat \<Rightarrow> string option" where
  "decode_spn_compressed_ucs2 gsm data baseBytes =
     (if length data < 2 + baseBytes then None
      else
        (let payload = take (unat (data ! 1)) (drop (2 + baseBytes) data);
             base = (if baseBytes = 1 then push_bit 7 (ucast (data ! 2)) else be16 (data ! 2) (data ! 3))
         in compressed_text gsm base payload))"

definition decode_sim_alpha_identifier :: "gsm_table \<Rightarrow> bytes \<Rightarrow> string option" where
  "decode_sim_alpha_identifier gsm data =
     (let data = trim_sim_padding data in
      if data = [] then None
      else if data ! 0 = 0x80 then decode_spn_ucs2 (drop 1 data)
      else if data ! 0 = 0x81 then decode_spn_compressed_ucs2 gsm data 1
      else if data ! 0 = 0x82 then decode_spn_compressed_ucs2 gsm data 2
      else if is_printable_ascii data then Some (trim_space (string_of_bytes data))
      else decode_spn_gsm gsm data)"

definition decode_ef_spn :: "gsm_table \<Rightarrow> bytes \<Rightarrow> string option" where
  "decode_ef_spn gsm data =
     (if data = [] then None
      else
        (let name = trim_spn_padding (if length data > 1 then drop 1 data else data) in
         if name = [] then None
         else
           (let decoded =
              (if name ! 0 = 0x80 then decode_spn_ucs2 (drop 1 name)
               else if name ! 0 = 0x81 then decode_spn_compressed_ucs2 gsm name 1
               else if name ! 0 = 0x82 then decode_spn_compressed_ucs2 gsm name 2
               else if is_printable_ascii name then Some (string_of_bytes name)
               else decode_spn_gsm gsm name)
            in case decoded of
                 None \<Rightarrow> None
               | Some d \<Rightarrow>
                   (let d = trim_space (remove_char (CHR 0x00) d) in
                    if d = [] then None else Some d))))"

text \<open>
  The loop of \<open>decodePackedGSM7\<close>: the bits not yet handed out and their number, and how many
  septets are still wanted. The inner loop runs at most twice per byte.
\<close>

fun take_septets :: "nat \<Rightarrow> nat \<Rightarrow> nat \<Rightarrow> bytes \<times> nat \<times> nat \<times> nat" where
  "take_septets 0 buf bits = ([], 0, buf, bits)"
| "take_septets (Suc want) buf bits =
     (if bits \<ge> 7 then
        (case take_septets want (buf div 128) (bits - 7) of
           (out, rest) \<Rightarrow> (of_nat (buf mod 128) # out, rest))
      else ([], Suc want, buf, bits))"

fun unpack_septets :: "nat \<Rightarrow> nat \<Rightarrow> nat \<Rightarrow> bytes \<Rightarrow> bytes" where
  "unpack_septets want buf bits [] = []"
| "unpack_septets want buf bits (b # bs) =
     (case take_septets want (buf + unat b * 2 ^ bits) (bits + 8) of
        (out, want, buf, bits) \<Rightarrow> out @ unpack_septets want buf bits bs)"

definition packed_septets :: "bytes \<Rightarrow> nat \<Rightarrow> nat" where
  "packed_septets data spareBits = (length data * 8 - spareBits) div 7"

definition decode_packed_gsm7 :: "gsm_table \<Rightarrow> bytes \<Rightarrow> nat \<Rightarrow> string option" where
  "decode_packed_gsm7 gsm data spareBits =
     (let spareBits = (if spareBits > 7 then 0 else spareBits);
          septets = packed_septets data spareBits
      in if septets = 0 then None
         else case decode_spn_gsm gsm (unpack_septets septets 0 0 data) of
           None \<Rightarrow> None
         | Some d \<Rightarrow>
             (let d = trim_space (remove_char (CHR 0x00) d) in if d = [] then None else Some d))"

section \<open>The home network\<close>

definition mnc_length_from_efad :: "bytes \<Rightarrow> nat option" where
  "mnc_length_from_efad efAD =
     (if length efAD < 4 then None
      else if efAD ! 3 = 0x02 \<or> efAD ! 3 = 0x03 then Some (unat (efAD ! 3)) else None)"

definition three_digit_mccs :: "string list" where
  "three_digit_mccs =
     [''302'', ''308'', ''310'', ''311'', ''312'', ''313'', ''314'', ''315'', ''316'', ''332'', ''318'',
      ''319'', ''334'', ''350'', ''338'', ''348'', ''342'', ''344'', ''346'', ''354'', ''356'', ''358'',
      ''360'', ''362'', ''364'', ''365'', ''366'', ''368'', ''370'', ''372'', ''374'', ''376'', ''405'',
      ''406'', ''716'', ''722'', ''730'', ''732'', ''736'', ''740'', ''744'', ''746'', ''748'', ''750'']"

definition parse_mcc_mnc_from_imsi :: "string \<Rightarrow> string \<times> string" where
  "parse_mcc_mnc_from_imsi imsi =
     (let imsi = trim_space imsi in
      if length imsi < 5 then ([], [])
      else
        (let mcc = take 3 imsi; mncLen = (if mcc \<in> set three_digit_mccs then 3 else 2) in
         if length imsi < 3 + mncLen then (mcc, drop 3 imsi)
         else (mcc, take mncLen (drop 3 imsi))))"

datatype plmn_source = ImsiEfad | ImsiHeuristic

definition home_mcc_mnc :: "string \<Rightarrow> bytes \<Rightarrow> (string \<times> string \<times> nat \<times> plmn_source) option" where
  "home_mcc_mnc imsi efAD =
     (let imsi = trim_space imsi in
      if length imsi < 5 then None
      else case mnc_length_from_efad efAD of
        Some resolvedLen \<Rightarrow>
          if length imsi < 3 + resolvedLen then None
          else Some (take 3 imsi, take resolvedLen (drop 3 imsi), resolvedLen, ImsiEfad)
      | None \<Rightarrow>
          (case parse_mcc_mnc_from_imsi imsi of (mcc, mnc) \<Rightarrow>
             if mcc = [] \<or> mnc = [] then None else Some (mcc, mnc, length mnc, ImsiHeuristic)))"

section \<open>Names and networks\<close>

definition decode_pnn_network_name :: "gsm_table \<Rightarrow> bytes \<Rightarrow> string option" where
  "decode_pnn_network_name gsm data =
     (let data = trim_sim_padding data in
      if data = [] then None
      else if length data \<ge> 2 \<and> drop_bit 4 (data ! 0) AND 0x07 = 0
      then decode_packed_gsm7 gsm (drop 1 data) (unat (data ! 0 AND 0x07))
      else if length data \<ge> 2 \<and> drop_bit 4 (data ! 0) AND 0x07 = 1
      then decode_spn_ucs2 (drop 1 data)
      else decode_sim_alpha_identifier gsm data)"

fun pnn_tlvs :: "nat \<Rightarrow> bytes \<Rightarrow> nat" where
  "pnn_tlvs 0 d = 0"
| "pnn_tlvs (Suc n) d =
     (case d of
        tag # l # rest \<Rightarrow>
          if tag \<noteq> 0x43 \<and> tag \<noteq> 0x45 then 0
          else if l = 0 \<or> unat l > length rest then 0
          else 2 + unat l + pnn_tlvs n (drop (unat l) rest)
      | _ \<Rightarrow> 0)"

definition pnn_tlv_length :: "bytes \<Rightarrow> nat" where
  "pnn_tlv_length data = (let data = trim_sim_padding data in pnn_tlvs (length data) data)"

definition trim_pnn_tlv_record :: "bytes \<Rightarrow> bytes" where
  "trim_pnn_tlv_record data = take (pnn_tlv_length data) data"

record pnn_record =
  pn_record :: int
  pn_full :: string
  pn_short :: string
  pn_raw :: string

definition pnn_item :: "gsm_table \<Rightarrow> byte \<Rightarrow> bytes \<Rightarrow> pnn_record \<Rightarrow> pnn_record" where
  "pnn_item gsm tag val out =
     (case decode_pnn_network_name gsm val of
        None \<Rightarrow> out
      | Some name \<Rightarrow>
          if tag = 0x43 then out\<lparr>pn_full := name\<rparr>
          else if tag = 0x45 then out\<lparr>pn_short := name\<rparr> else out)"

fun pnn_items :: "gsm_table \<Rightarrow> nat \<Rightarrow> bytes \<Rightarrow> pnn_record \<Rightarrow> pnn_record" where
  "pnn_items gsm 0 d out = out"
| "pnn_items gsm (Suc n) d out =
     (case d of
        tag # l # rest \<Rightarrow>
          if unat l > length rest then out
          else pnn_items gsm n (drop (unat l) rest) (pnn_item gsm tag (take (unat l) rest) out)
      | _ \<Rightarrow> out)"

definition decode_pnn_record :: "gsm_table \<Rightarrow> int \<Rightarrow> bytes \<Rightarrow> pnn_record option" where
  "decode_pnn_record gsm rec data =
     (let data = trim_pnn_tlv_record data in
      if data = [] then None
      else
        (let out = pnn_items gsm (length data) data
               \<lparr>pn_record = rec, pn_full = [], pn_short = [], pn_raw = sim_raw_hex data\<rparr>
         in if pn_full out \<noteq> [] \<or> pn_short out \<noteq> [] \<or> pn_raw out \<noteq> [] then Some out else None))"

definition plmn_nibbles :: "bytes \<Rightarrow> byte list" where
  "plmn_nibbles data =
     [data ! 0 AND 0x0F, drop_bit 4 (data ! 0), data ! 1 AND 0x0F,
      data ! 2 AND 0x0F, drop_bit 4 (data ! 2), drop_bit 4 (data ! 1)]"

definition nibble_char :: "byte \<Rightarrow> char" where
  "nibble_char n = (if n = 0x0F then CHR ''x'' else char_of (48 + unat n))"

definition decode_opl_plmn :: "bytes \<Rightarrow> string" where
  "decode_opl_plmn data =
     (if length data < 3 then []
      else if list_ex (\<lambda>n. n \<noteq> 0x0F \<and> n > 9) (plmn_nibbles data) then []
      else trim_right_of ''x'' (map nibble_char (plmn_nibbles data)))"

record opl_record =
  op_record :: int
  op_plmn :: string
  op_lac_start :: u16
  op_lac_end :: u16
  op_pnn :: nat
  op_raw :: string

definition decode_opl_record :: "int \<Rightarrow> bytes \<Rightarrow> opl_record option" where
  "decode_opl_record rec data =
     (let raw = sim_raw_hex data; data = trim_sim_padding data in
      if length data < 8 then None
      else
        (let out = \<lparr>op_record = rec, op_plmn = decode_opl_plmn (take 3 data),
               op_lac_start = be16 (data ! 3) (data ! 4), op_lac_end = be16 (data ! 5) (data ! 6),
               op_pnn = unat (data ! 7), op_raw = raw\<rparr>
         in if op_plmn out \<noteq> [] \<or> op_raw out \<noteq> [] then Some out else None))"

definition is_exact_decimal_plmn :: "string \<Rightarrow> bool" where
  "is_exact_decimal_plmn plmn \<longleftrightarrow> list_all is_digit plmn"

fun native_mcc_mnc_from_opl :: "opl_record list \<Rightarrow> (string \<times> string) option" where
  "native_mcc_mnc_from_opl [] = None"
| "native_mcc_mnc_from_opl (r # rs) =
     (let plmn = trim_space (op_plmn r) in
      if length plmn \<noteq> 5 \<and> length plmn \<noteq> 6 then native_mcc_mnc_from_opl rs
      else if \<not> is_exact_decimal_plmn plmn then native_mcc_mnc_from_opl rs
      else Some (take 3 plmn, drop 3 plmn))"

section \<open>The service table\<close>

record service_table =
  st_kind :: string
  st_raw :: string
  st_enabled :: "nat list"

definition byte_services :: "nat \<Rightarrow> byte \<Rightarrow> nat list" where
  "byte_services i b = map (\<lambda>k. i * 8 + k + 1) (filter (\<lambda>k. bit b k) [0..<8])"

fun services_from :: "nat \<Rightarrow> bytes \<Rightarrow> nat list" where
  "services_from i [] = []"
| "services_from i (b # bs) = byte_services i b @ services_from (i + 1) bs"

definition decode_sim_service_table :: "string \<Rightarrow> bytes \<Rightarrow> service_table option" where
  "decode_sim_service_table kind data =
     (let raw = sim_raw_hex data; data = trim_sim_padding data in
      if data = [] then None
      else Some \<lparr>st_kind = kind, st_raw = raw, st_enabled = services_from 0 data\<rparr>)"

section \<open>Packed text\<close>

text \<open>The septets of a number, least significant first, and the number of some septets.\<close>

fun septets_of :: "nat \<Rightarrow> nat \<Rightarrow> bytes" where
  "septets_of 0 v = []"
| "septets_of (Suc n) v = of_nat (v mod 128) # septets_of n (v div 128)"

fun septet_value :: "bytes \<Rightarrow> nat" where
  "septet_value [] = 0"
| "septet_value (s # ss) = unat s + 128 * septet_value ss"

lemma septets_add: "septets_of (m + n) v = septets_of m v @ septets_of n (v div 128 ^ m)"
  by (induction m arbitrary: v) (simp_all add: div_mult2_eq)

lemma septets_low: "septets_of n (v + 128 ^ n * w) = septets_of n v"
proof (induction n arbitrary: v)
  case (Suc n)
  have "(v + 128 ^ Suc n * w) div 128 = v div 128 + 128 ^ n * w"
    using div_mult_self2 [of 128 v "128 ^ n * w"] by (simp add: mult.assoc)
  moreover have "(v + 128 ^ Suc n * w) mod 128 = v mod 128" by (simp add: mult.assoc)
  ultimately show ?case using Suc by (simp del: power_Suc)
qed simp

lemma take_septets_value:
  "take_septets want buf bits =
    (let k = min want (bits div 7) in (septets_of k buf, want - k, buf div 128 ^ k, bits - 7 * k))"
proof (induction want arbitrary: buf bits)
  case (Suc want)
  show ?case
  proof (cases "bits \<ge> 7")
    case True
    then have "bits div 7 = Suc ((bits - 7) div 7)" using le_div_geq by simp
    with True Suc show ?thesis by (simp add: Let_def div_mult2_eq)
  next
    case False
    then show ?thesis by simp
  qed
qed simp

lemma unpack_nothing: "unpack_septets 0 buf bits data = []"
  by (induction data arbitrary: buf bits) auto

lemma unpack_value:
  "7 * want \<le> bits + 8 * length data \<Longrightarrow> bits < 7 \<Longrightarrow>
   unpack_septets want buf bits data = septets_of want (buf + 2 ^ bits * le_value data)"
proof (induction data arbitrary: want buf bits)
  case Nil
  then have "want = 0" by simp
  then show ?case by simp
next
  case (Cons b bs)
  define k where "k = min want ((bits + 8) div 7)"
  define c where "c = bits + 8 - 7 * k"
  let ?buf = "buf + unat b * 2 ^ bits"
  have "7 * k \<le> 7 * ((bits + 8) div 7)" by (simp add: k_def)
  also have "\<dots> \<le> bits + 8" by (rule times_div_less_eq_dividend)
  finally have k: "7 * k \<le> bits + 8" .
  have pow: "(2::nat) ^ (bits + 8) = 128 ^ k * 2 ^ c"
  proof -
    have "(128::nat) ^ k = 2 ^ (7 * k)" by (simp add: power_mult)
    with k show ?thesis by (simp add: c_def flip: power_add)
  qed
  have v: "buf + 2 ^ bits * le_value (b # bs) = ?buf + 128 ^ k * (2 ^ c * le_value bs)"
    using pow by (simp add: power_add algebra_simps)
  have dv: "(buf + 2 ^ bits * le_value (b # bs)) div 128 ^ k = ?buf div 128 ^ k + 2 ^ c * le_value bs"
    unfolding v by simp
  have "unpack_septets want buf bits (b # bs) =
      septets_of k ?buf @ unpack_septets (want - k) (?buf div 128 ^ k) c bs"
    by (simp add: take_septets_value k_def c_def Let_def)
  also have "\<dots> = septets_of k ?buf @ septets_of (want - k) (?buf div 128 ^ k + 2 ^ c * le_value bs)"
  proof (cases "k = want")
    case True
    then show ?thesis by (simp add: unpack_nothing)
  next
    case False
    then have "k = (bits + 8) div 7" by (auto simp: k_def min_def split: if_splits)
    then have "c < 7" by (simp add: c_def minus_mult_div_eq_mod)
    moreover have "7 * (want - k) \<le> c + 8 * length bs" using Cons.prems(1) k by (simp add: c_def)
    ultimately show ?thesis by (simp add: Cons.IH)
  qed
  also have "\<dots> = septets_of (k + (want - k)) (buf + 2 ^ bits * le_value (b # bs))"
    using septets_low [of k ?buf "2 ^ c * le_value bs"] by (simp only: septets_add dv) (simp only: v)
  also have "k + (want - k) = want" by (simp add: k_def)
  finally show ?case .
qed

definition pack_septets :: "bytes \<Rightarrow> bytes" where
  "pack_septets ss = le_digits ((7 * length ss + 7) div 8) (septet_value ss)"

definition spare_bits :: "nat \<Rightarrow> nat" where
  "spare_bits n = 8 * ((7 * n + 7) div 8) - 7 * n"

lemma septet_value_bound: "list_all (\<lambda>s. s < 128) ss \<Longrightarrow> septet_value ss < 128 ^ length ss"
proof (induction ss)
  case (Cons s ss)
  then have "unat s < 128" "septet_value ss < 128 ^ length ss" by (simp_all add: word_less_nat_alt)
  then show ?case by simp
qed simp

lemma septets_of_value: "list_all (\<lambda>s. s < 128) ss \<Longrightarrow> septets_of (length ss) (septet_value ss) = ss"
  by (induction ss) (simp_all add: word_less_nat_alt)

lemma pack_bits: "7 * n \<le> 8 * ((7 * n + 7) div 8)" "8 * ((7 * n + 7) div 8) < 7 * n + 8" for n :: nat
  using div_mult_mod_eq [of "7 * n + 7" 8] mod_less_divisor [of 8 "7 * n + 7"] by linarith+

text \<open>
  A packed network name is unpacked to its septets: for any septets, the decoder fed with
  their packing and the number of spare bits reads the text of exactly those septets.
\<close>

theorem packed_name_is_unpacked:
  assumes "list_all (\<lambda>s. s < 128) ss" and "ss \<noteq> []"
  shows "decode_packed_gsm7 gsm (pack_septets ss) (spare_bits (length ss)) =
    (case decode_spn_gsm gsm ss of
       None \<Rightarrow> None
     | Some d \<Rightarrow> (let d = trim_space (remove_char (CHR 0x00) d) in if d = [] then None else Some d))"
proof -
  let ?n = "length ss" and ?m = "(7 * length ss + 7) div 8"
  have spare: "\<not> spare_bits ?n > 7" using pack_bits [of ?n] by (simp add: spare_bits_def)
  have count: "packed_septets (pack_septets ss) (spare_bits ?n) = ?n"
    using pack_bits(1) [of ?n] by (simp add: packed_septets_def pack_septets_def spare_bits_def mult.commute)
  have "(128::nat) ^ ?n = 2 ^ (7 * ?n)" by (simp add: power_mult)
  also have "\<dots> \<le> 2 ^ (8 * ?m)" using pack_bits(1) [of ?n] by (intro power_increasing) simp_all
  also have "\<dots> = 256 ^ ?m" by (simp add: power_mult)
  finally have "septet_value ss < 256 ^ ?m" using septet_value_bound [OF assms(1)] by linarith
  then have "le_value (pack_septets ss) = septet_value ss" by (simp add: pack_septets_def le_value_digits)
  moreover have "7 * ?n \<le> 0 + 8 * length (pack_septets ss)"
    using pack_bits(1) [of ?n] by (simp add: pack_septets_def)
  ultimately have "unpack_septets ?n 0 0 (pack_septets ss) = ss"
    using unpack_value [of ?n 0 "pack_septets ss" 0] septets_of_value [OF assms(1)] by simp
  with spare count assms(2) show ?thesis by (simp add: decode_packed_gsm7_def Let_def)
qed

theorem packed_name_is_unpacked_witness:
  "decode_packed_gsm7 Some (pack_septets [0x56, 0x6F, 0x44]) 3 = Some ''VoD''"
proof -
  have "decode_spn_gsm Some [0x56, 0x6F, 0x44] = Some ''VoD''"
  proof -
    have "string_of_bytes [0x56, 0x6F, 0x44] = ''VoD''" by code_simp
    then show ?thesis by (simp add: decode_spn_gsm_def ascii_valid ascii_def)
  qed
  moreover have "trim_space (remove_char (CHR 0x00) ''VoD'') = ''VoD''"
    by (simp add: remove_char_def trim_space_id plain_char_def space_codes_def)
  ultimately show ?thesis
    using packed_name_is_unpacked [of "[0x56, 0x6F, 0x44]" Some] by (simp add: spare_bits_def)
qed

section \<open>Enabled services\<close>

definition service_bit :: "bytes \<Rightarrow> nat \<Rightarrow> bool" where
  "service_bit data n \<longleftrightarrow>
     0 < n \<and> (n - 1) div 8 < length data \<and> bit (data ! ((n - 1) div 8)) ((n - 1) mod 8)"

lemma in_byte_services:
  "n \<in> set (byte_services i b) \<longleftrightarrow> 0 < n \<and> (n - 1) div 8 = i \<and> bit b ((n - 1) mod 8)"
proof
  assume "0 < n \<and> (n - 1) div 8 = i \<and> bit b ((n - 1) mod 8)"
  moreover from this have "n = i * 8 + (n - 1) mod 8 + 1"
    using div_mult_mod_eq [of "n - 1" 8] by simp
  ultimately show "n \<in> set (byte_services i b)"
    unfolding byte_services_def by (auto intro!: image_eqI [of _ _ "(n - 1) mod 8"])
qed (auto simp: byte_services_def)

lemma in_services_from:
  "n \<in> set (services_from i data) \<longleftrightarrow>
    0 < n \<and> i \<le> (n - 1) div 8 \<and> (n - 1) div 8 < i + length data
      \<and> bit (data ! ((n - 1) div 8 - i)) ((n - 1) mod 8)"
proof (induction data arbitrary: i)
  case (Cons b bs)
  let ?q = "(n - 1) div 8"
  consider "?q = i" | "i < ?q" | "?q < i" by linarith
  then show ?case
  proof cases
    case 2
    then obtain j where "?q - i = Suc j" "?q - (i + 1) = j"
      by (metis Suc_diff_Suc Suc_eq_plus1)
    with 2 Cons show ?thesis by (auto simp: in_byte_services)
  qed (auto simp: Cons in_byte_services)
qed simp

lemma byte_services_sorted: "sorted_wrt (<) (byte_services i b)"
  unfolding byte_services_def sorted_wrt_map
  by (rule sorted_wrt_filter) (simp add: sorted_wrt_mono_rel [OF _ sorted_wrt_upt])

lemma services_sorted: "sorted_wrt (<) (services_from i data)"
proof (induction data arbitrary: i)
  case (Cons b bs)
  have "m < n" if "m \<in> set (byte_services i b)" "n \<in> set (services_from (i + 1) bs)" for m n
  proof -
    have "(m - 1) div 8 < (n - 1) div 8"
      using that by (simp add: in_byte_services in_services_from)
    then have "\<not> n - 1 \<le> m - 1" by (meson div_le_mono leD)
    then show ?thesis by linarith
  qed
  with Cons byte_services_sorted show ?case by (simp add: sorted_wrt_append)
qed simp

text \<open>
  The service table lists the set bits: its numbers are, in increasing order and once each, the
  services whose bit is set in the file without its padding.
\<close>

theorem enabled_services_are_the_set_bits:
  assumes "decode_sim_service_table kind data = Some t"
  shows "sorted_wrt (<) (st_enabled t)
    \<and> (\<forall>n. n \<in> set (st_enabled t) \<longleftrightarrow> service_bit (trim_sim_padding data) n)"
proof -
  have "st_enabled t = services_from 0 (trim_sim_padding data)"
    using assms by (auto simp: decode_sim_service_table_def Let_def split: if_splits)
  then show ?thesis
    by (simp add: services_sorted in_services_from service_bit_def)
qed

theorem enabled_services_are_the_set_bits_witness:
  "\<exists>t. decode_sim_service_table ''UST'' [0x05, 0x81, 0x00] = Some t \<and> 16 \<in> set (st_enabled t)
     \<and> 17 \<notin> set (st_enabled t)"
proof -
  have trim: "trim_sim_padding [0x05, 0x81, 0x00] = [0x05, 0x81]"
    by (simp add: trim_sim_padding_def is_padding_def)
  then obtain t where t: "decode_sim_service_table ''UST'' [0x05, 0x81, 0x00] = Some t"
    by (simp add: decode_sim_service_table_def Let_def)
  have "service_bit [0x05, 0x81] 16" "\<not> service_bit [0x05, 0x81] 17"
    by (simp_all add: service_bit_def)
  then show ?thesis
    using enabled_services_are_the_set_bits [OF t] t unfolding trim by blast
qed

text \<open>
  But a last byte with all eight services enabled looks like padding and is dropped with them,
  and so is the zero of a network whose name comes from elsewhere, which leaves its record too
  short to be read.
\<close>

lemma full_last_byte_is_dropped:
  "trim_sim_padding (data @ [0xFF]) = trim_sim_padding data"
  "service_bit (data @ [0xFF]) (8 * length data + 1)"
  by (simp_all add: trim_sim_padding_def is_padding_def service_bit_def)

lemma network_without_own_name_is_refused:
  "length data = 7 \<Longrightarrow> decode_opl_record rec (data @ [0x00]) = None"
proof -
  assume "length data = 7"
  have "length (trim_sim_padding data) \<le> length data"
    unfolding trim_sim_padding_def using length_dropWhile_le [of is_padding "rev data"] by simp
  then have "length (trim_sim_padding (data @ [0x00])) < 8"
    using \<open>length data = 7\<close> by (simp add: trim_sim_padding_def is_padding_def)
  then show ?thesis by (simp add: decode_opl_record_def Let_def)
qed

end
