(* ===== verification/Go_Netip.thy ===== *)
theory Go_Netip
  imports Go_Net Go_Text SMS_Rp
begin

text \<open>
  Package \<open>net/netip\<close> and \<open>net.SplitHostPort\<close>: addresses with their zone, the parsers of
  addresses and prefixes, containment, and the text forms. An address that has not been set
  is \<open>NoAddr\<close>; the bytes of an address are a word of 32 or of 128 bits.
\<close>

type_synonym u128 = "128 word"

datatype ip_addr = NoAddr | V4 u32 | V6 u128 string

definition be_word :: "byte list \<Rightarrow> 'a::len word" where
  "be_word bs = foldl (\<lambda>a b. a * 256 + ucast b) 0 bs"

definition is_4in6 :: "u128 \<Rightarrow> bool" where
  "is_4in6 w \<longleftrightarrow> drop_bit 32 w = 0xFFFF"

fun unmap :: "ip_addr \<Rightarrow> ip_addr" where
  "unmap (V6 w z) = (if is_4in6 w then V4 (ucast w) else V6 w z)"
| "unmap a = a"

fun is_loopback :: "ip_addr \<Rightarrow> bool" where
  "is_loopback NoAddr = False"
| "is_loopback (V4 w) = (drop_bit 24 w = 127)"
| "is_loopback (V6 w z) = (if is_4in6 w then drop_bit 24 (ucast w :: u32) = 127 else w = 1)"

section \<open>Parsing addresses\<close>

text \<open>
  The fields of a dotted quad: the value and the number of digits of the current field, the
  fields before it. A dot may neither come first nor last nor follow a dot.
\<close>

fun ipv4_fields :: "nat \<Rightarrow> nat \<Rightarrow> byte list \<Rightarrow> string \<Rightarrow> byte list option" where
  "ipv4_fields v n fs [] = (if length fs < 3 then None else Some (fs @ [of_nat v]))"
| "ipv4_fields v n fs (c # s) =
     (case digit_value c of
        Some d \<Rightarrow>
          if n = 1 \<and> v = 0 then None
          else if v * 10 + d > 255 then None
          else ipv4_fields (v * 10 + d) (n + 1) fs s
      | None \<Rightarrow>
          if c = CHR ''.'' then
            (if n = 0 \<or> s = [] then None
             else if length fs = 3 then None
             else ipv4_fields 0 0 (fs @ [of_nat v]) s)
          else None)"

text \<open>
  The groups of an IPv6 address, at most as many as the first argument: the bytes so far and
  the place of the double colon. What comes back last is the text that is left over.
\<close>

definition is_hex_digit :: "char \<Rightarrow> bool" where
  "is_hex_digit c \<longleftrightarrow> hex_value c \<noteq> None"

definition hex_number :: "string \<Rightarrow> u16" where
  "hex_number s = foldl (\<lambda>a c. a * 16 + (case hex_value c of None \<Rightarrow> 0 | Some d \<Rightarrow> ucast d)) 0 s"

definition group_bytes :: "u16 \<Rightarrow> byte list" where
  "group_bytes v = [ucast (drop_bit 8 v), ucast v]"

fun v6_groups ::
  "nat \<Rightarrow> byte list \<Rightarrow> nat option \<Rightarrow> string \<Rightarrow> (byte list \<times> nat option \<times> string) option"
where
  "v6_groups 0 ip e s = Some (ip, e, s)"
| "v6_groups (Suc n) ip e s =
     (let ds = takeWhile is_hex_digit s; ip' = ip @ group_bytes (hex_number ds) in
      if length ds > 4 \<or> ds = [] then None
      else case dropWhile is_hex_digit s of
        [] \<Rightarrow> Some (ip', e, [])
      | c # r \<Rightarrow>
          if c = CHR ''.'' then
            (if e = None \<and> length ip \<noteq> 12 then None
             else if length ip + 4 > 16 then None
             else map_option (\<lambda>fs. (ip @ fs, e, [])) (ipv4_fields 0 0 [] s))
          else if c \<noteq> CHR '':'' then None
          else (case r of
              [] \<Rightarrow> None
            | c2 # r2 \<Rightarrow>
                if c2 = CHR '':'' then
                  (if e \<noteq> None then None
                   else if r2 = [] then Some (ip', Some (length ip'), [])
                   else v6_groups n ip' (Some (length ip')) r2)
                else v6_groups n ip' e r))"

definition v6_expand :: "byte list \<Rightarrow> nat option \<Rightarrow> byte list option" where
  "v6_expand ip e =
     (if length ip < 16 then
        map_option (\<lambda>k. take k ip @ replicate (16 - length ip) 0 @ drop k ip) e
      else if e \<noteq> None then None else Some ip)"

definition parse_ipv6 :: "string \<Rightarrow> ip_addr option" where
  "parse_ipv6 s =
     (let (s, zone, bad) =
        (case index_byte (CHR ''%'') s of
           None \<Rightarrow> (s, [], False)
         | Some i \<Rightarrow> (take i s, drop (i + 1) s, drop (i + 1) s = []))
      in if bad then None
         else if s = ''::'' then Some (V6 0 zone)
         else
           (let (start, e) = (if has_prefix s ''::'' then (drop 2 s, Some 0) else (s, None)) in
            case v6_groups 8 [] e start of
              None \<Rightarrow> None
            | Some (ip, e, rest) \<Rightarrow>
                if rest \<noteq> [] then None
                else map_option (\<lambda>bs. V6 (be_word bs) zone) (v6_expand ip e)))"

fun parse_by_first_mark :: "string \<Rightarrow> string \<Rightarrow> ip_addr option" where
  "parse_by_first_mark whole [] = None"
| "parse_by_first_mark whole (c # s) =
     (if c = CHR ''.'' then map_option (\<lambda>fs. V4 (be_word fs)) (ipv4_fields 0 0 [] whole)
      else if c = CHR '':'' then parse_ipv6 whole
      else if c = CHR ''%'' then None
      else parse_by_first_mark whole s)"

definition parse_addr :: "string \<Rightarrow> ip_addr option" where
  "parse_addr s = parse_by_first_mark s s"

section \<open>Prefixes\<close>

record ip_prefix =
  px_addr :: ip_addr
  px_bits :: nat

fun without_zone :: "ip_addr \<Rightarrow> ip_addr" where
  "without_zone (V6 w z) = V6 w []"
| "without_zone a = a"

definition prefix_from :: "ip_addr \<Rightarrow> nat \<Rightarrow> ip_prefix" where
  "prefix_from a n = \<lparr>px_addr = without_zone a, px_bits = n\<rparr>"

definition addr_bits :: "ip_addr \<Rightarrow> nat" where
  "addr_bits a = (case a of NoAddr \<Rightarrow> 0 | V4 _ \<Rightarrow> 32 | V6 _ _ \<Rightarrow> 128)"

definition parse_prefix :: "string \<Rightarrow> ip_prefix option" where
  "parse_prefix s =
     (case last_index (CHR ''/'') s of
        None \<Rightarrow> None
      | Some i \<Rightarrow>
          (case parse_addr (take i s) of
             None \<Rightarrow> None
           | Some a \<Rightarrow>
               (let bits = drop (i + 1) s in
                if (case a of V6 _ z \<Rightarrow> z \<noteq> [] | _ \<Rightarrow> False) then None
                else if length bits > 1 \<and> hd bits \<notin> set ''123456789'' then None
                else (case atoi bits of
                    None \<Rightarrow> None
                  | Some n \<Rightarrow>
                      if n < 0 \<or> n > int (addr_bits a) then None
                      else Some (prefix_from a (nat n))))))"

fun masked :: "ip_prefix \<Rightarrow> ip_prefix" where
  "masked p = (case px_addr p of
       NoAddr \<Rightarrow> p
     | V4 w \<Rightarrow> p\<lparr>px_addr := V4 (push_bit (32 - px_bits p) (drop_bit (32 - px_bits p) w))\<rparr>
     | V6 w z \<Rightarrow> p\<lparr>px_addr := V6 (push_bit (128 - px_bits p) (drop_bit (128 - px_bits p) w)) z\<rparr>)"

text \<open>
  A prefix contains the addresses of its own family that agree with it on its bits; an
  address with a zone is in no prefix.
\<close>

fun prefix_contains :: "ip_prefix \<Rightarrow> ip_addr \<Rightarrow> bool" where
  "prefix_contains p a = (case (px_addr p, a) of
       (V4 w, V4 v) \<Rightarrow> drop_bit (32 - px_bits p) (w XOR v) = 0
     | (V6 w _, V6 v z) \<Rightarrow> z = [] \<and> drop_bit (128 - px_bits p) (w XOR v) = 0
     | _ \<Rightarrow> False)"

section \<open>Text forms\<close>

definition be_bytes :: "nat \<Rightarrow> 'a::len word \<Rightarrow> byte list" where
  "be_bytes n w = map (\<lambda>i. ucast (drop_bit (8 * i) w)) (rev [0..<n])"

fun addr_string :: "ip_addr \<Rightarrow> string" where
  "addr_string NoAddr = ''invalid IP''"
| "addr_string (V4 w) = dotted_quad (be_bytes 4 w)"
| "addr_string (V6 w z) =
     (if is_4in6 w then ''::ffff:'' @ dotted_quad (be_bytes 4 w)
      else ipv6_string (be_bytes 16 w)) @ (if z = [] then [] else ''%'' @ z)"

definition prefix_string :: "ip_prefix \<Rightarrow> string" where
  "prefix_string p = addr_string (px_addr p) @ ''/'' @ itoa (int (px_bits p))"

section \<open>Host and port\<close>

text \<open>The host of \<open>net.SplitHostPort\<close>, None where it is an error.\<close>

definition split_host :: "string \<Rightarrow> string option" where
  "split_host s =
     (case last_index (CHR '':'') s of
        None \<Rightarrow> None
      | Some i \<Rightarrow>
          if hd s = CHR ''['' then
            (case index_byte (CHR '']'') s of
               None \<Rightarrow> None
             | Some e \<Rightarrow>
                 if e + 1 = length s \<or> e + 1 \<noteq> i then None
                 else if CHR ''['' \<in> set (drop 1 s) \<or> CHR '']'' \<in> set (drop (e + 1) s) then None
                 else Some (drop 1 (take e s)))
          else if CHR '':'' \<in> set (take i s) then None
          else if CHR ''['' \<in> set s \<or> CHR '']'' \<in> set s then None
          else Some (take i s))"

end
