(* ===== verification/Net_Access.thy ===== *)
theory Net_Access
  imports Go_Netip
begin

text \<open>
  The access policy of the administration pages, \<open>internal/netaccess/policy.go\<close>: which client
  address a request has and whether that address may come in. The header of a request is the
  two fields the policy looks at, empty where they are missing.
\<close>

record policy =
  po_mode :: string
  po_allowed_cidrs :: "string list"
  po_trust_proxy :: bool

record parsed =
  pp_mode :: string
  pp_cidrs :: "ip_prefix list"
  pp_trust_proxy :: bool

definition mode_internal :: string where "mode_internal = ''internal''"
definition mode_public :: string where "mode_public = ''public''"

definition builtin_internal :: "ip_prefix list" where
  "builtin_internal = List.map_filter parse_prefix
     [''127.0.0.0/8'', ''10.0.0.0/8'', ''172.16.0.0/12'', ''192.168.0.0/16'', ''169.254.0.0/16'',
      ''::1/128'', ''fe80::/10'', ''fc00::/7'']"

definition default_policy :: parsed where
  "default_policy = \<lparr>pp_mode = mode_internal, pp_cidrs = [], pp_trust_proxy = False\<rparr>"

definition normalize_access_mode :: "string \<Rightarrow> string" where
  "normalize_access_mode s =
     (let m = to_lower (trim_space s) in
      if m \<in> {[], mode_internal, ''lan'', ''private''} then mode_internal
      else if m \<in> {mode_public, ''open'', ''any''} then mode_public
      else m)"

datatype policy_error = BadMode | BadCidr string

definition parse_cidr_or_ip :: "string \<Rightarrow> ip_prefix option" where
  "parse_cidr_or_ip raw =
     (case parse_prefix raw of
        Some p \<Rightarrow> Some (masked p)
      | None \<Rightarrow>
          (case parse_addr raw of
             None \<Rightarrow> None
           | Some a \<Rightarrow> Some (prefix_from a (case a of V6 _ _ \<Rightarrow> 128 | _ \<Rightarrow> 32))))"

fun parse_cidrs :: "string list \<Rightarrow> (policy_error, ip_prefix list) result" where
  "parse_cidrs [] = Ok []"
| "parse_cidrs (raw # rest) =
     (let raw = trim_space raw in
      if raw = [] then parse_cidrs rest
      else case parse_cidr_or_ip raw of
        None \<Rightarrow> Fail (BadCidr raw)
      | Some p \<Rightarrow> and_then (parse_cidrs rest) (\<lambda>ps. Ok (p # ps)))"

definition parse_policy :: "policy \<Rightarrow> (policy_error, parsed) result" where
  "parse_policy p =
     (let mode = normalize_access_mode (po_mode p) in
      if mode \<noteq> mode_internal \<and> mode \<noteq> mode_public then Fail BadMode
      else and_then (parse_cidrs (po_allowed_cidrs p)) (\<lambda>cs.
        Ok \<lparr>pp_mode = mode, pp_cidrs = cs, pp_trust_proxy = po_trust_proxy p\<rparr>))"

definition allowed :: "parsed \<Rightarrow> ip_addr \<Rightarrow> bool" where
  "allowed p addr =
     (if addr = NoAddr then False
      else let addr = unmap addr in
        if pp_mode p = mode_public then True
        else if is_loopback addr then True
        else list_ex (\<lambda>x. prefix_contains x addr) builtin_internal
          \<or> list_ex (\<lambda>x. prefix_contains x addr) (pp_cidrs p))"

record http_request =
  rq_forwarded_for :: string
  rq_real_ip :: string
  rq_remote :: string

definition header_ip :: "http_request \<Rightarrow> ip_addr option" where
  "header_ip r =
     (let forwarded = rq_forwarded_for r;
          real_ip = trim_space (rq_real_ip r);
          from_real = (if real_ip \<noteq> [] then map_option unmap (parse_addr real_ip) else None)
      in if forwarded \<noteq> [] then
           (case parse_addr (trim_space (hd (split_on (CHR '','') forwarded))) of
              Some a \<Rightarrow> Some (unmap a) | None \<Rightarrow> from_real)
         else from_real)"

definition remote_ip :: "http_request \<Rightarrow> ip_addr" where
  "remote_ip r =
     (let remote = trim_space (rq_remote r);
          host = (case split_host remote of Some h \<Rightarrow> h | None \<Rightarrow> remote)
      in case parse_addr host of Some a \<Rightarrow> unmap a | None \<Rightarrow> NoAddr)"

definition client_ip :: "parsed \<Rightarrow> http_request option \<Rightarrow> ip_addr" where
  "client_ip p req = (case req of
       None \<Rightarrow> NoAddr
     | Some r \<Rightarrow>
         (case (if pp_trust_proxy p then header_ip r else None) of
            Some a \<Rightarrow> a | None \<Rightarrow> remote_ip r))"

definition cidr_strings :: "parsed \<Rightarrow> string list" where
  "cidr_strings p = map prefix_string (pp_cidrs p)"

definition policy_of :: "parsed \<Rightarrow> policy" where
  "policy_of p =
     \<lparr>po_mode = pp_mode p, po_allowed_cidrs = cidr_strings p, po_trust_proxy = pp_trust_proxy p\<rparr>"

section \<open>Dotted quads\<close>

lemma digit_not_mark:
  "digit_value c \<noteq> None \<Longrightarrow> c \<noteq> CHR ''.'' \<and> c \<noteq> CHR '':'' \<and> c \<noteq> CHR ''%'' \<and> c \<noteq> CHR ''/''
    \<and> c \<noteq> CHR ''['' \<and> c \<noteq> CHR '']''"
  by (auto simp: digit_value_def)

lemma digits_value_mono: "digits_value v s = Some w \<Longrightarrow> v \<le> w"
  by (induction s arbitrary: v) (fastforce split: option.splits)+

lemma ipv4_fields_more:
  "digits_value v ds = Some w \<Longrightarrow> w < 256 \<Longrightarrow> v \<noteq> 0
   \<Longrightarrow> ipv4_fields v n fs (ds @ t) = ipv4_fields w (n + length ds) fs t"
proof (induction ds arbitrary: v n)
  case (Cons c ds)
  then obtain d where d: "digit_value c = Some d" "digits_value (v * 10 + d) ds = Some w"
    by (auto split: option.splits)
  then have "v * 10 + d < 256" using digits_value_mono Cons.prems(2) by fastforce
  with d Cons show ?case by simp
qed simp

lemma no_leading_zero: "nat_digits n = c # s \<Longrightarrow> digit_value c = Some 0 \<Longrightarrow> s = []"
proof (induction n arbitrary: c s rule: nat_digits.induct)
  case (1 n)
  show ?case
  proof (cases "n < 10")
    case True
    then show ?thesis using 1 by (simp add: nat_digits.simps [of n])
  next
    case False
    then obtain r where r: "nat_digits (n div 10) = c # r" "s = r @ [char_of (48 + n mod 10)]"
      using 1(2) by (cases "nat_digits (n div 10)") (auto simp: nat_digits.simps [of n])
    with 1 False have "nat_digits (n div 10) = [c]" by blast
    then have "digits_value 0 [c] = Some (n div 10)" by (metis digits_value_nat_digits)
    with 1(3) False show ?thesis by simp
  qed
qed

lemma ipv4_field:
  assumes "b < 256"
  shows "ipv4_fields 0 0 fs (nat_digits b @ t) = ipv4_fields b (length (nat_digits b)) fs t"
proof -
  obtain c s d where c: "nat_digits b = c # s" "digit_value c = Some d"
    using nat_digits_head [of b] by auto
  then have v: "digits_value d s = Some b"
    using digits_value_nat_digits [of b] by simp
  have d: "d < 10" using c(2) by (auto simp: digit_value_def Let_def split: if_splits)
  show ?thesis
  proof (cases "d = 0")
    case True
    then show ?thesis using no_leading_zero [OF c(1)] c v by simp
  next
    case False
    then show ?thesis using ipv4_fields_more [OF v assms False] c d by simp
  qed
qed

lemma digit_value_dot: "digit_value (CHR ''.'') = None"
  by code_simp

lemma dotted_quad_fields: "ipv4_fields 0 0 [] (dotted_quad [a, b, c, d]) = Some [a, b, c, d]"
proof -
  have "ipv4_fields 0 0 fs (nat_digits (unat x)) = ipv4_fields (unat x) (length (nat_digits (unat x))) fs []"
    for fs and x :: byte
    using ipv4_field [of "unat x" fs "[]"] by simp
  then show ?thesis by (simp add: dotted_quad_def ipv4_field digit_value_dot)
qed

lemma first_mark_skip:
  "list_all (\<lambda>c. c \<notin> set ''.:%'') s \<Longrightarrow> parse_by_first_mark whole (s @ t) = parse_by_first_mark whole t"
  by (induction s) auto

lemma digits_plain: "list_all (\<lambda>c. digit_value c \<noteq> None) (nat_digits n)"
  using digits_value_chars [OF digits_value_nat_digits] by (auto simp: list_all_iff)

lemma parse_dotted_quad: "parse_addr (dotted_quad [a, b, c, d]) = Some (V4 (be_word [a, b, c, d]))"
proof -
  have "list_all (\<lambda>c. c \<notin> set ''.:%'') (nat_digits (unat a))"
    using digits_plain [of "unat a"] digit_not_mark by (fastforce simp: list_all_iff)
  then have "parse_by_first_mark w (dotted_quad [a, b, c, d]) = map_option (\<lambda>fs. V4 (be_word fs)) (ipv4_fields 0 0 [] w)" for w
    by (simp add: dotted_quad_def first_mark_skip)
  then show ?thesis by (simp add: parse_addr_def dotted_quad_fields)
qed


lemma be_word_zeros: "foldl (\<lambda>a b. a * 256 + ucast b) (w :: u128) (replicate n (0 :: byte)) = w * 256 ^ n"
  by (induction n arbitrary: w) (simp_all add: mult.assoc)

lemma v6_texts:
  "parse_ipv6 ''::1'' = Some (V6 1 [])"
  "parse_ipv6 ''fe80::'' = Some (V6 0xFE800000000000000000000000000000 [])"
  "parse_ipv6 ''fc00::'' = Some (V6 0xFC000000000000000000000000000000 [])"
proof -
  have g: "v6_groups 8 [] (Some 0) ''1'' = Some ([0, 1], Some 0, [])"
    "v6_groups 8 [] None ''fe80::'' = Some ([0xFE, 0x80], Some 2, [])"
    "v6_groups 8 [] None ''fc00::'' = Some ([0xFC, 0], Some 2, [])"
    by code_simp+
  then show "parse_ipv6 ''fe80::'' = Some (V6 0xFE800000000000000000000000000000 [])"
    "parse_ipv6 ''fc00::'' = Some (V6 0xFC000000000000000000000000000000 [])"
    by (simp_all add: parse_ipv6_def v6_expand_def be_word_def be_word_zeros)
  show "parse_ipv6 ''::1'' = Some (V6 1 [])"
    using g(1) by (simp add: parse_ipv6_def v6_expand_def be_word_def be_word_zeros)
qed

lemma v6_prefix_texts:
  "parse_prefix ''::1/128'' = Some \<lparr>px_addr = V6 1 [], px_bits = 128\<rparr>"
  "parse_prefix ''fe80::/10'' =
     Some \<lparr>px_addr = V6 0xFE800000000000000000000000000000 [], px_bits = 10\<rparr>"
  "parse_prefix ''fc00::/7'' =
     Some \<lparr>px_addr = V6 0xFC000000000000000000000000000000 [], px_bits = 7\<rparr>"
proof -
  have n: "atoi ''128'' = Some 128" "atoi ''10'' = Some 10" "atoi ''7'' = Some 7" by code_simp+
  show
  "parse_prefix ''::1/128'' = Some \<lparr>px_addr = V6 1 [], px_bits = 128\<rparr>"
  "parse_prefix ''fe80::/10'' =
     Some \<lparr>px_addr = V6 0xFE800000000000000000000000000000 [], px_bits = 10\<rparr>"
  "parse_prefix ''fc00::/7'' =
     Some \<lparr>px_addr = V6 0xFC000000000000000000000000000000 [], px_bits = 7\<rparr>"
  by (simp_all add: parse_prefix_def last_index_def parse_addr_def v6_texts n prefix_from_def addr_bits_def)
qed

lemma v4_prefix_texts:
  "parse_prefix ''127.0.0.0/8'' = Some \<lparr>px_addr = V4 0x7F000000, px_bits = 8\<rparr>"
  "parse_prefix ''10.0.0.0/8'' = Some \<lparr>px_addr = V4 0x0A000000, px_bits = 8\<rparr>"
  "parse_prefix ''172.16.0.0/12'' = Some \<lparr>px_addr = V4 0xAC100000, px_bits = 12\<rparr>"
  "parse_prefix ''192.168.0.0/16'' = Some \<lparr>px_addr = V4 0xC0A80000, px_bits = 16\<rparr>"
  "parse_prefix ''169.254.0.0/16'' = Some \<lparr>px_addr = V4 0xA9FE0000, px_bits = 16\<rparr>"
  by code_simp+

lemma builtin_prefixes: "builtin_internal =
  [\<lparr>px_addr = V4 0x7F000000, px_bits = 8\<rparr>, \<lparr>px_addr = V4 0x0A000000, px_bits = 8\<rparr>,
   \<lparr>px_addr = V4 0xAC100000, px_bits = 12\<rparr>, \<lparr>px_addr = V4 0xC0A80000, px_bits = 16\<rparr>,
   \<lparr>px_addr = V4 0xA9FE0000, px_bits = 16\<rparr>, \<lparr>px_addr = V6 1 [], px_bits = 128\<rparr>,
   \<lparr>px_addr = V6 0xFE800000000000000000000000000000 [], px_bits = 10\<rparr>,
   \<lparr>px_addr = V6 0xFC000000000000000000000000000000 [], px_bits = 7\<rparr>]"
  by (simp only: builtin_internal_def List.map_filter_simps option.case v4_prefix_texts v6_prefix_texts)

section \<open>Containment of IPv4 addresses\<close>

lemma digits_eq:
  fixes a b x y n :: nat
  assumes "b < n" "y < n"
  shows "a * n + b = x * n + y \<longleftrightarrow> a = x \<and> b = y"
proof
  assume eq: "a * n + b = x * n + y"
  have "(a * n + b) div n = a" "(x * n + y) div n = x" using assms by simp_all
  with eq show "a = x \<and> b = y" by simp
qed simp

lemma quad_bound:
  fixes a b c d :: nat
  assumes "a < 256" "b < 256" "c < 256" "d < 256"
  shows "a * 16777216 + b * 65536 + c * 256 + d < 4294967296"
  using assms by linarith

lemma unat_be_word:
  "unat (be_word [a, b, c, d] :: u32) =
     unat (a :: byte) * 2 ^ 24 + unat b * 2 ^ 16 + unat c * 2 ^ 8 + unat d"
proof -
  define n where "n = unat a * 2 ^ 24 + unat b * 2 ^ 16 + unat c * 2 ^ 8 + unat d"
  have "be_word [a, b, c, d] = (of_nat n :: u32)"
    by (simp add: n_def be_word_def algebra_simps)
  moreover have "n < 2 ^ LENGTH(32)"
    using quad_bound [of "unat a" "unat b" "unat c" "unat d"] by (simp add: n_def)
  ultimately have "unat (be_word [a, b, c, d] :: u32) = n" by (simp add: unat_of_nat take_bit_eq_mod)
  then show ?thesis by (simp only: n_def)
qed

lemma xor_zero_iff: "a XOR b = 0 \<longleftrightarrow> a = (b :: 'a::len word)"
  by (metis bit.xor_self xor.assoc xor.left_neutral xor.right_neutral)

lemma contains_other: "\<not> prefix_contains \<lparr>px_addr = V6 w z, px_bits = n\<rparr> (V4 v)"
  by simp

lemma unat_drop: "unat (drop_bit k (w :: 'a::len word)) = unat w div 2 ^ k"
  unfolding unat_drop_bit_eq by (rule drop_bit_eq_div)

lemma contains_v4:
  "prefix_contains \<lparr>px_addr = V4 w, px_bits = n\<rparr> (V4 v) \<longleftrightarrow>
     unat w div 2 ^ (32 - n) = unat v div 2 ^ (32 - n)"
proof -
  have "drop_bit k (w XOR v) = 0 \<longleftrightarrow> drop_bit k w = drop_bit k v" for k
    unfolding drop_bit_xor by (rule xor_zero_iff)
  moreover have "drop_bit k w = drop_bit k v \<longleftrightarrow> unat w div 2 ^ k = unat v div 2 ^ k" for k
    by (simp only: word_unat_eq_iff unat_drop)
  ultimately show ?thesis by simp
qed

text \<open>The ranges open by default, on the bytes of an address.\<close>

definition private_v4 :: "byte \<Rightarrow> byte \<Rightarrow> bool" where
  "private_v4 a b \<longleftrightarrow> a = 127 \<or> a = 10 \<or> a = 172 \<and> 16 \<le> b \<and> b < 32 \<or> a = 192 \<and> b = 168
     \<or> a = 169 \<and> b = 254"

lemma v4_quotients:
  fixes a b c d :: nat
  assumes "b < 256" "c < 256" "d < 256"
  shows "(a * 16777216 + b * 65536 + c * 256 + d) div 16777216 = a"
    and "(a * 16777216 + b * 65536 + c * 256 + d) div 65536 = a * 256 + b"
    and "(a * 16777216 + b * 65536 + c * 256 + d) div 1048576 = a * 16 + b div 16"
  using assms by simp_all

lemma octet_quotients:
  fixes a b :: nat
  assumes "b < 256"
  shows "a * 256 + b = 49320 \<longleftrightarrow> a = 192 \<and> b = 168" and "a * 256 + b = 43518 \<longleftrightarrow> a = 169 \<and> b = 254"
    and "a * 16 + b div 16 = 2753 \<longleftrightarrow> a = 172 \<and> 16 \<le> b \<and> b < 32"
proof -
  have "b div 16 < 16" "b div 16 = 1 \<longleftrightarrow> 16 \<le> b \<and> b < 32" using assms by auto
  then show "a * 16 + b div 16 = 2753 \<longleftrightarrow> a = 172 \<and> 16 \<le> b \<and> b < 32"
    using digits_eq [of "b div 16" 16 1 a 172] by simp
qed (use assms digits_eq [of b 256 168 a 192] digits_eq [of b 256 254 a 169] in simp_all)

lemma builtin_contains:
  "list_ex (\<lambda>x. prefix_contains x (V4 (be_word [a, b, c, d]))) builtin_internal \<longleftrightarrow> private_v4 a b"
proof -
  let ?A = "unat a" and ?B = "unat b"
  have eqs: "a = 127 \<longleftrightarrow> ?A = 127" "a = 10 \<longleftrightarrow> ?A = 10" "a = 172 \<longleftrightarrow> ?A = 172"
    "a = 192 \<longleftrightarrow> ?A = 192" "a = 169 \<longleftrightarrow> ?A = 169" "b = 168 \<longleftrightarrow> ?B = 168" "b = 254 \<longleftrightarrow> ?B = 254"
    "16 \<le> b \<longleftrightarrow> 16 \<le> ?B" "b < 32 \<longleftrightarrow> ?B < 32"
    by (simp_all add: word_unat_eq_iff word_le_nat_alt word_less_nat_alt)
  show ?thesis
    unfolding builtin_prefixes private_v4_def eqs
    by (simp add: contains_v4 contains_other unat_be_word v4_quotients octet_quotients del: prefix_contains.simps) 
qed

section \<open>The address of a peer\<close>

lemma last_index_append: "c \<notin> set t \<Longrightarrow> last_index c (s @ c # t) = Some (length s)"
proof -
  assume t: "c \<notin> set t"
  have "index_byte c (rev t @ c # rev s) = Some (length t)"
    using t by (induction t rule: rev_induct) auto
  then show ?thesis by (simp add: last_index_def)
qed

lemma quad_chars: "ch \<in> set (dotted_quad [a, b, c, d]) \<Longrightarrow> digit_value ch \<noteq> None \<or> ch = CHR ''.''"
  using digits_plain by (auto simp: dotted_quad_def list_all_iff)

lemma mark_values:
  "digit_value (CHR '':'') = None" "digit_value (CHR ''['') = None" "digit_value (CHR '']'') = None"
  "digit_value (CHR ''%'') = None"
  by code_simp+

lemma quad_marks:
  "CHR '':'' \<notin> set (dotted_quad [a, b, c, d])" "CHR ''['' \<notin> set (dotted_quad [a, b, c, d])"
  "CHR '']'' \<notin> set (dotted_quad [a, b, c, d])" "CHR ''%'' \<notin> set (dotted_quad [a, b, c, d])"
  by (rule notI, drule quad_chars, simp add: mark_values)+

lemma digits_marks:
  "CHR '':'' \<notin> set (nat_digits n)" "CHR ''['' \<notin> set (nat_digits n)" "CHR '']'' \<notin> set (nat_digits n)"
  using digits_plain [of n] mark_values by (auto simp: list_all_iff)

lemma quad_nonempty: "\<exists>x s. dotted_quad [a, b, c, d] = x # s \<and> digit_value x \<noteq> None"
  using nat_digits_head [of "unat a"] by (auto simp: dotted_quad_def)

lemma split_host_quad:
  "split_host (dotted_quad [a, b, c, d] @ '':'' @ nat_digits port) = Some (dotted_quad [a, b, c, d])"
proof -
  have "hd (dotted_quad [a, b, c, d] @ u) \<noteq> CHR ''[''" for u
    using quad_nonempty [of a b c d] digit_not_mark by fastforce
  then show ?thesis
    using quad_marks [of a b c d] digits_marks [of port]
    by (simp add: split_host_def last_index_append)
qed

lemma digits_plain_char: "digit_value ch \<noteq> None \<Longrightarrow> plain_char ch"
proof -
  have "list_all (\<lambda>w. digit_value (hd w) = None \<and> digit_value (last w) = None) space_codes"
    by code_simp
  then show "digit_value ch \<noteq> None \<Longrightarrow> plain_char ch"
    by (auto simp: plain_char_def list_all_iff)
qed

lemma bracket_plain_char: "plain_char (CHR ''['')"
  by (simp add: plain_char_def space_codes_def)

lemma remote_trimmed:
  assumes "x \<in> {CHR ''[''} \<or> digit_value x \<noteq> None"
  shows "trim_space (x # s @ nat_digits port) = x # s @ nat_digits port"
proof (rule trim_space_id)
  have "last (nat_digits port) \<in> set (nat_digits port)" by simp
  then show "plain_char (last (x # s @ nat_digits port))"
    using digits_plain [of port] by (intro digits_plain_char) (auto simp: list_all_iff)
  show "plain_char (hd (x # s @ nat_digits port))"
    using assms digits_plain_char bracket_plain_char by auto
qed simp

text \<open>The two forms in which the server names a peer with an IPv4 address.\<close>

definition v4_peer :: "byte \<Rightarrow> byte \<Rightarrow> byte \<Rightarrow> byte \<Rightarrow> nat \<Rightarrow> string" where
  "v4_peer a b c d port = dotted_quad [a, b, c, d] @ '':'' @ nat_digits port"

definition mapped_peer :: "byte \<Rightarrow> byte \<Rightarrow> byte \<Rightarrow> byte \<Rightarrow> nat \<Rightarrow> string" where
  "mapped_peer a b c d port = ''[::ffff:'' @ dotted_quad [a, b, c, d] @ '']:'' @ nat_digits port"

lemma remote_v4_peer:
  "rq_remote r = v4_peer a b c d port \<Longrightarrow> remote_ip r = V4 (be_word [a, b, c, d])"
proof -
  assume r: "rq_remote r = v4_peer a b c d port"
  obtain x s where "dotted_quad [a, b, c, d] = x # s" "digit_value x \<noteq> None"
    using quad_nonempty [of a b c d] by blast
  then have "trim_space (v4_peer a b c d port) = v4_peer a b c d port"
    using remote_trimmed [of x "s @ '':''" port] by (simp add: v4_peer_def)
  then show ?thesis
    by (simp add: remote_ip_def r v4_peer_def split_host_quad [simplified] parse_dotted_quad)
qed

lemma hex_digits: "digit_value ch \<noteq> None \<Longrightarrow> is_hex_digit ch"
  unfolding is_hex_digit_def digit_value_def hex_value_def Let_def by (simp split: if_splits)

lemma byte_digits_length: "n < 1000 \<Longrightarrow> length (nat_digits n) \<le> 3"
  by (simp add: nat_digits.simps [of n] nat_digits.simps [of "n div 10"]
      nat_digits.simps [of "n div 10 div 10"])

lemma hex_f: "is_hex_digit (CHR ''f'')" "hex_number ''ffff'' = 0xFFFF"
  by code_simp+

lemma ffff_bytes: "group_bytes 0xFFFF = [0xFF, 0xFF]"
  by code_simp

lemma groups_left: "(8 :: nat) = Suc (Suc 6)"
  by simp

lemma mapped_text:
  "parse_ipv6 (''::ffff:'' @ dotted_quad [a, b, c, d]) =
     Some (V6 (be_word (replicate 10 0 @ [0xFF, 0xFF, a, b, c, d])) [])"
proof -
  let ?q = "dotted_quad [a, b, c, d]"
  obtain r where q: "?q = nat_digits (unat a) @ CHR ''.'' # r" by (simp add: dotted_quad_def)
  have dot: "\<not> is_hex_digit (CHR ''.'')" "\<not> is_hex_digit (CHR '':'')" by code_simp+
  have f: "takeWhile is_hex_digit (''ffff:'' @ s) = ''ffff''"
    "dropWhile is_hex_digit (''ffff:'' @ s) = CHR '':'' # s" "hex_number ''ffff'' = 0xFFFF" for s
    using dot(2) hex_f by simp_all
  have h: "takeWhile is_hex_digit ?q = nat_digits (unat a)" "dropWhile is_hex_digit ?q = CHR ''.'' # r"
    using digits_plain [of "unat a"] hex_digits dot
    by (auto simp: q takeWhile_append dropWhile_append list_all_iff)
  have "v6_groups (Suc 6) [0xFF, 0xFF] (Some 0) ?q = Some ([0xFF, 0xFF, a, b, c, d], Some 0, [])"
    using h byte_digits_length [of "unat a"] unat_byte_bound [of a]
    by (subst v6_groups.simps(2)) (simp add: dotted_quad_fields)
  moreover obtain x s where "?q = x # s" "x \<noteq> CHR '':''"
    using quad_nonempty [of a b c d] digit_not_mark by blast
  ultimately have "v6_groups (Suc (Suc 6)) [] (Some 0) (''ffff:'' @ ?q) =
      Some ([0xFF, 0xFF, a, b, c, d], Some 0, [])"
    using f(1,2) [of ?q] f(3) by (subst v6_groups.simps(2)) (simp add: ffff_bytes)
  then have "v6_groups 8 [] (Some 0) (''ffff:'' @ ?q) = Some ([0xFF, 0xFF, a, b, c, d], Some 0, [])"
    by (simp only: groups_left)
  then show ?thesis
    using quad_marks [of a b c d] by (simp add: parse_ipv6_def v6_expand_def index_byte_missing)
qed

lemma split_host_mapped:
  "split_host (mapped_peer a b c d port) = Some (''::ffff:'' @ dotted_quad [a, b, c, d])"
proof -
  let ?q = "dotted_quad [a, b, c, d]" and ?h = "''[::ffff:''"
  have b: "index_byte (CHR '']'') (s @ CHR '']'' # t) = Some (length s)" if "CHR '']'' \<notin> set s" for s t
    using that by (induction s) auto
  have "last_index (CHR '':'') ((?h @ ?q @ '']'') @ CHR '':'' # nat_digits port) = Some (length (?h @ ?q @ '']''))"
    by (rule last_index_append [OF digits_marks(1)])
  moreover have "index_byte (CHR '']'') ((?h @ ?q) @ CHR '']'' # CHR '':'' # nat_digits port) = Some (length (?h @ ?q))"
    by (rule b) (use quad_marks [of a b c d] in simp)
  ultimately show ?thesis
    using quad_marks [of a b c d] digits_marks [of port]
    by (simp add: split_host_def mapped_peer_def)
qed

lemma parse_mapped:
  "parse_addr (''::ffff:'' @ dotted_quad [a, b, c, d]) =
     Some (V6 (be_word (replicate 10 0 @ [0xFF, 0xFF, a, b, c, d])) [])"
  using mapped_text [of a b c d] by (simp add: parse_addr_def)

lemma unat_of_nat_u128: "m < 2 ^ 128 \<Longrightarrow> unat (of_nat m :: u128) = m"
  by (simp add: unat_of_nat take_bit_eq_mod)

lemma mapped_word:
  fixes a b c d :: byte
  defines "w \<equiv> be_word (replicate 10 0 @ [0xFF, 0xFF, a, b, c, d]) :: u128"
  shows "is_4in6 w" "(ucast w :: u32) = be_word [a, b, c, d]"
proof -
  define n where "n = unat a * 2 ^ 24 + unat b * 2 ^ 16 + unat c * 2 ^ 8 + unat d"
  have n: "n < 2 ^ 32" using quad_bound [of "unat a" "unat b" "unat c" "unat d"] by (simp add: n_def)
  have "w = be_word [0xFF, 0xFF, a, b, c, d]"
    unfolding w_def be_word_def foldl_append be_word_zeros by simp
  also have "\<dots> = of_nat (0xFFFF * 2 ^ 32 + n)"
    by (simp add: be_word_def n_def distrib_right mult.assoc)
  finally have "w = of_nat (0xFFFF * 2 ^ 32 + n)" .
  moreover have "0xFFFF * 2 ^ 32 + n < 2 ^ 128" using n by simp
  ultimately have w: "unat w = 0xFFFF * 2 ^ 32 + n" by (simp only: unat_of_nat_u128)
  have "unat (drop_bit 32 w) = 0xFFFF" using n by (simp add: unat_drop w)
  then show "is_4in6 w" by (simp add: is_4in6_def word_unat_eq_iff)
  have "(0xFFFF * 2 ^ 32 + n) mod 2 ^ 32 = n"
    using n by (simp only: mod_mult_self3 mod_less)
  then have "unat (ucast w :: u32) = n"
    by (simp add: unsigned_ucast_eq w take_bit_eq_mod)
  then show "(ucast w :: u32) = be_word [a, b, c, d]"
    by (simp add: word_unat_eq_iff unat_be_word n_def)
qed

lemma remote_mapped_peer:
  "rq_remote r = mapped_peer a b c d port \<Longrightarrow> remote_ip r = V4 (be_word [a, b, c, d])"
proof -
  assume r: "rq_remote r = mapped_peer a b c d port"
  have "trim_space (mapped_peer a b c d port) = mapped_peer a b c d port"
    using remote_trimmed [of "CHR ''[''" "''::ffff:'' @ dotted_quad [a, b, c, d] @ '']:''" port]
    by (simp add: mapped_peer_def)
  then show ?thesis
    by (simp add: remote_ip_def r split_host_mapped parse_mapped [simplified] mapped_word del: replicate.simps)
qed

lemma loopback_first: "is_loopback (V4 (be_word [a, b, c, d])) \<longleftrightarrow> a = 127"
proof -
  have "unat (drop_bit 24 (be_word [a, b, c, d] :: u32)) = unat a"
    by (simp add: unat_drop unat_be_word v4_quotients)
  then show ?thesis by (simp add: word_unat_eq_iff)
qed

text \<open>
  In internal mode, with proxy headers not trusted, a peer with an IPv4 address comes in
  exactly when its address is in one of the private ranges or in an IPv4 network of the
  policy, whether the server names the peer as IPv4 or as an IPv4-mapped IPv6 address, and
  whatever the headers of the request claim.
\<close>

theorem internal_mode_admits_private_peers:
  assumes "pp_mode p = mode_internal" and "\<not> pp_trust_proxy p"
    and "rq_remote r \<in> {v4_peer a b c d port, mapped_peer a b c d port}"
  shows "allowed p (client_ip p (Some r)) \<longleftrightarrow>
    private_v4 a b
    \<or> (\<exists>x \<in> set (pp_cidrs p). case px_addr x of
          V4 net \<Rightarrow> unat net div 2 ^ (32 - px_bits x)
            = unat (be_word [a, b, c, d] :: u32) div 2 ^ (32 - px_bits x)
        | _ \<Rightarrow> False)"
proof -
  have "client_ip p (Some r) = V4 (be_word [a, b, c, d])"
    using assms(2,3) remote_v4_peer remote_mapped_peer by (auto simp: client_ip_def)
  moreover have "prefix_contains x (V4 v) \<longleftrightarrow> (case px_addr x of
      V4 net \<Rightarrow> unat net div 2 ^ (32 - px_bits x) = unat v div 2 ^ (32 - px_bits x)
    | _ \<Rightarrow> False)" for x :: ip_prefix and v
    using contains_v4 [of _ "px_bits x" v] by (cases x) (auto split: ip_addr.splits)
  moreover have "is_loopback (V4 (be_word [a, b, c, d])) \<Longrightarrow> private_v4 a b"
    by (simp add: loopback_first private_v4_def del: is_loopback.simps)
  ultimately show ?thesis
    using assms(1) builtin_contains [of a b c d]
    by (auto simp: allowed_def mode_internal_def mode_public_def list_ex_iff simp del: is_loopback.simps)
qed

theorem internal_mode_admits_private_peers_witness:
  "allowed default_policy (client_ip default_policy
      (Some \<lparr>rq_forwarded_for = [], rq_real_ip = [], rq_remote = mapped_peer 192 168 2 10 5000\<rparr>))
   \<and> \<not> allowed default_policy (client_ip default_policy
      (Some \<lparr>rq_forwarded_for = ''10.0.0.1'', rq_real_ip = [], rq_remote = v4_peer 8 8 8 8 5000\<rparr>))"
  using internal_mode_admits_private_peers [of default_policy
      "\<lparr>rq_forwarded_for = [], rq_real_ip = [], rq_remote = mapped_peer 192 168 2 10 5000\<rparr>"
      192 168 2 10 5000]
    internal_mode_admits_private_peers [of default_policy
      "\<lparr>rq_forwarded_for = ''10.0.0.1'', rq_real_ip = [], rq_remote = v4_peer 8 8 8 8 5000\<rparr>"
      8 8 8 8 5000]
  by (simp add: default_policy_def private_v4_def)

lemma zoned_outside: "z \<noteq> [] \<Longrightarrow> \<not> prefix_contains x (V6 w z)"
  by (cases "px_addr x") auto

text \<open>
  A peer with a zone in its address, which is every peer of a link-local IPv6 network, is
  turned away in internal mode whatever the policy lists, because a prefix contains no
  address with a zone; the link-local range of the built-in prefixes is never matched by one.
\<close>

theorem zoned_peers_are_turned_away:
  assumes "pp_mode p \<noteq> mode_public" and "z \<noteq> []" and "\<not> is_4in6 w" and "w \<noteq> 1"
  shows "\<not> allowed p (V6 w z)"
  using assms zoned_outside [OF assms(2)]
  by (auto simp: allowed_def list_ex_iff simp del: prefix_contains.simps)

theorem zoned_peers_are_turned_away_witness:
  "\<not> allowed default_policy (V6 0xFE800000000000000000000000000001 ''eth0'')
   \<and> allowed default_policy (V6 0xFE800000000000000000000000000001 [])"
proof -
  have "\<not> is_4in6 0xFE800000000000000000000000000001" by (simp add: is_4in6_def)
  moreover have "prefix_contains \<lparr>px_addr = V6 0xFE800000000000000000000000000000 [], px_bits = 10\<rparr>
      (V6 0xFE800000000000000000000000000001 [])" by simp
  ultimately show ?thesis
    using zoned_peers_are_turned_away [of default_policy "''eth0''" "0xFE800000000000000000000000000001"]
    by (simp add: allowed_def builtin_prefixes default_policy_def mode_internal_def mode_public_def)
qed

end
