(* ===== verification/Rolling_Window.thy ===== *)
theory Rolling_Window
  imports Prelude
begin

text \<open>
  Limits over a rolling window of time, for items with a time each: an item that is admitted
  only when fewer than the limit lie in the window before it keeps every window within the limit.
\<close>

definition rolling :: "('a \<Rightarrow> int) \<Rightarrow> int \<Rightarrow> int \<Rightarrow> 'a list \<Rightarrow> 'a list" where
  "rolling f w t xs = filter (\<lambda>x. t - w < f x \<and> f x \<le> t) xs"

definition within_limit :: "('a \<Rightarrow> int) \<Rightarrow> int \<Rightarrow> nat \<Rightarrow> 'a list \<Rightarrow> bool" where
  "within_limit f w n xs \<longleftrightarrow> (\<forall>t. length (rolling f w t xs) \<le> n)"

lemma length_filter_imp:
  "(\<And>x. x \<in> set xs \<Longrightarrow> P x \<Longrightarrow> Q x) \<Longrightarrow> length (filter P xs) \<le> length (filter Q xs)"
  by (induction xs) auto

lemma within_limit_Nil [simp]: "within_limit f w n []"
  by (simp add: within_limit_def rolling_def)

lemma within_limit_filter: "within_limit f w n xs \<Longrightarrow> within_limit f w n (filter P xs)"
  unfolding within_limit_def
proof (intro allI)
  fix t
  assume "\<forall>t. length (rolling f w t xs) \<le> n"
  moreover have "length (rolling f w t (filter P xs)) \<le> length (rolling f w t xs)"
    unfolding rolling_def filter_filter by (rule length_filter_imp) simp
  ultimately show "length (rolling f w t (filter P xs)) \<le> n" using le_trans by blast
qed

lemma within_limit_admit:
  assumes "within_limit f w n xs" and "length (filter (\<lambda>x. f y - w < f x) xs) < n"
  shows "within_limit f w n (xs @ [y])"
  unfolding within_limit_def
proof
  fix t
  show "length (rolling f w t (xs @ [y])) \<le> n"
  proof (cases "f y \<le> t")
    case True
    have "length (rolling f w t xs) \<le> length (filter (\<lambda>x. f y - w < f x) xs)"
      unfolding rolling_def by (rule length_filter_imp) (use True in auto)
    with assms(2) show ?thesis by (simp add: rolling_def)
  next
    case False
    then show ?thesis using assms(1) by (simp add: rolling_def within_limit_def)
  qed
qed

end
