(* ===== verification/Sms_Rate.thy ===== *)
theory Sms_Rate
  imports Prelude Go_Strings Rolling_Window
begin

text \<open>
  The hourly limit of outgoing messages, \<open>internal/db/sms_rate.go\<close>. Times and durations are
  nanoseconds. The table of attempts is a list of rows; the statements of a transaction run
  one after the other under the advisory lock, and each of them may fail, which rolls the
  transaction back.
\<close>

definition second :: int where "second = 1000000000"
definition sms_rate_window :: int where "sms_rate_window = 3600 * second"

text \<open>The zero time of Go, the first of January of the year 1, from the Unix epoch.\<close>

definition zero_time :: int where "zero_time = - 62135596800 * second"

record attempt =
  at_device :: string
  at_recipient :: string
  at_created :: int

record rate_status =
  rs_limit :: int
  rs_used :: int
  rs_remaining :: int
  rs_window_seconds :: int
  rs_unlimited :: bool

definition default_hourly_limit :: int where "default_hourly_limit = 20"
definition max_hourly_limit :: int where "max_hourly_limit = 200"

definition normalize_hourly_limit :: "int \<Rightarrow> int" where
  "normalize_hourly_limit n = (if n < 0 then 0 else if n > max_hourly_limit then max_hourly_limit else n)"

definition new_rate_status :: "int \<Rightarrow> int \<Rightarrow> rate_status" where
  "new_rate_status limit used =
     (let limit = (if limit < 0 then 0 else limit);
          used = (if used < 0 then 0 else used);
          unlimited = (limit = 0);
          remaining = (if unlimited then 0 else if limit - used < 0 then 0 else limit - used)
      in \<lparr>rs_limit = limit, rs_used = used, rs_remaining = remaining,
          rs_window_seconds = sms_rate_window div second, rs_unlimited = unlimited\<rparr>)"

definition retry_after_seconds :: "int \<Rightarrow> int \<Rightarrow> int" where
  "retry_after_seconds oldest now =
     (if oldest = zero_time then sms_rate_window div second
      else let until = oldest + sms_rate_window - now;
               sec = (until + second - 1) div second
           in if sec < 1 then 1 else sec)"

definition since_rows :: "int \<Rightarrow> attempt list \<Rightarrow> attempt list" where
  "since_rows since rows = filter (\<lambda>a. at_created a > since) rows"

definition rate_count :: "int \<Rightarrow> attempt list \<Rightarrow> int" where
  "rate_count since rows = int (length (since_rows since rows))"

text \<open>\<open>COALESCE(MIN(created_at), since)\<close>\<close>

definition oldest_since :: "int \<Rightarrow> attempt list \<Rightarrow> int" where
  "oldest_since since rows =
     (case map at_created (since_rows since rows) of [] \<Rightarrow> since | t # ts \<Rightarrow> foldl min t ts)"

datatype rate_statement = LockStatement | CountStatement | OldestStatement | InsertStatement

datatype rate_error = DbError rate_statement | RateLimited rate_status int

definition get_rate_status ::
  "int \<Rightarrow> rate_statement option \<Rightarrow> attempt list option \<Rightarrow> int
   \<Rightarrow> (rate_error, rate_status) result"
where
  "get_rate_status now fault db limit =
     (let limit = (if limit < 0 then 0 else limit) in
      case db of
        None \<Rightarrow> Ok (new_rate_status limit 0)
      | Some rows \<Rightarrow>
          if fault = Some CountStatement then Fail (DbError CountStatement)
          else Ok (new_rate_status limit (rate_count (now - sms_rate_window) rows)))"

definition reserve_in_transaction ::
  "int \<Rightarrow> rate_statement option \<Rightarrow> int \<Rightarrow> string \<Rightarrow> string \<Rightarrow> attempt list
   \<Rightarrow> (rate_error, rate_status) result \<times> attempt list"
where
  "reserve_in_transaction now fault limit device recipient rows =
     (let since = now - sms_rate_window;
          count = rate_count since rows
      in if fault = Some LockStatement then (Fail (DbError LockStatement), rows)
         else if fault = Some CountStatement then (Fail (DbError CountStatement), rows)
         else if limit > 0 \<and> count \<ge> limit then
           (if fault = Some OldestStatement then (Fail (DbError OldestStatement), rows)
            else (Fail (RateLimited (new_rate_status limit count)
                    (retry_after_seconds (oldest_since since rows) now)), rows))
         else if fault = Some InsertStatement then (Fail (DbError InsertStatement), rows)
         else
           (Ok (new_rate_status limit (count + 1)),
            filter (\<lambda>a. \<not> at_created a < now - 2 * sms_rate_window)
              (rows @ [\<lparr>at_device = trim_space device, at_recipient = trim_space recipient,
                        at_created = now\<rparr>])))"

definition reserve_sms_send ::
  "int \<Rightarrow> rate_statement option \<Rightarrow> int \<Rightarrow> string \<Rightarrow> string \<Rightarrow> attempt list option
   \<Rightarrow> (rate_error, rate_status) result \<times> attempt list option"
where
  "reserve_sms_send now fault limit device recipient db =
     (let limit = (if limit < 0 then 0 else limit) in
      case db of
        None \<Rightarrow> (Ok (new_rate_status limit 0), None)
      | Some rows \<Rightarrow>
          (let (r, rows') = reserve_in_transaction now fault limit device recipient rows
           in (r, Some rows')))"

section \<open>The rolling window\<close>

text \<open>
  The callers on all devices share the table and the limit; the clock never goes back. The
  number of attempts in the hour that ends at a time is \<open>in_window\<close>.
\<close>

record rate_state =
  ra_rows :: "attempt list"
  ra_clock :: int

definition in_window :: "int \<Rightarrow> attempt list \<Rightarrow> attempt list" where
  "in_window t rows = rolling at_created sms_rate_window t rows"

definition rate_init :: "rate_state \<Rightarrow> bool" where
  "rate_init s \<longleftrightarrow> ra_rows s = []"

inductive rate_step :: "int \<Rightarrow> rate_state \<Rightarrow> rate_state \<Rightarrow> bool" for limit where
  reserve: "ra_clock s \<le> now
    \<Longrightarrow> reserve_sms_send now fault limit device recipient (Some (ra_rows s)) = (r, Some rows)
    \<Longrightarrow> rate_step limit s \<lparr>ra_rows = rows, ra_clock = now\<rparr>"

definition rate_good :: "int \<Rightarrow> rate_state \<Rightarrow> bool" where
  "rate_good limit s \<longleftrightarrow> (\<forall>a \<in> set (ra_rows s). at_created a \<le> ra_clock s)
     \<and> within_limit at_created sms_rate_window (nat limit) (ra_rows s)"

lemma reserve_rows_cases:
  "snd (reserve_in_transaction now fault limit device recipient rows) = rows
   \<or> (limit > 0 \<longrightarrow> rate_count (now - sms_rate_window) rows < limit)
     \<and> (\<exists>d r. snd (reserve_in_transaction now fault limit device recipient rows) =
          filter (\<lambda>a. \<not> at_created a < now - 2 * sms_rate_window)
            (rows @ [\<lparr>at_device = d, at_recipient = r, at_created = now\<rparr>]))"
  by (auto simp: reserve_in_transaction_def Let_def)

lemma rate_good_reserve:
  assumes "rate_good limit s" and "ra_clock s \<le> now" and "limit > 0"
  shows "rate_good limit \<lparr>ra_rows = snd (reserve_in_transaction now fault limit device recipient (ra_rows s)),
    ra_clock = now\<rparr>"
proof -
  let ?rows = "ra_rows s"
  let ?new = "snd (reserve_in_transaction now fault limit device recipient ?rows)"
  have old: "\<forall>a \<in> set ?rows. at_created a \<le> now"
    and limit: "within_limit at_created sms_rate_window (nat limit) ?rows"
    using assms(1,2) by (auto simp: rate_good_def)
  consider "?new = ?rows"
    | y where "at_created y = now" "rate_count (now - sms_rate_window) ?rows < limit"
      "?new = filter (\<lambda>a. \<not> at_created a < now - 2 * sms_rate_window) (?rows @ [y])"
    using reserve_rows_cases [of now fault limit device recipient ?rows] assms(3)
    by (metis attempt.select_convs(3))
  then show ?thesis
  proof cases
    case 1
    then show ?thesis using old limit by (simp add: rate_good_def)
  next
    case (2 y)
    then have "length (filter (\<lambda>a. at_created y - sms_rate_window < at_created a) ?rows) < nat limit"
      by (simp add: rate_count_def since_rows_def)
    then have "within_limit at_created sms_rate_window (nat limit) ?new"
      unfolding 2(3) by (intro within_limit_filter within_limit_admit limit)
    moreover have "\<forall>a \<in> set ?new. at_created a \<le> now" using old 2 by auto
    ultimately show ?thesis by (simp add: rate_good_def)
  qed
qed

lemma reserve_rows:
  "0 < limit \<Longrightarrow> reserve_sms_send now fault limit device recipient (Some rows) = (r, Some rows')
   \<longleftrightarrow> reserve_in_transaction now fault limit device recipient rows = (r, rows')"
  by (auto simp: reserve_sms_send_def split: prod.splits)

lemma rate_good_init: "rate_init s \<Longrightarrow> 0 < limit \<Longrightarrow> rate_good limit s"
  by (simp add: rate_init_def rate_good_def)

lemma rate_good_step: "rate_good limit s \<Longrightarrow> 0 < limit \<Longrightarrow> rate_step limit s s' \<Longrightarrow> rate_good limit s'"
proof (erule rate_step.cases)
  fix u now fault device recipient r rows
  assume "rate_good limit s" "0 < limit" and s: "s = u" "s' = \<lparr>ra_rows = rows, ra_clock = now\<rparr>"
    "ra_clock u \<le> now" "reserve_sms_send now fault limit device recipient (Some (ra_rows u)) = (r, Some rows)"
  then show "rate_good limit s'"
    using rate_good_reserve [of limit s now fault device recipient] by (simp add: reserve_rows)
qed

interpretation rate: safety rate_init "\<lambda>s s'. limit > 0 \<and> rate_step limit s s'"
  "\<lambda>s. limit > 0 \<longrightarrow> rate_good limit s" for limit
  by unfold_locales (blast intro: rate_good_init rate_good_step)+


definition full_rows :: "attempt list" where
  "full_rows = [\<lparr>at_device = ''a'', at_recipient = ''b'', at_created = 0\<rparr>]"

lemma one_sent: "reachable rate_init (rate_step 1) \<lparr>ra_rows = full_rows, ra_clock = 0\<rparr>"
proof -
  have trim: "trim_space ''a'' = ''a''" "trim_space ''b'' = ''b''" by code_simp+
  have "reserve_sms_send 0 None 1 ''a'' ''b'' (Some []) = (Ok (new_rate_status 1 1), Some full_rows)"
    by (simp add: reserve_sms_send_def reserve_in_transaction_def rate_count_def since_rows_def
        full_rows_def trim sms_rate_window_def second_def)
  then have "rate_step 1 \<lparr>ra_rows = [], ra_clock = 0\<rparr> \<lparr>ra_rows = full_rows, ra_clock = 0\<rparr>"
    using rate_step.reserve [of "\<lparr>ra_rows = [], ra_clock = 0\<rparr>" 0 None 1 "''a''" "''b''"] by simp
  moreover have "rate_init \<lparr>ra_rows = [], ra_clock = 0\<rparr>" by (simp add: rate_init_def)
  ultimately show ?thesis by (meson reachable.intros)
qed


section \<open>The waiting time\<close>

lemma foldl_min: "foldl min (t :: int) ts = Min (set (t # ts))"
proof (induction ts arbitrary: t)
  case (Cons u ts)
  then show ?case by (cases "ts = []") (simp_all add: min.assoc)
qed simp

lemma oldest_since_Min:
  "since_rows since rows \<noteq> [] \<Longrightarrow> oldest_since since rows = Min (at_created ` set (since_rows since rows))"
  by (cases "since_rows since rows") (simp_all add: oldest_since_def foldl_min)

lemma retry_after_bounds:
  assumes "oldest \<noteq> zero_time" and "now < oldest + sms_rate_window"
  shows "oldest + sms_rate_window \<le> now + retry_after_seconds oldest now * second"
    and "now + (retry_after_seconds oldest now - 1) * second < oldest + sms_rate_window"
proof -
  define until where "until = oldest + sms_rate_window - now"
  define sec where "sec = (until + second - 1) div second"
  have until: "0 < until" using assms(2) by (simp add: until_def)
  have "until + second - 1 = sec * second + (until + second - 1) mod second"
    by (simp add: sec_def)
  moreover have "0 \<le> (until + second - 1) mod second" "(until + second - 1) mod second < second"
    by (simp_all add: second_def)
  ultimately have sec: "until \<le> sec * second" "(sec - 1) * second < until"
    by (simp_all add: left_diff_distrib)
  then have "1 \<le> sec" using until by (cases "sec \<le> 0") (auto simp: second_def)
  then have "retry_after_seconds oldest now = sec"
    using assms(1) by (simp add: retry_after_seconds_def Let_def until_def sec_def)
  with sec show "oldest + sms_rate_window \<le> now + retry_after_seconds oldest now * second"
    and "now + (retry_after_seconds oldest now - 1) * second < oldest + sms_rate_window"
    by (simp_all add: until_def)
qed

lemma length_filter_strict:
  "(\<And>x. x \<in> set xs \<Longrightarrow> Q x \<Longrightarrow> P x) \<Longrightarrow> y \<in> set xs \<Longrightarrow> P y \<Longrightarrow> \<not> Q y
   \<Longrightarrow> length (filter Q xs) < length (filter P xs)"
proof (induction xs)
  case (Cons x xs)
  have "length (filter Q xs) \<le> length (filter P xs)"
    by (rule length_filter_imp) (use Cons.prems in auto)
  with Cons show ?case by auto
qed simp

lemma fewer_later:
  assumes "reachable rate_init (rate_step limit) s" and "0 < limit" and "ra_clock s \<le> now"
    and "oldest \<in> at_created ` set (since_rows (now - sms_rate_window) (ra_rows s))"
    and "oldest \<le> since" and "now - sms_rate_window \<le> since"
  shows "rate_count since (ra_rows s) < limit"
proof -
  have "(\<lambda>s s'. 0 < limit \<and> rate_step limit s s') = rate_step limit" using assms(2) by simp
  then have good: "rate_good limit s" using rate.always_good [of limit s] assms(1,2) by simp
  have "length (since_rows since (ra_rows s)) < length (since_rows (now - sms_rate_window) (ra_rows s))"
    using assms(4-6) unfolding since_rows_def by (auto intro: length_filter_strict)
  also have "since_rows (now - sms_rate_window) (ra_rows s) = in_window now (ra_rows s)"
    using good assms(3) unfolding since_rows_def in_window_def rolling_def rate_good_def
    by (intro filter_cong) auto
  also have "length (in_window now (ra_rows s)) \<le> nat limit" using good by (simp add: rate_good_def within_limit_def in_window_def)
  finally show ?thesis using assms(2) by (simp add: rate_count_def)
qed

text \<open>
  The waiting time in a refusal is exact to the second: as long as nobody else sends, a
  message is refused until a second before it has passed, and accepted once it has.
\<close>

theorem retry_after_is_exact:
  assumes "reachable rate_init (rate_step limit) s" and "0 < limit"
    and "reserve_sms_send now None limit device recipient (Some (ra_rows s))
      = (Fail (RateLimited st sec), db)"
    and "now > zero_time + sms_rate_window" and "ra_clock s \<le> now" and "now \<le> later"
  shows "(later \<le> now + (sec - 1) * second \<longrightarrow> (\<exists>st' sec'.
        fst (reserve_sms_send later None limit device recipient (Some (ra_rows s)))
          = Fail (RateLimited st' sec')))
    \<and> (now + sec * second \<le> later \<longrightarrow> (\<exists>st'.
        fst (reserve_sms_send later None limit device recipient (Some (ra_rows s))) = Ok st'))"
proof -
  let ?rows = "ra_rows s" and ?since = "now - sms_rate_window" and ?later = "later - sms_rate_window"
  let ?oldest = "oldest_since ?since ?rows"
  have full: "limit \<le> rate_count ?since ?rows" and sec: "sec = retry_after_seconds ?oldest now"
    using assms(2,3) by (auto simp: reserve_sms_send_def reserve_in_transaction_def Let_def split: if_splits)
  then have some: "since_rows ?since ?rows \<noteq> []" using assms(2) by (auto simp: rate_count_def)
  then have old: "?oldest \<in> at_created ` set (since_rows ?since ?rows)"
    and least: "\<forall>a \<in> set (since_rows ?since ?rows). ?oldest \<le> at_created a"
    by (simp_all add: oldest_since_Min)
  then have "?since < ?oldest" by (auto simp: since_rows_def)
  then have b: "?oldest + sms_rate_window \<le> now + sec * second"
      "now + (sec - 1) * second < ?oldest + sms_rate_window"
    using retry_after_bounds [of ?oldest now] assms(4) by (simp_all add: sec)
  have "rate_count ?later ?rows \<ge> limit" if "later \<le> now + (sec - 1) * second"
  proof -
    have "?later < ?oldest" using b that by linarith
    then have "since_rows ?later ?rows = since_rows ?since ?rows"
      using least assms(6) unfolding since_rows_def by (intro filter_cong) auto
    then show ?thesis using full by (simp add: rate_count_def)
  qed
  moreover have "rate_count ?later ?rows < limit" if "now + sec * second \<le> later"
    using fewer_later [OF assms(1,2,5) old] b that assms(6) by simp
  ultimately show ?thesis
    using assms(2) by (auto simp: reserve_sms_send_def reserve_in_transaction_def Let_def)
qed

theorem retry_after_is_exact_witness:
  "\<exists>sec. fst (reserve_sms_send (10 * second) None 1 [] [] (Some full_rows))
      = Fail (RateLimited (new_rate_status 1 1) sec)
     \<and> (\<exists>st. fst (reserve_sms_send ((10 + sec) * second) None 1 [] [] (Some full_rows)) = Ok st)"
proof -
  have now: "reserve_sms_send (10 * second) None 1 [] [] (Some full_rows)
      = (Fail (RateLimited (new_rate_status 1 1) 3590), Some full_rows)"
    by (simp add: reserve_sms_send_def reserve_in_transaction_def rate_count_def since_rows_def
        full_rows_def sms_rate_window_def second_def oldest_since_def retry_after_seconds_def zero_time_def)
  have "\<exists>st. fst (reserve_sms_send (3600 * second) None 1 [] [] (Some full_rows)) = Ok st"
    using retry_after_is_exact [OF one_sent, of "10 * second" "[]" "[]" "new_rate_status 1 1" 3590
        "Some full_rows" "3600 * second"] now
    by (simp add: second_def zero_time_def sms_rate_window_def)
  then show ?thesis by (intro exI [of _ 3590]) (simp add: now)
qed

end
