(* ===== verification/At_Port.thy ===== *)
theory At_Port
  imports At_Parse Mbim_Ussd
begin

text \<open>
  The serial port of a modem, \<open>internal/modem/manager.go\<close>: the lines of the byte stream
  (\<open>readLoop\<close>), the answer to a command (\<open>handleCommand\<close>), the unsolicited codes (\<open>handleURC\<close>
  with the fields of \<open>formatURC\<close>) and the watchdog of time-outs. A message of the reader is a
  line, an error of the port or, for the command that waits, the end of its time.
\<close>

section \<open>Lines\<close>

definition line_feed :: char where "line_feed = CHR 0x0A"

function take_lines :: "string \<Rightarrow> string list \<times> string" where
  "take_lines data =
     (case index_byte line_feed data of
        None \<Rightarrow> ([], data)
      | Some i \<Rightarrow>
          (let line = trim_space (take (i + 1) data); (ls, rest) = take_lines (drop (i + 1) data)
           in ((if line \<noteq> [] then [line] else []) @ ls, rest)))"
  by pat_completeness auto
termination
  by (relation "measure length") (auto dest: index_byte_bound)

declare take_lines.simps [simp del]

text \<open>One read of the port; what is left over stays in the buffer. A prompt empties it.\<close>

definition read_chunk :: "string \<Rightarrow> string \<Rightarrow> string list \<times> string" where
  "read_chunk buf chunk =
     (let (ls, rest) = take_lines (buf @ chunk) in
      if has_suffix rest ''> '' \<or> has_suffix rest ''>'' then (ls @ [''> ''], []) else (ls, rest))"

fun read_run :: "string \<Rightarrow> string list \<Rightarrow> string list \<times> string" where
  "read_run buf [] = ([], buf)"
| "read_run buf (c # cs) =
     (let (ls, buf) = read_chunk buf c; (ls', buf) = read_run buf cs in (ls @ ls', buf))"

section \<open>Unsolicited codes\<close>

definition command_echoes :: "string list" where
  "command_echoes = [''+CSIM:'', ''+CGLA:'', ''+CCHO:'', ''+CMGR:'', ''+CMGS:'', ''+QENG:'', ''+ICCID:'',
     ''+CPSI:'', ''+CPCMREG:'']"

definition plain_urcs :: "string list" where
  "plain_urcs = [''RING'', ''RDY'', ''SMS Ready'', ''Call Ready'', ''NORMAL POWER DOWN'', ''NO CARRIER'',
     ''BUSY'', ''NO ANSWER'']"

definition is_urc :: "string \<Rightarrow> bool" where
  "is_urc line \<longleftrightarrow>
     (let s = trim_space line in
      s \<noteq> [] \<and> \<not> list_ex (has_prefix s) command_echoes
      \<and> (list_ex (has_prefix s) [''+'', ''^'', ''$''] \<or> s \<in> set plain_urcs))"

text \<open>The codes that never belong to the answer of a command.\<close>

definition is_pure_async_urc :: "string \<Rightarrow> bool" where
  "is_pure_async_urc s \<longleftrightarrow>
     urc_key s \<in> {''+CUSD'', ''+CMTI'', ''RING'', ''+CLIP'', ''+QSIMSTAT'', ''+QSTKURC'', ''+QPCMV''}"

record ussd_reply =
  up_status :: int
  up_text :: string
  up_raw :: string
  up_dcs :: int

text \<open>Arithmetic shifts and masks of an \<open>int\<close> are its quotients and remainders.\<close>

definition ussd_is_ucs2 :: "int \<Rightarrow> bool" where
  "ussd_is_ucs2 dcs \<longleftrightarrow>
     (let group = dcs div 16 mod 16; alphabet = dcs div 4 mod 4 in
      if group = 0 \<or> group = 1 then alphabet = 2
      else if dcs = 72 then True
      else 0x40 \<le> dcs \<and> dcs \<le> 0x7F \<and> alphabet = 2)"

definition decode_at_ussd_text :: "gsm7 \<Rightarrow> string \<Rightarrow> int \<Rightarrow> string" where
  "decode_at_ussd_text g raw dcs =
     (if raw = [] then []
      else if \<not> is_hex_string raw then raw
      else case hex_decode raw of
        None \<Rightarrow> raw
      | Some b \<Rightarrow>
          if ussd_is_ucs2 dcs then
            (if length b mod 2 \<noteq> 0 then raw else string_of_runes (utf16_decode (be16_units b)))
          else
            (case g7_decode g (g7_unpack g b) of None \<Rightarrow> raw | Some t \<Rightarrow> string_of_bytes t))"

definition parse_int_or :: "int \<Rightarrow> string \<Rightarrow> int" where
  "parse_int_or d s = (case parse_int s of None \<Rightarrow> d | Some v \<Rightarrow> v)"

definition ussd_reply_of :: "gsm7 \<Rightarrow> string \<Rightarrow> ussd_reply" where
  "ussd_reply_of g s =
     (let fs = parse_comma_fields (parse_urc_after_colon s);
          n = (if length fs \<ge> 1 then parse_int_or 0 (fs ! 0) else -1);
          raw = (if length fs \<ge> 2 then fs ! 1 else []);
          dcs = (if length fs \<ge> 3 then parse_int_or 0 (fs ! 2) else -1)
      in \<lparr>up_status = n, up_text = decode_at_ussd_text g raw dcs, up_raw = raw, up_dcs = dcs\<rparr>)"

datatype at_event =
    Ready | SimStatus "bool option" string | Ussd ussd_reply | SmsHandler string | SmsRead string string
  | Ring | Hangup | Connected | CallerNumber string | PcmState int

record at_handlers =
  ah_sms_handler :: bool
  ah_disable_read :: bool
  ah_apdu_busy :: bool

definition sms_event :: "at_handlers \<Rightarrow> string \<Rightarrow> at_event list" where
  "sms_event h s =
     (case parse_cmti s of
        None \<Rightarrow> []
      | Some (storage, idx) \<Rightarrow>
          if ah_sms_handler h then [SmsHandler idx]
          else if ah_disable_read h \<or> ah_apdu_busy h then []
          else [SmsRead storage idx])"

text \<open>What the handlers of the manager are told of a line.\<close>

definition handle_urc :: "gsm7 \<Rightarrow> at_handlers \<Rightarrow> string \<Rightarrow> at_event list" where
  "handle_urc g h line =
     (let s = trim_space line; key = urc_key s; rest = parse_urc_after_colon s in
      if s = [] then []
      else if key = ''RDY'' then [Ready]
      else if key = ''+CPIN'' then
        (let state = trim_quotes (trim_space rest)
         in (if state = ''READY'' then [Ready] else []) @ [SimStatus None state])
      else if key = ''+QSIMSTAT'' then
        (let fs = parse_comma_fields rest; v = (if length fs \<ge> 2 then parse_int_or (-1) (fs ! 1) else -1)
         in [SimStatus (if v \<ge> 0 then Some (v = 1) else None) []])
      else if key = ''+CUSD'' then [Ussd (ussd_reply_of g s)]
      else if key = ''+CMTI'' then sms_event h s
      else if key = ''RING'' then [Ring]
      else if key = ''NO CARRIER'' then [Hangup]
      else if key = ''CONNECT'' \<or> key = ''MO CONNECTED'' then [Connected]
      else if key = ''+CLIP'' then
        (case extract_quoted_fields rest of
           [] \<Rightarrow> [] | n # _ \<Rightarrow> if n \<noteq> [] then [CallerNumber n] else [])
      else if key = ''+QPCMV'' then (case parse_int (trim_space rest) of None \<Rightarrow> [] | Some v \<Rightarrow> [PcmState v])
      else [])"

section \<open>Commands\<close>

record at_request =
  aq_cmd :: string
  aq_high :: bool
  aq_interactive :: bool
  aq_wait_prompt :: bool
  aq_follow_up :: string

datatype 'e rx_msg = RxLine string | RxError 'e | RxExpired

datatype 'e at_answer = Answer string | DeviceError string | TimedOut | PortError 'e

text \<open>What a command leaves behind: what was written, the codes handled, the streak of time-outs.\<close>

record at_trace =
  at_writes :: "string list"
  at_urcs :: "string list"
  at_streak :: nat
  at_tripped :: bool

definition timeout_watchdog_threshold :: nat where "timeout_watchdog_threshold = 5"

definition record_at_timeout :: "at_request \<Rightarrow> at_trace \<Rightarrow> at_trace" where
  "record_at_timeout q t =
     (if aq_high q then t
      else t\<lparr>at_streak := at_streak t + 1,
             at_tripped := at_tripped t \<or> at_streak t + 1 \<ge> timeout_watchdog_threshold\<rparr>)"

definition reset_at_timeout :: "at_trace \<Rightarrow> at_trace" where
  "reset_at_timeout t = t\<lparr>at_streak := 0\<rparr>"

definition wrote :: "string \<Rightarrow> at_trace \<Rightarrow> at_trace" where
  "wrote s t = t\<lparr>at_writes := at_writes t @ [s]\<rparr>"

definition joined :: "string list \<Rightarrow> string" where
  "joined ls = join_with [line_feed] ls"

text \<open>None while the command still waits; else the answer, the trace and the messages left.\<close>

fun resp_loop ::
  "at_request \<Rightarrow> string list \<Rightarrow> at_trace \<Rightarrow> 'e rx_msg list \<Rightarrow> ('e at_answer \<times> at_trace \<times> 'e rx_msg list) option"
where
  "resp_loop q acc t [] = None"
| "resp_loop q acc t (RxExpired # ms) = Some (TimedOut, record_at_timeout q (wrote [CHR 0x1B] t), ms)"
| "resp_loop q acc t (RxError e # ms) = Some (PortError e, t, ms)"
| "resp_loop q acc t (RxLine l # ms) =
     (if l = ''OK'' then Some (Answer (joined acc), reset_at_timeout t, ms)
      else if contains l ''ERROR'' then Some (DeviceError (joined (acc @ [l])), reset_at_timeout t, ms)
      else if contains l ''>'' then
        (if aq_interactive q \<and> aq_wait_prompt q \<and> aq_follow_up q \<noteq> [] then
           resp_loop (q\<lparr>aq_wait_prompt := False\<rparr>) (acc @ [l]) (wrote (aq_follow_up q) (reset_at_timeout t)) ms
         else Some (Answer ''> '', reset_at_timeout t, ms))
      else if is_urc l then
        resp_loop q (if is_pure_async_urc l then acc else acc @ [l]) (t\<lparr>at_urcs := at_urcs t @ [l]\<rparr>) ms
      else resp_loop q (acc @ [l]) t ms)"

definition handle_command ::
  "at_request \<Rightarrow> 'e option \<Rightarrow> at_trace \<Rightarrow> 'e rx_msg list \<Rightarrow> ('e at_answer \<times> at_trace \<times> 'e rx_msg list) option"
where
  "handle_command q write_error t ms =
     (case write_error of
        Some e \<Rightarrow> Some (PortError e, t, ms)
      | None \<Rightarrow> resp_loop q [] (wrote (aq_cmd q @ [CHR 0x0D, line_feed]) t) ms)"

text \<open>Commands that are waiting when the one before them ends.\<close>

fun run_commands :: "at_request list \<Rightarrow> at_trace \<Rightarrow> 'e rx_msg list \<Rightarrow> 'e at_answer list" where
  "run_commands [] t ms = []"
| "run_commands (q # qs) t ms =
     (case handle_command q None t ms of None \<Rightarrow> [] | Some (a, t, ms) \<Rightarrow> a # run_commands qs t ms)"

section \<open>The lines do not depend on the reads\<close>

lemma take_lines_none: "index_byte line_feed data = None \<Longrightarrow> take_lines data = ([], data)"
  by (simp add: take_lines.simps [of data])

lemma take_lines_some:
  "index_byte line_feed data = Some i \<Longrightarrow>
   take_lines data =
     (let line = trim_space (take (i + 1) data); (ls, rest) = take_lines (drop (i + 1) data)
      in ((if line \<noteq> [] then [line] else []) @ ls, rest))"
  by (simp add: take_lines.simps [of data])

lemma index_byte_extended: "index_byte c a = Some i \<Longrightarrow> index_byte c (a @ b) = Some i"
  by (induction a arbitrary: i) (auto split: if_splits)

lemma take_lines_append:
  "take_lines (a @ b) =
     (let (ls, rest) = take_lines a; (ls', rest') = take_lines (rest @ b) in (ls @ ls', rest'))"
proof (induction a rule: take_lines.induct)
  case (1 a)
  show ?case
  proof (cases "index_byte line_feed a")
    case None
    then show ?thesis by (simp add: take_lines_none split_def)
  next
    case (Some i)
    then have "i < length a" by (rule index_byte_bound)
    then have "Suc i - length a = 0" by simp
    then show ?thesis
      using 1 [OF Some refl] Some index_byte_extended [OF Some, of b]
      by (simp add: take_lines_some split_def Let_def)
  qed
qed

lemma take_lines_rest: "set (snd (take_lines data)) \<subseteq> set data"
proof (induction data rule: take_lines.induct)
  case (1 data)
  show ?case
  proof (cases "index_byte line_feed data")
    case None
    then show ?thesis by (simp add: take_lines_none)
  next
    case (Some i)
    then show ?thesis
      using 1 [OF Some refl] set_drop_subset [of "i + 1" data] by (auto simp: take_lines_some split_def Let_def)
  qed
qed

lemma no_prompt:
  assumes "CHR ''>'' \<notin> set rest"
  shows "\<not> has_suffix rest ''> ''" and "\<not> has_suffix rest ''>''"
proof -
  have "\<exists>r. rev rest = rev p @ r \<Longrightarrow> set p \<subseteq> set rest" for p
    by (metis Un_upper1 set_append set_rev)
  with assms show "\<not> has_suffix rest ''> ''" and "\<not> has_suffix rest ''>''"
    by (fastforce simp: has_suffix_def has_prefix_iff)+
qed

text \<open>
  C1. However the port cuts the bytes into reads, the reader delivers the same lines, those of
  the whole stream, as long as no byte of the stream is a prompt character.
\<close>

theorem lines_do_not_depend_on_reads:
  assumes "CHR ''>'' \<notin> set (buf @ concat chunks)"
    and "take_lines buf = ([], buf)"
  shows "read_run buf chunks = take_lines (buf @ concat chunks)"
  using assms
proof (induction chunks arbitrary: buf)
  case (Cons c cs)
  obtain ls rest where t: "take_lines (buf @ c) = (ls, rest)" by fastforce
  have rest: "CHR ''>'' \<notin> set rest" using take_lines_rest [of "buf @ c"] t Cons.prems(1) by auto
  have again: "take_lines rest = ([], rest)"
    using take_lines_append [of "buf @ c" "[]"] t by (cases "take_lines rest") auto
  have "read_chunk buf c = (ls, rest)" using t no_prompt [OF rest] by (simp add: read_chunk_def)
  moreover have "read_run rest cs = take_lines (rest @ concat cs)"
    using Cons.IH [of rest] Cons.prems(1) rest again by simp
  ultimately show ?case
    using take_lines_append [of "buf @ c" "concat cs"] t by (simp add: split_def)
qed simp

theorem lines_do_not_depend_on_reads_witness:
  "read_run [] [''OK'', [CHR 0x0D], [line_feed] @ ''RI'', ''NG'' @ [line_feed, CHR ''x'']] = ([''OK'', ''RING''], ''x'')"
proof -
  let ?cs = "[''OK'', [CHR 0x0D], [line_feed] @ ''RI'', ''NG'' @ [line_feed, CHR ''x'']]"
  have "take_lines ([] @ concat ?cs) = ([''OK'', ''RING''], ''x'')" by code_simp
  moreover have "read_run [] ?cs = take_lines ([] @ concat ?cs)"
    by (rule lines_do_not_depend_on_reads) (simp_all add: line_feed_def take_lines_none)
  ultimately show ?thesis by simp
qed

text \<open>
  With one, they do: a read that ends behind a prompt character inside a line throws the
  beginning of the line away.
\<close>

theorem torn_line:
  "read_run [] [''+CUSD: 0,a>'', ''b,15'' @ [line_feed]] = ([''> '', ''b,15''], [])
   \<and> read_run [] [''+CUSD: 0,a>b,15'' @ [line_feed]] = ([''+CUSD: 0,a>b,15''], [])"
  by (intro conjI; code_simp)

section \<open>The answer to a command\<close>

text \<open>A line that does not end a command.\<close>

definition inner_line :: "string \<Rightarrow> bool" where
  "inner_line l \<longleftrightarrow> l \<noteq> ''OK'' \<and> \<not> contains l ''ERROR'' \<and> \<not> contains l ''>''"

definition belongs :: "string \<Rightarrow> bool" where
  "belongs l \<longleftrightarrow> \<not> (is_urc l \<and> is_pure_async_urc l)"

lemma resp_loop_inner:
  assumes "\<forall>l \<in> set ls. inner_line l"
  shows "resp_loop q acc t (map RxLine ls @ ms) =
    resp_loop q (acc @ filter belongs ls) (t\<lparr>at_urcs := at_urcs t @ filter is_urc ls\<rparr>) ms"
  using assms
  by (induction ls arbitrary: acc t) (auto simp: inner_line_def belongs_def)

text \<open>
  C2. A command whose answer arrives before its time is over gets exactly the lines of the answer
  up to the final result, less the codes that never belong to an answer; every unsolicited code
  among them is handled, in order, and the streak of time-outs ends.
\<close>

theorem answer_is_collected:
  assumes "\<forall>l \<in> set ls. inner_line l"
  shows "handle_command q None t (map RxLine ls @ RxLine ''OK'' # ms) =
    Some (Answer (joined (filter belongs ls)),
      t\<lparr>at_writes := at_writes t @ [aq_cmd q @ [CHR 0x0D, line_feed]],
        at_urcs := at_urcs t @ filter is_urc ls, at_streak := 0\<rparr>, ms)"
  by (simp add: handle_command_def resp_loop_inner [OF assms] wrote_def reset_at_timeout_def)

definition plain_request :: "string \<Rightarrow> at_request" where
  "plain_request cmd = \<lparr>aq_cmd = cmd, aq_high = False, aq_interactive = False, aq_wait_prompt = False,
     aq_follow_up = []\<rparr>"

definition quiet_port :: at_trace where
  "quiet_port = \<lparr>at_writes = [], at_urcs = [], at_streak = 0, at_tripped = False\<rparr>"

theorem answer_is_collected_witness:
  "\<exists>t. handle_command (plain_request ''AT+CSQ'') (None :: unit option) quiet_port
      (map RxLine [''RING'', ''+CSQ: 20,99''] @ RxLine ''OK'' # []) = Some (Answer ''+CSQ: 20,99'', t, [])
     \<and> at_urcs t = [''RING'', ''+CSQ: 20,99'']"
proof -
  have "\<forall>l \<in> set [''RING'', ''+CSQ: 20,99'']. inner_line l" by code_simp
  moreover have "joined (filter belongs [''RING'', ''+CSQ: 20,99'']) = ''+CSQ: 20,99''" by code_simp
  moreover have "filter is_urc [''RING'', ''+CSQ: 20,99''] = [''RING'', ''+CSQ: 20,99'']" by code_simp
  ultimately show ?thesis
    using answer_is_collected [of "[''RING'', ''+CSQ: 20,99'']" "plain_request ''AT+CSQ''" quiet_port
      "[] :: unit rx_msg list"]
    by (simp add: quiet_port_def)
qed

text \<open>
  C3. After a time-out the port does not wait for the answer that is still to come: the command
  that was queued behind it is given that answer, and its own answer goes to the command after it.
\<close>

theorem late_answer_goes_to_the_next_command:
  assumes "\<forall>l \<in> set (before @ late @ own). inner_line l"
  shows "run_commands [q1, q2, q3] t
    (map RxLine before @ RxExpired # map RxLine late @ RxLine ''OK'' # map RxLine own @ [RxLine ''OK''])
    = [TimedOut, Answer (joined (filter belongs late)), Answer (joined (filter belongs own))]"
  using assms by (simp add: handle_command_def resp_loop_inner)

theorem late_answer_goes_to_the_next_command_witness:
  "run_commands [plain_request ''AT+COPS=?'', plain_request ''AT+CIMI'', plain_request ''AT+CGSN''] quiet_port
     ([RxExpired, RxLine ''+COPS: (2)'', RxLine ''OK'', RxLine ''001010123456789'', RxLine ''OK''] :: unit rx_msg list)
   = [TimedOut, Answer ''+COPS: (2)'', Answer ''001010123456789'']"
proof -
  have "\<forall>l \<in> set ([] @ [''+COPS: (2)''] @ [''001010123456789'']). inner_line l" by code_simp
  moreover have "joined (filter belongs [''+COPS: (2)'']) = ''+COPS: (2)''"
    "joined (filter belongs [''001010123456789'']) = ''001010123456789''" by code_simp+
  ultimately show ?thesis
    using late_answer_goes_to_the_next_command [of "[]" "[''+COPS: (2)'']" "[''001010123456789'']"
      "plain_request ''AT+COPS=?''" "plain_request ''AT+CIMI''" "plain_request ''AT+CGSN''" quiet_port]
    by simp
qed

text \<open>A code that comes while a command runs ends the command when its text has a prompt character.\<close>

theorem prompt_character_ends_the_command:
  "run_commands [plain_request ''AT+CSQ''] quiet_port
     ([RxLine ''+CUSD: 1,1 > 2,15'', RxLine ''+CSQ: 20,99'', RxLine ''OK''] :: unit rx_msg list) = [Answer ''> '']"
proof -
  have "contains ''+CUSD: 1,1 > 2,15'' ''>''" by (simp add: contains_def)
  moreover have "\<not> contains ''+CUSD: 1,1 > 2,15'' ''ERROR''" by (simp add: contains_def)
  ultimately show ?thesis by (simp add: handle_command_def plain_request_def)
qed

section \<open>What is never told\<close>

text \<open>
  The answer of the called party is reported for the codes CONNECT and MO CONNECTED; the first
  is no unsolicited code for the port, and the key of the second is cut at its blank.
\<close>

lemma trim_codes_suffix: "\<exists>p. s = p @ trim_codes ws s"
proof (induction ws s rule: trim_codes.induct)
  case (1 ws s)
  show ?case
  proof (cases "[] \<in> set ws \<or> strip_any ws s = None")
    case True
    then show ?thesis by (auto simp: trim_codes.simps [of ws s])
  next
    case False
    then obtain r where r: "strip_any ws s = Some r" "[] \<notin> set ws" by auto
    have "strip_code w s = Some r \<Longrightarrow> s = w @ r" for w
      by (induction w s rule: strip_code.induct) (auto split: if_splits)
    then have "strip_any vs s = Some r \<Longrightarrow> \<exists>w. s = w @ r" for vs
      by (induction vs) (auto split: option.splits)
    then obtain w where "s = w @ r" using r(1) by blast
    moreover obtain p where "r = p @ trim_codes ws r" using 1 [OF r(2,1)] by blast
    moreover have "trim_codes ws s = trim_codes ws r" using r by (simp add: trim_codes.simps [of ws s])
    ultimately have "s = (w @ p) @ trim_codes ws s" by simp
    then show ?thesis by blast
  qed
qed

lemma trim_right_prefix: "\<exists>r. s = trim_right_space s @ r"
  using trim_codes_suffix [of "rev s" "map rev space_codes"] unfolding trim_right_space_def
  by (metis rev_append rev_rev_ident)

definition code_sign :: "char \<Rightarrow> bool" where
  "code_sign c \<longleftrightarrow> c \<in> {CHR ''+'', CHR ''^'', CHR ''$''}"

lemma urc_key_sign:
  assumes "code_sign c"
  shows "urc_key (c # s) = [] \<or> code_sign (hd (urc_key (c # s)))"
proof -
  have "plain_char (CHR ''+'')" "plain_char (CHR ''^'')" "plain_char (CHR ''$'')" by code_simp+
  then have "plain_char c" using assms by (auto simp: code_sign_def)
  then have "trim_space (c # s) = trim_right_space (c # s)" by (simp add: trim_space_def trim_left_plain)
  then obtain r where "c # s = trim_space (c # s) @ r" using trim_right_prefix by metis
  then obtain u where "trim_space (c # s) = [] \<or> trim_space (c # s) = c # u" by (metis append_eq_Cons_conv)
  then show ?thesis
    using assms by (auto simp: urc_key_def code_sign_def Let_def take_Cons' split: option.splits)
qed

lemma not_in_if: "(b \<Longrightarrow> x \<notin> set p) \<Longrightarrow> (\<not> b \<Longrightarrow> x \<notin> set q) \<Longrightarrow> x \<notin> set (if b then p else q)"
  by simp

lemma connected_key:
  assumes "Connected \<in> set (handle_urc g h line)"
  shows "urc_key (trim_space line) = ''CONNECT'' \<or> urc_key (trim_space line) = ''MO CONNECTED''"
proof (rule ccontr)
  assume key: "\<not> ?thesis"
  have "Connected \<notin> set (sms_event h s)" for s by (simp add: sms_event_def split: option.split)
  moreover have "Connected \<notin> set (case x of [] \<Rightarrow> [] | n # _ \<Rightarrow> if n \<noteq> [] then [CallerNumber n] else [])" for x
    by (cases x) simp_all
  moreover have "Connected \<notin> set (case x of None \<Rightarrow> [] | Some v \<Rightarrow> [PcmState v])" for x by (cases x) simp_all
  ultimately have "Connected \<notin> set (handle_urc g h line)"
    unfolding handle_urc_def Let_def
    by (intro not_in_if) (use key in \<open>(blast | simp)+\<close>)
  with assms show False by blast
qed

theorem connect_is_never_told:
  "\<not> (is_urc line \<and> Connected \<in> set (handle_urc g h line))"
proof
  assume a: "is_urc line \<and> Connected \<in> set (handle_urc g h line)"
  let ?s = "trim_space line"
  from a have key: "urc_key ?s = ''CONNECT'' \<or> urc_key ?s = ''MO CONNECTED''" by (blast dest: connected_key)
  from a have "(\<exists>c r. ?s = c # r \<and> code_sign c) \<or> ?s \<in> set plain_urcs"
    by (cases ?s) (auto simp: is_urc_def code_sign_def Let_def)
  then show False
  proof
    assume "\<exists>c r. ?s = c # r \<and> code_sign c"
    then have "urc_key ?s = [] \<or> code_sign (hd (urc_key ?s))" using urc_key_sign by metis
    then show False using key by (auto simp: code_sign_def)
  next
    assume "?s \<in> set plain_urcs"
    moreover have "list_all (\<lambda>u. urc_key u \<noteq> ''CONNECT'' \<and> urc_key u \<noteq> ''MO CONNECTED'') plain_urcs" by code_simp
    ultimately show False using key by (auto simp: list_all_iff)
  qed
qed

section \<open>The text of a USSD answer\<close>

text \<open>
  The fields of the code are cut at every comma, also inside the quotes of the text: the text
  ends at its first comma, and the coding is read from what follows it.
\<close>

theorem ussd_text_ends_at_the_comma:
  "ussd_reply_of no_gsm7 (''+CUSD: 0,'' @ [quote] @ ''Balance 5,20 EUR'' @ [quote] @ '',15'')
   = \<lparr>up_status = 0, up_text = ''Balance 5'', up_raw = ''Balance 5'', up_dcs = 20\<rparr>"
  by code_simp

end
