(* ===== verification/At_Commands.thy ===== *)
theory At_Commands
  imports At_Port Sim_Metadata
begin

text \<open>
  The questions a modem is asked over its serial port: the dialects of \<open>internal/modem/dialect.go\<close>,
  the queries of \<open>commands.go\<close> and the status that \<open>manager.go\<close> keeps of them. \<open>ExecuteAT\<close> and its
  variants are the parameter \<open>exec\<close>, told whether the command has priority; At_Port models how
  the port pairs a command with its answer.
\<close>

type_synonym ('e, 's) at_exec = "bool \<Rightarrow> string \<Rightarrow> 's \<Rightarrow> ('e + string) \<times> 's"

definition ask_at :: "('e, 's) at_exec \<Rightarrow> string \<Rightarrow> (string \<Rightarrow> 'a) \<Rightarrow> 's \<Rightarrow> ('e + 'a) \<times> 's" where
  "ask_at exec cmd parse s =
     (case exec False cmd s of (Inl e, s) \<Rightarrow> (Inl e, s) | (Inr resp, s) \<Rightarrow> (Inr (parse resp), s))"

section \<open>Dialects\<close>

text \<open>A command is left out where the dialect has none.\<close>

record at_dialect =
  ad_vendor :: string
  ad_init :: "string list"
  ad_sim_inserted :: "(string \<times> (string \<Rightarrow> bool option)) list"
  ad_iccid :: "(string \<times> (string \<Rightarrow> string)) list"
  ad_serving_cell :: "(string \<times> (string \<Rightarrow> serving_cell option)) option"
  ad_network_radio :: "(string \<times> (string \<Rightarrow> string \<times> string \<times> string \<times> nat)) option"
  ad_ims_status :: "(string \<times> (string \<Rightarrow> int option)) option"
  ad_usb_net :: "(string \<times> (string \<Rightarrow> int option)) option"
  ad_usb_net_set :: "(int \<Rightarrow> string) option"
  ad_audio_enable :: string
  ad_audio_disable :: string
  ad_audio_query :: "(string \<times> (string \<Rightarrow> (bool \<times> int) option)) option"

definition vendor_quectel :: string where "vendor_quectel = ''quectel''"
definition vendor_simcom :: string where "vendor_simcom = ''simcom''"

definition normalize_module_vendor :: "string \<Rightarrow> string" where
  "normalize_module_vendor vendor =
     (let v = to_lower (trim_space vendor) in
      if v \<in> set [[], ''auto'', vendor_quectel] then vendor_quectel
      else if v \<in> set [vendor_simcom, ''sim-com'', ''sim_com''] then vendor_simcom
      else v)"

definition quoted :: "string \<Rightarrow> string" where
  "quoted s = [quote] @ s @ [quote]"

definition quectel_dialect :: at_dialect where
  "quectel_dialect = \<lparr>ad_vendor = vendor_quectel,
     ad_init = [''ATE0'', ''AT+CMGF=0'', ''AT+CNMI=2,1,0,0,0'', ''AT+CLIP=1'', ''AT+QPCMV=1,2''],
     ad_sim_inserted = [(''AT+QSIMSTAT?'', parse_qsimstat_inserted), (''AT+CPIN?'', parse_cpin_inserted)],
     ad_iccid = [(''AT+QCCID'', parse_qccid)],
     ad_serving_cell = Some (''AT+QENG='' @ quoted ''servingcell'', parse_serving_cell_lte_info),
     ad_network_radio = Some (''AT+QNWINFO'', parse_qnwinfo_radio),
     ad_ims_status = Some (''AT+QIMS?'', parse_qims),
     ad_usb_net = Some (''AT+QCFG='' @ quoted ''usbnet'' @ ''?'', parse_usb_net),
     ad_usb_net_set = Some (\<lambda>mode. ''AT+QCFG='' @ quoted ''usbnet'' @ '','' @ itoa mode),
     ad_audio_enable = ''AT+QPCMV=1,2'', ad_audio_disable = ''AT+QPCMV=0'',
     ad_audio_query = Some (''AT+QPCMV?'', parse_qpcmv_audio_mode)\<rparr>"

definition simcom_dialect :: at_dialect where
  "simcom_dialect = \<lparr>ad_vendor = vendor_simcom,
     ad_init = [''ATE0'', ''AT+CMGF=0'', ''AT+CNMI=2,1,0,0,0'', ''AT+CLIP=1'', ''AT+CPCMREG=1''],
     ad_sim_inserted = [(''AT+CPIN?'', parse_cpin_inserted)],
     ad_iccid = [(''AT+CICCID'', parse_iccid)],
     ad_serving_cell = Some (''AT+CPSI?'', parse_cpsi_serving_cell),
     ad_network_radio = Some (''AT+CPSI?'', parse_cpsi_network_radio),
     ad_ims_status = None, ad_usb_net = None, ad_usb_net_set = None,
     ad_audio_enable = ''AT+CPCMREG=1'', ad_audio_disable = ''AT+CPCMREG=0,1'',
     ad_audio_query = Some (''AT+CPCMREG?'', parse_cpcmreg_audio_mode)\<rparr>"

definition resolve_at_dialect :: "string \<Rightarrow> at_dialect" where
  "resolve_at_dialect vendor =
     (if normalize_module_vendor vendor = vendor_simcom then simcom_dialect else quectel_dialect)"

section \<open>Queries\<close>

definition query_imei :: "('e, 's) at_exec \<Rightarrow> 's \<Rightarrow> ('e + string) \<times> 's" where
  "query_imei exec = ask_at exec ''AT+CGSN'' parse_imei"

definition query_firmware :: "('e, 's) at_exec \<Rightarrow> 's \<Rightarrow> ('e + string) \<times> 's" where
  "query_firmware exec = ask_at exec ''AT+CGMR'' parse_firmware"

definition query_imsi :: "('e, 's) at_exec \<Rightarrow> 's \<Rightarrow> ('e + string) \<times> 's" where
  "query_imsi exec = ask_at exec ''AT+CIMI'' parse_imsi"

text \<open>The first command with an answer that its parser takes; else the last error, if any.\<close>

fun first_answer ::
  "('e, 's) at_exec \<Rightarrow> 'a \<Rightarrow> 'e option \<Rightarrow> (string \<times> (string \<Rightarrow> 'a option)) list \<Rightarrow> 's \<Rightarrow> ('e + 'a) \<times> 's"
where
  "first_answer exec none err [] s = (case err of Some e \<Rightarrow> Inl e | None \<Rightarrow> Inr none, s)"
| "first_answer exec none err ((cmd, parse) # cs) s =
     (if trim_space cmd = [] then first_answer exec none err cs s
      else case exec False cmd s of
        (Inl e, s) \<Rightarrow> first_answer exec none (Some e) cs s
      | (Inr resp, s) \<Rightarrow>
          (case parse resp of
             Some v \<Rightarrow> (Inr v, s)
           | None \<Rightarrow> first_answer exec none err cs s))"

definition query_sim_inserted :: "('e, 's) at_exec \<Rightarrow> at_dialect \<Rightarrow> 's \<Rightarrow> ('e + bool) \<times> 's" where
  "query_sim_inserted exec d = first_answer exec False None (ad_sim_inserted d)"

definition nonempty :: "string \<Rightarrow> string option" where
  "nonempty v = (if v \<noteq> [] then Some v else None)"

definition query_iccid :: "('e, 's) at_exec \<Rightarrow> at_dialect \<Rightarrow> 's \<Rightarrow> ('e + string) \<times> 's" where
  "query_iccid exec d =
     first_answer exec [] None (map (\<lambda>(cmd, parse). (cmd, \<lambda>resp. nonempty (parse resp))) (ad_iccid d))"

definition query_operator :: "('e, 's) at_exec \<Rightarrow> 's \<Rightarrow> ('e + string) \<times> 's" where
  "query_operator exec s =
     (let (_, s) = exec False ''AT+COPS=3,2'' s in ask_at exec ''AT+COPS?'' parse_cops_operator s)"

text \<open>UTF-8: not registered, registered (home), searching, refused, registered (roaming), unknown.\<close>

definition reg_status_text :: "int \<Rightarrow> string" where
  "reg_status_text status =
     (if status = 0 then [CHR 0xE6, CHR 0x9C, CHR 0xAA, CHR 0xE6, CHR 0xB3, CHR 0xA8, CHR 0xE5, CHR 0x86, CHR 0x8C]
      else if status = 1 then [CHR 0xE5, CHR 0xB7, CHR 0xB2, CHR 0xE6, CHR 0xB3, CHR 0xA8, CHR 0xE5, CHR 0x86, CHR 0x8C, CHR 0x28, CHR 0xE6, CHR 0x9C, CHR 0xAC, CHR 0xE5, CHR 0x9C, CHR 0xB0, CHR 0x29]
      else if status = 2 then [CHR 0xE6, CHR 0x90, CHR 0x9C, CHR 0xE7, CHR 0xB4, CHR 0xA2, CHR 0xE4, CHR 0xB8, CHR 0xAD]
      else if status = 3 then [CHR 0xE6, CHR 0xB3, CHR 0xA8, CHR 0xE5, CHR 0x86, CHR 0x8C, CHR 0xE8, CHR 0xA2, CHR 0xAB, CHR 0xE6, CHR 0x8B, CHR 0x92]
      else if status = 5 then [CHR 0xE5, CHR 0xB7, CHR 0xB2, CHR 0xE6, CHR 0xB3, CHR 0xA8, CHR 0xE5, CHR 0x86, CHR 0x8C, CHR 0x28, CHR 0xE6, CHR 0xBC, CHR 0xAB, CHR 0xE6, CHR 0xB8, CHR 0xB8, CHR 0x29]
      else [CHR 0xE6, CHR 0x9C, CHR 0xAA, CHR 0xE7, CHR 0x9F, CHR 0xA5])"

definition registration_of :: "string \<Rightarrow> int \<times> string \<times> string \<times> string" where
  "registration_of resp =
     (case parse_creg resp of
        None \<Rightarrow> (0, [], [], []) | Some (st, lac, cell) \<Rightarrow> (st, reg_status_text st, lac, cell))"

definition query_registration ::
  "('e, 's) at_exec \<Rightarrow> 's \<Rightarrow> ('e + int \<times> string \<times> string \<times> string) \<times> 's"
where
  "query_registration exec = ask_at exec ''AT+CREG?'' registration_of"

definition csq_of :: "string \<Rightarrow> int \<times> int" where
  "csq_of resp = (case parse_csq resp of None \<Rightarrow> (0, -999) | Some v \<Rightarrow> v)"

definition query_csq :: "('e, 's) at_exec \<Rightarrow> 's \<Rightarrow> ('e + int \<times> int) \<times> 's" where
  "query_csq exec = ask_at exec ''AT+CSQ'' csq_of"

text \<open>A question of the dialect; without one the answer is the given one.\<close>

definition ask_dialect ::
  "('e, 's) at_exec \<Rightarrow> (string \<times> (string \<Rightarrow> 'a)) option \<Rightarrow> 'a \<Rightarrow> 's \<Rightarrow> ('e + 'a) \<times> 's"
where
  "ask_dialect exec q none s =
     (case q of None \<Rightarrow> (Inr none, s) | Some (cmd, parse) \<Rightarrow> ask_at exec cmd parse s)"

definition default_to :: "'a \<Rightarrow> 'a option \<Rightarrow> 'a" where
  "default_to d v = (case v of None \<Rightarrow> d | Some x \<Rightarrow> x)"

definition query_serving_cell_lte_info :: "('e, 's) at_exec \<Rightarrow> at_dialect \<Rightarrow> 's \<Rightarrow> ('e + serving_cell) \<times> 's" where
  "query_serving_cell_lte_info exec d =
     ask_dialect exec (map_option (map_prod id (\<lambda>parse. default_to no_cell \<circ> parse)) (ad_serving_cell d)) no_cell"

definition query_apn :: "('e, 's) at_exec \<Rightarrow> 's \<Rightarrow> ('e + string) \<times> 's" where
  "query_apn exec = ask_at exec ''AT+CGDCONT?'' parse_apn"

definition query_ims_status :: "('e, 's) at_exec \<Rightarrow> at_dialect \<Rightarrow> 's \<Rightarrow> ('e + int) \<times> 's" where
  "query_ims_status exec d =
     ask_dialect exec (map_option (map_prod id (\<lambda>parse. default_to 0 \<circ> parse)) (ad_ims_status d)) 0"

definition query_network_radio ::
  "('e, 's) at_exec \<Rightarrow> at_dialect \<Rightarrow> 's \<Rightarrow> ('e + string \<times> string \<times> string \<times> nat) \<times> 's"
where
  "query_network_radio exec d = ask_dialect exec (ad_network_radio d) ([], [], [], 0)"

definition query_network_mode_and_duplex ::
  "('e, 's) at_exec \<Rightarrow> at_dialect \<Rightarrow> 's \<Rightarrow> ('e + string \<times> string) \<times> 's"
where
  "query_network_mode_and_duplex exec d s =
     (case query_network_radio exec d s of
        (Inl e, s) \<Rightarrow> (Inl e, s) | (Inr (mode, duplex, _), s) \<Rightarrow> (Inr (mode, duplex), s))"

definition query_network_mode_fallback ::
  "('e, 's) at_exec \<Rightarrow> at_dialect \<Rightarrow> 's \<Rightarrow> ('e + string \<times> string) \<times> 's"
where
  "query_network_mode_fallback exec d s =
     (let (first, s) = query_network_mode_and_duplex exec d s;
          again = (case exec False ''AT+COPS?'' s of
             (Inl e2, s) \<Rightarrow> (case first of Inl e \<Rightarrow> Inl e | Inr _ \<Rightarrow> Inl e2, s)
           | (Inr resp, s) \<Rightarrow> (Inr (default_to [] (parse_cops_act resp), []), s))
      in case first of Inr (mode, duplex) \<Rightarrow> if mode \<noteq> [] then (first, s) else again | Inl _ \<Rightarrow> again)"

definition set_attach :: "('e, 's) at_exec \<Rightarrow> bool \<Rightarrow> 's \<Rightarrow> 'e option \<times> 's" where
  "set_attach exec attached s =
     (case exec True (if attached then ''AT+CGATT=1'' else ''AT+CGATT=0'') s of
        (Inl e, s) \<Rightarrow> (Some e, s) | (Inr _, s) \<Rightarrow> (None, s))"

definition rotate_modem :: "('e, 's) at_exec \<Rightarrow> 's \<Rightarrow> 'e option \<times> 's" where
  "rotate_modem exec s =
     (case set_attach exec False s of (Some e, s) \<Rightarrow> (Some e, s) | (None, s) \<Rightarrow> set_attach exec True s)"

definition query_smsc :: "('e, 's) at_exec \<Rightarrow> 's \<Rightarrow> ('e + string) \<times> 's" where
  "query_smsc exec = ask_at exec ''AT+CSCA?'' parse_csca"

definition query_msisdn :: "('e, 's) at_exec \<Rightarrow> 's \<Rightarrow> ('e + string) \<times> 's" where
  "query_msisdn exec = ask_at exec ''AT+CNUM'' parse_cnum"

definition query_usb_net_mode :: "('e, 's) at_exec \<Rightarrow> at_dialect \<Rightarrow> 's \<Rightarrow> ('e + int) \<times> 's" where
  "query_usb_net_mode exec d =
     ask_dialect exec (map_option (map_prod id (\<lambda>parse. default_to (-1) \<circ> parse)) (ad_usb_net d)) (-1)"

datatype 'e mode_error = ModeUnsupported string | ModeFailed 'e | RestartFailed 'e

definition set_usb_net_mode :: "('e, 's) at_exec \<Rightarrow> at_dialect \<Rightarrow> int \<Rightarrow> 's \<Rightarrow> 'e mode_error option \<times> 's" where
  "set_usb_net_mode exec d mode s =
     (case ad_usb_net_set d of
        None \<Rightarrow> (Some (ModeUnsupported (ad_vendor d)), s)
      | Some cmd \<Rightarrow>
          (case exec False (cmd mode) s of
             (Inl e, s) \<Rightarrow> (Some (ModeFailed e), s)
           | (Inr _, s) \<Rightarrow>
               (case exec False ''AT+CFUN=1,1'' s of
                  (Inl e, s) \<Rightarrow> (Some (RestartFailed e), s) | (Inr _, s) \<Rightarrow> (None, s))))"

section \<open>USB audio\<close>

datatype 'e audio_error = AudioUnsupported string | AudioFailed 'e | NoAudioState

definition query_usb_audio_mode ::
  "('e, 's) at_exec \<Rightarrow> at_dialect \<Rightarrow> 's \<Rightarrow> ('e audio_error + bool \<times> int) \<times> 's"
where
  "query_usb_audio_mode exec d s =
     (case ad_audio_query d of
        None \<Rightarrow> (Inl (AudioUnsupported (ad_vendor d)), s)
      | Some (cmd, parse) \<Rightarrow>
          (case exec False cmd s of
             (Inl e, s) \<Rightarrow> (Inl (AudioFailed e), s)
           | (Inr resp, s) \<Rightarrow> (case parse resp of None \<Rightarrow> Inl NoAudioState | Some v \<Rightarrow> Inr v, s)))"

definition send_audio_command :: "('e, 's) at_exec \<Rightarrow> at_dialect \<Rightarrow> string \<Rightarrow> 's \<Rightarrow> 'e audio_error option \<times> 's" where
  "send_audio_command exec d cmd s =
     (if trim_space cmd = [] then (Some (AudioUnsupported (ad_vendor d)), s)
      else case exec False cmd s of (Inl e, s) \<Rightarrow> (Some (AudioFailed e), s) | (Inr _, s) \<Rightarrow> (None, s))"

definition enable_usb_audio :: "('e, 's) at_exec \<Rightarrow> at_dialect \<Rightarrow> 's \<Rightarrow> 'e audio_error option \<times> 's" where
  "enable_usb_audio exec d s =
     (case query_usb_audio_mode exec d s of
        (Inr (True, _), s) \<Rightarrow> (None, s)
      | (_, s) \<Rightarrow> send_audio_command exec d (ad_audio_enable d) s)"

definition disable_usb_audio :: "('e, 's) at_exec \<Rightarrow> at_dialect \<Rightarrow> 's \<Rightarrow> 'e audio_error option \<times> 's" where
  "disable_usb_audio exec d = send_audio_command exec d (ad_audio_disable d)"

text \<open>
  The USB configuration of a Quectel modem: the last field switches the sound card on. The answer
  is whether it has been changed.
\<close>

definition usb_config_fields :: "string \<Rightarrow> string list option" where
  "usb_config_fields resp =
     (case index_of (''+qcfg: '' @ quoted ''usbcfg'' @ '','') (to_lower resp) of
        None \<Rightarrow> None
      | Some i \<Rightarrow>
          (let line = takeWhile (\<lambda>c. c \<noteq> CHR 0x0D \<and> c \<noteq> line_feed) (drop (i + 7) resp);
               parts = split_on (CHR '','') (trim_space line)
           in if length parts < 8 then None else Some parts))"

definition check_and_enable_uac :: "('e, 's) at_exec \<Rightarrow> at_dialect \<Rightarrow> 's \<Rightarrow> ('e + bool) \<times> 's" where
  "check_and_enable_uac exec d s =
     (if ad_vendor d \<noteq> vendor_quectel then (Inr False, s)
      else case exec False (''AT+QCFG='' @ quoted ''USBCFG'' @ ''?'') s of
        (Inl e, s) \<Rightarrow> (Inl e, s)
      | (Inr resp, s) \<Rightarrow>
          (case usb_config_fields resp of
             None \<Rightarrow> (Inr False, s)
           | Some parts \<Rightarrow>
               if trim_space (last parts) = ''0'' then
                 (case exec False (''AT+QCFG='' @ join_with '','' (butlast parts @ [''1''])) s of
                    (Inl e, s) \<Rightarrow> (Inl e, s) | (Inr _, s) \<Rightarrow> (Inr True, s))
               else (Inr False, s)))"

section \<open>What the manager keeps\<close>

record device_info =
  di_imei :: string
  di_firmware :: string
  di_iccid :: string
  di_imsi :: string
  di_operator :: string
  di_sim :: bool
  di_dbm :: int
  di_rsrq :: int
  di_rsrp :: int
  di_reg :: int
  di_reg_text :: string
  di_lac :: string
  di_cell :: string
  di_apn :: string
  di_ims :: int
  di_mode :: string
  di_duplex :: string
  di_usb_net :: int
  di_sim_failures :: nat
  di_sim_alerting :: bool

definition keep :: "'a \<Rightarrow> 'e + 'a \<Rightarrow> 'a" where
  "keep d r = (case r of Inl _ \<Rightarrow> d | Inr v \<Rightarrow> v)"

definition update :: "'a \<Rightarrow> 'a \<Rightarrow> 'a \<Rightarrow> 'a" where
  "update none old new = (if new \<noteq> none then new else old)"

definition collect_device_info ::
  "('e, 's) at_exec \<Rightarrow> at_dialect \<Rightarrow> device_info \<Rightarrow> 's \<Rightarrow> device_info \<times> 's"
where
  "collect_device_info exec d i s =
     (let (imei, s) = query_imei exec s; (firmware, s) = query_firmware exec s;
          (sim, s) = query_sim_inserted exec d s; sim = keep False sim;
          (imsi, s) = (if sim then query_imsi exec s else (Inr [], s));
          (iccid, s) = query_iccid exec d s; (operator, s) = query_operator exec s;
          (reg, s) = query_registration exec s; (csq, s) = query_csq exec s;
          (cell, s) = query_serving_cell_lte_info exec d s; (apn, s) = query_apn exec s;
          (ims, s) = query_ims_status exec d s; (radio, s) = query_network_mode_and_duplex exec d s;
          (usb, s) = query_usb_net_mode exec d s;
          (st, text, lac, cell_id) = keep (0, [], [], []) reg; (mode, duplex) = keep ([], []) radio
      in (i\<lparr>di_imei := update [] (di_imei i) (keep [] imei), di_firmware := update [] (di_firmware i) (keep [] firmware),
            di_iccid := update [] (di_iccid i) (keep [] iccid), di_imsi := update [] (di_imsi i) (keep [] imsi),
            di_operator := update [] (di_operator i) (keep [] operator), di_sim := sim,
            di_dbm := update (-999) (di_dbm i) (snd (keep (0, -999) csq)),
            di_rsrp := update 0 (di_rsrp i) (sc_rsrp (keep no_cell cell)),
            di_rsrq := update 0 (di_rsrq i) (sc_rsrq (keep no_cell cell)), di_reg := st, di_reg_text := text,
            di_lac := lac, di_cell := cell_id, di_apn := keep [] apn, di_ims := keep 0 ims, di_mode := mode,
            di_duplex := duplex, di_usb_net := keep (-1) usb\<rparr>, s))"

datatype 'e sim_notice = SimLost "'e option" | SimBack

definition sim_watch :: "'e + bool \<Rightarrow> device_info \<Rightarrow> 'e sim_notice list \<times> device_info" where
  "sim_watch r i =
     (case r of
        Inr True \<Rightarrow>
          ((if di_sim_alerting i then [SimBack] else []), i\<lparr>di_sim_failures := 0, di_sim_alerting := False\<rparr>)
      | _ \<Rightarrow>
          (let i = i\<lparr>di_sim_failures := di_sim_failures i + 1\<rparr> in
           if di_sim_failures i \<ge> 3 \<and> \<not> di_sim_alerting i then
             ([SimLost (case r of Inl e \<Rightarrow> Some e | Inr _ \<Rightarrow> None)], i\<lparr>di_sim_alerting := True\<rparr>)
           else ([], i)))"

definition refresh_status ::
  "('e, 's) at_exec \<Rightarrow> at_dialect \<Rightarrow> device_info \<Rightarrow> 's \<Rightarrow> 'e sim_notice list \<times> device_info \<times> 's"
where
  "refresh_status exec d i s =
     (let (sim, s) = query_sim_inserted exec d s; (operator, s) = query_operator exec s;
          (csq, s) = query_csq exec s; (radio, s) = query_network_mode_fallback exec d s;
          (mode, duplex) = keep ([], []) radio;
          i = i\<lparr>di_operator := update [] (di_operator i) (keep [] operator),
                di_dbm := update (-999) (di_dbm i) (snd (keep (0, -999) csq)),
                di_mode := update [] (di_mode i) mode,
                di_duplex := (if mode \<noteq> [] then duplex else di_duplex i)\<rparr>;
          (notices, i) = sim_watch sim i
      in (notices, i, s))"

section \<open>Files of the card\<close>

definition ef_imsi :: nat where "ef_imsi = 0x6F07"
definition ef_ad :: nat where "ef_ad = 0x6FAD"
definition ef_gid1 :: nat where "ef_gid1 = 0x6F3E"
definition ef_gid2 :: nat where "ef_gid2 = 0x6F3F"
definition ef_pnn :: nat where "ef_pnn = 0x6FC5"
definition ef_opl :: nat where "ef_opl = 0x6FC6"
definition ef_sst :: nat where "ef_sst = 0x6F38"
definition ef_ust :: nat where "ef_ust = 0x6F38"

datatype 'e file_error = FileFailed 'e | BadAnswer | BadHexData | ShortImsi | NoTlv | NameUndecodable | NoNetwork

definition file_data :: "string \<Rightarrow> 'e file_error + bytes" where
  "file_data resp =
     (case parse_crsm resp of
        None \<Rightarrow> Inl BadAnswer
      | Some (sw1, sw2, hex) \<Rightarrow>
          if sw1 \<noteq> 144 \<or> sw2 \<noteq> 0 \<or> hex = [] then Inl BadAnswer
          else (case hex_decode hex of None \<Rightarrow> Inl BadHexData | Some data \<Rightarrow> Inr data))"

definition read_file :: "('e, 's) at_exec \<Rightarrow> string \<Rightarrow> 's \<Rightarrow> ('e file_error + bytes) \<times> 's" where
  "read_file exec cmd s =
     (case exec False cmd s of (Inl e, s) \<Rightarrow> (Inl (FileFailed e), s) | (Inr resp, s) \<Rightarrow> (file_data resp, s))"

definition read_sim_transparent_ef :: "('e, 's) at_exec \<Rightarrow> nat \<Rightarrow> nat \<Rightarrow> 's \<Rightarrow> ('e file_error + bytes) \<times> 's" where
  "read_sim_transparent_ef exec ef len =
     read_file exec (''AT+CRSM=176,'' @ nat_digits ef @ '',0,0,'' @ nat_digits len)"

definition read_sim_record_ef ::
  "('e, 's) at_exec \<Rightarrow> nat \<Rightarrow> nat \<Rightarrow> nat \<Rightarrow> 's \<Rightarrow> ('e file_error + bytes) \<times> 's"
where
  "read_sim_record_ef exec ef rec len =
     read_file exec (''AT+CRSM=178,'' @ nat_digits ef @ '','' @ nat_digits rec @ '',4,'' @ nat_digits len)"

definition query_native_spn :: "gsm_table \<Rightarrow> ('e, 's) at_exec \<Rightarrow> 's \<Rightarrow> ('e file_error + string) \<times> 's" where
  "query_native_spn gsm exec s =
     (case read_sim_transparent_ef exec 28486 17 s of
        (Inl e, s) \<Rightarrow> (Inl e, s)
      | (Inr data, s) \<Rightarrow> (case decode_ef_spn gsm data of None \<Rightarrow> Inl NameUndecodable | Some n \<Rightarrow> Inr n, s))"

definition imsi_of_file :: "bytes \<Rightarrow> string option" where
  "imsi_of_file data =
     (if length data \<le> 1 then None
      else
        (let bcd = (if unat (hd data) \<le> length data - 1 then take (unat (hd data)) (tl data) else tl data);
             imsi = drop 1 (decode_swapped_bcd bcd)
         in if length imsi < 5 then None else Some imsi))"

definition query_imsi_from_ef :: "('e, 's) at_exec \<Rightarrow> 's \<Rightarrow> ('e file_error + string) \<times> 's" where
  "query_imsi_from_ef exec s =
     (case read_sim_transparent_ef exec ef_imsi 9 s of
        (Inl e, s) \<Rightarrow> (Inl e, s)
      | (Inr data, s) \<Rightarrow> (case imsi_of_file data of None \<Rightarrow> Inl ShortImsi | Some v \<Rightarrow> Inr v, s))"

definition query_native_mcc_mnc :: "('e, 's) at_exec \<Rightarrow> 's \<Rightarrow> ('e file_error + string \<times> string) \<times> 's" where
  "query_native_mcc_mnc exec s =
     (case query_imsi_from_ef exec s of
        (Inl e, s) \<Rightarrow> (Inl e, s)
      | (Inr imsi, s) \<Rightarrow>
          (let (ad, s) = read_sim_transparent_ef exec ef_ad 4 s in
           (case home_mcc_mnc imsi (keep [] ad) of
              None \<Rightarrow> Inl NoNetwork | Some (mcc, mnc, _) \<Rightarrow> Inr (mcc, mnc), s)))"

definition query_sim_service_table :: "('e, 's) at_exec \<Rightarrow> 's \<Rightarrow> service_table option \<times> 's" where
  "query_sim_service_table exec s =
     (let (ust, s) = read_sim_transparent_ef exec ef_ust 32 s;
          sst = (let (r, s) = read_sim_transparent_ef exec ef_sst 16 s
                 in (case r of Inl _ \<Rightarrow> None | Inr data \<Rightarrow> decode_sim_service_table ''SST'' data, s))
      in case ust of
           Inl _ \<Rightarrow> sst
         | Inr data \<Rightarrow> (case decode_sim_service_table ''UST'' data of None \<Rightarrow> sst | Some t \<Rightarrow> (Some t, s)))"

fun read_pnn_lengths ::
  "('e, 's) at_exec \<Rightarrow> nat \<Rightarrow> nat list \<Rightarrow> 'e file_error \<Rightarrow> 's \<Rightarrow> ('e file_error + bytes) \<times> 's"
where
  "read_pnn_lengths exec rec [] err s = (Inl err, s)"
| "read_pnn_lengths exec rec (l # ls) err s =
     (case read_sim_record_ef exec ef_pnn rec l s of
        (Inl e, s) \<Rightarrow> read_pnn_lengths exec rec ls e s
      | (Inr data, s) \<Rightarrow>
          if pnn_tlv_length data > 0 then (Inr data, s) else read_pnn_lengths exec rec ls NoTlv s)"

definition read_pnn_record :: "('e, 's) at_exec \<Rightarrow> nat \<Rightarrow> 's \<Rightarrow> ('e file_error + bytes) \<times> 's" where
  "read_pnn_record exec rec = read_pnn_lengths exec rec [32, 64, 16, 12] NoTlv"

text \<open>
  The records 1 to 32 of a file: the reading ends at the second failure in a row, and at the first
  one behind a record.
\<close>

fun scan_records ::
  "(nat \<Rightarrow> 's \<Rightarrow> ('e file_error + bytes) \<times> 's) \<Rightarrow> (nat \<Rightarrow> bytes \<Rightarrow> 'r option) \<Rightarrow> nat list \<Rightarrow> nat
   \<Rightarrow> 'r list \<Rightarrow> 's \<Rightarrow> 'r list \<times> 's"
where
  "scan_records read decode [] failures recs s = (recs, s)"
| "scan_records read decode (i # is) failures recs s =
     (case read i s of
        (Inl _, s) \<Rightarrow>
          if failures + 1 \<ge> 2 \<or> recs \<noteq> [] then (recs, s) else scan_records read decode is (failures + 1) recs s
      | (Inr data, s) \<Rightarrow>
          scan_records read decode is 0 (case decode i data of None \<Rightarrow> recs | Some r \<Rightarrow> recs @ [r]) s)"

definition query_pnn_records :: "gsm_table \<Rightarrow> ('e, 's) at_exec \<Rightarrow> 's \<Rightarrow> pnn_record list \<times> 's" where
  "query_pnn_records gsm exec =
     scan_records (read_pnn_record exec) (\<lambda>i. decode_pnn_record gsm (int i)) [1..<33] 0 []"

definition query_opl_records :: "('e, 's) at_exec \<Rightarrow> 's \<Rightarrow> opl_record list \<times> 's" where
  "query_opl_records exec =
     scan_records (\<lambda>i. read_sim_record_ef exec ef_opl i 8) (\<lambda>i. decode_opl_record (int i)) [1..<33] 0 []"

record sim_metadata =
  sm_mcc :: string
  sm_mnc :: string
  sm_gid1 :: string
  sm_gid2 :: string
  sm_pnn :: "pnn_record list"
  sm_opl :: "opl_record list"
  sm_services :: "service_table option"

definition query_sim_metadata :: "gsm_table \<Rightarrow> ('e, 's) at_exec \<Rightarrow> 's \<Rightarrow> (sim_metadata \<times> bool) \<times> 's" where
  "query_sim_metadata gsm exec s =
     (let (g1, s) = read_sim_transparent_ef exec ef_gid1 32 s; (g2, s) = read_sim_transparent_ef exec ef_gid2 32 s;
          (table, s) = query_sim_service_table exec s; (pnn, s) = query_pnn_records gsm exec s;
          (opl, s) = query_opl_records exec s; (home, s) = query_native_mcc_mnc exec s;
          m = \<lparr>sm_mcc = fst (keep ([], []) home), sm_mnc = snd (keep ([], []) home),
               sm_gid1 = sim_raw_hex (keep [] g1), sm_gid2 = sim_raw_hex (keep [] g2), sm_pnn = pnn, sm_opl = opl,
               sm_services = table\<rparr>
      in ((m, sm_mcc m = [] \<and> sm_mnc m = [] \<and> sm_gid1 m = [] \<and> sm_gid2 m = [] \<and> table = None \<and> pnn = [] \<and> opl = []),
          s))"

section \<open>The IMSI comes back\<close>

text \<open>EF_IMSI as the standard lays it out: the length, the parity, the digits, a filler if need be.\<close>

fun nibble_bytes :: "nat list \<Rightarrow> bytes" where
  "nibble_bytes (a # b # ns) = of_nat (a + 16 * b) # nibble_bytes ns"
| "nibble_bytes _ = []"

definition imsi_nibbles :: "nat list \<Rightarrow> nat list" where
  "imsi_nibbles ds = (if odd (length ds) then 9 # ds else 1 # ds @ [15])"

definition ef_imsi_file :: "nat list \<Rightarrow> bytes" where
  "ef_imsi_file ds =
     (let bcd = nibble_bytes (imsi_nibbles ds)
      in of_nat (length bcd) # bcd @ replicate (8 - length bcd) 0xFF)"

definition imsi_digit_char :: "nat \<Rightarrow> char" where "imsi_digit_char d = char_of (48 + d)"

definition crsm_answer :: "bytes \<Rightarrow> string" where
  "crsm_answer data = ''+CRSM: 144,0,'' @ quoted (to_upper (hex_encode data))"

lemma imsi_nibble_digits:
  assumes "a < 16" and "b < 16"
  shows "bcd_digit ((of_nat (a + 16 * b) :: byte) AND 0x0F) = (if a < 10 then [imsi_digit_char a] else [])"
    and "bcd_digit (drop_bit 4 (of_nat (a + 16 * b) :: byte) AND 0x0F) = (if b < 10 then [imsi_digit_char b] else [])"
proof -
  have "list_all (\<lambda>a. list_all (\<lambda>b.
      bcd_digit ((of_nat (a + 16 * b) :: byte) AND 0x0F) = (if a < 10 then [imsi_digit_char a] else [])
      \<and> bcd_digit (drop_bit 4 (of_nat (a + 16 * b) :: byte) AND 0x0F) = (if b < 10 then [imsi_digit_char b] else []))
      [0..<16]) [0..<16]"
    by code_simp
  then show "bcd_digit ((of_nat (a + 16 * b) :: byte) AND 0x0F) = (if a < 10 then [imsi_digit_char a] else [])"
    and "bcd_digit (drop_bit 4 (of_nat (a + 16 * b) :: byte) AND 0x0F) = (if b < 10 then [imsi_digit_char b] else [])"
    using assms unfolding list_all_iff by auto
qed

lemma swapped_digits:
  "even (length ns) \<Longrightarrow> \<forall>n \<in> set ns. n < 16 \<Longrightarrow>
   decode_swapped_bcd (nibble_bytes ns) = map imsi_digit_char (filter (\<lambda>n. n < 10) ns)"
proof (induction ns rule: nibble_bytes.induct)
  case (1 a b ns)
  then show ?case
    using imsi_nibble_digits [of a b] by (simp add: decode_swapped_bcd_def)
qed (auto simp: decode_swapped_bcd_def)

lemma nibble_bytes_length: "length (nibble_bytes ns) = length ns div 2"
  by (induction ns rule: nibble_bytes.induct) auto

lemma imsi_of_imsi_file:
  assumes "\<forall>d \<in> set ds. d < 10" and "6 \<le> length ds" and "length ds \<le> 15"
  shows "imsi_of_file (ef_imsi_file ds) = Some (map imsi_digit_char ds)"
proof -
  let ?ns = "imsi_nibbles ds"
  have len: "length (nibble_bytes ?ns) = length ?ns div 2" "length ?ns div 2 \<le> 8" "0 < length ?ns div 2"
    using assms(2,3) by (auto simp: nibble_bytes_length imsi_nibbles_def)
  have "even (length ?ns)" "\<forall>n \<in> set ?ns. n < 16" using assms(1) by (auto simp: imsi_nibbles_def)
  then have "decode_swapped_bcd (nibble_bytes ?ns) = map imsi_digit_char (filter (\<lambda>n. n < 10) ?ns)"
    by (rule swapped_digits)
  moreover have "filter (\<lambda>n. n < 10) ds = ds" using assms(1) by simp
  ultimately have digits: "drop 1 (decode_swapped_bcd (nibble_bytes ?ns)) = map imsi_digit_char ds"
    by (simp add: imsi_nibbles_def)
  moreover have "length (decode_swapped_bcd (nibble_bytes ?ns)) - 1 = length ds"
    using arg_cong [OF digits, of length] by simp
  moreover have "unat (of_nat (length ?ns div 2) :: byte) = length ?ns div 2" using len by (simp add: unat_of_nat)
  ultimately show ?thesis
    using len assms(2) by (simp add: imsi_of_file_def ef_imsi_file_def Let_def)
qed

lemma hex_answer_chars:
  "line_feed \<notin> set (to_upper (hex_encode data))" "CHR 0x0D \<notin> set (to_upper (hex_encode data))"
  "CHR '','' \<notin> set (to_upper (hex_encode data))" "quote \<notin> set (to_upper (hex_encode data))"
proof -
  have "hex_value (hex_digit (unat b div 16)) \<noteq> None" "hex_value (hex_digit (unat b mod 16)) \<noteq> None" for b :: byte
  proof -
    have "unat b < 16 * 16" using unat_byte_bound [of b] by simp
    then have "unat b div 16 < 16" by (rule less_mult_imp_div_less)
    then show "hex_value (hex_digit (unat b div 16)) \<noteq> None" "hex_value (hex_digit (unat b mod 16)) \<noteq> None"
      using hex_value_digit [of "unat b div 16"] hex_value_digit [of "unat b mod 16"] by auto
  qed
  then have "\<forall>c \<in> set (hex_encode data). hex_value c \<noteq> None" by (induction data) simp_all
  then have "\<forall>c \<in> set (to_upper (hex_encode data)). hex_value c \<noteq> None"
    unfolding to_upper_def set_map by (simp add: hex_value_upper)
  moreover have "hex_value line_feed = None" "hex_value (CHR 0x0D) = None" "hex_value (CHR '','') = None"
    "hex_value quote = None" by code_simp+
  ultimately show "line_feed \<notin> set (to_upper (hex_encode data))" "CHR 0x0D \<notin> set (to_upper (hex_encode data))"
    "CHR '','' \<notin> set (to_upper (hex_encode data))" "quote \<notin> set (to_upper (hex_encode data))" by metis+
qed

lemma remove_char_none: "c \<notin> set s \<Longrightarrow> remove_char c s = s"
  by (induction s) (auto simp: remove_char_def)

lemma file_data_answer:
  assumes "data \<noteq> []"
  shows "file_data (crsm_answer data) = Inr data"
proof -
  let ?h = "to_upper (hex_encode data)"
  note h = hex_answer_chars [of data]
  have plain: "plain_char quote" "plain_char (CHR ''+'')" "plain_char (CHR ''1'')" by code_simp+
  have ne: "?h \<noteq> []" using assms by (cases data) (simp_all add: to_upper_def)
  let ?line = "''+CRSM: 144,0,'' @ quoted ?h"
  have "CHR 0x0D \<notin> set ?line" "CHR 0x0A \<notin> set ?line" using h by (auto simp: quoted_def quote_def line_feed_def)
  then have "remove_char (CHR 0x0D) ?line = ?line" "split_on line_feed ?line = [?line]"
    unfolding line_feed_def by (simp_all only: remove_char_none split_on_plain not_False_eq_True)
  then have "split_lines ?line = [trim_space ?line]" unfolding split_lines_def line_feed_def by simp
  also have "trim_space ?line = ?line" using plain by (intro trim_space_id) (simp_all add: quoted_def)
  finally have "find_line_with_prefix (crsm_answer data) ''+CRSM:'' = Some ?line"
    by (simp add: find_line_with_prefix_def crsm_answer_def)
  moreover have "after_prefix ?line ''+CRSM:'' = ''144,0,'' @ quoted ?h"
  proof -
    have "trim_left_space (CHR '' '' # s) = trim_left_space s" for s
      by (simp add: trim_left_space_def trim_codes.simps [of _ "CHR '' '' # s"] space_codes_def)
    then have "trim_space (CHR '' '' # ''144,0,'' @ quoted ?h) = trim_space (''144,0,'' @ quoted ?h)"
      by (simp add: trim_space_def)
    also have "\<dots> = ''144,0,'' @ quoted ?h" using plain by (intro trim_space_id) (simp_all add: quoted_def)
    finally show ?thesis by (simp add: after_prefix_def trim_prefix_def)
  qed
  moreover have "split_n 3 (CHR '','') (''144,0,'' @ quoted ?h) = [''144'', ''0'', quoted ?h]"
    by (simp add: numeral_3_eq_3)
  moreover have "scan_or_zero ''144'' = 144" "scan_or_zero ''0'' = 0" by code_simp+
  moreover have "trim_quotes (trim_space (quoted ?h)) = ?h"
  proof -
    have "trim_space (quoted ?h) = quoted ?h" using plain by (intro trim_space_id) (simp_all add: quoted_def)
    moreover have "trim_left_of [quote] (quoted ?h) = ?h @ [quote]"
      using ne h(4) by (cases ?h) (auto simp: trim_left_of_def quoted_def)
    moreover have "trim_right_of [quote] (?h @ [quote]) = ?h"
      using ne h(4) by (cases ?h rule: rev_cases) (auto simp: trim_right_of_def)
    ultimately show ?thesis by (simp add: trim_quotes_def trim_of_def)
  qed
  ultimately have "parse_crsm (crsm_answer data) = Some (144, 0, ?h)" by (simp add: parse_crsm_def)
  then show ?thesis using ne by (simp add: file_data_def hex_decode_upper hex_decode_encode)
qed

text \<open>
  C1. The IMSI that a card keeps in EF_IMSI, six to fifteen digits in the form of the standard, is
  what the modem's answer to the reading of that file is decoded to.
\<close>

theorem imsi_is_read_back:
  assumes "exec False ''AT+CRSM=176,28423,0,0,9'' s = (Inr (crsm_answer (ef_imsi_file ds)), s')"
    and "list_all (\<lambda>d. d < 10) ds" and "6 \<le> length ds" and "length ds \<le> 15"
  shows "query_imsi_from_ef exec s = (Inr (map imsi_digit_char ds), s')"
proof -
  have "''AT+CRSM=176,'' @ nat_digits ef_imsi @ '',0,0,'' @ nat_digits 9 = ''AT+CRSM=176,28423,0,0,9''"
  proof -
    have "char_of (50 :: nat) = CHR ''2''" "char_of (56 :: nat) = CHR ''8''" "char_of (52 :: nat) = CHR ''4''"
      "char_of (51 :: nat) = CHR ''3''" "char_of (57 :: nat) = CHR ''9''" by code_simp+
    then show ?thesis by (simp add: ef_imsi_def nat_digits.simps)
  qed
  moreover have "ef_imsi_file ds \<noteq> []" by (simp add: ef_imsi_file_def Let_def)
  ultimately have "read_sim_transparent_ef exec ef_imsi 9 s = (Inr (ef_imsi_file ds), s')"
    using assms(1) file_data_answer [of "ef_imsi_file ds"] by (simp add: read_sim_transparent_ef_def read_file_def)
  then show ?thesis
    using imsi_of_imsi_file assms(2-) by (simp add: query_imsi_from_ef_def list_all_iff)
qed

theorem imsi_is_read_back_witness:
  "query_imsi_from_ef (\<lambda>_ _ n :: nat. (Inr (crsm_answer (ef_imsi_file [0, 0, 1, 0, 1, 5])) :: unit + string, n + 1)) 0
   = (Inr ''001015'', 1)"
proof -
  have "map imsi_digit_char [0, 0, 1, 0, 1, 5] = ''001015''" by code_simp
  then show ?thesis
    using imsi_is_read_back [of "\<lambda>_ _ n :: nat. (Inr (crsm_answer (ef_imsi_file [0, 0, 1, 0, 1, 5])) :: unit + string, n + 1)"
      0 "[0, 0, 1, 0, 1, 5]" 1]
    by simp
qed

end
