(* ===== verification/At_Apdu.thy ===== *)
theory At_Apdu
  imports At_Commands Sim_Aid Arbiter_Model
begin

text \<open>
  The card behind a modem's AT port, \<open>internal/modem/commands.go\<close> and the session registry of
  \<open>manager.go\<close>: logical channels (CCHO, CGLA, CCHC), the basic channel (CSIM) and the leases of
  the card that every command is sent under. Arbiter_Ops models the arbiter that grants them.
\<close>

section \<open>Port, sessions and leases\<close>

datatype card_command = Ccho string | Cgla int string | Cchc int | Csim nat string

fun at_text :: "card_command \<Rightarrow> string" where
  "at_text (Ccho aid) = ''AT+CCHO='' @ quoted aid"
| "at_text (Cgla ch apdu) =
     ''AT+CGLA='' @ itoa ch @ '','' @ nat_digits (length apdu) @ '','' @ quoted apdu"
| "at_text (Cchc ch) = ''AT+CCHC='' @ itoa ch"
| "at_text (Csim n apdu) = ''AT+CSIM='' @ nat_digits n @ '','' @ quoted apdu"

text \<open>What a manager has done to the card and to the arbiter, beside what the world keeps.\<close>

datatype apdu_event = Acquired string apdu_class int | Refused string apdu_class int | Sent card_command | Touched | Released

record apdu_session =
  as_owner :: string
  as_class :: apdu_class

record 'w apdu_port =
  ap_sessions :: "int \<Rightarrow> apdu_session option"
  ap_log :: "apdu_event list"
  ap_world :: 'w

text \<open>
  \<open>AcquireTransport\<close>, whose answer is False where the manager has no arbiter, and \<open>ExecuteAT\<close>
  or \<open>ExecuteATSilent\<close>.
\<close>

record ('e, 'w) apdu_io =
  io_acquire :: "string \<Rightarrow> apdu_class \<Rightarrow> int \<Rightarrow> 'w \<Rightarrow> ('e + bool) \<times> 'w"
  io_exec :: "string \<Rightarrow> 'w \<Rightarrow> ('e + string) \<times> 'w"

datatype 'e apdu_error = NoLease 'e | CardFailed 'e | BadReply string | BadApduHex | NoLe | CsimFailed

definition note_event :: "apdu_event \<Rightarrow> 'w apdu_port \<Rightarrow> 'w apdu_port" where
  "note_event e p = p\<lparr>ap_log := ap_log p @ [e]\<rparr>"

definition touch_lease :: "bool \<Rightarrow> 'w apdu_port \<Rightarrow> 'w apdu_port" where
  "touch_lease held p = (if held then note_event Touched p else p)"

definition send_card :: "('e, 'w) apdu_io \<Rightarrow> card_command \<Rightarrow> 'w apdu_port \<Rightarrow> ('e + string) \<times> 'w apdu_port" where
  "send_card io c p =
     (case io_exec io (at_text c) (ap_world p) of (r, w) \<Rightarrow> (r, note_event (Sent c) (p\<lparr>ap_world := w\<rparr>)))"

text \<open>The lease that an operation takes, keeps with its first touch and gives back at its end.\<close>

definition with_lease ::
  "('e, 'w) apdu_io \<Rightarrow> string \<Rightarrow> apdu_class \<Rightarrow> int
   \<Rightarrow> (bool \<Rightarrow> 'w apdu_port \<Rightarrow> ('e apdu_error + 'a) \<times> 'w apdu_port)
   \<Rightarrow> 'w apdu_port \<Rightarrow> ('e apdu_error + 'a) \<times> 'w apdu_port"
where
  "with_lease io owner cls ch body p =
     (case io_acquire io owner cls ch (ap_world p) of
        (Inl e, w) \<Rightarrow> (Inl (NoLease e), note_event (Refused owner cls ch) (p\<lparr>ap_world := w\<rparr>))
      | (Inr False, w) \<Rightarrow> body False (p\<lparr>ap_world := w\<rparr>)
      | (Inr True, w) \<Rightarrow>
          (case body True (touch_lease True (note_event (Acquired owner cls ch) (p\<lparr>ap_world := w\<rparr>))) of
             (r, p) \<Rightarrow> (r, note_event Released p)))"

definition bind_session :: "int \<Rightarrow> string \<Rightarrow> apdu_class \<Rightarrow> 'w apdu_port \<Rightarrow> 'w apdu_port" where
  "bind_session ch owner cls p =
     p\<lparr>ap_sessions := (ap_sessions p)(ch \<mapsto>
       \<lparr>as_owner = trim_space owner, as_class = (if cls = NoClass then EUICCWrite else cls)\<rparr>)\<rparr>"

definition take_session :: "int \<Rightarrow> 'w apdu_port \<Rightarrow> apdu_session option \<times> 'w apdu_port" where
  "take_session ch p = (ap_sessions p ch, p\<lparr>ap_sessions := (ap_sessions p)(ch := None)\<rparr>)"

definition release_all_apdu_leases :: "'w apdu_port \<Rightarrow> 'w apdu_port" where
  "release_all_apdu_leases p = p\<lparr>ap_sessions := Map.empty\<rparr>"

section \<open>Logical channels\<close>

definition open_body ::
  "('e, 'w) apdu_io \<Rightarrow> string \<Rightarrow> string \<Rightarrow> apdu_class \<Rightarrow> bool \<Rightarrow> 'w apdu_port \<Rightarrow> ('e apdu_error + int) \<times> 'w apdu_port"
where
  "open_body io aid session_owner cls held p =
     (case send_card io (Ccho aid) p of
        (Inl e, p) \<Rightarrow> (Inl (CardFailed e), p)
      | (Inr resp, p) \<Rightarrow>
          (case parse_ccho resp of
             None \<Rightarrow> (Inl (BadReply resp), p)
           | Some ch \<Rightarrow> (Inr ch, bind_session ch session_owner cls (touch_lease held p))))"

definition open_channel ::
  "('e, 'w) apdu_io \<Rightarrow> string \<Rightarrow> string \<Rightarrow> string \<Rightarrow> apdu_class \<Rightarrow> 'w apdu_port \<Rightarrow> ('e apdu_error + int) \<times> 'w apdu_port"
where
  "open_channel io aid lease_owner session_owner cls =
     with_lease io lease_owner cls (-1) (open_body io aid session_owner cls)"

definition open_esim_channel :: "('e, 'w) apdu_io \<Rightarrow> string \<Rightarrow> 'w apdu_port \<Rightarrow> ('e apdu_error + int) \<times> 'w apdu_port" where
  "open_esim_channel io aid = open_channel io aid ''esim_session_open'' ''esim'' EUICCWrite"

definition open_sim_auth_channel :: "('e, 'w) apdu_io \<Rightarrow> string \<Rightarrow> 'w apdu_port \<Rightarrow> ('e apdu_error + int) \<times> 'w apdu_port" where
  "open_sim_auth_channel io aid = open_channel io aid ''vowifi_aka_open'' ''vowifi_aka'' USIMAKA"

text \<open>Owner and class of an APDU: those of the session of its channel.\<close>

definition transmit_party :: "int \<Rightarrow> 'w apdu_port \<Rightarrow> string \<times> apdu_class" where
  "transmit_party ch p =
     (if ch = 0 then (''basic_apdu'', SMSC)
      else case ap_sessions p ch of
        None \<Rightarrow> (''unbound_channel_apdu'', EUICCWrite)
      | Some s \<Rightarrow>
          (if as_owner s \<noteq> [] then as_owner s else ''esim_apdu'',
           if as_class s \<noteq> NoClass then as_class s else EUICCWrite))"

definition transmit_body ::
  "('e, 'w) apdu_io \<Rightarrow> int \<Rightarrow> string \<Rightarrow> bool \<Rightarrow> 'w apdu_port \<Rightarrow> ('e apdu_error + string) \<times> 'w apdu_port"
where
  "transmit_body io ch apdu held p =
     (case send_card io (Cgla ch apdu) p of
        (Inl e, p) \<Rightarrow> (Inl (CardFailed e), p)
      | (Inr resp, p) \<Rightarrow>
          (case parse_cgla resp of
             None \<Rightarrow> (Inl (BadReply resp), p) | Some rsp \<Rightarrow> (Inr rsp, touch_lease held p)))"

definition transmit_logical_apdu ::
  "('e, 'w) apdu_io \<Rightarrow> int \<Rightarrow> string \<Rightarrow> 'w apdu_port \<Rightarrow> ('e apdu_error + string) \<times> 'w apdu_port"
where
  "transmit_logical_apdu io ch apdu p =
     (let (owner, cls) = transmit_party ch p in with_lease io owner cls ch (transmit_body io ch apdu) p)"

definition close_party :: "string \<Rightarrow> apdu_class \<Rightarrow> apdu_session option \<Rightarrow> string \<times> apdu_class" where
  "close_party owner cls session =
     (case session of
        None \<Rightarrow> (owner, cls)
      | Some s \<Rightarrow>
          (if as_owner s \<noteq> [] then as_owner s @ ''_close'' else owner,
           if as_class s = USIMAKA then Recovery else if as_class s \<noteq> NoClass then as_class s else cls))"

definition close_body :: "('e, 'w) apdu_io \<Rightarrow> int \<Rightarrow> bool \<Rightarrow> 'w apdu_port \<Rightarrow> ('e apdu_error + unit) \<times> 'w apdu_port" where
  "close_body io ch held p =
     (case send_card io (Cchc ch) p of
        (Inl e, p) \<Rightarrow> (Inl (CardFailed e), p) | (Inr _, p) \<Rightarrow> (Inr (), touch_lease held p))"

definition close_channel ::
  "('e, 'w) apdu_io \<Rightarrow> string \<Rightarrow> apdu_class \<Rightarrow> int \<Rightarrow> 'w apdu_port \<Rightarrow> ('e apdu_error + unit) \<times> 'w apdu_port"
where
  "close_channel io o1 c1 ch p =
     (let (session, p) = take_session ch p; (owner, cls) = close_party o1 c1 session
      in with_lease io owner cls ch (close_body io ch) p)"

definition close_esim_channel :: "('e, 'w) apdu_io \<Rightarrow> int \<Rightarrow> 'w apdu_port \<Rightarrow> ('e apdu_error + unit) \<times> 'w apdu_port" where
  "close_esim_channel io = close_channel io ''esim_session_close'' EUICCWrite"

definition close_sim_auth_channel :: "('e, 'w) apdu_io \<Rightarrow> int \<Rightarrow> 'w apdu_port \<Rightarrow> ('e apdu_error + unit) \<times> 'w apdu_port" where
  "close_sim_auth_channel io = close_channel io ''vowifi_aka_close'' Recovery"

definition clear_body :: "('e, 'w) apdu_io \<Rightarrow> int \<Rightarrow> bool \<Rightarrow> 'w apdu_port \<Rightarrow> ('e apdu_error + unit) \<times> 'w apdu_port" where
  "clear_body io ch held p = (let (_, p) = send_card io (Cchc ch) p in (Inr (), touch_lease held p))"

definition clear_channel :: "('e, 'w) apdu_io \<Rightarrow> int \<Rightarrow> 'w apdu_port \<Rightarrow> 'w apdu_port" where
  "clear_channel io ch p =
     (let (_, p) = take_session ch p
      in snd (with_lease io ''esim_session_clear'' EUICCWrite ch (clear_body io ch) p))"

definition clear_logical_channels :: "('e, 'w) apdu_io \<Rightarrow> 'w apdu_port \<Rightarrow> 'w apdu_port" where
  "clear_logical_channels io p = fold (clear_channel io) [1, 2, 3, 4] p"

section \<open>The basic channel\<close>

text \<open>Some modems count the length of CSIM in characters, some in bytes: first the one, then the other.\<close>

definition csim_send ::
  "('e, 'w) apdu_io \<Rightarrow> bool \<Rightarrow> string \<Rightarrow> 'w apdu_port \<Rightarrow> ('e apdu_error + string) \<times> 'w apdu_port"
where
  "csim_send io held apdu p =
     (case hex_decode apdu of
        None \<Rightarrow> (Inl BadApduHex, p)
      | Some bytes \<Rightarrow>
          (let again = (\<lambda>p. case send_card io (Csim (length bytes) apdu) p of
                 (Inl e, p) \<Rightarrow> (Inl CsimFailed, p)
               | (Inr resp, p) \<Rightarrow>
                   (case parse_csim resp of
                      None \<Rightarrow> (Inl CsimFailed, p) | Some rsp \<Rightarrow> (Inr rsp, touch_lease held p)))
           in case send_card io (Csim (length apdu) apdu) p of
             (Inl e, p) \<Rightarrow> again p
           | (Inr resp, p) \<Rightarrow>
               (case parse_csim resp of
                  None \<Rightarrow> (Inl (BadReply resp), p)
                | Some rsp \<Rightarrow> if rsp \<noteq> ''6700'' then (Inr rsp, touch_lease held p) else again p)))"

definition upper_byte :: "byte \<Rightarrow> string" where "upper_byte b = to_upper (hex_encode [b])"

text \<open>\<open>followUpBasicAPDU\<close>: what is still to be fetched, or the length to ask_at again with.\<close>

fun follow_up ::
  "(string \<Rightarrow> 'p \<Rightarrow> ('e apdu_error + string) \<times> 'p) \<Rightarrow> string \<Rightarrow> string \<Rightarrow> nat \<Rightarrow> 'p \<Rightarrow> ('e apdu_error + string) \<times> 'p"
where
  "follow_up send original rsp 0 p =
     (case hex_decode (trim_space rsp) of None \<Rightarrow> (Inl BadApduHex, p) | Some b \<Rightarrow> (Inr (trim_space rsp), p))"
| "follow_up send original rsp (Suc n) p =
     (case hex_decode (trim_space rsp) of
        None \<Rightarrow> (Inl BadApduHex, p)
      | Some b \<Rightarrow>
          (case apdu_status b of
             None \<Rightarrow> (Inr (trim_space rsp), p)
           | Some (sw1, sw2) \<Rightarrow>
               if sw1 = 0x61 then
                 (let nxt = ''00c00000'' @ upper_byte sw2 in
                  case send nxt p of
                    (Inl e, p) \<Rightarrow> (Inl e, p) | (Inr rsp, p) \<Rightarrow> follow_up send nxt rsp n p)
               else if sw1 = 0x6C then
                 (case hex_decode original of
                    None \<Rightarrow> (Inl BadApduHex, p)
                  | Some o1 \<Rightarrow>
                      if length o1 < 5 then (Inl NoLe, p)
                      else
                        (let nxt = to_lower (hex_encode (o1[length o1 - 1 := sw2])) in
                         case send nxt p of
                           (Inl e, p) \<Rightarrow> (Inl e, p) | (Inr rsp, p) \<Rightarrow> follow_up send nxt rsp n p))
               else (Inr (trim_space rsp), p)))"

definition basic_body ::
  "('e, 'w) apdu_io \<Rightarrow> string \<Rightarrow> bool \<Rightarrow> 'w apdu_port \<Rightarrow> ('e apdu_error + string) \<times> 'w apdu_port"
where
  "basic_body io apdu held p =
     (case csim_send io held apdu p of
        (Inl e, p) \<Rightarrow> (Inl e, p) | (Inr rsp, p) \<Rightarrow> follow_up (csim_send io held) apdu rsp 3 p)"

definition transmit_basic_apdu ::
  "('e, 'w) apdu_io \<Rightarrow> string \<Rightarrow> 'w apdu_port \<Rightarrow> ('e apdu_error + string) \<times> 'w apdu_port"
where
  "transmit_basic_apdu io apdu = with_lease io ''vowifi_aka'' USIMAKA 0 (basic_body io apdu)"

text \<open>The application of a card by its directory.\<close>

definition basic_link :: "('e, 'w) apdu_io \<Rightarrow> ('w apdu_port, 'e apdu_error) card_link" where
  "basic_link io apdu p =
     (case transmit_basic_apdu io (hex_encode apdu) p of
        (Inl e, p) \<Rightarrow> (Fail e, p)
      | (Inr rsp, p) \<Rightarrow> (case hex_decode rsp of None \<Rightarrow> Fail BadApduHex | Some b \<Rightarrow> Ok b, p))"

datatype 'e aid_error = UnknownApp string | DirectoryFailed 'e | NoMatchingAid | NotFullAid string

definition resolve_sim_auth_aid ::
  "('e, 'w) apdu_io \<Rightarrow> string \<Rightarrow> string \<Rightarrow> 'w apdu_port \<Rightarrow> ('e apdu_error card_error aid_error, string) result \<times> 'w apdu_port"
where
  "resolve_sim_auth_aid io app fallback p =
     (let name = to_lower (trim_space app);
          search = (\<lambda>match.
            case read_directory_aids (basic_link io) p of
              (Panic, p) \<Rightarrow> (Panic, p)
            | (Fail e, p) \<Rightarrow> (Fail (DirectoryFailed e), p)
            | (Ok aids, p) \<Rightarrow>
                (case find match aids of
                   None \<Rightarrow> (Fail NoMatchingAid, p)
                 | Some aid \<Rightarrow>
                     (let hex = to_upper (hex_encode aid) in
                      if length hex \<le> length (normalize_hex_aid fallback) then (Fail (NotFullAid hex), p)
                      else (Ok hex, p))))
      in if name = ''usim'' then search is_usim
         else if name = ''isim'' then search is_isim
         else (Fail (UnknownApp app), p))"

section \<open>Leases\<close>

fun command_channel :: "card_command \<Rightarrow> int" where
  "command_channel (Ccho _) = -1"
| "command_channel (Cgla ch _) = ch"
| "command_channel (Cchc ch) = ch"
| "command_channel (Csim _ _) = 0"

definition under :: "int \<Rightarrow> apdu_event \<Rightarrow> bool" where
  "under ch e \<longleftrightarrow> (case e of Sent c \<Rightarrow> command_channel c = ch | Touched \<Rightarrow> True | _ \<Rightarrow> False)"

text \<open>
  A log in which every command stands between the grant and the release of one lease, asked for
  the channel of the command, and no lease is kept.
\<close>

fun leased :: "int option \<Rightarrow> apdu_event list \<Rightarrow> bool" where
  "leased None [] = True"
| "leased (Some ch) [] = False"
| "leased None (Acquired _ _ ch # es) = leased (Some ch) es"
| "leased None (Refused _ _ _ # es) = leased None es"
| "leased (Some ch) (Released # es) = leased None es"
| "leased (Some ch) (Sent c # es) = (command_channel c = ch \<and> leased (Some ch) es)"
| "leased (Some ch) (Touched # es) = leased (Some ch) es"
| "leased _ _ = False"

lemma leased_append: "leased h a \<Longrightarrow> leased h (a @ b) = leased None b"
  by (induction h a rule: leased.induct) auto

lemma leased_inside: "list_all (under ch) es \<Longrightarrow> leased (Some ch) (es @ [Released])"
  by (induction es) (auto simp: under_def split: apdu_event.splits)

text \<open>What a piece of an operation adds to the log.\<close>

definition adds :: "(apdu_event list \<Rightarrow> bool) \<Rightarrow> 'w apdu_port \<Rightarrow> 'w apdu_port \<Rightarrow> bool" where
  "adds P p q \<longleftrightarrow> (\<exists>es. ap_log q = ap_log p @ es \<and> P es)"

abbreviation inside :: "int \<Rightarrow> 'w apdu_port \<Rightarrow> 'w apdu_port \<Rightarrow> bool" where
  "inside ch \<equiv> adds (list_all (under ch))"

lemma inside_refl [simp]: "ap_log q = ap_log p \<Longrightarrow> inside ch p q"
  by (simp add: adds_def)

lemma inside_trans: "inside ch p q \<Longrightarrow> inside ch q r \<Longrightarrow> inside ch p r"
  unfolding adds_def by (metis append_assoc list_all_append)

lemma inside_touch: "inside ch p (touch_lease held p)"
  by (simp add: adds_def touch_lease_def note_event_def under_def)

lemma inside_send: "command_channel c = ch \<Longrightarrow> inside ch p (snd (send_card io c p))"
  by (auto simp: adds_def send_card_def note_event_def under_def split: prod.splits)

lemma inside_send_touch:
  assumes "send_card io c p = (r, q)" and "command_channel c = ch"
  shows "inside ch p q" and "inside ch p (touch_lease held q)"
  using inside_send [OF assms(2), of p io] inside_trans [OF _ inside_touch] assms(1) by auto

lemma log_bind [simp]: "ap_log (bind_session ch o1 c p) = ap_log p"
  by (simp add: bind_session_def)

definition arbitrated :: "('e, 'w) apdu_io \<Rightarrow> bool" where
  "arbitrated io \<longleftrightarrow> (\<forall>o1 c ch w. fst (io_acquire io o1 c ch w) \<noteq> Inr False)"

text \<open>The first thing done is to ask_at for the card in this name.\<close>

definition asked_for :: "string \<Rightarrow> apdu_class \<Rightarrow> int \<Rightarrow> 'w apdu_port \<Rightarrow> 'w apdu_port \<Rightarrow> bool" where
  "asked_for owner cls ch = adds (\<lambda>es. es \<noteq> [] \<and> hd es \<in> {Acquired owner cls ch, Refused owner cls ch})"

text \<open>What a body may do under the lease it is given.\<close>

locale lease_body =
  fixes body :: "bool \<Rightarrow> 'w apdu_port \<Rightarrow> ('e apdu_error + 'a) \<times> 'w apdu_port"
    and ch :: int
  assumes stays: "inside ch p (snd (body held p))"
begin

lemma under_lease:
  assumes "arbitrated io"
  shows "adds (\<lambda>es. leased None es \<and> es \<noteq> [] \<and> hd es \<in> {Acquired owner cls ch, Refused owner cls ch})
    p (snd (with_lease io owner cls ch body p))"
proof -
  obtain r w where a: "io_acquire io owner cls ch (ap_world p) = (r, w)" by fastforce
  with assms have "r \<noteq> Inr False" unfolding arbitrated_def by (metis fst_conv)
  then consider e where "r = Inl e" | "r = Inr True" by (cases r) auto
  then show ?thesis
  proof cases
    case 1
    then show ?thesis using a by (simp add: with_lease_def adds_def note_event_def)
  next
    case 2
    let ?q = "touch_lease True (note_event (Acquired owner cls ch) (p\<lparr>ap_world := w\<rparr>))"
    obtain es where es: "ap_log (snd (body True ?q)) = ap_log ?q @ es" "list_all (under ch) es"
      using stays [of ?q True] unfolding adds_def by auto
    have "ap_log (snd (with_lease io owner cls ch body p))
        = ap_log p @ Acquired owner cls ch # Touched # es @ [Released]"
      using a 2 es(1) by (simp add: with_lease_def split_def note_event_def touch_lease_def)
    moreover have "leased None (Acquired owner cls ch # Touched # es @ [Released])"
      using leased_inside [OF es(2)] by simp
    ultimately show ?thesis unfolding adds_def by auto
  qed
qed

lemma lease_kept: "arbitrated io \<Longrightarrow> adds (leased None) p (snd (with_lease io owner cls ch body p))"
  using under_lease [of io owner cls p] unfolding adds_def by blast

lemma lease_asked: "arbitrated io \<Longrightarrow> asked_for owner cls ch p (snd (with_lease io owner cls ch body p))"
  using under_lease [of io owner cls p] unfolding adds_def asked_for_def by blast

end

lemma inside_bind [simp]: "inside ch p (bind_session k o1 c q) \<longleftrightarrow> inside ch p q"
  by (simp add: adds_def)

interpretation opened: lease_body "open_body io aid o1 c" "-1" for io aid o1 c
proof
  show "inside (-1) p (snd (open_body io aid o1 c held p))" for p held
    by (auto simp: open_body_def split: prod.split sum.split option.split intro: inside_send_touch)
qed

interpretation transmitted: lease_body "transmit_body io ch apdu" ch for io ch apdu
proof
  show "inside ch p (snd (transmit_body io ch apdu held p))" for p held
    by (auto simp: transmit_body_def split: prod.split sum.split option.split intro: inside_send_touch)
qed

interpretation closed: lease_body "close_body io ch" ch for io ch
proof
  show "inside ch p (snd (close_body io ch held p))" for p held
    by (auto simp: close_body_def split: prod.split sum.split intro: inside_send_touch)
qed

interpretation cleared: lease_body "clear_body io ch" ch for io ch
proof
  show "inside ch p (snd (clear_body io ch held p))" for p held
    by (auto simp: clear_body_def split: prod.split intro: inside_send_touch)
qed

lemma inside_csim: "csim_send io held apdu p = (r, q) \<Longrightarrow> inside 0 p q"
proof (cases "hex_decode apdu")
  case (Some bytes)
  assume c: "csim_send io held apdu p = (r, q)"
  obtain r1 p1 where 1: "send_card io (Csim (length apdu) apdu) p = (r1, p1)" by fastforce
  obtain r2 p2 where 2: "send_card io (Csim (length bytes) apdu) p1 = (r2, p2)" by fastforce
  have "inside 0 p p1" "inside 0 p (touch_lease held p1)" using inside_send_touch [OF 1] by simp_all
  moreover have "inside 0 p1 p2" "inside 0 p1 (touch_lease held p2)" using inside_send_touch [OF 2] by simp_all
  ultimately have "inside 0 p p1 \<and> inside 0 p (touch_lease held p1) \<and> inside 0 p p2 \<and> inside 0 p (touch_lease held p2)"
    using inside_trans by metis
  with c Some 1 2 show ?thesis
    by (auto simp: csim_send_def split: sum.splits option.splits if_splits)
qed (simp add: csim_send_def)

lemma follow_up_inside:
  assumes "\<And>a p r q. send a p = (r, q) \<Longrightarrow> inside ch p q"
  shows "inside ch p (snd (follow_up send original rsp n p))"
proof (induction n arbitrary: original rsp p)
  case (Suc n)
  have step: "inside ch p (snd (case send nxt p of (Inl e, p) \<Rightarrow> (Inl e, p) | (Inr rsp, p) \<Rightarrow> follow_up send nxt rsp n p))"
    for nxt p
  proof (cases "send nxt p")
    case (Pair r q)
    show ?thesis
    proof (cases r)
      case (Inr rsp)
      then show ?thesis using inside_trans [OF assms [OF Pair] Suc.IH [of q nxt rsp]] Pair by simp
    qed (use assms [OF Pair] Pair in simp)
  qed
  show ?case by (simp add: step Let_def split: option.split)
qed (simp split: option.split)

interpretation basic: lease_body "basic_body io apdu" 0 for io apdu
proof
  show "inside 0 p (snd (basic_body io apdu held p))" for p held
  proof (cases "csim_send io held apdu p")
    case (Pair r q)
    have "inside 0 q (snd (follow_up (csim_send io held) apdu rsp 3 q))" for rsp
      by (rule follow_up_inside) (rule inside_csim)
    then show ?thesis
      using inside_csim [OF Pair] inside_trans [OF inside_csim [OF Pair]] Pair
      by (simp add: basic_body_def split: sum.split)
  qed
qed

text \<open>The search of EF_DIR adds what its exchanges add.\<close>

locale log_relation =
  fixes R :: "'d \<Rightarrow> 'd \<Rightarrow> bool"
  assumes R_refl: "R p p"
    and R_trans: "R p q \<Longrightarrow> R q r \<Longrightarrow> R p r"
begin

lemma directory_relates:
  assumes step: "\<And>a p r q. transmit a p = (r, q) \<Longrightarrow> R p q"
  shows "R p (snd (read_directory_aids transmit p))"
proof -
  have select: "select_file transmit n a p = (r, q) \<Longrightarrow> R p q" for n a p r q
    using step by (auto simp: select_file_def split: prod.splits result.splits option.splits if_splits)
  have records: "read_records transmit l i m acc err p = (r, q) \<Longrightarrow> R p q" for l i m acc err p r q
  proof (induction m arbitrary: i acc err p)
    case (Suc m)
    obtain a p1 where a: "transmit [0x00, 0xB2, of_nat i, 0x04, of_int l] p = (a, p1)" by fastforce
    from step [OF a] show ?case
      using Suc.prems a R_trans [OF step [OF a] Suc.IH]
      by (auto split: result.splits record_outcome.splits)
  qed (simp add: R_refl)
  obtain r p1 where 1: "select_file transmit ''MF'' select_mf p = (r, p1)" by fastforce
  obtain r2 p2 where 2: "select_file transmit ''EF_DIR'' select_ef_dir p1 = (r2, p2)" by fastforce
  have p1: "R p p1" and p2: "R p p2" using select [OF 1] select [OF 2] R_trans by blast+
  have p3: "read_records transmit l i m acc err p2 = (r, q) \<Longrightarrow> R p q" for l i m acc err r q
    using R_trans [OF p2 records] .
  show ?thesis
    unfolding read_directory_aids_def 1 2 prod.case
    by (auto simp: 1 2 p1 p2 split: result.splits prod.splits dest: p3)
qed

end

lemma leased_adds_trans: "adds (leased None) p q \<Longrightarrow> adds (leased None) q r \<Longrightarrow> adds (leased None) p r"
  unfolding adds_def by (metis append_assoc leased_append)

interpretation leases: log_relation "adds (leased None)"
proof
  show "adds (leased None) p p" for p :: "'w apdu_port" by (simp add: adds_def)
qed (rule leased_adds_trans)

lemma leased_same_log [simp]: "ap_log q = ap_log p \<Longrightarrow> adds (leased None) p q"
  by (simp add: adds_def)

lemmas port_operations =
  open_esim_channel_def open_sim_auth_channel_def open_channel_def transmit_logical_apdu_def close_esim_channel_def
  close_sim_auth_channel_def close_channel_def take_session_def transmit_basic_apdu_def

lemma log_sessions [simp]: "adds P (p\<lparr>ap_sessions := m\<rparr>) q = adds P p q"
  by (simp add: adds_def)

lemma cleared_leased: "arbitrated io \<Longrightarrow> adds (leased None) p (clear_channel io ch p)"
  using cleared.lease_kept [where p = "p\<lparr>ap_sessions := (ap_sessions p)(ch := None)\<rparr>"]
  by (simp add: clear_channel_def take_session_def)

lemma clearing_leased: "arbitrated io \<Longrightarrow> adds (leased None) p (clear_logical_channels io p)"
  unfolding clear_logical_channels_def by (simp, metis cleared_leased leased_adds_trans)

lemma basic_link_leased:
  assumes "arbitrated io" and "basic_link io a p = (r, q)"
  shows "adds (leased None) p q"
proof -
  have "q = snd (transmit_basic_apdu io (hex_encode a) p)"
    using assms(2) by (auto simp: basic_link_def split: prod.splits sum.splits)
  then show ?thesis by (simp add: transmit_basic_apdu_def basic.lease_kept assms(1))
qed

lemma resolving_leased: "arbitrated io \<Longrightarrow> adds (leased None) p (snd (resolve_sim_auth_aid io app fallback p))"
  using leases.directory_relates [of "basic_link io" p, OF basic_link_leased [of io]]
  by (auto simp: resolve_sim_auth_aid_def Let_def leases.R_refl split: prod.splits result.splits option.splits)

datatype port_call =
    OpenEsim string | OpenAuth string | Transmit int string | CloseEsim int | CloseAuth int | ClearChannels
  | BasicApdu string | ResolveAid string string | ReleaseAll

fun port_step :: "('e, 'w) apdu_io \<Rightarrow> port_call \<Rightarrow> 'w apdu_port \<Rightarrow> 'w apdu_port" where
  "port_step io (OpenEsim aid) p = snd (open_esim_channel io aid p)"
| "port_step io (OpenAuth aid) p = snd (open_sim_auth_channel io aid p)"
| "port_step io (Transmit ch apdu) p = snd (transmit_logical_apdu io ch apdu p)"
| "port_step io (CloseEsim ch) p = snd (close_esim_channel io ch p)"
| "port_step io (CloseAuth ch) p = snd (close_sim_auth_channel io ch p)"
| "port_step io ClearChannels p = clear_logical_channels io p"
| "port_step io (BasicApdu apdu) p = snd (transmit_basic_apdu io apdu p)"
| "port_step io (ResolveAid app aid) p = snd (resolve_sim_auth_aid io app aid p)"
| "port_step io ReleaseAll p = release_all_apdu_leases p"

lemma step_leased:
  assumes "arbitrated io"
  shows "adds (leased None) p (port_step io c p)"
proof (cases c)
  case (CloseEsim ch)
  then show ?thesis
    using closed.lease_kept [OF assms, where p = "p\<lparr>ap_sessions := (ap_sessions p)(ch := None)\<rparr>"]
    by (simp add: port_operations split_def Let_def)
next
  case (CloseAuth ch)
  then show ?thesis
    using closed.lease_kept [OF assms, where p = "p\<lparr>ap_sessions := (ap_sessions p)(ch := None)\<rparr>"]
    by (simp add: port_operations split_def Let_def)
qed (use assms in \<open>simp_all add: port_operations opened.lease_kept transmitted.lease_kept basic.lease_kept
      clearing_leased resolving_leased release_all_apdu_leases_def split_def Let_def\<close>)

text \<open>
  C1. Whatever the manager is asked to do with the card, and whatever the card and the arbiter
  answer, every command goes out under a lease for its own channel, and no operation keeps a
  lease.
\<close>

theorem every_card_command_is_leased:
  assumes "arbitrated io" and "leased None (ap_log p)"
  shows "leased None (ap_log (fold (port_step io) calls p))"
  using assms(2)
proof (induction calls arbitrary: p)
  case (Cons c calls)
  from step_leased [OF assms(1), of p c] obtain es where
    "ap_log (port_step io c p) = ap_log p @ es" "leased None es" unfolding adds_def by auto
  then have "leased None (ap_log (port_step io c p))" using leased_append [OF Cons.prems] by simp
  from Cons.IH [OF this] show ?case by simp
qed simp

definition echo_io :: "(unit, string list) apdu_io" where
  "echo_io = \<lparr>io_acquire = (\<lambda>_ _ _ w. (Inr True, w)),
     io_exec = (\<lambda>_ w. case w of [] \<Rightarrow> (Inl (), []) | r # w \<Rightarrow> (Inr r, w))\<rparr>"

definition new_port :: "'w \<Rightarrow> 'w apdu_port" where
  "new_port w = \<lparr>ap_sessions = Map.empty, ap_log = [], ap_world = w\<rparr>"

theorem every_card_command_is_leased_witness:
  "leased None (ap_log (fold (port_step echo_io) [OpenAuth ''A0'', Transmit 1 ''0088'', CloseAuth 1] (new_port [''+CCHO: 1''])))"
  by (rule every_card_command_is_leased)
    (auto simp: arbitrated_def echo_io_def new_port_def)

section \<open>The class of a channel\<close>

text \<open>
  C2. A channel opened for the authentication of VoWiFi keeps its class: its APDUs are asked for
  as authentication, of which a barrier of a profile switch blocks all, and its closing as
  recovery, whichever of the two closing calls is used.
\<close>

theorem sim_auth_channel_keeps_its_class:
  assumes "open_sim_auth_channel io aid p = (Inr ch, p1)" and "ch \<noteq> 0" and "arbitrated io"
  shows "asked_for ''vowifi_aka'' USIMAKA ch p1 (snd (transmit_logical_apdu io ch apdu p1))
    \<and> asked_for ''vowifi_aka_close'' Recovery ch p1 (snd (close_sim_auth_channel io ch p1))
    \<and> asked_for ''vowifi_aka_close'' Recovery ch p1 (snd (close_esim_channel io ch p1))"
proof -
  have "trim_space ''vowifi_aka'' = ''vowifi_aka''" by code_simp
  then have session: "ap_sessions p1 ch = Some \<lparr>as_owner = ''vowifi_aka'', as_class = USIMAKA\<rparr>"
    using assms(1)
    by (auto simp: open_sim_auth_channel_def open_channel_def with_lease_def open_body_def bind_session_def note_event_def
        touch_lease_def split: prod.splits sum.splits bool.splits option.splits)
  have closing: "asked_for ''vowifi_aka_close'' Recovery ch p1 (snd (close_channel io o1 c ch p1))" for o1 c
    using session closed.lease_asked [OF assms(3), where owner = "''vowifi_aka_close''" and cls = Recovery
        and p = "p1\<lparr>ap_sessions := (ap_sessions p1)(ch := None)\<rparr>"]
    by (simp add: close_channel_def take_session_def close_party_def asked_for_def)
  show ?thesis
    using session assms(2) closing transmitted.lease_asked [OF assms(3)]
    by (simp add: transmit_logical_apdu_def transmit_party_def close_esim_channel_def close_sim_auth_channel_def)
qed

theorem sim_auth_channel_keeps_its_class_witness:
  "asked_for ''vowifi_aka_close'' Recovery 1 (snd (open_sim_auth_channel echo_io ''A0'' (new_port [''+CCHO: 1''])))
     (snd (close_esim_channel echo_io 1 (snd (open_sim_auth_channel echo_io ''A0'' (new_port [''+CCHO: 1''])))))"
proof -
  have "fst (open_sim_auth_channel echo_io ''A0'' (new_port [''+CCHO: 1''])) = Inr 1" by code_simp
  then have "open_sim_auth_channel echo_io ''A0'' (new_port [''+CCHO: 1''])
      = (Inr 1, snd (open_sim_auth_channel echo_io ''A0'' (new_port [''+CCHO: 1''])))" by (simp add: prod_eq_iff)
  moreover have "arbitrated echo_io" by (simp add: arbitrated_def echo_io_def)
  ultimately show ?thesis using sim_auth_channel_keeps_its_class by (metis one_neq_zero)
qed

text \<open>
  The session is forgotten before the lease is asked for: when the closing is refused, because the
  card is busy, the channel stays open, and what is sent on it afterwards goes out as an APDU of
  eSIM management.
\<close>

theorem refused_close_forgets_the_session:
  assumes "ap_sessions p ch = Some \<lparr>as_owner = ''vowifi_aka'', as_class = USIMAKA\<rparr>" and "ch \<noteq> 0"
    and "io_acquire io ''vowifi_aka_close'' Recovery ch (ap_world p) = (Inl e, w)"
    and "close_sim_auth_channel io ch p = (r, q)"
  shows "r = Inl (NoLease e) \<and> ap_log q = ap_log p @ [Refused ''vowifi_aka_close'' Recovery ch]
    \<and> transmit_party ch q = (''unbound_channel_apdu'', EUICCWrite)"
  using assms
  by (auto simp: close_sim_auth_channel_def close_channel_def take_session_def close_party_def with_lease_def
      note_event_def transmit_party_def)

theorem refused_close_forgets_the_session_witness:
  "transmit_party 1 (snd (close_sim_auth_channel (echo_io\<lparr>io_acquire := (\<lambda>_ _ _ w. (Inl (), w))\<rparr>) 1
     (bind_session 1 ''vowifi_aka'' USIMAKA (new_port [])))) = (''unbound_channel_apdu'', EUICCWrite)"
proof -
  have "trim_space ''vowifi_aka'' = ''vowifi_aka''" by code_simp
  then show ?thesis
    using refused_close_forgets_the_session [of "bind_session 1 ''vowifi_aka'' USIMAKA (new_port [])" 1
      "echo_io\<lparr>io_acquire := (\<lambda>_ _ _ w. (Inl (), w))\<rparr>" "()" "[]"]
    by (simp add: bind_session_def new_port_def prod_eq_iff)
qed

section \<open>Following up an answer\<close>

definition commands_sent :: "'w apdu_port \<Rightarrow> nat" where
  "commands_sent p = length (filter (\<lambda>e. case e of Sent _ \<Rightarrow> True | _ \<Rightarrow> False) (ap_log p))"

lemma commands_sent_simps [simp]:
  "commands_sent (touch_lease held p) = commands_sent p"
  "commands_sent (note_event Released p) = commands_sent p"
  "commands_sent (note_event (Refused o1 c ch) (p\<lparr>ap_world := w\<rparr>)) = commands_sent p"
  "commands_sent (note_event (Acquired o1 c ch) (p\<lparr>ap_world := w\<rparr>)) = commands_sent p"
  "commands_sent (p\<lparr>ap_world := w\<rparr>) = commands_sent p"
  by (simp_all add: commands_sent_def touch_lease_def note_event_def)

lemma commands_sent_card: "send_card io c p = (r, q) \<Longrightarrow> commands_sent q = commands_sent p + 1"
  by (auto simp: commands_sent_def send_card_def note_event_def split: prod.splits)

lemma commands_sent_csim: "commands_sent (snd (csim_send io held apdu p)) \<le> commands_sent p + 2"
  by (auto simp: csim_send_def split: option.split prod.split sum.split dest!: commands_sent_card)

lemma commands_sent_follow_up:
  "commands_sent (snd (follow_up (csim_send io held) original rsp n p)) \<le> commands_sent p + 2 * n"
proof (induction n arbitrary: original rsp p)
  case (Suc n)
  have "commands_sent (snd (case csim_send io held nxt p of (Inl e, p) \<Rightarrow> (Inl e, p)
      | (Inr rsp, p) \<Rightarrow> follow_up (csim_send io held) nxt rsp n p)) \<le> commands_sent p + 2 * Suc n" for nxt p
  proof (cases "csim_send io held nxt p")
    case (Pair r q)
    with commands_sent_csim [of io held nxt p] have q: "commands_sent q \<le> commands_sent p + 2" by simp
    have "commands_sent (snd (follow_up (csim_send io held) nxt rsp n q)) \<le> commands_sent q + 2 * n" for rsp
      by (rule Suc.IH)
    from this have "commands_sent (snd (follow_up (csim_send io held) nxt rsp n q)) \<le> commands_sent p + 2 * Suc n" for rsp
      by (rule order_trans) (use q in simp)
    with q Pair show ?thesis by (cases r) simp_all
  qed
  then show ?case by (simp add: Let_def split: option.split)
qed (simp split: option.split)

text \<open>
  C3. One APDU on the basic channel is at most eight commands to the modem, whatever the card
  answers.
\<close>

theorem basic_apdu_is_bounded:
  "commands_sent (snd (transmit_basic_apdu io apdu p)) \<le> commands_sent p + 8"
proof -
  have body: "commands_sent (snd (basic_body io apdu held p)) \<le> commands_sent p + 8" for held p
  proof (cases "csim_send io held apdu p")
    case (Pair r q)
    with commands_sent_csim [of io held apdu p] have q: "commands_sent q \<le> commands_sent p + 2" by simp
    have "commands_sent (snd (follow_up (csim_send io held) apdu rsp 3 q)) \<le> commands_sent q + 2 * 3" for rsp
      by (rule commands_sent_follow_up)
    from this have "commands_sent (snd (follow_up (csim_send io held) apdu rsp 3 q)) \<le> commands_sent p + 8" for rsp
      by (rule order_trans) (use q in simp)
    with q Pair show ?thesis unfolding basic_body_def by (cases r) simp_all
  qed
  obtain r w where "io_acquire io ''vowifi_aka'' USIMAKA 0 (ap_world p) = (r, w)" by fastforce
  then show ?thesis
    using body [of False "p\<lparr>ap_world := w\<rparr>"]
      body [of True "touch_lease True (note_event (Acquired ''vowifi_aka'' USIMAKA 0) (p\<lparr>ap_world := w\<rparr>))"]
    by (auto simp: transmit_basic_apdu_def with_lease_def split_def split: sum.split bool.split)
qed

text \<open>
  An answer that comes in pieces, each but the last with a status 61xx, is cut down to its last
  piece.
\<close>

lemma trim_hex: "trim_space (hex_encode bs) = hex_encode bs"
proof -
  have "list_all (\<lambda>n. plain_char (hex_digit n)) [0..<16]" by code_simp
  then have digit: "n < 16 \<Longrightarrow> plain_char (hex_digit n)" for n unfolding list_all_iff by simp
  have "unat b < 16 * 16" for b :: byte using unat_byte_bound [of b] by simp
  then have "unat b div 16 < 16" for b :: byte by (rule less_mult_imp_div_less)
  then have plain: "\<forall>c \<in> set (hex_encode bs). plain_char c" by (induction bs) (simp_all add: digit)
  show ?thesis
  proof (cases "hex_encode bs = []")
    case False
    then show ?thesis using plain by (intro trim_space_id) simp_all
  qed simp
qed

theorem only_the_last_piece_is_kept:
  assumes "csim_send io held apdu p = (Inr (hex_encode (d1 @ [0x61, n])), p1)"
    and "csim_send io held (''00c00000'' @ upper_byte n) p1 = (Inr (hex_encode (d2 @ [0x90, 0])), p2)"
  shows "basic_body io apdu held p = (Inr (hex_encode (d2 @ [0x90, 0])), p2)"
  using assms by (simp add: basic_body_def numeral_3_eq_3 trim_hex hex_decode_encode apdu_status_def nth_append)

definition pieces :: "string list" where
  "pieces = [''+CSIM: 8,'' @ quoted ''aabb6102'', ''+CSIM: 8,'' @ quoted ''ccdd9000'']"

theorem only_the_last_piece_is_kept_witness:
  "fst (basic_body echo_io ''00a4000400'' True (new_port pieces)) = Inr ''ccdd9000''"
proof -
  let ?p = "new_port pieces"
  let ?p1 = "snd (csim_send echo_io True ''00a4000400'' ?p)"
  have "fst (csim_send echo_io True ''00a4000400'' ?p) = Inr (hex_encode ([0xAA, 0xBB] @ [0x61, 2]))" by code_simp
  moreover have "fst (csim_send echo_io True (''00c00000'' @ upper_byte 2) ?p1) = Inr (hex_encode ([0xCC, 0xDD] @ [0x90, 0]))"
    by code_simp
  ultimately have "basic_body echo_io ''00a4000400'' True ?p
      = (Inr (hex_encode ([0xCC, 0xDD] @ [0x90, 0])), snd (csim_send echo_io True (''00c00000'' @ upper_byte 2) ?p1))"
    by (intro only_the_last_piece_is_kept [where n = 2 and ?d1.0 = "[0xAA, 0xBB]" and ?p1.0 = ?p1])
      (simp_all add: prod_eq_iff)
  moreover have "hex_encode ([0xCC, 0xDD] @ [0x90, 0]) = ''ccdd9000''" by code_simp
  ultimately show ?thesis by simp
qed

end
