(* ===== verification/At_Sms.thy ===== *)
theory At_Sms
  imports At_Commands SMS_Reassembler
begin

text \<open>
  Messages over the AT port, \<open>internal/modem/manager.go\<close> and \<open>commands.go\<close>: the storages of the
  modem (CPMS), reading and deleting (CMGR, CMGL, CMGD), the decoding of what is read and the
  sending of a message in parts (CMGS). Every new message and every poll runs a goroutine of its
  own, so an operation is a program whose steps are its commands and its calls; programs run one
  after the other or interleaved, command by command.
\<close>

section \<open>Storages\<close>

definition normalize_sms_index :: "string \<Rightarrow> string option" where
  "normalize_sms_index index =
     (let i = trim_space index in if i \<noteq> [] \<and> all_digits i then Some i else None)"

definition storage_char :: "char \<Rightarrow> bool" where
  "storage_char c \<longleftrightarrow> is_digit c \<or> (let n = of_char c :: nat in 65 \<le> n \<and> n \<le> 90)"

definition normalize_sms_storage :: "string \<Rightarrow> string option" where
  "normalize_sms_storage storage =
     (let s = to_upper (trim_quotes (trim_space storage)) in
      if s \<noteq> [] \<and> length s \<le> 8 \<and> list_all storage_char s then Some s else None)"

fun every_third :: "'a list \<Rightarrow> 'a list" where
  "every_third (x # y # z # xs) = x # every_third xs"
| "every_third xs = take 1 xs"

definition parse_cpms_storages :: "string \<Rightarrow> string list" where
  "parse_cpms_storages resp =
     (case find (\<lambda>l. has_prefix l ''+CPMS:'') (map trim_space (split_on line_feed resp)) of
        None \<Rightarrow> []
      | Some line \<Rightarrow> List.map_filter normalize_sms_storage (every_third (parse_comma_fields (parse_urc_after_colon line))))"

definition cpms_set_command :: "string list \<Rightarrow> string" where
  "cpms_set_command storages =
     (case List.map_filter normalize_sms_storage storages of
        [] \<Rightarrow> []
      | [s] \<Rightarrow> ''AT+CPMS='' @ join_with '','' (map quoted [s, s, s])
      | ss \<Rightarrow> ''AT+CPMS='' @ join_with '','' (map quoted (take 3 ss)))"

section \<open>Programs\<close>

text \<open>A report is its reference, status and recipient; a message that is not complete has no text.\<close>

datatype incoming = Report int byte string | Message string string int

datatype sms_note = GotReport int byte string | GotMessage string string int

text \<open>
  The steps of an operation: a command with its answer (None for an error), the decoding of a PDU,
  which may keep a part of a long message, and a call of the handlers.
\<close>

datatype 'a at_prog =
    Done 'a | Crash
  | Ask string "string option \<Rightarrow> 'a at_prog"
  | Decode string "incoming \<Rightarrow> 'a at_prog"
  | Tell sms_note "'a at_prog"

primrec bind :: "'a at_prog \<Rightarrow> ('a \<Rightarrow> 'b at_prog) \<Rightarrow> 'b at_prog" where
  "bind (Done a) k = k a"
| "bind Crash k = Crash"
| "bind (Ask c f) k = Ask c (\<lambda>r. bind (f r) k)"
| "bind (Decode p f) k = Decode p (\<lambda>m. bind (f m) k)"
| "bind (Tell n p) k = Tell n (bind p k)"

definition switch_storage :: "string \<Rightarrow> (string option \<times> bool) at_prog" where
  "switch_storage storage =
     (let target = cpms_set_command [storage];
          set = (\<lambda>previous. Ask target (\<lambda>r.
             case r of
               None \<Rightarrow> Done (None, False)
             | Some _ \<Rightarrow>
                 (let restore = cpms_set_command previous in
                  if restore = [] \<or> restore = target then Done (None, True) else Done (Some restore, True))))
      in if target = [] then Done (None, True)
         else Ask ''AT+CPMS?'' (\<lambda>r.
           case r of
             None \<Rightarrow> set []
           | Some resp \<Rightarrow>
               (let previous = parse_cpms_storages resp in
                if previous \<noteq> [] \<and> to_upper (hd previous) = to_upper storage then Done (None, True)
                else set previous)))"

definition restore_storage :: "string option \<Rightarrow> unit at_prog" where
  "restore_storage restore = (case restore of None \<Rightarrow> Done () | Some cmd \<Rightarrow> Ask cmd (\<lambda>_. Done ()))"

definition delete_and :: "string \<Rightarrow> unit at_prog \<Rightarrow> unit at_prog" where
  "delete_and index k = Ask (''AT+CMGD='' @ index) (\<lambda>_. k)"

text \<open>What the handlers are told of one decoded PDU.\<close>

definition tell_incoming :: "incoming \<Rightarrow> 'a at_prog \<Rightarrow> 'a at_prog" where
  "tell_incoming m k =
     (case m of
        Report mr status recipient \<Rightarrow> Tell (GotReport mr status recipient) k
      | Message sender text time \<Rightarrow> if text = [] then k else Tell (GotMessage sender text time) k)"

definition read_at :: "(byte \<Rightarrow> alphabet option) \<Rightarrow> string \<Rightarrow> string option \<Rightarrow> unit at_prog" where
  "read_at alpha index restore =
     Ask (''AT+CMGR='' @ index) (\<lambda>r.
       case r of
         None \<Rightarrow> restore_storage restore
       | Some resp \<Rightarrow>
           (case extract_sms_pdu_after_prefix alpha resp ''+CMGR:'' of
              Ok p \<Rightarrow>
                (let pdu = default_to [] p in
                 if pdu = [] \<or> pdu = ''OK'' then restore_storage restore
                 else Decode pdu (\<lambda>m. tell_incoming m (delete_and index (restore_storage restore))))
            | _ \<Rightarrow> Crash))"

definition read_sms_from_storage :: "(byte \<Rightarrow> alphabet option) \<Rightarrow> string \<Rightarrow> string \<Rightarrow> unit at_prog" where
  "read_sms_from_storage alpha storage index =
     (case normalize_sms_index index of
        None \<Rightarrow> Done ()
      | Some i \<Rightarrow>
          (case normalize_sms_storage storage of
             None \<Rightarrow> read_at alpha i None
           | Some st \<Rightarrow>
               bind (switch_storage st) (\<lambda>(restore, switched).
                 if switched then read_at alpha i restore else Done ())))"

primrec tell_all :: "string list \<Rightarrow> 'a at_prog \<Rightarrow> 'a at_prog" where
  "tell_all [] k = k"
| "tell_all (p # ps) k = Decode p (\<lambda>m. tell_incoming m (tell_all ps k))"

text \<open>\<open>SMSListAllPDU\<close> of an answer.\<close>

definition listed_pdus :: "(byte \<Rightarrow> alphabet option) \<Rightarrow> string \<Rightarrow> (unit, string list) result" where
  "listed_pdus alpha resp =
     (if trim_space resp = ''OK'' then Ok [] else extract_all_sms_pdus_after_prefix alpha resp ''+CMGL:'')"

definition check_sms_storage :: "(byte \<Rightarrow> alphabet option) \<Rightarrow> string \<Rightarrow> unit at_prog" where
  "check_sms_storage alpha storage =
     bind (switch_storage storage) (\<lambda>(restore, ok).
       if \<not> ok then Done ()
       else Ask ''AT+CMGL=4'' (\<lambda>r.
         case r of
           None \<Rightarrow> restore_storage restore
         | Some resp \<Rightarrow>
             (case listed_pdus alpha resp of
                Ok pdus \<Rightarrow>
                  if pdus = [] then restore_storage restore
                  else tell_all pdus (delete_and ''1,4'' (restore_storage restore))
              | _ \<Rightarrow> Crash)))"

definition check_all_sms :: "(byte \<Rightarrow> alphabet option) \<Rightarrow> bool \<Rightarrow> bool \<Rightarrow> unit at_prog" where
  "check_all_sms alpha busy apdu_busy =
     (if busy \<or> apdu_busy then Done ()
      else bind (check_sms_storage alpha ''SM'') (\<lambda>_. check_sms_storage alpha ''ME''))"

definition sms_read_pdu :: "(byte \<Rightarrow> alphabet option) \<Rightarrow> string \<Rightarrow> string option at_prog" where
  "sms_read_pdu alpha index =
     Ask (''AT+CMGR='' @ index) (\<lambda>r.
       case r of
         None \<Rightarrow> Done None
       | Some resp \<Rightarrow>
           (case extract_sms_pdu_after_prefix alpha resp ''+CMGR:'' of Ok p \<Rightarrow> Done (Some (default_to [] p)) | _ \<Rightarrow> Crash))"

definition delete_sms_at :: "32 word \<Rightarrow> bool at_prog" where
  "delete_sms_at index = Ask (''AT+CMGD='' @ nat_digits (unat index)) (\<lambda>r. Done (r \<noteq> None))"

section \<open>Decoding\<close>

text \<open>
  \<open>decodePDU\<close>, with the decoders of the TPDU package as parameters: a report has a reference, a
  status and a recipient, a message sender, text, time (None for the zero time) and the place
  of the part. A PDU that is not readable is told as a message of its own; the two prefixes are
  Chinese for \<open>decoding failed\<close> and \<open>PDU parsing failed\<close>.
\<close>

record tpdu_decoder =
  td_report :: "bytes \<Rightarrow> (int \<times> byte \<times> string) option"
  td_deliver :: "bytes \<Rightarrow> (string \<times> string \<times> int option \<times> concat_info) option"

definition decoding_failed :: string where
  "decoding_failed = [CHR 0x5B, CHR 0xE8, CHR 0xA7, CHR 0xA3, CHR 0xE7, CHR 0xA0, CHR 0x81, CHR 0xE5, CHR 0xA4, CHR 0xB1, CHR 0xE8, CHR 0xB4, CHR 0xA5, CHR 0x5D, CHR 0x20]"

definition pdu_parsing_failed :: string where
  "pdu_parsing_failed = [CHR 0x5B, CHR 0x50, CHR 0x44, CHR 0x55, CHR 0x20, CHR 0xE8, CHR 0xA7, CHR 0xA3, CHR 0xE6, CHR 0x9E, CHR 0x90, CHR 0xE5, CHR 0xA4, CHR 0xB1, CHR 0xE8, CHR 0xB4, CHR 0xA5, CHR 0x5D, CHR 0x20]"

definition skip_smsc :: "bytes \<Rightarrow> bytes" where
  "skip_smsc b =
     (if b \<noteq> [] \<and> length b > unat (hd b) + 1 then drop (unat (hd b) + 1) b else b)"

definition decode_pdu :: "tpdu_decoder \<Rightarrow> int \<Rightarrow> string \<Rightarrow> reassembler \<Rightarrow> incoming \<times> reassembler" where
  "decode_pdu d now raw r =
     (case hex_decode raw of
        None \<Rightarrow> (Message [] (decoding_failed @ raw) now, r)
      | Some b \<Rightarrow>
          (case td_report d (skip_smsc b) of
             Some (mr, status, recipient) \<Rightarrow> (Report mr status recipient, r)
           | None \<Rightarrow>
               (case td_deliver d (skip_smsc b) of
                  None \<Rightarrow> (Message [] (pdu_parsing_failed @ raw) now, r)
                | Some (sender, text, time, info) \<Rightarrow>
                    if ci_is_concat info then
                      (case reassembler_add now sender info text r of
                         ((False, _), r) \<Rightarrow> (Message [] [] 0, r)
                       | ((True, full), r) \<Rightarrow> (Message sender full (default_to now time), r))
                    else (Message sender text (default_to now time), r))))"

section \<open>Sending\<close>

definition cmgs_request :: "int \<Rightarrow> string \<Rightarrow> at_request" where
  "cmgs_request tpdu_len pdu =
     \<lparr>aq_cmd = ''AT+CMGS='' @ itoa tpdu_len, aq_high = True, aq_interactive = True, aq_wait_prompt = True,
      aq_follow_up = pdu @ [CHR 0x1A]\<rparr>"

datatype 'e submitted = QueueFull | NoAnswer | Answered "'e + string"

datatype 'e send_error = PduModeFailed 'e | PduBuildFailed | CommandQueueFull | SendTimeout | PartRefused nat string | PartFailed nat 'e

definition full_pdu :: "bytes \<Rightarrow> string" where
  "full_pdu tpdu = to_upper (hex_encode (0 # tpdu))"

fun send_parts ::
  "(at_request \<Rightarrow> 's \<Rightarrow> 'e submitted \<times> 's) \<Rightarrow> nat \<Rightarrow> (string \<times> int) list \<Rightarrow> int list \<Rightarrow> 's
   \<Rightarrow> ('e send_error + int list) \<times> 's"
where
  "send_parts submit i [] refs s = (Inr refs, s)"
| "send_parts submit i ((pdu, len) # ps) refs s =
     (case submit (cmgs_request len pdu) s of
        (QueueFull, s) \<Rightarrow> (Inl CommandQueueFull, s)
      | (NoAnswer, s) \<Rightarrow> (Inl SendTimeout, s)
      | (Answered (Inl e), s) \<Rightarrow> (Inl (PartFailed (i + 1) e), s)
      | (Answered (Inr resp), s) \<Rightarrow>
          if \<not> contains resp ''OK'' \<and> \<not> contains resp ''+CMGS:'' then (Inl (PartRefused (i + 1) resp), s)
          else send_parts submit (i + 1) ps
                 (refs @ (case parse_cmgs_reference resp of None \<Rightarrow> [] | Some mr \<Rightarrow> [mr])) s)"

text \<open>
  \<open>SendSMSWithOptions\<close> with the parts that the TPDU package builds. The last references are
  replaced when all parts are sent.
\<close>

definition send_sms_parts ::
  "('e, 's) at_exec \<Rightarrow> (at_request \<Rightarrow> 's \<Rightarrow> 'e submitted \<times> 's) \<Rightarrow> (bytes \<times> int) list option \<Rightarrow> int list \<Rightarrow> 's
   \<Rightarrow> 'e send_error option \<times> int list \<times> 's"
where
  "send_sms_parts exec submit build last_refs s =
     (case exec True ''AT+CMGF=0'' s of
        (Inl e, s) \<Rightarrow> (Some (PduModeFailed e), last_refs, s)
      | (Inr _, s) \<Rightarrow>
          (case build of
             None \<Rightarrow> (Some PduBuildFailed, last_refs, s)
           | Some parts \<Rightarrow>
               (case send_parts submit 0 (map (map_prod full_pdu id) parts) [] s of
                  (Inl e, s) \<Rightarrow> (Some e, last_refs, s) | (Inr refs, s) \<Rightarrow> (None, refs, s))))"

definition take_last_submit_refs :: "int list \<Rightarrow> int list \<times> int list" where
  "take_last_submit_refs last_refs = (last_refs, [])"

section \<open>USSD\<close>

datatype 'e ussd_error = UssdNotSent 'e | UssdNoReply | UssdStopped

datatype ussd_wait = UssdReply ussd_reply | UssdTimeout | UssdStop

definition cancel_ussd :: "('e, 's) at_exec \<Rightarrow> 's \<Rightarrow> 's" where
  "cancel_ussd exec s = snd (exec False ''AT+CUSD=2'' s)"

text \<open>\<open>wait\<close> drains the channel of replies before the command and waits on it after.\<close>

definition execute_ussd ::
  "('e, 's) at_exec \<Rightarrow> ('s \<Rightarrow> 's) \<Rightarrow> ('s \<Rightarrow> ussd_wait \<times> 's) \<Rightarrow> string \<Rightarrow> 's \<Rightarrow> ('e ussd_error + ussd_reply) \<times> 's"
where
  "execute_ussd exec drain wait command s =
     (let (_, s) = exec False (''AT+CSCS='' @ quoted ''GSM'') (drain s) in
      case exec False (''AT+CUSD=1,'' @ quoted command @ '',15'') s of
        (Inl e, s) \<Rightarrow> (Inl (UssdNotSent e), s)
      | (Inr _, s) \<Rightarrow>
          (case wait s of
             (UssdReply r, s) \<Rightarrow> (Inr r, s)
           | (UssdTimeout, s) \<Rightarrow> (Inl UssdNoReply, cancel_ussd exec s)
           | (UssdStop, s) \<Rightarrow> (Inl UssdStopped, s)))"

section \<open>Running programs\<close>

record 'm sms_io =
  si_exec :: "string \<Rightarrow> 'm \<Rightarrow> string option \<times> 'm"
  si_decoder :: tpdu_decoder
  si_now :: int

record 'm sms_world =
  sw_modem :: 'm
  sw_parts :: reassembler
  sw_told :: "sms_note list"
  sw_trace :: "(string \<times> 'm) list"

definition ask_modem :: "'m sms_io \<Rightarrow> string \<Rightarrow> 'm sms_world \<Rightarrow> string option \<times> 'm sms_world" where
  "ask_modem io c w =
     (case si_exec io c (sw_modem w) of
        (r, m) \<Rightarrow> (r, w\<lparr>sw_modem := m, sw_trace := sw_trace w @ [(c, sw_modem w)]\<rparr>))"

definition decode_step :: "'m sms_io \<Rightarrow> string \<Rightarrow> 'm sms_world \<Rightarrow> incoming \<times> 'm sms_world" where
  "decode_step io p w =
     (case decode_pdu (si_decoder io) (si_now io) p (sw_parts w) of (m, r) \<Rightarrow> (m, w\<lparr>sw_parts := r\<rparr>))"

primrec run_prog :: "'m sms_io \<Rightarrow> 'a at_prog \<Rightarrow> 'm sms_world \<Rightarrow> 'a option \<times> 'm sms_world" where
  "run_prog io (Done a) w = (Some a, w)"
| "run_prog io Crash w = (None, w)"
| "run_prog io (Ask c f) w = run_prog io (f (fst (ask_modem io c w))) (snd (ask_modem io c w))"
| "run_prog io (Decode p f) w = run_prog io (f (fst (decode_step io p w))) (snd (decode_step io p w))"
| "run_prog io (Tell n p) w = run_prog io p (w\<lparr>sw_told := sw_told w @ [n]\<rparr>)"

text \<open>Two goroutines: the schedule says which makes the next step.\<close>

fun prog_step :: "'m sms_io \<Rightarrow> 'a at_prog \<Rightarrow> 'm sms_world \<Rightarrow> 'a at_prog \<times> 'm sms_world" where
  "prog_step io (Ask c f) w = (f (fst (ask_modem io c w)), snd (ask_modem io c w))"
| "prog_step io (Decode p f) w = (f (fst (decode_step io p w)), snd (decode_step io p w))"
| "prog_step io (Tell n p) w = (p, w\<lparr>sw_told := sw_told w @ [n]\<rparr>)"
| "prog_step io p w = (p, w)"

fun interleave :: "'m sms_io \<Rightarrow> bool list \<Rightarrow> 'a at_prog \<Rightarrow> 'b at_prog \<Rightarrow> 'm sms_world \<Rightarrow> 'm sms_world" where
  "interleave io [] p q w = w"
| "interleave io (True # ss) p q w = (let (p, w) = prog_step io p w in interleave io ss p q w)"
| "interleave io (False # ss) p q w = (let (q, w) = prog_step io q w in interleave io ss p q w)"

lemma run_bind:
  "run_prog io (bind p k) w = (case run_prog io p w of (None, w) \<Rightarrow> (None, w) | (Some a, w) \<Rightarrow> run_prog io (k a) w)"
  by (induction p arbitrary: w) simp_all

section \<open>The storage is given back\<close>

definition storage_name :: "string \<Rightarrow> bool" where
  "storage_name s \<longleftrightarrow> normalize_sms_storage s = Some s"

text \<open>
  A modem that knows some storages and keeps three of them selected (for reading, writing and
  receiving), says so when it is asked, and changes them on command only.
\<close>

definition keeps_storages ::
  "string set \<Rightarrow> (string \<Rightarrow> 'm \<Rightarrow> string option \<times> 'm) \<Rightarrow> ('m \<Rightarrow> string \<times> string \<times> string) \<Rightarrow> bool"
where
  "keeps_storages known exec cur \<longleftrightarrow>
     (\<forall>m. case cur m of (a, b, c) \<Rightarrow>
        a \<in> known \<and> b \<in> known \<and> c \<in> known
        \<and> (\<exists>resp. fst (exec ''AT+CPMS?'' m) = Some resp \<and> parse_cpms_storages resp = [a, b, c])
        \<and> cur (snd (exec ''AT+CPMS?'' m)) = (a, b, c))
   \<and> (\<forall>s. s \<in> known \<longrightarrow> storage_name s)
   \<and> (\<forall>a b c m. a \<in> known \<and> b \<in> known \<and> c \<in> known \<longrightarrow>
        fst (exec (cpms_set_command [a, b, c]) m) \<noteq> None \<and> cur (snd (exec (cpms_set_command [a, b, c]) m)) = (a, b, c))
   \<and> (\<forall>c m. has_prefix c ''AT+CMG'' \<longrightarrow> cur (snd (exec c m)) = cur m)"

text \<open>The commands that read, list or delete messages find the given storage selected.\<close>

definition only_in :: "('m \<Rightarrow> string \<times> string \<times> string) \<Rightarrow> string \<Rightarrow> (string \<times> 'm) list \<Rightarrow> bool" where
  "only_in cur st = list_all (\<lambda>(c, m). has_prefix c ''AT+CMG'' \<longrightarrow> fst (cur m) = st)"

text \<open>A program that, begun with the storage \<open>st\<close> selected, works there and leaves \<open>old\<close>.\<close>

definition closes :: "'m sms_io \<Rightarrow> ('m \<Rightarrow> string \<times> string \<times> string) \<Rightarrow> string \<Rightarrow> string \<times> string \<times> string
    \<Rightarrow> string \<times> string \<times> string \<Rightarrow> 'a at_prog \<Rightarrow> bool" where
  "closes io cur st now old p \<longleftrightarrow>
     (\<forall>w. cur (sw_modem w) = now \<longrightarrow>
        (let w' = snd (run_prog io p w) in
         cur (sw_modem w') = old \<and> (\<exists>t. sw_trace w' = sw_trace w @ t \<and> only_in cur st t)))"

lemma closesI:
  assumes "\<And>w. cur (sw_modem w) = now \<Longrightarrow>
    cur (sw_modem (snd (run_prog io p w))) = old
    \<and> (\<exists>t. sw_trace (snd (run_prog io p w)) = sw_trace w @ t \<and> only_in cur st t)"
  shows "closes io cur st now old p"
  using assms by (simp add: closes_def Let_def)

lemma closes_ask:
  fixes io :: "'m sms_io"
  assumes "\<And>r. closes io cur st now old (f r)" and "fst now = st"
    and "\<And>m. cur m = now \<Longrightarrow> cur (snd (si_exec io c m)) = now"
  shows "closes io cur st now old (Ask c f)"
proof (rule closesI)
  fix w :: "'m sms_world" assume w: "cur (sw_modem w) = now"
  obtain r m where r: "si_exec io c (sw_modem w) = (r, m)" by fastforce
  let ?w = "w\<lparr>sw_modem := m, sw_trace := sw_trace w @ [(c, sw_modem w)]\<rparr>"
  have "cur (sw_modem ?w) = now" using assms(3) [OF w] r by simp
  then obtain t where "cur (sw_modem (snd (run_prog io (f r) ?w))) = old"
    "sw_trace (snd (run_prog io (f r) ?w)) = sw_trace ?w @ t" "only_in cur st t"
    using assms(1) [of r] unfolding closes_def Let_def by blast
  moreover have "only_in cur st ((c, sw_modem w) # t)" using w assms(2) calculation(3) by (simp add: only_in_def)
  ultimately show "cur (sw_modem (snd (run_prog io (Ask c f) w))) = old
    \<and> (\<exists>t. sw_trace (snd (run_prog io (Ask c f) w)) = sw_trace w @ t \<and> only_in cur st t)"
    using r by (simp add: ask_modem_def)
qed

lemma closes_decode:
  fixes io :: "'m sms_io"
  assumes "\<And>m. closes io cur st now old (f m)"
  shows "closes io cur st now old (Decode p f)"
proof (rule closesI)
  fix w :: "'m sms_world" assume "cur (sw_modem w) = now"
  moreover obtain m r where "decode_pdu (si_decoder io) (si_now io) p (sw_parts w) = (m, r)" by fastforce
  ultimately show "cur (sw_modem (snd (run_prog io (Decode p f) w))) = old
    \<and> (\<exists>t. sw_trace (snd (run_prog io (Decode p f) w)) = sw_trace w @ t \<and> only_in cur st t)"
    using assms [of m] unfolding closes_def Let_def
    by (auto simp: decode_step_def dest!: spec [of _ "w\<lparr>sw_parts := r\<rparr>"])
qed

lemma closes_tell:
  fixes io :: "'m sms_io"
  assumes "closes io cur st now old p"
  shows "closes io cur st now old (Tell n p)"
proof (rule closesI)
  fix w :: "'m sms_world" assume "cur (sw_modem w) = now"
  then show "cur (sw_modem (snd (run_prog io (Tell n p) w))) = old
    \<and> (\<exists>t. sw_trace (snd (run_prog io (Tell n p) w)) = sw_trace w @ t \<and> only_in cur st t)"
    using assms unfolding closes_def Let_def by (auto dest!: spec [of _ "w\<lparr>sw_told := sw_told w @ [n]\<rparr>"])
qed

lemma closes_incoming: "closes io cur st now old k \<Longrightarrow> closes io cur st now old (tell_incoming m k)"
  by (simp add: tell_incoming_def closes_tell split: incoming.split)

lemma closes_all: "closes io cur st now old k \<Longrightarrow> closes io cur st now old (tell_all ps k)"
  by (induction ps) (simp_all add: closes_decode closes_incoming)

lemma cmg_command: "has_prefix (''AT+CMGR='' @ s) ''AT+CMG''" "has_prefix (''AT+CMGD='' @ s) ''AT+CMG''"
  "has_prefix ''AT+CMGL=4'' ''AT+CMG''" "\<not> has_prefix (''AT+CPMS='' @ s) ''AT+CMG''" "\<not> has_prefix ''AT+CPMS?'' ''AT+CMG''"
  by simp_all

lemma set_command_names:
  assumes "storage_name a" and "storage_name b" and "storage_name c"
  shows "cpms_set_command [a, b, c] = ''AT+CPMS='' @ quoted a @ '','' @ quoted b @ '','' @ quoted c"
  using assms by (simp add: cpms_set_command_def storage_name_def List.map_filter_def)

lemma set_command_one: "storage_name a \<Longrightarrow> cpms_set_command [a] = cpms_set_command [a, a, a]"
  by (simp add: cpms_set_command_def storage_name_def List.map_filter_def)

lemma storage_name_chars: "storage_name a \<Longrightarrow> a \<noteq> [] \<and> list_all storage_char a"
  by (auto simp: storage_name_def normalize_sms_storage_def Let_def split: if_splits)

lemma storage_name_quote: "storage_name a \<Longrightarrow> quote \<notin> set a"
proof -
  have "\<not> storage_char quote" by code_simp
  then show "storage_name a \<Longrightarrow> quote \<notin> set a" using storage_name_chars unfolding list_all_iff by blast
qed

lemma set_command_inj:
  assumes "storage_name a" "storage_name b" "storage_name c" "storage_name st"
    and "cpms_set_command [a, b, c] = cpms_set_command [st]"
  shows "a = st"
proof -
  have "takeWhile (\<lambda>x. x \<noteq> quote) (x @ quote # t) = x" if "storage_name x" for x t
    using storage_name_quote [OF that] by (metis (mono_tags, lifting) takeWhile_tail takeWhile_eq_all_conv append_Nil2 takeWhile_append2)
  then have "takeWhile (\<lambda>x. x \<noteq> quote) (drop 9 (cpms_set_command (x # xs))) = x"
    if "cpms_set_command (x # xs) = ''AT+CPMS='' @ quoted x @ t" "storage_name x" for x xs t
    using that by (simp add: quoted_def)
  then show ?thesis using assms set_command_one [OF assms(4)] set_command_names by metis
qed

lemma keeps_query:
  assumes "keeps_storages known exec cur" and "cur m = (a, b, c)"
  shows "a \<in> known \<and> b \<in> known \<and> c \<in> known
    \<and> (\<exists>resp. fst (exec ''AT+CPMS?'' m) = Some resp \<and> parse_cpms_storages resp = [a, b, c])
    \<and> cur (snd (exec ''AT+CPMS?'' m)) = (a, b, c)"
proof -
  have "\<forall>m. case cur m of (a, b, c) \<Rightarrow> a \<in> known \<and> b \<in> known \<and> c \<in> known
    \<and> (\<exists>resp. fst (exec ''AT+CPMS?'' m) = Some resp \<and> parse_cpms_storages resp = [a, b, c])
    \<and> cur (snd (exec ''AT+CPMS?'' m)) = (a, b, c)"
    using assms(1) unfolding keeps_storages_def by (rule conjunct1)
  from spec [OF this, of m] show ?thesis unfolding assms(2) prod.case .
qed

lemma keeps_set:
  "keeps_storages known exec cur \<Longrightarrow> a \<in> known \<Longrightarrow> b \<in> known \<Longrightarrow> c \<in> known \<Longrightarrow>
   fst (exec (cpms_set_command [a, b, c]) m) \<noteq> None \<and> cur (snd (exec (cpms_set_command [a, b, c]) m)) = (a, b, c)"
  unfolding keeps_storages_def by blast

lemma keeps_name: "keeps_storages known exec cur \<Longrightarrow> s \<in> known \<Longrightarrow> storage_name s"
  unfolding keeps_storages_def by blast

lemma keeps_cmg: "keeps_storages known exec cur \<Longrightarrow> has_prefix c ''AT+CMG'' \<Longrightarrow> cur (snd (exec c m)) = cur m"
  unfolding keeps_storages_def by blast

lemma upper_storage: "storage_name x \<Longrightarrow> to_upper x = x"
proof -
  have "upper_char c = c" if "storage_char c" for c
  proof -
    have "(of_char c :: int) = int (of_char c)" by (rule of_nat_of_char [symmetric])
    then show ?thesis using that by (auto simp: storage_char_def upper_char_def is_digit_def digit_value_def Let_def split: if_splits)
  qed
  then have "list_all storage_char x \<Longrightarrow> to_upper x = x" unfolding to_upper_def by (induction x) auto
  then show "storage_name x \<Longrightarrow> to_upper x = x" using storage_name_chars by blast
qed

lemma switch_run:
  fixes io :: "'m sms_io"
  assumes keeps: "keeps_storages known (si_exec io) cur" and known: "st \<in> known"
  shows "\<exists>restore w' t. run_prog io (switch_storage st) w = (Some (restore, True), w')
    \<and> sw_trace w' = sw_trace w @ t \<and> only_in cur st t \<and> fst (cur (sw_modem w')) = st
    \<and> (case restore of
         None \<Rightarrow> cur (sw_modem w') = cur (sw_modem w)
       | Some cmd \<Rightarrow> \<exists>a b c. cur (sw_modem w) = (a, b, c) \<and> cmd = cpms_set_command [a, b, c])"
proof -
  obtain a b c where cur: "cur (sw_modem w) = (a, b, c)" by (cases "cur (sw_modem w)") auto
  note query = keeps_query [OF keeps cur]
  then have names: "storage_name a" "storage_name b" "storage_name c" using keeps_name [OF keeps] by blast+
  have st: "storage_name st" by (rule keeps_name [OF keeps known])
  obtain r m where ask_at: "si_exec io ''AT+CPMS?'' (sw_modem w) = (r, m)" by fastforce
  with query obtain resp where r: "r = Some resp" "parse_cpms_storages resp = [a, b, c]" "cur m = (a, b, c)" by auto
  let ?target = "cpms_set_command [st]"
  obtain r2 m2 where set: "si_exec io ?target m = (r2, m2)" by fastforce
  then have r2: "r2 \<noteq> None" "cur m2 = (st, st, st)"
    using keeps_set [OF keeps known known known, of m] set_command_one [OF st] by simp_all
  have target: "?target \<noteq> []" using set_command_one [OF st] set_command_names [OF st st st] by simp
  note upper = upper_storage
  have restore: "cpms_set_command [a, b, c] \<noteq> []" using set_command_names [OF names] by simp
  let ?t1 = "[(''AT+CPMS?'', sw_modem w)]"
  show ?thesis
  proof (cases "a = st")
    case True
    then show ?thesis
      using target ask_at r cur upper [OF st] cmg_command
      by (simp add: switch_storage_def Let_def ask_modem_def only_in_def)
  next
    case False
    then have "cpms_set_command [a, b, c] \<noteq> ?target" using set_command_inj [OF names st] by blast
    moreover have "\<not> has_prefix ?target ''AT+CMG''"
      using set_command_one [OF st] set_command_names [OF st st st] cmg_command by simp
    ultimately show ?thesis
      using target ask_at r cur upper [OF st] upper [OF names(1)] False r2 set restore cmg_command
      by (auto simp: switch_storage_def Let_def ask_modem_def only_in_def split: option.splits)
  qed
qed

lemma header_trim_ok: "\<exists>s ok. trim_full_pdu_hex_by_at_header alpha pdu header = Ok (s, ok)"
proof -
  have "parse_at_sms_header_tpdu_length header = Some n \<Longrightarrow> in_int64 n" for n
    by (auto simp: parse_at_sms_header_tpdu_length_def atoi_def Let_def split: option.splits if_splits)
  then show ?thesis
    using trim_full_pdu_keeps_a_prefix [of _ alpha pdu]
    by (fastforce simp: trim_full_pdu_hex_by_at_header_def split: option.split)
qed

lemma extract_pdu_ok: "\<exists>p. extract_sms_pdu_after_prefix alpha resp prefix = Ok p"
proof -
  have "\<exists>p. pdu_after alpha prefix ls = Ok p" for ls
  proof (induction ls)
    case (Cons l ls)
    then show ?case
    proof (cases ls)
      case (Cons n ms)
      obtain s ok where "trim_full_pdu_hex_by_at_header alpha (trim_space n) l = Ok (s, ok)" using header_trim_ok by blast
      then show ?thesis using Cons \<open>\<exists>p. pdu_after alpha prefix ls = Ok p\<close> by (simp add: Let_def)
    qed simp
  qed simp
  then show ?thesis by (simp add: extract_sms_pdu_after_prefix_def)
qed

lemma listed_pdus_ok: "\<exists>ps. listed_pdus alpha resp = Ok ps"
proof -
  have "\<exists>ps. pdus_after alpha prefix ls = Ok ps" for prefix ls
  proof (induction ls rule: induct_list012)
    case (3 l n ls)
    obtain s ok where "trim_full_pdu_hex_by_at_header alpha (trim_space n) l = Ok (s, ok)" using header_trim_ok by blast
    then show ?case using 3 by (auto simp: Let_def)
  qed simp_all
  then show ?thesis by (simp add: listed_pdus_def extract_all_sms_pdus_after_prefix_def)
qed

definition gives_back :: "string set \<Rightarrow> ('m \<Rightarrow> string \<times> string \<times> string) \<Rightarrow> 'm \<Rightarrow> string \<times> string \<times> string \<Rightarrow> string option \<Rightarrow> bool" where
  "gives_back known cur m old restore \<longleftrightarrow>
     (case restore of
        None \<Rightarrow> cur m = old
      | Some cmd \<Rightarrow> (\<exists>a b c. old = (a, b, c) \<and> a \<in> known \<and> b \<in> known \<and> c \<in> known
          \<and> cmd = cpms_set_command [a, b, c]))"

lemma closes_restore:
  fixes io :: "'m sms_io"
  assumes "keeps_storages known (si_exec io) cur" and "gives_back known cur m old restore"
  shows "closes io cur st (cur m) old (restore_storage restore)"
proof (cases restore)
  case None
  then show ?thesis using assms(2) by (simp add: gives_back_def closes_def restore_storage_def only_in_def)
next
  case (Some cmd)
  with assms(2) obtain a b c where old: "old = (a, b, c)" "a \<in> known" "b \<in> known" "c \<in> known"
    and cmd: "cmd = cpms_set_command [a, b, c]" by (auto simp: gives_back_def)
  have "\<not> has_prefix cmd ''AT+CMG''" using set_command_names [of a b c] keeps_name [OF assms(1)] old cmg_command cmd by simp
  moreover have "cur (snd (si_exec io cmd m)) = old" for m
    using keeps_set [OF assms(1) old(2-4)] cmd old(1) by simp
  ultimately show ?thesis
    using Some by (auto simp: closes_def restore_storage_def ask_modem_def only_in_def split_def)
qed

lemma closes_cmg:
  fixes io :: "'m sms_io"
  assumes "keeps_storages known (si_exec io) cur" and "has_prefix c ''AT+CMG''"
    and "\<And>r. closes io cur (fst now) now old (f r)"
  shows "closes io cur (fst now) now old (Ask c f)"
  by (rule closes_ask [OF assms(3)]) (simp_all add: keeps_cmg [OF assms(1,2)])

lemma closes_read_at:
  fixes io :: "'m sms_io"
  assumes "keeps_storages known (si_exec io) cur" and "gives_back known cur m old restore"
  shows "closes io cur (fst (cur m)) (cur m) old (read_at alpha i restore)"
proof -
  have r: "closes io cur (fst (cur m)) (cur m) old (restore_storage restore)" by (rule closes_restore [OF assms])
  have d: "closes io cur (fst (cur m)) (cur m) old (delete_and i (restore_storage restore))"
    unfolding delete_and_def by (rule closes_cmg [OF assms(1) _ r]) simp
  have "closes io cur (fst (cur m)) (cur m) old
      (case extract_sms_pdu_after_prefix alpha resp ''+CMGR:'' of
         Ok p \<Rightarrow> let pdu = default_to [] p in
           if pdu = [] \<or> pdu = ''OK'' then restore_storage restore
           else Decode pdu (\<lambda>m. tell_incoming m (delete_and i (restore_storage restore)))
       | _ \<Rightarrow> Crash)" for resp
  proof -
    obtain p where "extract_sms_pdu_after_prefix alpha resp ''+CMGR:'' = Ok p" using extract_pdu_ok by blast
    then show ?thesis by (simp add: Let_def r closes_decode closes_incoming d)
  qed
  then show ?thesis
    unfolding read_at_def by (intro closes_cmg [OF assms(1)]) (simp_all add: r split: option.split)
qed

lemma closes_listing:
  fixes io :: "'m sms_io"
  assumes "keeps_storages known (si_exec io) cur" and "gives_back known cur m old restore"
  shows "closes io cur (fst (cur m)) (cur m) old
    (Ask ''AT+CMGL=4'' (\<lambda>r. case r of None \<Rightarrow> restore_storage restore
       | Some resp \<Rightarrow> (case listed_pdus alpha resp of
           Ok pdus \<Rightarrow> if pdus = [] then restore_storage restore
             else tell_all pdus (delete_and ''1,4'' (restore_storage restore))
         | _ \<Rightarrow> Crash)))"
proof -
  have r: "closes io cur (fst (cur m)) (cur m) old (restore_storage restore)" by (rule closes_restore [OF assms])
  have d: "closes io cur (fst (cur m)) (cur m) old (delete_and ''1,4'' (restore_storage restore))"
    unfolding delete_and_def by (rule closes_cmg [OF assms(1) _ r]) simp
  have "closes io cur (fst (cur m)) (cur m) old
      (case listed_pdus alpha resp of
         Ok pdus \<Rightarrow> if pdus = [] then restore_storage restore
           else tell_all pdus (delete_and ''1,4'' (restore_storage restore))
       | _ \<Rightarrow> Crash)" for resp
  proof -
    obtain ps where "listed_pdus alpha resp = Ok ps" using listed_pdus_ok by blast
    then show ?thesis by (simp add: r closes_all d)
  qed
  then show ?thesis by (intro closes_cmg [OF assms(1)]) (simp_all add: r split: option.split)
qed

lemma switched_run:
  fixes io :: "'m sms_io"
  assumes keeps: "keeps_storages known (si_exec io) cur" and known: "st \<in> known"
    and body: "\<And>restore m. gives_back known cur m (cur (sw_modem w)) restore \<Longrightarrow> fst (cur m) = st \<Longrightarrow>
      closes io cur (fst (cur m)) (cur m) (cur (sw_modem w)) (k restore)"
  shows "\<exists>t. cur (sw_modem (snd (run_prog io (bind (switch_storage st) (\<lambda>(restore, ok). if ok then k restore else Done ())) w)))
      = cur (sw_modem w)
    \<and> sw_trace (snd (run_prog io (bind (switch_storage st) (\<lambda>(restore, ok). if ok then k restore else Done ())) w))
      = sw_trace w @ t \<and> only_in cur st t"
proof -
  obtain restore w' t where s: "run_prog io (switch_storage st) w = (Some (restore, True), w')"
    "sw_trace w' = sw_trace w @ t" "only_in cur st t" "fst (cur (sw_modem w')) = st"
    and gb: "case restore of None \<Rightarrow> cur (sw_modem w') = cur (sw_modem w)
       | Some cmd \<Rightarrow> \<exists>a b c. cur (sw_modem w) = (a, b, c) \<and> cmd = cpms_set_command [a, b, c]"
    using switch_run [OF keeps known, of w] by blast
  have "gives_back known cur (sw_modem w') (cur (sw_modem w)) restore"
    using gb keeps_query [OF keeps] by (fastforce simp: gives_back_def split: option.splits)
  from body [OF this s(4)] obtain t' where
    "cur (sw_modem (snd (run_prog io (k restore) w'))) = cur (sw_modem w)"
    "sw_trace (snd (run_prog io (k restore) w')) = sw_trace w' @ t'" "only_in cur st t'"
    unfolding closes_def Let_def s(4) by blast
  then show ?thesis using s by (auto simp: run_bind only_in_def)
qed

definition storage_work :: "(byte \<Rightarrow> alphabet option) \<Rightarrow> string \<Rightarrow> unit at_prog set" where
  "storage_work alpha st =
     {read_sms_from_storage alpha storage index | storage index. normalize_sms_storage storage = Some st}
     \<union> {check_sms_storage alpha st}"

text \<open>
  C1. Reading a message, or all messages of a storage, selects that storage, reads and deletes
  nowhere else, and leaves the storages of the modem as they were; as long as no other goroutine
  speaks to the modem meanwhile.
\<close>

theorem storages_are_given_back:
  fixes io :: "'m sms_io"
  assumes "keeps_storages known (si_exec io) cur" and "st \<in> known" and "sw_trace w = []"
    and "p \<in> storage_work alpha st"
  shows "cur (sw_modem (snd (run_prog io p w))) = cur (sw_modem w)
    \<and> only_in cur st (sw_trace (snd (run_prog io p w)))"
proof -
  from assms(4) consider (check) "p = check_sms_storage alpha st"
    | (read) storage index where "p = read_sms_from_storage alpha storage index" "normalize_sms_storage storage = Some st"
    unfolding storage_work_def by auto
  then show ?thesis
  proof cases
    case check
    have "p = bind (switch_storage st) (\<lambda>(restore, ok). if ok then
        Ask ''AT+CMGL=4'' (\<lambda>r. case r of None \<Rightarrow> restore_storage restore
         | Some resp \<Rightarrow> (case listed_pdus alpha resp of
             Ok pdus \<Rightarrow> if pdus = [] then restore_storage restore
               else tell_all pdus (delete_and ''1,4'' (restore_storage restore))
           | _ \<Rightarrow> Crash)) else Done ())"
      unfolding check check_sms_storage_def by (rule arg_cong [of _ _ "bind (switch_storage st)"]) auto
    then show ?thesis
      using switched_run [OF assms(1,2), of w, OF closes_listing [OF assms(1)]] assms(3) by auto
  next
    case read
    show ?thesis
    proof (cases "normalize_sms_index index")
      case None
      then show ?thesis using read assms(3) by (simp add: read_sms_from_storage_def only_in_def)
    next
      case (Some i)
      then have "p = bind (switch_storage st) (\<lambda>(restore, ok). if ok then read_at alpha i restore else Done ())"
        using read by (simp add: read_sms_from_storage_def)
      then show ?thesis
        using switched_run [OF assms(1,2), of w, OF closes_read_at [OF assms(1)]] assms(3) by auto
    qed
  qed
qed

section \<open>A modem with two storages\<close>

text \<open>A small modem to run the programs on: the storages SM (True) and ME, and their messages.\<close>

type_synonym memories = "bool \<times> bool \<times> bool"

record small_modem =
  mm_cur :: memories
  mm_messages :: "((bool \<times> string) \<times> string) list"

definition memory_name :: "bool \<Rightarrow> string" where "memory_name b = (if b then ''SM'' else ''ME'')"

definition memory_names :: "memories \<Rightarrow> string \<times> string \<times> string" where
  "memory_names c = (case c of (x, y, z) \<Rightarrow> (memory_name x, memory_name y, memory_name z))"

definition all_memories :: "memories list" where
  "all_memories = [(x, y, z). x \<leftarrow> [False, True], y \<leftarrow> [False, True], z \<leftarrow> [False, True]]"

definition cpms_answer :: "memories \<Rightarrow> string" where
  "cpms_answer c =
     (case memory_names c of (x, y, z) \<Rightarrow>
        ''+CPMS: '' @ quoted x @ '',1,20,'' @ quoted y @ '',1,20,'' @ quoted z @ '',1,20'')"

definition memory_command :: "memories \<Rightarrow> string" where
  "memory_command c = (case memory_names c of (x, y, z) \<Rightarrow> cpms_set_command [x, y, z])"

definition answer_small :: "string \<Rightarrow> small_modem \<Rightarrow> string option \<times> small_modem" where
  "answer_small cmd m =
     (let here = fst (mm_cur m) in
      if cmd = ''AT+CPMS?'' then (Some (cpms_answer (mm_cur m)), m)
      else if has_prefix cmd ''AT+CMGR='' then
        (case map_of (mm_messages m) (here, drop 8 cmd) of
           None \<Rightarrow> (None, m) | Some pdu \<Rightarrow> (Some (''+CMGR: 1'' @ line_feed # pdu), m))
      else if cmd = ''AT+CMGL=4'' then
        (Some (join_with [line_feed] (concat (map (\<lambda>((st, i), pdu). if st = here then [''+CMGL: 1'', pdu] else []) (mm_messages m)))), m)
      else if cmd = ''AT+CMGD=1,4'' then (Some [], m\<lparr>mm_messages := filter (\<lambda>((st, _), _). st \<noteq> here) (mm_messages m)\<rparr>)
      else if has_prefix cmd ''AT+CMGD='' then
        (Some [], m\<lparr>mm_messages := filter (\<lambda>(k, _). k \<noteq> (here, drop 8 cmd)) (mm_messages m)\<rparr>)
      else
        (case find (\<lambda>c. memory_command c = cmd) all_memories of
           None \<Rightarrow> (None, m) | Some c \<Rightarrow> (Some [], m\<lparr>mm_cur := c\<rparr>)))"

definition plain_decoder :: tpdu_decoder where
  "plain_decoder = \<lparr>td_report = (\<lambda>_. None),
     td_deliver = (\<lambda>b. Some (''123'', hex_encode b, None,
       \<lparr>ci_is_concat = False, ci_ref = 0, ci_ref_bits = 8, ci_total = 1, ci_seq = 1\<rparr>))\<rparr>"

definition small_io :: "small_modem sms_io" where
  "small_io = \<lparr>si_exec = answer_small, si_decoder = plain_decoder, si_now = 7\<rparr>"

definition small_world :: "((bool \<times> string) \<times> string) list \<Rightarrow> small_modem sms_world" where
  "small_world ms = \<lparr>sw_modem = \<lparr>mm_cur = (False, False, False), mm_messages = ms\<rparr>, sw_parts = new_reassembler,
     sw_told = [], sw_trace = []\<rparr>"

definition gsm_alpha :: "byte \<Rightarrow> alphabet option" where "gsm_alpha = (\<lambda>_. Some Alpha7Bit)"

lemma small_memories: "c \<in> set all_memories"
proof -
  have "\<forall>x y z. (x, y, z) \<in> set all_memories" by (simp add: all_memories_def all_bool_eq)
  then show ?thesis by (cases c) blast
qed

lemma small_names: "storage_name ''SM''" "storage_name ''ME''"
  by code_simp+

lemma memory_of_name: "s \<in> {''SM'', ''ME''} \<Longrightarrow> \<exists>x. s = memory_name x"
  unfolding memory_name_def by (metis (full_types) insertE singletonD)

lemma memory_command_text: "\<exists>t. memory_command c = ''AT+CPMS='' @ t"
proof -
  obtain x y z where "c = (x, y, z)" by (cases c)
  moreover have "storage_name (memory_name b)" for b using small_names by (simp add: memory_name_def)
  ultimately show ?thesis by (simp add: memory_command_def memory_names_def set_command_names)
qed

lemma small_modem_sets:
  "answer_small (memory_command c) m = (Some [], m\<lparr>mm_cur := c\<rparr>)"
proof -
  have "list_all (\<lambda>c. find (\<lambda>d. memory_command d = memory_command c) all_memories = Some c) all_memories"
    by code_simp
  then have "find (\<lambda>d. memory_command d = memory_command c) all_memories = Some c"
    using small_memories [of c] unfolding list_all_iff by blast
  moreover obtain t where "memory_command c = ''AT+CPMS='' @ t" using memory_command_text by blast
  ultimately show ?thesis by (simp add: answer_small_def Let_def)
qed

lemma small_modem_keeps: "keeps_storages {''SM'', ''ME''} answer_small (memory_names \<circ> mm_cur)"
  unfolding keeps_storages_def
proof (intro conjI allI impI)
  fix m :: small_modem
  have "list_all (\<lambda>c. case memory_names c of (x, y, z) \<Rightarrow> parse_cpms_storages (cpms_answer c) = [x, y, z]) all_memories"
    by code_simp
  then have "case memory_names (mm_cur m) of (x, y, z) \<Rightarrow> parse_cpms_storages (cpms_answer (mm_cur m)) = [x, y, z]"
    unfolding list_all_iff by (rule bspec) (rule small_memories)
  then show "case (memory_names \<circ> mm_cur) m of (a, b, c) \<Rightarrow> a \<in> {''SM'', ''ME''} \<and> b \<in> {''SM'', ''ME''} \<and> c \<in> {''SM'', ''ME''}
      \<and> (\<exists>resp. fst (answer_small ''AT+CPMS?'' m) = Some resp \<and> parse_cpms_storages resp = [a, b, c])
      \<and> (memory_names \<circ> mm_cur) (snd (answer_small ''AT+CPMS?'' m)) = (a, b, c)"
    by (auto simp: answer_small_def Let_def memory_names_def memory_name_def split: prod.splits)
next
  fix s assume "s \<in> {''SM'', ''ME''}"
  then show "storage_name s" using small_names by blast
next
  fix a b c :: string and m :: small_modem
  assume known: "a \<in> {''SM'', ''ME''} \<and> b \<in> {''SM'', ''ME''} \<and> c \<in> {''SM'', ''ME''}"
  obtain x y z where n: "a = memory_name x" "b = memory_name y" "c = memory_name z"
    using memory_of_name known by meson
  then have "cpms_set_command [a, b, c] = memory_command (x, y, z)" "memory_names (x, y, z) = (a, b, c)"
    unfolding memory_command_def memory_names_def n by simp_all
  then show "fst (answer_small (cpms_set_command [a, b, c]) m) \<noteq> None"
    "(memory_names \<circ> mm_cur) (snd (answer_small (cpms_set_command [a, b, c]) m)) = (a, b, c)"
    unfolding comp_def by (simp_all add: small_modem_sets)
next
  fix c :: string and m :: small_modem assume c: "has_prefix c ''AT+CMG''"
  have "memory_command d \<noteq> c" for d
  proof
    assume d: "memory_command d = c"
    obtain t where "memory_command d = ''AT+CPMS='' @ t" using memory_command_text by blast
    with c d show False using cmg_command(4) [of t] by simp
  qed
  then have "find (\<lambda>d. memory_command d = c) all_memories = None" by (simp add: find_None_iff)
  then show "(memory_names \<circ> mm_cur) (snd (answer_small c m)) = (memory_names \<circ> mm_cur) m"
    unfolding answer_small_def Let_def comp_def by (cases "map_of (mm_messages m) (fst (mm_cur m), drop 8 c)") simp_all
qed

theorem storages_are_given_back_witness:
  "memory_names (mm_cur (sw_modem (snd (run_prog small_io (read_sms_from_storage gsm_alpha ''SM'' ''1'')
     (small_world [((True, ''1''), ''00AA'')]))))) = (''ME'', ''ME'', ''ME'')"
proof -
  have "normalize_sms_storage ''SM'' = Some ''SM''" using small_names by (simp add: storage_name_def)
  then have "read_sms_from_storage gsm_alpha ''SM'' ''1'' \<in> storage_work gsm_alpha ''SM''"
    unfolding storage_work_def by blast
  moreover have "keeps_storages {''SM'', ''ME''} (si_exec small_io) (memory_names \<circ> mm_cur)"
    using small_modem_keeps by (simp add: small_io_def)
  ultimately show ?thesis
    using storages_are_given_back [of "{''SM'', ''ME''}" small_io "memory_names \<circ> mm_cur" "''SM''"
      "small_world [((True, ''1''), ''00AA'')]"]
    by (simp add: small_world_def memory_names_def memory_name_def)
qed

text \<open>
  Two goroutines, one told of a message in SM and one of a message in ME, select their storages in
  turn: the first reads its message and then deletes the other's, which nobody has read.
\<close>

theorem reader_deletes_the_message_of_another:
  "let w = interleave small_io [True, True, True, False, False, True, True, True]
       (read_sms_from_storage gsm_alpha ''SM'' ''1'') (read_sms_from_storage gsm_alpha ''ME'' ''1'')
       (small_world [((True, ''1''), ''00AA''), ((False, ''1''), ''00BB'')])
   in sw_told w = [GotMessage ''123'' ''aa'' 7] \<and> mm_messages (sw_modem w) = [((True, ''1''), ''00AA'')]"
  by code_simp

text \<open>
  A message that arrives between the listing of a storage and its clearing is deleted unread.
\<close>

primrec prog_steps :: "'m sms_io \<Rightarrow> nat \<Rightarrow> 'a at_prog \<Rightarrow> 'm sms_world \<Rightarrow> 'a at_prog \<times> 'm sms_world" where
  "prog_steps io 0 p w = (p, w)"
| "prog_steps io (Suc n) p w = (let (p, w) = prog_step io p w in prog_steps io n p w)"

definition arrives :: "bool \<Rightarrow> string \<Rightarrow> string \<Rightarrow> small_modem sms_world \<Rightarrow> small_modem sms_world" where
  "arrives st i pdu w =
     w\<lparr>sw_modem := (sw_modem w)\<lparr>mm_messages := mm_messages (sw_modem w) @ [((st, i), pdu)]\<rparr>\<rparr>"

theorem poll_deletes_what_it_has_not_read:
  "let (p, w) = prog_steps small_io 2 (check_sms_storage gsm_alpha ''ME'') (small_world [((False, ''1''), ''00AA'')]);
       w = snd (run_prog small_io p (arrives False ''2'' ''00BB'' w))
   in sw_told w = [GotMessage ''123'' ''aa'' 7] \<and> mm_messages (sw_modem w) = []"
  by code_simp

section \<open>Sending one part\<close>

lemma reference_line:
  fixes mr :: int
  defines "l \<equiv> ''+CMGS: '' @ itoa mr"
  shows "inner_line l" and "\<not> is_urc l" and "line_feed \<notin> set l" and "trim_space l = l"
    and "trim_space (CHR '' '' # itoa mr) = itoa mr" and "CHR '','' \<notin> set (itoa mr)"
proof -
  have chars: "\<not> is_digit (CHR ''E'')" "\<not> is_digit (CHR ''>'')" "\<not> is_digit line_feed" "\<not> is_digit (CHR '','')"
    by code_simp+
  have digits: "plain_char c" if "is_digit c" for c
    using that by (auto simp: is_digit_def digit_value_def plain_char_def space_codes_def Let_def split: if_splits)
  have out: "c \<notin> set (itoa mr)" if "c \<noteq> CHR ''-''" "\<not> is_digit c" for c using itoa_chars that by blast
  have E: "CHR ''E'' \<notin> set l" "CHR ''>'' \<notin> set l" and n: "line_feed \<notin> set l"
    using out chars by (auto simp: l_def line_feed_def)
  then show "line_feed \<notin> set l" by blast
  show "CHR '','' \<notin> set (itoa mr)" using out chars by simp
  have "l \<noteq> ''OK''" by (simp add: l_def)
  then show "inner_line l" using E by (auto simp: inner_line_def contains_iff)
  have "plain_char (CHR ''-'')" "plain_char (CHR ''+'')" by code_simp+
  then have ends: "plain_char c" if "c \<in> set (itoa mr)" for c using itoa_chars [OF that] digits by blast
  then show t: "trim_space l = l"
    using \<open>plain_char (CHR ''+'')\<close> by (intro trim_space_id) (simp_all add: l_def)
  show "\<not> is_urc l" unfolding is_urc_def t Let_def by (simp add: command_echoes_def l_def)
  have "trim_left_space (CHR '' '' # s) = trim_left_space s" for s
    by (simp add: trim_left_space_def trim_codes.simps [of _ "CHR '' '' # s"] space_codes_def)
  then have "trim_space (CHR '' '' # itoa mr) = trim_space (itoa mr)" by (simp add: trim_space_def)
  also have "\<dots> = itoa mr" using ends by (intro trim_space_id) simp_all
  finally show "trim_space (CHR '' '' # itoa mr) = itoa mr" .
qed

lemma cmgs_line_reads:
  assumes "trim_space l = l" and "has_prefix (to_upper l) ''+CMGS:''" and "trim_space (drop 6 l) = r" and "CHR '','' \<notin> set r"
  shows "cmgs_line l = atoi r"
  unfolding cmgs_line_def assms(1,3) Let_def using assms(2) index_byte_missing [OF assms(4)] by simp

lemma reference_read:
  assumes "in_int64 mr"
  shows "parse_cmgs_reference (joined [''> '', ''+CMGS: '' @ itoa mr]) = Some mr"
proof -
  let ?l = "''+CMGS: '' @ itoa mr"
  note l = reference_line [of mr]
  have "joined [''> '', ?l] = ''> '' @ line_feed # ?l" by (simp add: joined_def)
  moreover have "line_feed \<notin> set ''> ''" by (simp add: line_feed_def)
  ultimately have split: "split_on line_feed (joined [''> '', ?l]) = [''> '', ?l]"
    using split_on_append split_on_plain [OF l(3)] by metis
  have "to_upper ''+CMGS: '' = ''+CMGS: ''" by code_simp
  then have "has_prefix (to_upper ?l) ''+CMGS:''" by (simp add: to_upper_def)
  moreover have "trim_space (drop 6 ?l) = itoa mr" using l(5) by simp
  ultimately have "cmgs_line ?l = Some mr" using cmgs_line_reads [OF l(4) _ _ l(6)] atoi_itoa [OF assms] by simp
  moreover have "cmgs_line ''> '' = None" by code_simp
  ultimately show ?thesis
    unfolding parse_cmgs_reference_def line_feed_def [symmetric] split by (simp del: append_Cons)
qed

lemma prompt_exchange:
  assumes "inner_line l" and "\<not> is_urc l"
  shows "handle_command (cmgs_request n pdu) None t [RxLine ''> '', RxLine l, RxLine ''OK'']
    = Some (Answer (joined [''> '', l]),
        t\<lparr>at_writes := at_writes t @ [''AT+CMGS='' @ itoa n @ [CHR 0x0D, line_feed], pdu @ [CHR 0x1A]], at_streak := 0\<rparr>, [])"
proof -
  have "\<not> contains ''> '' ''ERROR''" "contains ''> '' ''>''" by (simp_all add: contains_def)
  then show ?thesis
    using assms by (simp add: inner_line_def handle_command_def cmgs_request_def wrote_def reset_at_timeout_def)
qed

text \<open>
  C2. A part is written to the port behind the prompt of its own command, closed with the
  control character, and its reference is read from the answer.
\<close>

theorem part_is_written_behind_the_prompt:
  assumes "in_int64 mr"
  shows "handle_command (cmgs_request n pdu) None t [RxLine ''> '', RxLine (''+CMGS: '' @ itoa mr), RxLine ''OK'']
    = Some (Answer (joined [''> '', ''+CMGS: '' @ itoa mr]),
        t\<lparr>at_writes := at_writes t @ [''AT+CMGS='' @ itoa n @ [CHR 0x0D, line_feed], pdu @ [CHR 0x1A]], at_streak := 0\<rparr>, [])
    \<and> parse_cmgs_reference (joined [''> '', ''+CMGS: '' @ itoa mr]) = Some mr"
  using prompt_exchange [OF reference_line(1,2)] reference_read [OF assms] by blast

theorem part_is_written_behind_the_prompt_witness:
  "\<exists>t. handle_command (cmgs_request 10 ''00AA'') (None :: unit option) quiet_port
      [RxLine ''> '', RxLine (''+CMGS: '' @ itoa 42), RxLine ''OK''] = Some (Answer (joined [''> '', ''+CMGS: '' @ itoa 42]), t, [])
    \<and> parse_cmgs_reference (joined [''> '', ''+CMGS: '' @ itoa 42]) = Some 42"
proof -
  have "in_int64 42" by (simp add: in_int64_def)
  from part_is_written_behind_the_prompt [OF this, of 10 "''00AA''" quiet_port, where 'a = unit]
  show ?thesis by blast
qed

end
