(* ===== verification/Pcsc_Channel.thy ===== *)
theory Pcsc_Channel
  imports SMS_Trim Go_Text
begin

text \<open>
  The smart card reader without a modem: \<open>internal/pcsc/channel.go\<close> and \<open>usim.go\<close>, and the
  adapter of \<open>internal/device/vowifi_pcsc_adapter.go\<close> that sends commands on it. The daemon and the
  card behind it are two parameters that thread a state of their own: \<open>dm\<close> for the calls that
  open and close, \<open>tx\<close> for a command to the card and its answer.
\<close>

datatype 'e pcsc_error =
    Link 'e | NotConnected | ReaderNameEmpty | ReaderNameTooLong nat
  | BadAidLength nat | OpenRefused bytes | BadChannel byte | ClassOutOfRange byte
  | AidRefused bytes | CloseRefused bytes | FileRefused bytes bytes
  | BinaryTooShort | BinaryRefused bytes | NoUsim "'e pcsc_error" "'e pcsc_error"
  | ImsiFileTooShort | ImsiTooShort string | AidEmpty | BadHex

type_synonym ('e, 's) card_tx = "bytes \<Rightarrow> 's \<Rightarrow> ('e pcsc_error, bytes) result \<times> 's"

datatype daemon_call =
  Dial | CardConnect string | BeginTransaction | EndTransaction | CardDisconnect | CloseClient

type_synonym ('e, 's) daemon = "daemon_call \<Rightarrow> 's \<Rightarrow> 'e pcsc_error option \<times> 's"

record pcsc_channel =
  pc_reader :: string
  pc_connected :: bool
  pc_channel :: byte
  pc_in_txn :: bool

definition max_logical_channel :: byte where "max_logical_channel = 19"
definition max_short_apdu :: nat where "max_short_apdu = 255"
definition max_reader_name :: nat where "max_reader_name = 128"

definition normalize_reader_name :: "string \<Rightarrow> string" where
  "normalize_reader_name s = trim_space s"

definition validate_reader_name :: "string \<Rightarrow> 'e pcsc_error option" where
  "validate_reader_name s =
     (let name = normalize_reader_name s in
      if name = [] then Some ReaderNameEmpty
      else if length name \<ge> max_reader_name then Some (ReaderNameTooLong (length name))
      else None)"

definition new_channel :: "string \<Rightarrow> pcsc_channel" where
  "new_channel reader = \<lparr>pc_reader = normalize_reader_name reader, pc_connected = False,
     pc_channel = 0, pc_in_txn = False\<rparr>"

section \<open>Opening and closing the reader\<close>

definition pcsc_connect ::
  "('e, 's) daemon \<Rightarrow> pcsc_channel \<Rightarrow> 's \<Rightarrow> 'e pcsc_error option \<times> pcsc_channel \<times> 's"
where
  "pcsc_connect dm c s =
     (if pc_connected c then (None, c, s)
      else if pc_reader c = [] then (Some ReaderNameEmpty, c, s)
      else case validate_reader_name (pc_reader c) of
        Some e \<Rightarrow> (Some e, c, s)
      | None \<Rightarrow>
          (case dm Dial s of
             (Some e, s) \<Rightarrow> (Some e, c, s)
           | (None, s) \<Rightarrow>
               (case dm (CardConnect (pc_reader c)) s of
                  (Some e, s) \<Rightarrow> (let (_, s) = dm CloseClient s in (Some e, c, s))
                | (None, s) \<Rightarrow>
                    (case dm BeginTransaction s of
                       (Some e, s) \<Rightarrow>
                         (let (_, s) = dm CardDisconnect s; (_, s) = dm CloseClient s
                          in (Some e, c, s))
                     | (None, s) \<Rightarrow> (None, c\<lparr>pc_connected := True, pc_in_txn := True\<rparr>, s)))))"

definition disconnect ::
  "('e, 's) daemon \<Rightarrow> pcsc_channel \<Rightarrow> 's \<Rightarrow> 'e pcsc_error list \<times> pcsc_channel \<times> 's"
where
  "disconnect dm c s =
     (if \<not> pc_connected c then ([], c, s)
      else
        (let (e1, s) = (if pc_in_txn c then dm EndTransaction s else (None, s));
             (e2, s) = dm CardDisconnect s;
             (e3, s) = dm CloseClient s
         in (List.map_filter id [e1, e2, e3],
             c\<lparr>pc_connected := False, pc_channel := 0, pc_in_txn := False\<rparr>, s)))"

section \<open>Commands\<close>

definition pcsc_status_ok :: "bytes \<Rightarrow> bool" where
  "pcsc_status_ok r \<longleftrightarrow> length r \<ge> 2 \<and> r ! (length r - 2) = 0x90 \<and> r ! (length r - 1) = 0x00"

definition status_has_more :: "bytes \<Rightarrow> bool" where
  "status_has_more r \<longleftrightarrow> length r \<ge> 2 \<and> r ! (length r - 2) = 0x61"

definition class_byte_for_channel :: "byte \<Rightarrow> byte \<Rightarrow> byte option" where
  "class_byte_for_channel cla ch =
     (if ch < 4 then Some (cla AND 0x9C OR ch)
      else if ch \<le> max_logical_channel then Some (cla AND 0xB0 OR 0x40 OR (ch - 4))
      else None)"

text \<open>
  At most \<open>n\<close> follow-up commands: one with the length the card asks for, or one that fetches
  the bytes it still has.
\<close>

fun transmit_loop ::
  "nat \<Rightarrow> ('e, 's) card_tx \<Rightarrow> bytes \<Rightarrow> bytes \<Rightarrow> 's \<Rightarrow> ('e pcsc_error, bytes) result \<times> 's"
where
  "transmit_loop 0 tx command resp s = (Ok resp, s)"
| "transmit_loop (Suc n) tx command resp s =
     (if length resp < 2 then (Ok resp, s)
      else
        (let sw1 = resp ! (length resp - 2); sw2 = resp ! (length resp - 1) in
         if sw1 = 0x6C then
           (if length command < 4 then (Ok resp, s)
            else
              (let retry = (if length command = 4 then command @ [sw2]
                            else butlast command @ [sw2])
               in case tx retry s of
                    (Ok r, s) \<Rightarrow> transmit_loop n tx command r s
                  | (bad, s) \<Rightarrow> (bad, s)))
         else if sw1 = 0x61 then
           (case command of
              [] \<Rightarrow> (Panic, s)
            | c # _ \<Rightarrow>
                (case tx [c AND 0xFC, 0xC0, 0x00, 0x00, sw2] s of
                   (Ok answer, s) \<Rightarrow>
                     transmit_loop n tx command (take (length resp - 2) resp @ answer) s
                 | (bad, s) \<Rightarrow> (bad, s)))
         else (Ok resp, s)))"

definition transmit_apdu ::
  "('e, 's) card_tx \<Rightarrow> bytes \<Rightarrow> 's \<Rightarrow> ('e pcsc_error, bytes) result \<times> 's"
where
  "transmit_apdu tx command s =
     (case tx command s of
        (Ok resp, s) \<Rightarrow> transmit_loop 8 tx command resp s
      | (bad, s) \<Rightarrow> (bad, s))"

fun with_answer ::
  "('e, 'a) result \<times> 's \<Rightarrow> ('a \<Rightarrow> 's \<Rightarrow> ('e, 'b) result \<times> 's) \<Rightarrow> ('e, 'b) result \<times> 's"
where
  "with_answer (Ok r, s) k = k r s"
| "with_answer (Fail e, s) k = (Fail e, s)"
| "with_answer (Panic, s) k = (Panic, s)"

definition manage_channel_open ::
  "('e, 's) card_tx \<Rightarrow> 's \<Rightarrow> ('e pcsc_error, byte) result \<times> 's"
where
  "manage_channel_open tx s =
     with_answer (transmit_apdu tx [0x00, 0x70, 0x00, 0x00, 0x01] s) (\<lambda>resp s.
       if length resp < 3 \<or> \<not> pcsc_status_ok resp then (Fail (OpenRefused resp), s)
       else if resp ! 0 = 0 \<or> resp ! 0 > max_logical_channel then (Fail (BadChannel (resp ! 0)), s)
       else (Ok (resp ! 0), s))"

definition select_aid ::
  "('e, 's) card_tx \<Rightarrow> byte \<Rightarrow> bytes \<Rightarrow> 's \<Rightarrow> ('e pcsc_error, unit) result \<times> 's"
where
  "select_aid tx ch aid s =
     (case class_byte_for_channel 0 ch of
        None \<Rightarrow> (Fail (ClassOutOfRange ch), s)
      | Some cla \<Rightarrow>
          with_answer (transmit_apdu tx ([cla, 0xA4, 0x04, 0x00, of_nat (length aid)] @ aid) s)
            (\<lambda>resp s.
              if length resp < 2 \<or> \<not> pcsc_status_ok resp \<and> \<not> status_has_more resp
              then (Fail (AidRefused resp), s) else (Ok (), s)))"

definition manage_channel_close ::
  "('e, 's) card_tx \<Rightarrow> pcsc_channel \<Rightarrow> byte \<Rightarrow> 's
   \<Rightarrow> ('e pcsc_error, unit) result \<times> pcsc_channel \<times> 's"
where
  "manage_channel_close tx c ch s =
     (if ch = 0 \<or> ch > max_logical_channel then (Fail (BadChannel ch), c, s)
      else case transmit_apdu tx [0x00, 0x70, 0x80, ch, 0x00] s of
        (Fail e, s) \<Rightarrow> (Fail e, c, s)
      | (Panic, s) \<Rightarrow> (Panic, c, s)
      | (Ok resp, s) \<Rightarrow>
          if length resp < 2 \<or> \<not> pcsc_status_ok resp then (Fail (CloseRefused resp), c, s)
          else (Ok (), if pc_channel c = ch then c\<lparr>pc_channel := 0\<rparr> else c, s))"

definition open_logical_channel ::
  "('e, 's) card_tx \<Rightarrow> pcsc_channel \<Rightarrow> bytes \<Rightarrow> 's
   \<Rightarrow> ('e pcsc_error, byte) result \<times> pcsc_channel \<times> 's"
where
  "open_logical_channel tx c aid s =
     (if \<not> pc_connected c then (Fail NotConnected, c, s)
      else if aid = [] \<or> length aid > max_short_apdu then (Fail (BadAidLength (length aid)), c, s)
      else case manage_channel_open tx s of
        (Fail e, s) \<Rightarrow> (Fail e, c, s)
      | (Panic, s) \<Rightarrow> (Panic, c, s)
      | (Ok ch, s) \<Rightarrow>
          (case select_aid tx ch aid s of
             (Ok _, s) \<Rightarrow> (Ok ch, c\<lparr>pc_channel := ch\<rparr>, s)
           | (Fail e, s) \<Rightarrow> (let (_, c, s) = manage_channel_close tx c ch s in (Fail e, c, s))
           | (Panic, s) \<Rightarrow> (Panic, c, s)))"

definition transmit ::
  "('e, 's) card_tx \<Rightarrow> pcsc_channel \<Rightarrow> bytes \<Rightarrow> 's \<Rightarrow> ('e pcsc_error, bytes) result \<times> 's"
where
  "transmit tx c command s =
     (if \<not> pc_connected c then (Fail NotConnected, s) else transmit_apdu tx command s)"

definition close_logical_channel ::
  "('e, 's) card_tx \<Rightarrow> pcsc_channel \<Rightarrow> byte \<Rightarrow> 's
   \<Rightarrow> ('e pcsc_error, unit) result \<times> pcsc_channel \<times> 's"
where
  "close_logical_channel tx c ch s =
     (if \<not> pc_connected c then (Ok (), c, s) else manage_channel_close tx c ch s)"

section \<open>Files of the card\<close>

definition fid_mf :: bytes where "fid_mf = [0x3F, 0x00]"
definition fid_iccid :: bytes where "fid_iccid = [0x2F, 0xE2]"
definition fid_imsi :: bytes where "fid_imsi = [0x6F, 0x07]"
definition aid_usim :: bytes where "aid_usim = [0xA0, 0x00, 0x00, 0x00, 0x87, 0x10, 0x02]"
definition aid_usim16 :: bytes where
  "aid_usim16 = [0xA0, 0x00, 0x00, 0x00, 0x87, 0x10, 0x02, 0xFF, 0x86, 0xFF, 0xFF, 0x89,
     0xFF, 0xFF, 0xFF, 0xFF]"

definition select_fid ::
  "('e, 's) card_tx \<Rightarrow> pcsc_channel \<Rightarrow> bytes \<Rightarrow> 's \<Rightarrow> ('e pcsc_error, unit) result \<times> 's"
where
  "select_fid tx c fid s =
     with_answer (transmit tx c ([0x00, 0xA4, 0x00, 0x04, of_nat (length fid)] @ fid) s)
       (\<lambda>resp s. if \<not> pcsc_status_ok resp \<and> \<not> status_has_more resp
                 then (Fail (FileRefused fid resp), s) else (Ok (), s))"

definition read_binary ::
  "('e, 's) card_tx \<Rightarrow> pcsc_channel \<Rightarrow> byte \<Rightarrow> 's \<Rightarrow> ('e pcsc_error, bytes) result \<times> 's"
where
  "read_binary tx c le s =
     with_answer (transmit tx c [0x00, 0xB0, 0x00, 0x00, le] s) (\<lambda>resp s.
       if length resp < 2 then (Fail BinaryTooShort, s)
       else if \<not> pcsc_status_ok resp \<and> \<not> status_has_more resp then (Fail (BinaryRefused resp), s)
       else (Ok (take (length resp - 2) resp), s))"

definition decimal_nibble :: "byte \<Rightarrow> string" where
  "decimal_nibble n = (if n \<le> 9 then [char_of (48 + unat n)] else [])"

definition nibble_digits :: "bytes \<Rightarrow> string" where
  "nibble_digits raw =
     concat (map (\<lambda>v. decimal_nibble (v AND 0x0F) @ decimal_nibble (drop_bit 4 v)) raw)"

definition decode_iccid :: "bytes \<Rightarrow> string" where
  "decode_iccid raw = trim_right_of ''F'' (nibble_digits raw)"

definition decode_imsi :: "bytes \<Rightarrow> ('e pcsc_error, string) result" where
  "decode_imsi raw =
     (if length raw < 2 then Fail ImsiFileTooShort
      else let s = char_of (48 + unat (drop_bit 4 (raw ! 1))) # nibble_digits (drop 2 raw)
        in if length s < 5 then Fail (ImsiTooShort s) else Ok s)"

definition read_iccid ::
  "('e, 's) card_tx \<Rightarrow> pcsc_channel \<Rightarrow> 's \<Rightarrow> ('e pcsc_error, string) result \<times> 's"
where
  "read_iccid tx c s =
     with_answer (select_fid tx c fid_mf s) (\<lambda>_ s.
     with_answer (select_fid tx c fid_iccid s) (\<lambda>_ s.
     with_answer (read_binary tx c 10 s) (\<lambda>raw s. (Ok (decode_iccid raw), s))))"

definition imsi_file ::
  "('e, 's) card_tx \<Rightarrow> pcsc_channel \<Rightarrow> 's \<Rightarrow> ('e pcsc_error, string) result \<times> 's"
where
  "imsi_file tx c s =
     with_answer (select_fid tx c fid_imsi s) (\<lambda>_ s.
     with_answer (read_binary tx c 9 s) (\<lambda>raw s. (decode_imsi raw, s)))"

definition read_imsi ::
  "('e, 's) card_tx \<Rightarrow> pcsc_channel \<Rightarrow> 's
   \<Rightarrow> ('e pcsc_error, string) result \<times> pcsc_channel \<times> 's"
where
  "read_imsi tx c s =
     (let read = (\<lambda>c s.
        let (r, s) = imsi_file tx c s in
        if r = Panic then (Panic, c, s)
        else if pc_channel c \<noteq> 0 then
          (let (_, c, s) = close_logical_channel tx c (pc_channel c) s in (r, c, s))
        else (r, c, s))
      in case open_logical_channel tx c aid_usim16 s of
           (Ok _, c, s) \<Rightarrow> read c s
         | (Panic, c, s) \<Rightarrow> (Panic, c, s)
         | (Fail e, c, s) \<Rightarrow>
             (case open_logical_channel tx c aid_usim s of
                (Ok _, c, s) \<Rightarrow> read c s
              | (Panic, c, s) \<Rightarrow> (Panic, c, s)
              | (Fail e2, c, s) \<Rightarrow> (Fail (NoUsim e e2), c, s)))"

definition decode_hex_aid :: "string \<Rightarrow> ('e pcsc_error, bytes) result" where
  "decode_hex_aid aid =
     (let aid = trim_space aid in
      if aid = [] then Fail AidEmpty
      else case hex_decode aid of None \<Rightarrow> Fail BadHex | Some b \<Rightarrow> Ok b)"

section \<open>The derived IMEI\<close>

definition luhn_double :: "nat \<Rightarrow> nat" where
  "luhn_double n = (if n * 2 > 9 then n * 2 - 9 else n * 2)"

definition imei_digits :: "string \<Rightarrow> nat list" where
  "imei_digits reader =
     (let h = trim_space reader; h = (if h = [] then ''vodoge-reader'' else h)
      in map (\<lambda>i. of_char (h ! (i mod length h)) mod 10) [0..<14])"

definition derived_imei :: "string \<Rightarrow> string" where
  "derived_imei reader =
     (let ds = imei_digits reader;
          total = sum_list (map (\<lambda>i. if (14 - i) mod 2 = 0 then luhn_double (ds ! i) else ds ! i) [0..<14])
      in map (\<lambda>d. char_of (48 + d)) (ds @ [(10 - total mod 10) mod 10]))"

section \<open>The adapter for the runtime\<close>

definition with_channel :: "int \<Rightarrow> bytes \<Rightarrow> bytes" where
  "with_channel ch cmd =
     (case cmd of
        [] \<Rightarrow> cmd
      | c # rest \<Rightarrow>
          if 0 < ch \<and> c AND 0x03 = 0 \<and> ch < 4 then ((c AND 0xFC) OR of_int ch) # rest else cmd)"

definition adapter_transmit ::
  "('e, 's) daemon \<Rightarrow> ('e, 's) card_tx \<Rightarrow> pcsc_channel \<Rightarrow> int \<Rightarrow> string \<Rightarrow> 's
   \<Rightarrow> ('e pcsc_error, string) result \<times> pcsc_channel \<times> 's"
where
  "adapter_transmit dm tx c ch hexAPDU s =
     (case pcsc_connect dm c s of
        (Some e, c, s) \<Rightarrow> (Fail e, c, s)
      | (None, c, s) \<Rightarrow>
          (case hex_decode (trim_space hexAPDU) of
             None \<Rightarrow> (Fail BadHex, c, s)
           | Some cmd \<Rightarrow>
               (let (r, s) = with_answer (transmit tx c (with_channel ch cmd) s)
                  (\<lambda>resp s. (Ok (to_upper (hex_encode resp)), s))
                in (r, c, s))))"

definition resolve_static_aid :: "string \<Rightarrow> string \<Rightarrow> (string \<times> string) option" where
  "resolve_static_aid app fallbackAID =
     (let app = to_lower (trim_space app); fallback = to_upper (trim_space fallbackAID) in
      if app = ''usim'' then Some (''A0000000871002FF86FFFF89FFFFFFFF'', ''pcsc_static'')
      else if app = ''isim'' then Some (''A0000000871004FF86FFFF89FFFFFFFF'', ''pcsc_static'')
      else if fallback \<noteq> [] then Some (fallback, ''fallback'')
      else None)"

section \<open>The state of a channel\<close>

text \<open>
  A channel holds a transaction exactly while it is connected, and has a logical channel only
  then, one the card may name.
\<close>

definition channel_ok :: "pcsc_channel \<Rightarrow> bool" where
  "channel_ok c \<longleftrightarrow> pc_in_txn c = pc_connected c \<and> (pc_channel c \<noteq> 0 \<longrightarrow> pc_connected c)
     \<and> pc_channel c \<le> max_logical_channel"

inductive channel_step ::
  "('e, 's) daemon \<Rightarrow> ('e, 's) card_tx \<Rightarrow> pcsc_channel \<times> 's \<Rightarrow> pcsc_channel \<times> 's \<Rightarrow> bool"
  for dm tx where
  step_connect: "pcsc_connect dm c s = (r, c', s') \<Longrightarrow> channel_step dm tx (c, s) (c', s')"
| step_disconnect: "disconnect dm c s = (r, c', s') \<Longrightarrow> channel_step dm tx (c, s) (c', s')"
| step_open: "open_logical_channel tx c aid s = (r, c', s') \<Longrightarrow> channel_step dm tx (c, s) (c', s')"
| step_close: "close_logical_channel tx c ch s = (r, c', s') \<Longrightarrow> channel_step dm tx (c, s) (c', s')"
| step_imsi: "read_imsi tx c s = (r, c', s') \<Longrightarrow> channel_step dm tx (c, s) (c', s')"
| step_adapter: "adapter_transmit dm tx c ch apdu s = (r, c', s') \<Longrightarrow> channel_step dm tx (c, s) (c', s')"

lemma with_answer_split:
  "with_answer p k = (case p of (Ok r, s) \<Rightarrow> k r s | (Fail e, s) \<Rightarrow> (Fail e, s) | (Panic, s) \<Rightarrow> (Panic, s))"
  by (cases p; cases "fst p") auto

lemma connect_ok: "pcsc_connect dm c s = (r, c', s') \<Longrightarrow> channel_ok c \<Longrightarrow> channel_ok c'"
  by (auto simp: pcsc_connect_def channel_ok_def Let_def split: if_splits option.splits prod.splits)

lemma disconnect_ok: "disconnect dm c s = (r, c', s') \<Longrightarrow> channel_ok c \<Longrightarrow> channel_ok c'"
  by (auto simp: disconnect_def channel_ok_def Let_def max_logical_channel_def split: if_splits prod.splits)

lemma manage_close_ok:
  "manage_channel_close tx c ch s = (r, c', s') \<Longrightarrow> channel_ok c
   \<Longrightarrow> channel_ok c' \<and> pc_connected c' = pc_connected c"
  by (auto simp: manage_channel_close_def channel_ok_def max_logical_channel_def
      split: if_splits prod.splits result.splits)

lemma close_ok: "close_logical_channel tx c ch s = (r, c', s') \<Longrightarrow> channel_ok c \<Longrightarrow> channel_ok c'"
  by (auto simp: close_logical_channel_def dest: manage_close_ok split: if_splits)

lemma manage_open_bound:
  "manage_channel_open tx s = (Ok ch, s') \<Longrightarrow> ch \<noteq> 0 \<and> ch \<le> max_logical_channel"
  by (auto simp: manage_channel_open_def with_answer_split split: if_splits prod.splits result.splits)

lemma open_ok: "open_logical_channel tx c aid s = (r, c', s') \<Longrightarrow> channel_ok c \<Longrightarrow> channel_ok c'"
  by (auto simp: open_logical_channel_def channel_ok_def Let_def dest: manage_open_bound
      dest!: manage_close_ok split: if_splits prod.splits result.splits)

lemma read_imsi_ok: "read_imsi tx c s = (r, c', s') \<Longrightarrow> channel_ok c \<Longrightarrow> channel_ok c'"
  by (auto simp: read_imsi_def Let_def dest!: open_ok close_ok split: if_splits prod.splits result.splits)

lemma adapter_ok: "adapter_transmit dm tx c ch apdu s = (r, c', s') \<Longrightarrow> channel_ok c \<Longrightarrow> channel_ok c'"
  by (auto simp: adapter_transmit_def Let_def dest!: connect_ok split: option.splits prod.splits)

lemmas channel_ops_ok = connect_ok disconnect_ok open_ok close_ok read_imsi_ok adapter_ok

interpretation pcsc: safety "\<lambda>(c, s). \<exists>reader. c = new_channel reader" "channel_step dm tx"
  "\<lambda>(c, s). channel_ok c" for dm :: "('e, 's) daemon" and tx
proof
  fix x :: "pcsc_channel \<times> 's"
  show "case x of (c, s) \<Rightarrow> \<exists>reader. c = new_channel reader \<Longrightarrow> case x of (c, s) \<Rightarrow> channel_ok c"
    by (auto simp: new_channel_def channel_ok_def)
next
  fix x y :: "pcsc_channel \<times> 's"
  assume "case x of (c, s) \<Rightarrow> channel_ok c" and "channel_step dm tx x y"
  then show "case y of (c, s) \<Rightarrow> channel_ok c"
    by (auto elim!: channel_step.cases dest: channel_ops_ok)
qed
lemma reader_r: "trim_space ''r'' = ''r''"
  by code_simp



section \<open>Answers in parts\<close>

text \<open>A card that gives its answers from a list, keeping the commands.\<close>

definition script_card :: "('e, bytes list \<times> bytes list) card_tx" where
  "script_card cmd st = (case st of
       ([], cs) \<Rightarrow> (Ok [], ([], cs @ [cmd]))
     | (a # as, cs) \<Rightarrow> (Ok a, (as, cs @ [cmd])))"

definition get_response :: "byte \<Rightarrow> byte \<Rightarrow> bytes" where
  "get_response k n = [k AND 0xFC, 0xC0, 0x00, 0x00, n]"

lemma transmit_loop_final:
  "sw1 \<noteq> 0x61 \<Longrightarrow> sw1 \<noteq> 0x6C
   \<Longrightarrow> transmit_loop n tx command (fin @ [sw1, sw2]) s = (Ok (fin @ [sw1, sw2]), s)"
  by (cases n) (simp_all add: nth_append)

lemma transmit_loop_parts:
  assumes "sw1 \<noteq> 0x61" and "sw1 \<noteq> 0x6C"
  shows "length ps < n \<Longrightarrow>
    transmit_loop n script_card (k # cs) (acc @ [0x61, m])
      (map (\<lambda>(d, x). d @ [0x61, x]) ps @ (fin @ [sw1, sw2]) # rest, seen) =
    (Ok (acc @ concat (map fst ps) @ fin @ [sw1, sw2]),
     (rest, seen @ map (get_response k) (m # map snd ps)))"
proof (induction ps arbitrary: n acc m seen)
  case Nil
  then obtain i where "n = Suc i" by (cases n) auto
  with assms show ?case
    by (cases i) (auto simp: script_card_def get_response_def nth_append)
next
  case (Cons p ps)
  then obtain i where n: "n = Suc i" "length ps < i" by (cases n) auto
  obtain d x where p: "p = (d, x)" by (cases p)
  show ?case
    using Cons.IH [OF n(2), of "acc @ d" x "seen @ [get_response k m]"]
    by (simp add: n(1) p script_card_def get_response_def nth_append)
qed

text \<open>
  An answer that the card gives in up to nine parts is put together: the data of all parts
  in order and the status of the last one.
\<close>

theorem answer_in_parts:
  assumes "length ps \<le> 8" and "sw1 \<noteq> 0x61" and "sw1 \<noteq> 0x6C"
  shows "transmit_apdu script_card (k # cs)
      (map (\<lambda>(d, x). d @ [0x61, x]) ps @ (fin @ [sw1, sw2]) # rest, seen) =
    (Ok (concat (map fst ps) @ fin @ [sw1, sw2]),
     (rest, seen @ (k # cs) # map (get_response k) (map snd ps)))"
proof (cases ps)
  case Nil
  with assms(2,3) show ?thesis
    by (simp add: transmit_apdu_def script_card_def transmit_loop_final)
next
  case (Cons p ps')
  obtain d x where p: "p = (d, x)" by (cases p)
  show ?thesis
    using transmit_loop_parts [OF assms(2,3), of ps' 8 k cs d x fin sw2 rest "seen @ [k # cs]"] assms(1)
    by (simp add: Cons p transmit_apdu_def script_card_def)
qed

theorem answer_in_parts_witness:
  "transmit_apdu script_card [0x00, 0xB0, 0x00, 0x00, 0x00] ([[1, 2, 0x61, 0x01], [3, 0x90, 0x00]], []) =
   (Ok [1, 2, 3, 0x90, 0x00], ([], [[0x00, 0xB0, 0x00, 0x00, 0x00], [0x00, 0xC0, 0x00, 0x00, 0x01]]))"
  using answer_in_parts [of "[([1, 2], 1)]" "0x90" 0 "[0xB0, 0x00, 0x00, 0x00]" "[3]" 0 "[]" "[]"]
  by (simp add: get_response_def)

section \<open>The logical channel of a command\<close>

text \<open>The channel that a class byte selects (ISO 7816-4).\<close>

definition channel_of_class :: "byte \<Rightarrow> byte" where
  "channel_of_class cla = (if cla AND 0x40 = 0 then cla AND 0x03 else 4 + (cla AND 0x0F))"

lemma class_bytes:
  assumes "c \<le> 19"
  shows "\<exists>k. class_byte_for_channel 0 c = Some k \<and> channel_of_class k = c
    \<and> channel_of_class (k AND 0xFC) = 4 * (c div 4)"
proof -
  have "list_all (\<lambda>n. case class_byte_for_channel 0 (of_nat n) of None \<Rightarrow> False
      | Some k \<Rightarrow> channel_of_class k = of_nat n
          \<and> channel_of_class (k AND 0xFC) = 4 * (of_nat n div 4)) [0..<20]"
    by code_simp
  moreover have "unat c < 20" using assms by (simp add: word_le_nat_alt)
  ultimately show ?thesis
    by (auto simp: list_all_iff split: option.splits dest!: bspec [of _ _ "unat c"])
qed

text \<open>
  The rest of an answer is fetched on another channel: the class byte of the command
  selects channel \<open>c\<close>, that of the GET RESPONSE sent for it the channel \<open>4 * (c div 4)\<close>, for
  the first three logical channels the basic one.
\<close>

theorem get_response_leaves_the_channel:
  assumes "c \<le> 19"
  shows "\<exists>k. class_byte_for_channel 0 c = Some k \<and> channel_of_class k = c
    \<and> (\<forall>cs d n fin. transmit_apdu script_card (k # cs) ([d @ [0x61, n], fin @ [0x90, 0x00]], []) =
         (Ok (d @ fin @ [0x90, 0x00]), ([], [k # cs, get_response k n]))
       \<and> channel_of_class (hd (get_response k n)) = 4 * (c div 4))"
proof -
  obtain k where k: "class_byte_for_channel 0 c = Some k" "channel_of_class k = c"
      "channel_of_class (k AND 0xFC) = 4 * (c div 4)"
    using class_bytes [OF assms] by blast
  have "transmit_apdu script_card (k # cs) ([d @ [0x61, n], fin @ [0x90, 0x00]], []) =
      (Ok (d @ fin @ [0x90, 0x00]), ([], [k # cs, get_response k n]))" for cs d n fin
    using transmit_loop_parts [of "0x90" "[]" 8 k cs d n fin 0 "[]" "[k # cs]"]
    by (simp add: transmit_apdu_def script_card_def)
  moreover have "channel_of_class (hd (get_response k n)) = 4 * (c div 4)" for n
    using k(3) by (simp add: get_response_def)
  ultimately show ?thesis using k(1,2) by blast
qed

theorem get_response_leaves_the_channel_witness:
  "\<exists>k. class_byte_for_channel 0 2 = Some k \<and> channel_of_class k = 2
    \<and> channel_of_class (hd (get_response k 5)) = 0"
  using get_response_leaves_the_channel [of 2] by auto

lemma script_answer:
  "transmit_apdu script_card cmd ((fin @ [0x90, sw2]) # rest, seen) =
     (Ok (fin @ [0x90, sw2]), (rest, seen @ [cmd]))"
  by (simp add: transmit_apdu_def script_card_def transmit_loop_final)

lemma decode_imsi_no_panic: "decode_imsi raw \<noteq> Panic"
  by (simp add: decode_imsi_def Let_def)

lemma channel_opened:
  assumes "c \<noteq> 0" and "c \<le> 19"
  shows "manage_channel_open script_card ([c, 0x90, 0x00] # rest, seen) =
    (Ok c, (rest, seen @ [[0x00, 0x70, 0x00, 0x00, 0x01]]))"
  using assms by (simp add: manage_channel_open_def pcsc_status_ok_def max_logical_channel_def
      script_answer [of _ "[c]", simplified])

lemma aid_usim16_length: "length aid_usim16 = 16" "aid_usim16 \<noteq> []"
  by (simp_all add: aid_usim16_def)

lemma aid_selected:
  assumes "class_byte_for_channel 0 c = Some k"
  shows "select_aid script_card c aid_usim16 ([0x90, 0x00] # rest, seen) =
    (Ok (), (rest, seen @ [[k, 0xA4, 0x04, 0x00, 16] @ aid_usim16]))"
  using assms by (simp add: select_aid_def pcsc_status_ok_def aid_usim16_length
      script_answer [of _ "[]", simplified])

text \<open>
  The IMSI is read past the application that was selected for it: the USIM is selected on
  the logical channel \<open>c\<close> that the card opened, but the commands that select EF\_IMSI and read it
  have the class byte of the basic channel.
\<close>

theorem imsi_is_read_on_the_basic_channel:
  assumes "c \<noteq> 0" and "c \<le> 19"
  shows "\<exists>k log. read_imsi script_card \<lparr>pc_reader = r, pc_connected = True, pc_channel = 0, pc_in_txn = True\<rparr>
      ([[c, 0x90, 0x00], [0x90, 0x00], [0x90, 0x00], raw @ [0x90, 0x00], [0x90, 0x00]], []) =
      (decode_imsi raw, \<lparr>pc_reader = r, pc_connected = True, pc_channel = 0, pc_in_txn = True\<rparr>, ([], log))
    \<and> log = [[0x00, 0x70, 0x00, 0x00, 0x01], [k, 0xA4, 0x04, 0x00, 16] @ aid_usim16,
        [0x00, 0xA4, 0x00, 0x04, 2] @ fid_imsi, [0x00, 0xB0, 0x00, 0x00, 9], [0x00, 0x70, 0x80, c, 0x00]]
    \<and> channel_of_class k = c"
proof -
  obtain k where k: "class_byte_for_channel 0 c = Some k" "channel_of_class k = c"
    using class_bytes [OF assms(2)] by blast
  let ?c = "\<lparr>pc_reader = r, pc_connected = True, pc_channel = 0, pc_in_txn = True\<rparr>"
  let ?open = "[0x00, 0x70, 0x00, 0x00, 0x01] :: bytes" and ?aid = "[k, 0xA4, 0x04, 0x00, 16] @ aid_usim16"
  have opened: "open_logical_channel script_card ?c aid_usim16 ([c, 0x90, 0x00] # [0x90, 0x00] # rest, []) =
      (Ok c, ?c\<lparr>pc_channel := c\<rparr>, (rest, [?open, ?aid]))" for rest
    using assms by (simp add: open_logical_channel_def aid_usim16_length max_short_apdu_def
      channel_opened [OF assms] aid_selected [OF k(1)])
  have imsi_read: "imsi_file script_card (?c\<lparr>pc_channel := c\<rparr>) ([0x90, 0x00] # (raw @ [0x90, 0x00]) # rest, seen) =
      (decode_imsi raw, (rest, seen @ [[0x00, 0xA4, 0x00, 0x04, 2] @ fid_imsi, [0x00, 0xB0, 0x00, 0x00, 9]]))" for rest seen
    by (simp add: imsi_file_def select_fid_def read_binary_def transmit_def pcsc_status_ok_def fid_imsi_def
        nth_append script_answer script_answer [of _ "[]", simplified])
  have closed: "close_logical_channel script_card (?c\<lparr>pc_channel := c\<rparr>) c ([[0x90, 0x00]], seen) =
      (Ok (), ?c, ([], seen @ [[0x00, 0x70, 0x80, c, 0x00]]))" for seen
    using assms by (simp add: close_logical_channel_def manage_channel_close_def pcsc_status_ok_def
        max_logical_channel_def script_answer [of _ "[]", simplified])
  show ?thesis
    using assms k(2) by (intro exI [of _ k])
      (simp add: read_imsi_def decode_imsi_no_panic opened [simplified] imsi_read [simplified] closed [simplified])
qed

theorem imsi_is_read_on_the_basic_channel_witness:
  "fst (read_imsi (script_card :: (unit, bytes list \<times> bytes list) card_tx)
      \<lparr>pc_reader = ''r'', pc_connected = True, pc_channel = 0, pc_in_txn = True\<rparr>
      ([[1, 0x90, 0x00], [0x90, 0x00], [0x90, 0x00],
        [0x08, 0x49, 0x06, 0x00, 0x21, 0x43, 0x65, 0x87, 0x09] @ [0x90, 0x00], [0x90, 0x00]], []))
    = Ok ''460001234567890''"
    (is "fst (read_imsi ?card ?c ([?o, ?s, ?s, ?raw @ _, ?s], [])) = _")
proof -
  have imsi: "decode_imsi ?raw = (Ok ''460001234567890'' :: (unit pcsc_error, string) result)"
    by code_simp
  obtain log k where "read_imsi ?card ?c ([?o, ?s, ?s, ?raw @ ?s, ?s], []) = (decode_imsi ?raw, ?c, ([], log))"
    using imsi_is_read_on_the_basic_channel [of 1 "''r''" ?raw, where 'a = unit] by auto
  then show ?thesis using imsi by simp
qed
section \<open>The check digit of the derived IMEI\<close>

text \<open>
  The Luhn sum of a number of 15 digits doubles every second digit from the right, the check
  digit first of those that are not doubled, which are the odd places from the left. The
  derived number doubles the even ones: it has 15 digits, but its check digit is not that of
  Luhn.
\<close>

definition luhn_valid :: "string \<Rightarrow> bool" where
  "luhn_valid s = (let n = length s in
     sum_list (map (\<lambda>i. let d = of_char (s ! i) - 48 in if (n - i) mod 2 = 0 then luhn_double d else d) [0..<n])
       mod 10 = 0)"

lemma derived_imei_digits:
  "length (derived_imei reader) = 15 \<and> list_all (\<lambda>c. digit_value c \<noteq> None) (derived_imei reader)"
proof -
  have "set (imei_digits reader) \<subseteq> {..<10}" by (auto simp: imei_digits_def Let_def)
  then have "\<forall>d \<in> set (imei_digits reader @ [(10 - t mod 10) mod 10]). d < 10" for t by auto
  then show ?thesis
    by (auto simp: derived_imei_def Let_def imei_digits_def list_all_iff digit_value_char)
qed

lemma derived_imei_is_no_luhn_number: "\<not> luhn_valid (derived_imei [])"
  by code_simp

end
