(* ===== verification/Pcsc_Occupancy.thy ===== *)
theory Pcsc_Occupancy
  imports Pcsc_Channel
begin

text \<open>
  Who uses which reader and which card, \<open>internal/pcsc/occupancy.go\<close>. A reader has one holder
  by its name and a card one by its ICCID; besides, every reader has a gate that one command
  at a time goes through. The two maps of holders and the set of closed gates are the state.
\<close>

record holder =
  ho_device :: string
  ho_kind :: string
  ho_reader :: string
  ho_iccid :: string

record occupancy =
  oc_by_reader :: "string \<rightharpoonup> holder"
  oc_by_iccid :: "string \<rightharpoonup> holder"
  oc_gates :: "string \<Rightarrow> bool"

definition kind_reader :: string where "kind_reader = ''reader''"
definition kind_modem :: string where "kind_modem = ''modem''"

definition new_occupancy :: occupancy where
  "new_occupancy = \<lparr>oc_by_reader = (\<lambda>_. None), oc_by_iccid = (\<lambda>_. None), oc_gates = (\<lambda>_. False)\<rparr>"

datatype occupancy_error = EmptyDevice | EmptyReader | ReaderInUse string string | CardInUse string string

text \<open>The gate of a reader: None while another command holds it.\<close>

definition guard_reader :: "string \<Rightarrow> occupancy \<Rightarrow> (string option \<times> occupancy) option" where
  "guard_reader name st =
     (let name = normalize_reader_name name in
      if name = [] then Some (None, st)
      else if oc_gates st name then None
      else Some (Some name, st\<lparr>oc_gates := (oc_gates st)(name := True)\<rparr>))"

definition leave_gate :: "string option \<Rightarrow> occupancy \<Rightarrow> occupancy" where
  "leave_gate g st = (case g of None \<Rightarrow> st | Some name \<Rightarrow> st\<lparr>oc_gates := (oc_gates st)(name := False)\<rparr>)"

definition trimmed_holder :: "holder \<Rightarrow> holder" where
  "trimmed_holder h = h\<lparr>ho_device := trim_space (ho_device h),
     ho_reader := normalize_reader_name (ho_reader h), ho_iccid := trim_space (ho_iccid h)\<rparr>"

definition held_by_other :: "(string \<rightharpoonup> holder) \<Rightarrow> string \<Rightarrow> string \<Rightarrow> holder option" where
  "held_by_other m k device =
     (if k = [] then None
      else case m k of None \<Rightarrow> None | Some cur \<Rightarrow> if ho_device cur \<noteq> device then Some cur else None)"

definition acquire_holder :: "holder \<Rightarrow> occupancy \<Rightarrow> occupancy_error option \<times> occupancy" where
  "acquire_holder h st =
     (let h = trimmed_holder h in
      if ho_device h = [] then (Some EmptyDevice, st)
      else if ho_kind h = kind_reader \<and> ho_reader h = [] then (Some EmptyReader, st)
      else case held_by_other (oc_by_reader st) (ho_reader h) (ho_device h) of
        Some cur \<Rightarrow> (Some (ReaderInUse (ho_reader h) (ho_device cur)), st)
      | None \<Rightarrow>
          (case held_by_other (oc_by_iccid st) (ho_iccid h) (ho_device h) of
             Some cur \<Rightarrow> (Some (CardInUse (ho_device cur) (ho_kind cur)), st)
           | None \<Rightarrow>
               (let st = (if ho_reader h \<noteq> []
                         then st\<lparr>oc_by_reader := (oc_by_reader st)(ho_reader h \<mapsto> h)\<rparr> else st);
                    st = (if ho_iccid h \<noteq> []
                         then st\<lparr>oc_by_iccid := (oc_by_iccid st)(ho_iccid h \<mapsto> h)\<rparr> else st)
                in (None, st))))"

definition drop_device :: "string \<Rightarrow> (string \<rightharpoonup> holder) \<Rightarrow> string \<rightharpoonup> holder" where
  "drop_device d m k = (case m k of None \<Rightarrow> None | Some h \<Rightarrow> if ho_device h = d then None else Some h)"

definition release_holder :: "string \<Rightarrow> occupancy \<Rightarrow> occupancy" where
  "release_holder device st =
     (let d = trim_space device in
      st\<lparr>oc_by_reader := drop_device d (oc_by_reader st), oc_by_iccid := drop_device d (oc_by_iccid st)\<rparr>)"

definition holder_of_reader :: "string \<Rightarrow> occupancy \<Rightarrow> holder option" where
  "holder_of_reader name st = oc_by_reader st (normalize_reader_name name)"

section \<open>A reader and a card stay with their holder\<close>

datatype occupancy_op = Acquire holder | Release string | Guard string | Leave string

fun occupancy_run :: "occupancy_op list \<Rightarrow> occupancy \<Rightarrow> occupancy" where
  "occupancy_run [] st = st"
| "occupancy_run (Acquire h # ops) st = occupancy_run ops (snd (acquire_holder h st))"
| "occupancy_run (Release d # ops) st = occupancy_run ops (release_holder d st)"
| "occupancy_run (Guard n # ops) st =
     occupancy_run ops (case guard_reader n st of None \<Rightarrow> st | Some (_, st) \<Rightarrow> st)"
| "occupancy_run (Leave n # ops) st = occupancy_run ops (leave_gate (Some n) st)"

definition holds_reader :: "string \<Rightarrow> string \<Rightarrow> occupancy \<Rightarrow> bool" where
  "holds_reader d r st \<longleftrightarrow> (\<exists>h. oc_by_reader st r = Some h \<and> ho_device h = d)"

definition holds_card :: "string \<Rightarrow> string \<Rightarrow> occupancy \<Rightarrow> bool" where
  "holds_card d i st \<longleftrightarrow> (\<exists>h. oc_by_iccid st i = Some h \<and> ho_device h = d)"

lemma acquire_keeps:
  "holds_reader d r st \<Longrightarrow> holds_reader d r (snd (acquire_holder h st))"
  "holds_card d i st \<Longrightarrow> holds_card d i (snd (acquire_holder h st))"
  by (auto simp: acquire_holder_def holds_reader_def holds_card_def held_by_other_def Let_def
      split: option.splits if_splits)

lemma release_keeps:
  "holds_reader d r st \<Longrightarrow> trim_space d' \<noteq> d \<Longrightarrow> holds_reader d r (release_holder d' st)"
  "holds_card d i st \<Longrightarrow> trim_space d' \<noteq> d \<Longrightarrow> holds_card d i (release_holder d' st)"
  by (auto simp: release_holder_def holds_reader_def holds_card_def drop_device_def Let_def)

lemma gates_keep:
  "oc_by_reader (leave_gate g st) = oc_by_reader st" "oc_by_iccid (leave_gate g st) = oc_by_iccid st"
  "guard_reader n st = Some (x, st') \<Longrightarrow> oc_by_reader st' = oc_by_reader st \<and> oc_by_iccid st' = oc_by_iccid st"
  by (auto simp: leave_gate_def guard_reader_def Let_def split: option.splits if_splits)

lemma run_keeps_reader:
  "holds_reader d r st \<Longrightarrow> (\<And>d'. Release d' \<in> set ops \<Longrightarrow> trim_space d' \<noteq> d)
   \<Longrightarrow> holds_reader d r (occupancy_run ops st)"
proof (induction ops st rule: occupancy_run.induct)
  case (2 h ops st)
  then show ?case using acquire_keeps(1) [OF 2(2)] by simp
next
  case (3 d' ops st)
  then show ?case using release_keeps(1) [OF 3(2), of d'] by simp
qed (auto simp: holds_reader_def gates_keep split: option.splits dest!: gates_keep(3))

lemma run_keeps_card:
  "holds_card d i st \<Longrightarrow> (\<And>d'. Release d' \<in> set ops \<Longrightarrow> trim_space d' \<noteq> d)
   \<Longrightarrow> holds_card d i (occupancy_run ops st)"
proof (induction ops st rule: occupancy_run.induct)
  case (2 h ops st)
  then show ?case using acquire_keeps(2) [OF 2(2)] by simp
next
  case (3 d' ops st)
  then show ?case using release_keeps(2) [OF 3(2), of d'] by simp
qed (auto simp: holds_card_def gates_keep split: option.splits dest!: gates_keep(3))

lemma acquired_holds:
  assumes "acquire_holder h st = (None, st')"
  shows "ho_reader (trimmed_holder h) \<noteq> [] \<Longrightarrow> holds_reader (trim_space (ho_device h)) (ho_reader (trimmed_holder h)) st'"
    and "ho_iccid (trimmed_holder h) \<noteq> [] \<Longrightarrow> holds_card (trim_space (ho_device h)) (ho_iccid (trimmed_holder h)) st'"
  using assms
  by (auto simp: acquire_holder_def Let_def holds_reader_def holds_card_def split: option.splits if_splits)
    (simp_all add: trimmed_holder_def)

lemma held_is_refused:
  assumes "trim_space (ho_device h') \<noteq> d"
    and "ho_reader (trimmed_holder h') \<noteq> [] \<and> holds_reader d (ho_reader (trimmed_holder h')) st
      \<or> ho_iccid (trimmed_holder h') \<noteq> [] \<and> holds_card d (ho_iccid (trimmed_holder h')) st"
  shows "\<exists>e. acquire_holder h' st = (Some e, st)"
proof -
  have "ho_device (trimmed_holder h') \<noteq> d" using assms(1) by (simp add: trimmed_holder_def)
  with assms(2) show ?thesis
    by (auto simp: acquire_holder_def Let_def holds_reader_def holds_card_def held_by_other_def
        split: option.splits)
qed

text \<open>
  C30. A device that has taken a reader or a card keeps it until it releases it: whatever the
  other devices take, release and guard in the meantime, nobody else can take that reader or
  that card, and the attempt changes nothing.
\<close>

theorem holder_keeps_reader_and_card:
  assumes "acquire_holder h st = (None, st')"
    and "\<And>d. Release d \<in> set ops \<Longrightarrow> trim_space d \<noteq> trim_space (ho_device h)"
    and "trim_space (ho_device h') \<noteq> trim_space (ho_device h)"
    and "ho_reader (trimmed_holder h') = ho_reader (trimmed_holder h) \<and> ho_reader (trimmed_holder h) \<noteq> []
      \<or> ho_iccid (trimmed_holder h') = ho_iccid (trimmed_holder h) \<and> ho_iccid (trimmed_holder h) \<noteq> []"
  shows "\<exists>e. acquire_holder h' (occupancy_run ops st') = (Some e, occupancy_run ops st')"
proof (rule held_is_refused [OF assms(3)])
  show "ho_reader (trimmed_holder h') \<noteq> []
      \<and> holds_reader (trim_space (ho_device h)) (ho_reader (trimmed_holder h')) (occupancy_run ops st')
    \<or> ho_iccid (trimmed_holder h') \<noteq> []
      \<and> holds_card (trim_space (ho_device h)) (ho_iccid (trimmed_holder h')) (occupancy_run ops st')"
    using assms(4) acquired_holds [OF assms(1)] run_keeps_reader [OF _ assms(2)]
      run_keeps_card [OF _ assms(2)] by metis
qed

definition reader_a :: holder where
  "reader_a = \<lparr>ho_device = ''a'', ho_kind = kind_reader, ho_reader = ''R'', ho_iccid = ''8986''\<rparr>"

definition modem_b :: holder where
  "modem_b = \<lparr>ho_device = ''b'', ho_kind = kind_modem, ho_reader = [], ho_iccid = ''8986''\<rparr>"

theorem holder_keeps_reader_and_card_witness:
  "\<exists>e. acquire_holder modem_b
      (occupancy_run [Guard ''R'', Release ''b''] (snd (acquire_holder reader_a new_occupancy)))
    = (Some e, occupancy_run [Guard ''R'', Release ''b''] (snd (acquire_holder reader_a new_occupancy)))"
proof -
  have t: "trim_space ''a'' = ''a''" "trim_space ''b'' = ''b''" "trim_space ''8986'' = ''8986''"
    "trim_space ''R'' = ''R''" by code_simp+
  have "acquire_holder reader_a new_occupancy = (None, snd (acquire_holder reader_a new_occupancy))"
    by (simp add: acquire_holder_def reader_a_def trimmed_holder_def t new_occupancy_def held_by_other_def
        normalize_reader_name_def kind_reader_def Let_def)
  then show ?thesis
    by (rule holder_keeps_reader_and_card)
      (auto simp: reader_a_def modem_b_def trimmed_holder_def normalize_reader_name_def t)
qed

text \<open>
  A device that takes another card does not give the first one back: both stay with it until
  it releases everything.
\<close>

lemma former_card_is_still_held:
  assumes "acquire_holder h st = (None, st1)" and "acquire_holder h' st1 = (None, st2)"
    and "trim_space (ho_device h') = trim_space (ho_device h)" and "trim_space (ho_iccid h) \<noteq> []"
  shows "holds_card (trim_space (ho_device h)) (trim_space (ho_iccid h)) st2"
  using acquired_holds(2) [OF assms(1)] acquire_keeps(2) [of _ _ st1 h'] assms
  by (simp add: trimmed_holder_def)

section \<open>The gates\<close>

lemma gate_is_exclusive:
  "guard_reader n st = Some (Some g, st') \<Longrightarrow> normalize_reader_name m = g \<Longrightarrow> guard_reader m st' = None"
  by (auto simp: guard_reader_def Let_def split: if_splits)

lemma gate_opens_again:
  "guard_reader n st = Some (g, st') \<Longrightarrow> leave_gate g st' = st"
  by (auto simp: guard_reader_def leave_gate_def Let_def fun_upd_idem split: if_splits)

end
