(* ===== verification/Sim_Aka.thy ===== *)
theory Sim_Aka
  imports SMS_Trim Go_Text
begin

text \<open>
  Authentication with the card, \<open>internal/sim\<close>: the APDU of USIM AUTHENTICATE and its answer,
  the run over a logical channel with its choice between ISIM and USIM, the search for an
  application in EF\_DIR and the choice of the provider. The modem is a record of functions
  that thread a state of their own; whether it can resolve application identifiers itself is
  the option in its last field.
\<close>

section \<open>USIM AUTHENTICATE\<close>

record usim_aka_result =
  aka_res :: bytes
  aka_ck :: bytes
  aka_ik :: bytes
  aka_auts :: bytes

definition no_aka :: usim_aka_result where
  "no_aka = \<lparr>aka_res = [], aka_ck = [], aka_ik = [], aka_auts = []\<rparr>"

datatype sim_app = UsimApp | IsimApp

datatype 'e aka_error =
    BadRandLength nat | BadAutnLength nat | ApduStatus byte byte | AkaTooShort nat | BodyTooShort
  | BodyLength nat nat | SuccessUnreadable | MacFailure | UnknownTag byte
  | ModemError 'e | BadAnswerHex | GetResponseTooShort nat
  | AidNotReady sim_app | OpenFailed sim_app 'e | BothFailed sim_app "'e aka_error" "'e aka_error"
  | AidEmpty | AidPrefix string | AidNotFull string
  | EfDirOpen 'e | EfDirMf "'e aka_error option" byte byte | EfDirSelect "'e aka_error option" byte byte
  | EfDirRecord nat "'e aka_error" | EfDirMissing string | SyncFailure

definition build_usim_auth_apdu :: "bytes \<Rightarrow> bytes \<Rightarrow> bool \<Rightarrow> ('e aka_error, bytes) result" where
  "build_usim_auth_apdu rand autn include_le =
     (if length rand \<noteq> 16 then Fail (BadRandLength (length rand))
      else if length autn \<noteq> 16 then Fail (BadAutnLength (length autn))
      else
        (let d = [0x10] @ rand @ [0x10] @ autn
         in Ok ([0x00, 0x88, 0x00, 0x81, of_nat (length d)] @ d @ (if include_le then [0x00] else []))))"

definition parse_tlv_data :: "bytes \<Rightarrow> ('e aka_error, bytes) result" where
  "parse_tlv_data body =
     (if length body < 2 then Fail BodyTooShort
      else at_index body 1 (\<lambda>b.
        let l = unat b in
        if length body < 2 + l then Fail (BodyLength (2 + l) (length body))
        else cut body 2 (2 + l) Ok))"

text \<open>\<open>None\<close> inside \<open>Ok\<close> is the \<open>false\<close> of \<open>parseUSIMAuthDB\<close>.\<close>

definition parse_usim_auth_db :: "bytes \<Rightarrow> ('e aka_error, usim_aka_result option) result" where
  "parse_usim_auth_db body =
     (if length body < 2 then Ok None
      else at_index body 0 (\<lambda>tag.
        if tag \<noteq> 0xDB then Ok None
        else at_index body 1 (\<lambda>rl.
          let resLen = unat rl; pos = 2 in
          if resLen \<le> 0 \<or> length body < pos + resLen + 1 then Ok None
          else cut body pos (pos + resLen) (\<lambda>res.
            let pos = pos + resLen; remain = length body - pos in
            if remain = 32 then
              cut body pos (pos + 16) (\<lambda>ck. cut body (pos + 16) (pos + 32) (\<lambda>ik.
                Ok (Some (no_aka\<lparr>aka_res := res, aka_ck := ck, aka_ik := ik\<rparr>))))
            else at_index body pos (\<lambda>cl.
              let ckLen = unat cl; pos = pos + 1 in
              if ckLen \<le> 0 \<or> length body < pos + ckLen + 1 then Ok None
              else cut body pos (pos + ckLen) (\<lambda>ck.
                let pos = pos + ckLen in
                at_index body pos (\<lambda>il.
                  let ikLen = unat il; pos = pos + 1 in
                  if ikLen \<le> 0 \<or> length body < pos + ikLen then Ok None
                  else cut body pos (pos + ikLen) (\<lambda>ik.
                    Ok (Some (no_aka\<lparr>aka_res := res, aka_ck := ck, aka_ik := ik\<rparr>))))))))))"

definition parse_usim_auth_response :: "bytes \<Rightarrow> ('e aka_error, usim_aka_result) result" where
  "parse_usim_auth_response resp =
     (if length resp = 2 then at_index resp 0 (\<lambda>a. at_index resp 1 (\<lambda>b. Fail (ApduStatus a b)))
      else if length resp < 4 then Fail (AkaTooShort (length resp))
      else at_index resp (length resp - 2) (\<lambda>sw1. at_index resp (length resp - 1) (\<lambda>sw2.
        cut resp 0 (length resp - 2) (\<lambda>body.
        if sw1 \<noteq> 0x90 \<or> sw2 \<noteq> 0x00 then Fail (ApduStatus sw1 sw2)
        else if length body < 2 then Fail BodyTooShort
        else at_index body 0 (\<lambda>tag.
          if tag = 0xDB then
            and_then (parse_usim_auth_db body) (\<lambda>r.
              case r of Some out \<Rightarrow> Ok out
              | None \<Rightarrow>
                  and_then (parse_tlv_data body) (\<lambda>d.
                  and_then (parse_usim_auth_db (0xDB # d)) (\<lambda>r.
                    case r of Some out \<Rightarrow> Ok out | None \<Rightarrow> Fail SuccessUnreadable)))
          else if tag = 0xDC then
            and_then (parse_tlv_data body) (\<lambda>d. Ok (no_aka\<lparr>aka_auts := d\<rparr>))
          else if tag = 0xDD then Fail MacFailure
          else and_then (parse_tlv_data body) (\<lambda>_. Fail (UnknownTag tag)))))))"

section \<open>The modem\<close>

record ('e, 's) modem =
  md_open :: "string \<Rightarrow> 's \<Rightarrow> ('e + int) \<times> 's"
  md_close :: "int \<Rightarrow> 's \<Rightarrow> 'e option \<times> 's"
  md_transmit :: "int \<Rightarrow> string \<Rightarrow> 's \<Rightarrow> ('e + string) \<times> 's"
  md_resolve :: "(string \<Rightarrow> string \<Rightarrow> 's \<Rightarrow> ('e + string \<times> string) \<times> 's) option"

definition usim_aid_prefix :: string where "usim_aid_prefix = ''A0000000871002''"
definition isim_aid_prefix :: string where "isim_aid_prefix = ''A0000000871004''"

definition validate_full_aid :: "string \<Rightarrow> string \<Rightarrow> ('e aka_error, string) result" where
  "validate_full_aid aid expected =
     (let aid = to_upper (trim_space aid) in
      if aid = [] then Fail AidEmpty
      else if \<not> has_prefix aid expected then Fail (AidPrefix aid)
      else if length aid \<le> length expected then Fail (AidNotFull aid)
      else Ok aid)"

definition app_name :: "sim_app \<Rightarrow> string" where
  "app_name a = (case a of UsimApp \<Rightarrow> ''usim'' | IsimApp \<Rightarrow> ''isim'')"

definition app_prefix :: "sim_app \<Rightarrow> string" where
  "app_prefix a = (case a of UsimApp \<Rightarrow> usim_aid_prefix | IsimApp \<Rightarrow> isim_aid_prefix)"

definition resolve_channel_aid ::
  "('e, 's) modem \<Rightarrow> sim_app \<Rightarrow> string \<Rightarrow> string \<Rightarrow> 's
   \<Rightarrow> ('e aka_error, string \<times> string) result \<times> 's"
where
  "resolve_channel_aid md app fallbackAID expected s =
     (let fallback = to_upper (trim_space fallbackAID); not_ready = Fail (AidNotReady app) in
      case md_resolve md of
        None \<Rightarrow> (not_ready, s)
      | Some resolve \<Rightarrow>
          (case resolve (app_name app) fallback s of
             (Inl e, s) \<Rightarrow> (not_ready, s)
           | (Inr (aid, source), s) \<Rightarrow>
               (case (validate_full_aid aid expected :: ('e aka_error, string) result) of
                  Ok full \<Rightarrow>
                    (let source = trim_space source
                     in (Ok (full, if source = [] then ''resolver'' else source), s))
                | _ \<Rightarrow> (not_ready, s))))"

definition send_hex ::
  "('e, 's) modem \<Rightarrow> int \<Rightarrow> bytes \<Rightarrow> 's \<Rightarrow> ('e aka_error, bytes) result \<times> 's"
where
  "send_hex md ch cmd s =
     (case md_transmit md ch (hex_encode cmd) s of
        (Inl e, s) \<Rightarrow> (Fail (ModemError e), s)
      | (Inr hex, s) \<Rightarrow>
          (case hex_decode hex of None \<Rightarrow> (Fail BadAnswerHex, s) | Some r \<Rightarrow> (Ok r, s)))"

text \<open>The answer with its two status bytes; what is left of a 61xx answer is fetched.\<close>

definition send_on_channel ::
  "('e, 's) modem \<Rightarrow> int \<Rightarrow> bytes \<Rightarrow> 's \<Rightarrow> ('e aka_error, bytes \<times> byte \<times> byte) result \<times> 's"
where
  "send_on_channel md ch apdu s =
     (case send_hex md ch apdu s of
        (Fail e, s) \<Rightarrow> (Fail e, s) | (Panic, s) \<Rightarrow> (Panic, s)
      | (Ok resp, s) \<Rightarrow>
          if length resp < 2 then (Fail (AkaTooShort (length resp)), s)
          else
            (let sw1 = resp ! (length resp - 2); sw2 = resp ! (length resp - 1) in
             if sw1 = 0x61 \<and> sw2 \<noteq> 0x00 then
               (case send_hex md ch [0x00, 0xC0, 0x00, 0x00, sw2] s of
                  (Fail e, s) \<Rightarrow> (Fail e, s) | (Panic, s) \<Rightarrow> (Panic, s)
                | (Ok r2, s) \<Rightarrow>
                    if length r2 < 2 then (Fail (GetResponseTooShort (length r2)), s)
                    else (Ok (take (length r2 - 2) r2, r2 ! (length r2 - 2), r2 ! (length r2 - 1)), s))
             else (Ok (take (length resp - 2) resp, sw1, sw2), s)))"

definition send_logical_auth ::
  "('e, 's) modem \<Rightarrow> int \<Rightarrow> bytes \<Rightarrow> 's \<Rightarrow> ('e aka_error, usim_aka_result) result \<times> 's"
where
  "send_logical_auth md ch apdu s =
     (case send_on_channel md ch apdu s of
        (Fail e, s) \<Rightarrow> (Fail e, s) | (Panic, s) \<Rightarrow> (Panic, s)
      | (Ok (body, sw1, sw2), s) \<Rightarrow> (parse_usim_auth_response (body @ [sw1, sw2]), s))"

text \<open>With the length of the answer in the command, if the first try without it fails.\<close>

definition auth_on_channel ::
  "('e, 's) modem \<Rightarrow> sim_app \<Rightarrow> int \<Rightarrow> bytes \<Rightarrow> bytes \<Rightarrow> 's \<Rightarrow> ('e aka_error, usim_aka_result) result \<times> 's"
where
  "auth_on_channel md app ch rand autn s =
     (case build_usim_auth_apdu rand autn False of
        Fail e \<Rightarrow> (Fail e, s) | Panic \<Rightarrow> (Panic, s)
      | Ok apdu \<Rightarrow>
          (case send_logical_auth md ch apdu s of
             (Ok r, s) \<Rightarrow> (Ok r, s) | (Panic, s) \<Rightarrow> (Panic, s)
           | (Fail e, s) \<Rightarrow>
               (case build_usim_auth_apdu rand autn True of
                  Fail e2 \<Rightarrow> (Fail e2, s) | Panic \<Rightarrow> (Panic, s)
                | Ok apdu2 \<Rightarrow>
                    (case send_logical_auth md ch apdu2 s of
                       (Ok r, s) \<Rightarrow> (Ok r, s) | (Panic, s) \<Rightarrow> (Panic, s)
                     | (Fail e2, s) \<Rightarrow> (Fail (BothFailed app e e2), s)))))"

definition calculate_aka_on ::
  "('e, 's) modem \<Rightarrow> sim_app \<Rightarrow> bytes \<Rightarrow> bytes \<Rightarrow> 's \<Rightarrow> ('e aka_error, usim_aka_result) result \<times> 's"
where
  "calculate_aka_on md app rand autn s =
     (case resolve_channel_aid md app (app_prefix app) (app_prefix app) s of
        (Fail e, s) \<Rightarrow> (Fail e, s) | (Panic, s) \<Rightarrow> (Panic, s)
      | (Ok (aid, source), s) \<Rightarrow>
          (case md_open md aid s of
             (Inl e, s) \<Rightarrow> (Fail (OpenFailed app e), s)
           | (Inr ch, s) \<Rightarrow>
               (let (r, s) = auth_on_channel md app ch rand autn s;
                    (_, s) = md_close md ch s
                in (r, s))))"

section \<open>ISIM or USIM\<close>

datatype preference = PrefUsim | PrefAuto | PrefIsim | PrefIsimStrict

definition aka_preference :: "string \<Rightarrow> preference" where
  "aka_preference p =
     (let p = to_lower (trim_space p) in
      if p = ''auto'' then PrefAuto else if p = ''isim'' then PrefIsim
      else if p = ''isim_strict'' then PrefIsimStrict else PrefUsim)"

record aka_profile =
  ap_selected :: sim_app
  ap_preference :: preference
  ap_fallback :: bool

definition calculate_aka ::
  "('e, 's) modem \<Rightarrow> bytes \<Rightarrow> bytes \<Rightarrow> string \<Rightarrow> aka_profile option \<Rightarrow> 's
   \<Rightarrow> ('e aka_error, usim_aka_result) result \<times> aka_profile option \<times> 's"
where
  "calculate_aka md rand autn prefer prof s =
     (let pref = aka_preference prefer;
          on_usim = (\<lambda>fallback s.
            case calculate_aka_on md UsimApp rand autn s of
              (Ok r, s) \<Rightarrow> (Ok r, Some \<lparr>ap_selected = UsimApp, ap_preference = pref, ap_fallback = fallback\<rparr>, s)
            | (bad, s) \<Rightarrow> (bad, prof, s))
      in if pref = PrefUsim then on_usim False s
         else (case calculate_aka_on md IsimApp rand autn s of
             (Ok r, s) \<Rightarrow> (Ok r, Some \<lparr>ap_selected = IsimApp, ap_preference = pref, ap_fallback = False\<rparr>, s)
           | (Panic, s) \<Rightarrow> (Panic, prof, s)
           | (Fail e, s) \<Rightarrow>
               if pref = PrefIsimStrict then (Fail e, prof, s) else on_usim True s))"

section \<open>EF\_DIR\<close>

definition select_file_apdu :: "byte \<Rightarrow> u16 \<Rightarrow> bytes" where
  "select_file_apdu cla fid = [cla, 0xA4, 0x00, 0x04, 0x02, ucast (drop_bit 8 fid), ucast fid]"

definition select_by_aid_apdu :: "byte \<Rightarrow> bytes \<Rightarrow> bytes" where
  "select_by_aid_apdu cla aid = [cla, 0xA4, 0x04, 0x00, of_nat (length aid)] @ aid"

definition read_record_apdu :: "byte \<Rightarrow> byte \<Rightarrow> bytes" where
  "read_record_apdu cla rec = [cla, 0xB2, rec, 0x04, 0x00]"

definition is_apdu_success :: "byte \<Rightarrow> byte \<Rightarrow> bool" where
  "is_apdu_success sw1 sw2 \<longleftrightarrow> list_ex (\<lambda>b. b \<in> {0x90, 0x91, 0x61}) [sw1, sw2]"

definition is_record_not_found :: "byte \<Rightarrow> byte \<Rightarrow> bool" where
  "is_record_not_found sw1 sw2 \<longleftrightarrow>
     sw1 = 0x6A \<and> (sw2 = 0x83 \<or> sw2 = 0x82) \<or> sw2 = 0x6A \<and> (sw1 = 0x83 \<or> sw1 = 0x82)"

definition efdir_transmit ::
  "('e, 's) modem \<Rightarrow> int \<Rightarrow> bytes \<Rightarrow> 's \<Rightarrow> ('e aka_error, bytes \<times> byte \<times> byte) result \<times> 's"
where
  "efdir_transmit md ch apdu s =
     (case md_transmit md ch (to_upper (hex_encode apdu)) s of
        (Inl e, s) \<Rightarrow> (Fail (ModemError e), s)
      | (Inr hex, s) \<Rightarrow>
          (case hex_decode hex of
             None \<Rightarrow> (Fail BadAnswerHex, s)
           | Some r \<Rightarrow>
               (if length r < 2 then (Ok (r, 0, 0), s)
                else (Ok (take (length r - 2) r, r ! (length r - 2), r ! (length r - 1)), s))))"

text \<open>
  The value of the first tag 4F, also inside a template 61; the fuel is the length of the
  record, which every step shortens.
\<close>

fun aid_4f :: "nat \<Rightarrow> bytes \<Rightarrow> bytes" where
  "aid_4f 0 d = []"
| "aid_4f (Suc n) (tag # ln # d) =
     (if unat ln > length d then []
      else
        (let val = take (unat ln) d; inner = aid_4f n val; others = aid_4f n (drop (unat ln) d) in
         if tag = 0x4F then val
         else if tag = 0x61 then (if inner \<noteq> [] then inner else others)
         else others))"
| "aid_4f (Suc n) d = []"

definition extract_aid_4f :: "bytes \<Rightarrow> bytes" where
  "extract_aid_4f d = aid_4f (length d) d"

fun efdir_records ::
  "nat \<Rightarrow> ('e, 's) modem \<Rightarrow> int \<Rightarrow> string \<Rightarrow> nat \<Rightarrow> 's \<Rightarrow> ('e aka_error, string) result \<times> 's"
where
  "efdir_records 0 md ch want rec s = (Fail (EfDirMissing want), s)"
| "efdir_records (Suc n) md ch want rec s =
     (case efdir_transmit md ch (read_record_apdu 0x00 (of_nat rec)) s of
        (Fail e, s) \<Rightarrow> (Fail (EfDirRecord rec e), s) | (Panic, s) \<Rightarrow> (Panic, s)
      | (Ok (body, sw1, sw2), s) \<Rightarrow>
          if is_record_not_found sw1 sw2 then (Fail (EfDirMissing want), s)
          else
            (let aid = extract_aid_4f body; aidHex = to_upper (hex_encode aid) in
             if aid \<noteq> [] \<and> has_prefix aidHex want \<and> length aidHex > length want then (Ok aidHex, s)
             else efdir_records n md ch want (rec + 1) s))"

definition efdir_select ::
  "(('e aka_error option) \<Rightarrow> byte \<Rightarrow> byte \<Rightarrow> 'e aka_error) \<Rightarrow> ('e, 's) modem \<Rightarrow> int \<Rightarrow> u16 \<Rightarrow> 's
   \<Rightarrow> ('e aka_error, unit) result \<times> 's"
where
  "efdir_select err md ch fid s =
     (case efdir_transmit md ch (select_file_apdu 0x00 fid) s of
        (Fail e, s) \<Rightarrow> (Fail (err (Some e) 0 0), s) | (Panic, s) \<Rightarrow> (Panic, s)
      | (Ok (_, sw1, sw2), s) \<Rightarrow>
          if is_apdu_success sw1 sw2 then (Ok (), s) else (Fail (err None sw1 sw2), s))"

definition resolve_aid_via_efdir ::
  "('e, 's) modem \<Rightarrow> string \<Rightarrow> string \<Rightarrow> 's \<Rightarrow> ('e aka_error, string) result \<times> 's"
where
  "resolve_aid_via_efdir md bootstrapAID expected s =
     (case md_open md (to_upper (trim_space bootstrapAID)) s of
        (Inl e, s) \<Rightarrow> (Fail (EfDirOpen e), s)
      | (Inr ch, s) \<Rightarrow>
          (let (_, s) = efdir_transmit md ch
                 (select_by_aid_apdu 0x00 [0xA0, 0x00, 0x00, 0x00, 0x87, 0x10, 0x02]) s;
               (r, s) =
                 (case efdir_select EfDirMf md ch 0x3F00 s of
                    (Fail e, s) \<Rightarrow> (Fail e, s) | (Panic, s) \<Rightarrow> (Panic, s)
                  | (Ok _, s) \<Rightarrow>
                      (case efdir_select EfDirSelect md ch 0x2F00 s of
                         (Fail e, s) \<Rightarrow> (Fail e, s) | (Panic, s) \<Rightarrow> (Panic, s)
                       | (Ok _, s) \<Rightarrow>
                           efdir_records 16 md ch (to_upper (trim_space expected)) 1 s));
               (_, s) = md_close md ch s
           in (r, s)))"

section \<open>The provider\<close>

text \<open>
  The authentication service of MBIM, which needs no channel: its error may carry a status, and
  its answer a token for resynchronisation beside the error.
\<close>

definition status_auth_sync_failure :: u32 where "status_auth_sync_failure = 35"

definition backend_aka ::
  "('e \<Rightarrow> u32 option) \<Rightarrow> ('e option \<times> bytes \<times> bytes \<times> bytes \<times> bytes)
   \<Rightarrow> usim_aka_result \<times> 'e aka_error option"
where
  "backend_aka status answer =
     (case answer of
        (Some e, res, ik, ck, auts) \<Rightarrow>
          if status e = Some status_auth_sync_failure then (no_aka\<lparr>aka_auts := auts\<rparr>, Some SyncFailure)
          else if auts \<noteq> [] then (no_aka\<lparr>aka_auts := auts\<rparr>, Some SyncFailure)
          else (no_aka, Some (ModemError e))
      | (None, res, ik, ck, auts) \<Rightarrow>
          (\<lparr>aka_res = res, aka_ck = ck, aka_ik = ik, aka_auts = auts\<rparr>, None))"

text \<open>The status that \<open>errors.As\<close> finds: only the failure to open a channel wraps its cause.\<close>

fun wrapped_status :: "('e \<Rightarrow> u32 option) \<Rightarrow> 'e aka_error \<Rightarrow> u32 option" where
  "wrapped_status status (OpenFailed _ e) = status e"
| "wrapped_status status (ModemError e) = status e"
| "wrapped_status status _ = None"

definition is_uicc_channel_open_error :: "('e \<Rightarrow> u32 option) \<Rightarrow> 'e aka_error \<Rightarrow> bool" where
  "is_uicc_channel_open_error status e \<longleftrightarrow>
     wrapped_status status e \<in> {Some 0x87430002, Some 0x87430001, Some 0x87430003}"

datatype aka_provider = ChannelAka | ChannelOrAuthAka | BackendAka

definition equal_fold_mbim :: "string \<Rightarrow> bool" where
  "equal_fold_mbim s \<longleftrightarrow> to_lower (trim_space s) = ''mbim''"

text \<open>
  What the worker offers: its mode, whether the authentication service may be used and is
  there, and whether there is a modem to open channels on.
\<close>

definition build_aka_provider :: "string \<Rightarrow> bool \<Rightarrow> bool \<Rightarrow> bool \<Rightarrow> aka_provider option" where
  "build_aka_provider mode auth_usable has_auth has_modem =
     (if equal_fold_mbim mode then
        (let auth = auth_usable \<and> has_auth in
         if has_modem then Some (if auth then ChannelOrAuthAka else ChannelAka)
         else if auth then Some BackendAka else None)
      else if has_modem then Some ChannelAka else None)"

definition channel_or_auth_aka ::
  "('e \<Rightarrow> u32 option) \<Rightarrow> ('s \<Rightarrow> ('e aka_error, usim_aka_result) result \<times> 's)
   \<Rightarrow> ('s \<Rightarrow> ('e aka_error, usim_aka_result) result \<times> 's) \<Rightarrow> 's \<Rightarrow> ('e aka_error, usim_aka_result) result \<times> 's"
where
  "channel_or_auth_aka status chan auth s =
     (case chan s of
        (Fail e, s) \<Rightarrow> if is_uicc_channel_open_error status e then auth s else (Fail e, s)
      | (r, s) \<Rightarrow> (r, s))"
section \<open>Reading the answer\<close>

text \<open>The two forms of a successful answer: with lengths before the keys, and without.\<close>

definition keyed_answer :: "bytes \<Rightarrow> bytes \<Rightarrow> bytes \<Rightarrow> bytes \<Rightarrow> bytes" where
  "keyed_answer res ck ik rest =
     of_nat (length res) # res @ of_nat (length ck) # ck @ of_nat (length ik) # ik @ rest"

definition flat_answer :: "bytes \<Rightarrow> bytes \<Rightarrow> bytes \<Rightarrow> bytes" where
  "flat_answer res ck ik = of_nat (length res) # res @ ck @ ik"

definition field_ok :: "bytes \<Rightarrow> bool" where
  "field_ok b \<longleftrightarrow> 0 < length b \<and> length b < 256"

lemma unat_length: "length b < 256 \<Longrightarrow> unat (of_nat (length b) :: byte) = length b"
  by (simp add: unat_of_nat take_bit_eq_mod)

lemma nth_middle: "length a = i \<Longrightarrow> (a @ x # b) ! i = x"
  by (simp add: nth_append)

lemma cut_middle: "length a = i \<Longrightarrow> length b = j - i \<Longrightarrow> i \<le> j \<Longrightarrow> cut (a @ b @ c) i j k = k b"
  by (simp add: cut_def)

lemma at_index_middle: "length a = i \<Longrightarrow> at_index (a @ x # b) i k = k x"
  by (simp add: at_index_def nth_append)

lemma keyed_db:
  assumes "field_ok res" and "field_ok ck" and "field_ok ik" and "length ck + length ik + length rest \<noteq> 30"
  shows "parse_usim_auth_db (0xDB # keyed_answer res ck ik rest) =
    Ok (Some (no_aka\<lparr>aka_res := res, aka_ck := ck, aka_ik := ik\<rparr>))"
proof -
  define R C I where "R = (of_nat (length res) :: byte)" and "C = (of_nat (length ck) :: byte)"
    and "I = (of_nat (length ik) :: byte)"
  let ?b = "0xDB # R # res @ C # ck @ I # ik @ rest"
  have n: "unat R = length res" "unat C = length ck" "unat I = length ik"
    using assms by (simp_all add: R_def C_def I_def field_ok_def unat_length)
  have c: "take (length res) (drop 2 ?b) = res" "take (length ck) (drop (3 + length res) ?b) = ck"
    "take (length ik) (drop (4 + length res + length ck) ?b) = ik"
    "?b ! (2 + length res) = C" "?b ! (3 + length res + length ck) = I"
    by (simp_all add: nth_append numeral_3_eq_3 eval_nat_numeral)
  have "parse_usim_auth_db ?b = Ok (Some (no_aka\<lparr>aka_res := res, aka_ck := ck, aka_ik := ik\<rparr>))"
    using assms n c by (simp add: parse_usim_auth_db_def Let_def field_ok_def)
  then show ?thesis by (simp add: keyed_answer_def R_def C_def I_def)
qed
lemma flat_db:
  assumes "field_ok res" and "length ck = 16" and "length ik = 16"
  shows "parse_usim_auth_db (0xDB # flat_answer res ck ik) =
    Ok (Some (no_aka\<lparr>aka_res := res, aka_ck := ck, aka_ik := ik\<rparr>))"
  using assms
  by (simp add: flat_answer_def parse_usim_auth_db_def Let_def field_ok_def unat_length drop_Cons')

lemma flat_length: "length (flat_answer res ck ik) = 1 + length res + length ck + length ik"
  by (simp add: flat_answer_def)

lemma wrapped_db:
  assumes "length d < 256"
  shows "parse_usim_auth_db (0xDB # of_nat (length d) # d) = Ok None"
  using assms by (simp add: parse_usim_auth_db_def Let_def unat_length)

lemma tlv_data:
  assumes "length d < 256"
  shows "parse_tlv_data (tag # of_nat (length d) # d @ rest) = Ok d"
  using assms by (simp add: parse_tlv_data_def Let_def unat_length)

lemma keyed_length: "length (keyed_answer res ck ik rest) = 3 + length res + length ck + length ik + length rest"
  by (simp add: keyed_answer_def)

lemma response_frame:
  assumes "2 \<le> length body" and "body ! 0 = tag"
  shows "parse_usim_auth_response (body @ [0x90, 0x00]) =
    (if tag = 0xDB then
       and_then (parse_usim_auth_db body) (\<lambda>r.
         case r of Some out \<Rightarrow> Ok out
         | None \<Rightarrow>
             and_then (parse_tlv_data body) (\<lambda>d.
             and_then (parse_usim_auth_db (0xDB # d)) (\<lambda>r.
               case r of Some out \<Rightarrow> Ok out | None \<Rightarrow> Fail SuccessUnreadable)))
     else if tag = 0xDC then and_then (parse_tlv_data body) (\<lambda>d. Ok (no_aka\<lparr>aka_auts := d\<rparr>))
     else if tag = 0xDD then Fail MacFailure
     else and_then (parse_tlv_data body) (\<lambda>_. Fail (UnknownTag tag)))"
proof -
  have "body \<noteq> []" using assms(1) by auto
  with assms show ?thesis by (simp add: parse_usim_auth_response_def nth_append Let_def)
qed

text \<open>
  C27. Every form in which a card reports success is read back as the response and the two
  keys it was built from: with lengths, with lengths inside an outer length, and with the bare
  keys; and a report of lost synchronisation is read back as its token.
\<close>

theorem authentication_answer_is_read:
  assumes "field_ok res" and "field_ok ck" and "field_ok ik"
  shows "(length ck + length ik + length rest \<noteq> 30 \<longrightarrow>
        parse_usim_auth_response (0xDB # keyed_answer res ck ik rest @ [0x90, 0x00]) =
          Ok (no_aka\<lparr>aka_res := res, aka_ck := ck, aka_ik := ik\<rparr>)
      \<and> (length (keyed_answer res ck ik rest) < 256 \<longrightarrow>
          parse_usim_auth_response
            (0xDB # of_nat (length (keyed_answer res ck ik rest)) # keyed_answer res ck ik rest @ [0x90, 0x00]) =
          Ok (no_aka\<lparr>aka_res := res, aka_ck := ck, aka_ik := ik\<rparr>)))
    \<and> (length ck = 16 \<and> length ik = 16 \<longrightarrow>
        parse_usim_auth_response (0xDB # flat_answer res ck ik @ [0x90, 0x00]) =
          Ok (no_aka\<lparr>aka_res := res, aka_ck := ck, aka_ik := ik\<rparr>))
    \<and> parse_usim_auth_response (0xDC # of_nat (length res) # res @ rest @ [0x90, 0x00]) =
        Ok (no_aka\<lparr>aka_auts := res\<rparr>)"
proof (intro conjI impI)
  let ?k = "keyed_answer res ck ik rest"
  assume n: "length ck + length ik + length rest \<noteq> 30"
  show "parse_usim_auth_response (0xDB # ?k @ [0x90, 0x00]) = Ok (no_aka\<lparr>aka_res := res, aka_ck := ck, aka_ik := ik\<rparr>)"
    by (simp add: response_frame [of "0xDB # ?k" "0xDB", simplified] keyed_db [OF assms n] keyed_length)
  assume "length ?k < 256"
  then show "parse_usim_auth_response (0xDB # of_nat (length ?k) # ?k @ [0x90, 0x00]) =
      Ok (no_aka\<lparr>aka_res := res, aka_ck := ck, aka_ik := ik\<rparr>)"
    by (simp add: response_frame [of "0xDB # of_nat (length ?k) # ?k" "0xDB", simplified]
        keyed_db [OF assms n] wrapped_db tlv_data [where rest = "[]", simplified])
next
  assume "length ck = 16 \<and> length ik = 16"
  then show "parse_usim_auth_response (0xDB # flat_answer res ck ik @ [0x90, 0x00]) =
      Ok (no_aka\<lparr>aka_res := res, aka_ck := ck, aka_ik := ik\<rparr>)"
    by (simp add: response_frame [of "0xDB # flat_answer res ck ik" "0xDB", simplified]
        flat_db [OF assms(1)] flat_length)
next
  show "parse_usim_auth_response (0xDC # of_nat (length res) # res @ rest @ [0x90, 0x00]) =
      Ok (no_aka\<lparr>aka_auts := res\<rparr>)"
    using assms(1) by (simp add: response_frame [of "0xDC # of_nat (length res) # res @ rest" "0xDC", simplified]
      tlv_data field_ok_def)
qed

theorem authentication_answer_is_read_witness:
  "parse_usim_auth_response ([0xDB, 8, 1, 2, 3, 4, 5, 6, 7, 8, 16] @ replicate 16 0xAA @ [16] @ replicate 16 0xBB
     @ [0x90, 0x00]) =
   (Ok (no_aka\<lparr>aka_res := [1, 2, 3, 4, 5, 6, 7, 8], aka_ck := replicate 16 0xAA, aka_ik := replicate 16 0xBB\<rparr>)
     :: (unit aka_error, usim_aka_result) result)"
proof -
  let ?res = "[1, 2, 3, 4, 5, 6, 7, 8] :: bytes"
  have "field_ok ?res" "field_ok (replicate 16 0xAA)" "field_ok (replicate 16 0xBB)"
    by (simp_all add: field_ok_def)
  from authentication_answer_is_read [OF this, of "[]", where 'a = unit and 'b = unit and 'c = unit and 'd = unit] show ?thesis
    unfolding keyed_answer_def by simp
qed

lemma db_no_panic: "parse_usim_auth_db body \<noteq> Panic"
  unfolding parse_usim_auth_db_def Let_def
  by (auto simp: at_index_def cut_def)

lemma tlv_no_panic: "parse_tlv_data body \<noteq> Panic"
  by (simp add: parse_tlv_data_def Let_def)

lemma response_no_panic: "parse_usim_auth_response resp \<noteq> Panic"
  unfolding parse_usim_auth_response_def
  by (auto simp: and_then_Panic_iff db_no_panic tlv_no_panic at_index_def cut_def split: option.splits)

section \<open>Channels are closed\<close>

text \<open>The modem with a list of the channels that are open beside its state.\<close>

definition tracked :: "('e, 's) modem \<Rightarrow> ('e, 's \<times> int list) modem" where
  "tracked md =
     \<lparr>md_open = (\<lambda>aid (s, chs). case md_open md aid s of
        (Inr ch, s) \<Rightarrow> (Inr ch, (s, ch # chs)) | (Inl e, s) \<Rightarrow> (Inl e, (s, chs))),
      md_close = (\<lambda>ch (s, chs). case md_close md ch s of (r, s) \<Rightarrow> (r, (s, remove1 ch chs))),
      md_transmit = (\<lambda>ch apdu (s, chs). case md_transmit md ch apdu s of (r, s) \<Rightarrow> (r, (s, chs))),
      md_resolve = map_option (\<lambda>f app aid (s, chs). case f app aid s of (r, s) \<Rightarrow> (r, (s, chs)))
        (md_resolve md)\<rparr>"

lemma tracked_transmit: "snd (snd (md_transmit (tracked md) ch apdu st)) = snd st"
  by (cases st) (simp add: tracked_def split: prod.splits)

lemma send_hex_tracked: "send_hex (tracked md) ch cmd st = (r, st') \<Longrightarrow> snd st' = snd st"
  using tracked_transmit [of md ch "hex_encode cmd" st]
  by (auto simp: send_hex_def split: prod.splits sum.splits option.splits)

lemma send_on_channel_tracked: "send_on_channel (tracked md) ch apdu st = (r, st') \<Longrightarrow> snd st' = snd st"
  by (auto simp: send_on_channel_def Let_def dest!: send_hex_tracked
      split: prod.splits result.splits if_splits)

lemma auth_tracked: "auth_on_channel (tracked md) app ch rand autn st = (r, st') \<Longrightarrow> snd st' = snd st"
  by (auto simp: auth_on_channel_def send_logical_auth_def dest!: send_on_channel_tracked
      split: prod.splits result.splits)

lemma resolve_tracked: "resolve_channel_aid (tracked md) app a b st = (r, st') \<Longrightarrow> snd st' = snd st"
  by (cases st) (auto simp: resolve_channel_aid_def tracked_def Let_def
      split: prod.splits sum.splits result.splits option.splits)

lemma tracked_open:
  "md_open (tracked md) aid u = (Inr ch, v) \<Longrightarrow> snd v = ch # snd u"
  "md_open (tracked md) aid u = (Inl e, v) \<Longrightarrow> snd v = snd u"
  by (cases u; auto simp: tracked_def split: prod.splits sum.splits)+

lemma tracked_close: "md_close (tracked md) ch u = (x, v) \<Longrightarrow> snd v = remove1 ch (snd u)"
  by (cases u) (auto simp: tracked_def split: prod.splits)

lemma calculate_on_tracked:
  assumes "calculate_aka_on (tracked md) app rand autn st = (r, st')"
  shows "snd st' = snd st"
  using assms
  by (auto simp: calculate_aka_on_def Let_def dest!: resolve_tracked auth_tracked tracked_open tracked_close
      split: prod.splits result.splits sum.splits)

lemma efdir_transmit_tracked: "efdir_transmit (tracked md) ch apdu st = (r, st') \<Longrightarrow> snd st' = snd st"
  using tracked_transmit [of md ch "to_upper (hex_encode apdu)" st]
  by (auto simp: efdir_transmit_def split: prod.splits sum.splits option.splits if_splits)

lemma records_tracked: "efdir_records n (tracked md) ch want rec st = (r, st') \<Longrightarrow> snd st' = snd st"
  by (induction n arbitrary: rec st)
    (auto simp: Let_def dest!: efdir_transmit_tracked split: prod.splits result.splits if_splits)

lemma efdir_select_tracked: "efdir_select err (tracked md) ch fid st = (r, st') \<Longrightarrow> snd st' = snd st"
  by (auto simp: efdir_select_def dest!: efdir_transmit_tracked split: prod.splits result.splits if_splits)

lemma efdir_tracked:
  assumes "resolve_aid_via_efdir (tracked md) boot expected st = (r, st')"
  shows "snd st' = snd st"
  using assms
  by (auto simp: resolve_aid_via_efdir_def Let_def
      dest!: efdir_transmit_tracked efdir_select_tracked records_tracked tracked_open tracked_close
      split: prod.splits result.splits sum.splits)

text \<open>
  C28. An authentication, and a search of EF\_DIR, closes the logical channel it opened, whatever
  fails on the way: the list of open channels is the same before and after.
\<close>

theorem authentication_closes_its_channel:
  "snd (snd (snd (calculate_aka (tracked md) rand autn prefer prof (s, chs)))) = chs
   \<and> snd (snd (resolve_aid_via_efdir (tracked md) boot expected (s, chs))) = chs"
proof
  obtain r p st where c: "calculate_aka (tracked md) rand autn prefer prof (s, chs) = (r, p, st)"
    by (cases "calculate_aka (tracked md) rand autn prefer prof (s, chs)") auto
  then have "snd st = chs"
    by (auto simp: calculate_aka_def Let_def dest!: calculate_on_tracked
        split: if_splits prod.splits result.splits)
  with c show "snd (snd (snd (calculate_aka (tracked md) rand autn prefer prof (s, chs)))) = chs" by simp
  show "snd (snd (resolve_aid_via_efdir (tracked md) boot expected (s, chs))) = chs"
    using efdir_tracked [of md boot expected "(s, chs)"]
    by (cases "resolve_aid_via_efdir (tracked md) boot expected (s, chs)") simp
qed

section \<open>Nothing panics\<close>

lemma send_hex_no_panic: "send_hex md ch cmd s \<noteq> (Panic, s')"
  by (auto simp: send_hex_def split: prod.splits sum.splits option.splits)

lemma send_on_channel_no_panic: "send_on_channel md ch apdu s \<noteq> (Panic, s')"
  by (auto simp: send_on_channel_def Let_def send_hex_no_panic split: prod.splits result.splits)

lemma build_no_panic: "build_usim_auth_apdu rand autn le \<noteq> Panic"
  by (simp add: build_usim_auth_apdu_def Let_def)

lemma auth_on_channel_no_panic: "auth_on_channel md app ch rand autn s \<noteq> (Panic, s')"
  by (auto simp: auth_on_channel_def send_logical_auth_def send_on_channel_no_panic build_no_panic
      response_no_panic split: prod.splits result.splits)

lemma resolve_no_panic: "resolve_channel_aid md app a b s \<noteq> (Panic, s')"
  by (auto simp: resolve_channel_aid_def Let_def split: prod.splits sum.splits result.splits option.splits)

lemma calculate_on_no_panic: "calculate_aka_on md app rand autn s \<noteq> (Panic, s')"
  by (auto simp: calculate_aka_on_def Let_def resolve_no_panic auth_on_channel_no_panic
      split: prod.splits result.splits sum.splits)

lemma authentication_never_panics: "fst (calculate_aka md rand autn prefer prof s) \<noteq> Panic"
  by (auto simp: calculate_aka_def Let_def calculate_on_no_panic split: prod.splits result.splits if_splits)

section \<open>The fallback to the authentication service\<close>

lemma no_modem_error: "calculate_aka_on md app rand autn s = (Fail e, s') \<Longrightarrow> e \<noteq> ModemError x"
proof -
  have b: "build_usim_auth_apdu rand autn le = Fail e \<Longrightarrow> e \<noteq> ModemError x" for le
    by (auto simp: build_usim_auth_apdu_def Let_def split: if_splits)
  have r: "resolve_channel_aid md app a p s = (Fail e, s') \<Longrightarrow> e \<noteq> ModemError x" for a p s'
    by (auto simp: resolve_channel_aid_def Let_def split: prod.splits sum.splits result.splits option.splits)
  have a: "auth_on_channel md app ch rand autn u = (Fail e, v) \<Longrightarrow> e \<noteq> ModemError x" for ch u v
    using b by (auto simp: auth_on_channel_def split: prod.splits result.splits)
  show "calculate_aka_on md app rand autn s = (Fail e, s') \<Longrightarrow> e \<noteq> ModemError x"
    using r a by (fastforce simp: calculate_aka_on_def Let_def split: prod.splits result.splits sum.splits)
qed

lemma error_status:
  "(\<And>x. e \<noteq> ModemError x) \<Longrightarrow>
   is_uicc_channel_open_error status e \<longleftrightarrow>
     (\<exists>app x. e = OpenFailed app x \<and> status x \<in> {Some 0x87430001, Some 0x87430002, Some 0x87430003})"
  by (cases e) (auto simp: is_uicc_channel_open_error_def)

text \<open>
  The provider with both ways asks the authentication service exactly when a logical
  channel could not be opened for one of the three reasons the modem has for that, and never
  after the card has been asked; every other outcome is that of the channel.
\<close>

theorem service_answers_when_no_channel_opens:
  "channel_or_auth_aka status
     (\<lambda>s. case calculate_aka md rand autn prefer prof s of (r, p, s) \<Rightarrow> (r, s)) auth s =
   (case calculate_aka md rand autn prefer prof s of (r, p, s) \<Rightarrow>
      if \<exists>app e. r = Fail (OpenFailed app e)
          \<and> status e \<in> {Some 0x87430001, Some 0x87430002, Some 0x87430003}
      then auth s else (r, s))"
proof -
  obtain r p s' where c: "calculate_aka md rand autn prefer prof s = (r, p, s')"
    by (cases "calculate_aka md rand autn prefer prof s") auto
  have "r = Fail e \<Longrightarrow> e \<noteq> ModemError x" for e x
    using c by (auto simp: calculate_aka_def Let_def no_modem_error
        split: if_splits prod.splits result.splits dest: no_modem_error)
  then show ?thesis
    using error_status [of _ status] by (cases r) (auto simp: c channel_or_auth_aka_def)
qed

text \<open>
  A modem that cannot resolve identifiers itself is not asked for EF\_DIR either: no channel is
  opened and no command sent.
\<close>

lemma no_search_of_efdir:
  "md_resolve md = None \<Longrightarrow> calculate_aka_on md app rand autn s = (Fail (AidNotReady app), s)"
  by (simp add: calculate_aka_on_def resolve_channel_aid_def Let_def)

end
