(* ===== verification/Vowifi_Store.thy ===== *)
theory Vowifi_Store
  imports Prelude Go_Strings
begin

text \<open>
  The runtime store of the VoWiFi host, \<open>internal/vowifihost/store.go\<close> with the checks of
  \<open>start.go\<close>, \<open>teardown.go\<close> and \<open>manager.go\<close> in front of it. A device has a slot with its running
  instance, whether a start is in progress, and an epoch that \<open>Invalidate\<close> raises to disown
  the starts of before. Instances are named by numbers; of the state that a runtime reports
  the store looks at the time and the phase. \<open>now\<close> is what \<open>time.Now\<close> returns.
\<close>

definition go_zero :: int where "go_zero = - 62135596800000000000"

record runtime_state =
  rt_updated :: int
  rt_phase :: string

definition empty_state :: runtime_state where
  "empty_state = \<lparr>rt_updated = go_zero, rt_phase = []\<rparr>"

record runtime_slot =
  sl_instance :: "nat option"
  sl_starting :: bool
  sl_epoch :: u64
  sl_state :: runtime_state
  sl_err :: string
  sl_updated :: int

type_synonym runtime_store = "string \<rightharpoonup> runtime_slot"

definition empty_slot :: runtime_slot where
  "empty_slot = \<lparr>sl_instance = None, sl_starting = False, sl_epoch = 0, sl_state = empty_state,
     sl_err = [], sl_updated = go_zero\<rparr>"

definition ensure_slot :: "runtime_store \<Rightarrow> string \<Rightarrow> runtime_slot" where
  "ensure_slot st d = (case st d of None \<Rightarrow> empty_slot | Some sl \<Rightarrow> sl)"

record start_claim =
  cl_epoch :: u64
  cl_accepted :: bool
  cl_active :: bool
  cl_starting :: bool

definition no_claim :: start_claim where
  "no_claim = \<lparr>cl_epoch = 0, cl_accepted = False, cl_active = False, cl_starting = False\<rparr>"

definition begin_start :: "int \<Rightarrow> string \<Rightarrow> runtime_store \<Rightarrow> start_claim \<times> runtime_store" where
  "begin_start now device st =
     (let d = trim_space device; sl = ensure_slot st d in
      if d = [] then (no_claim, st)
      else if sl_instance sl \<noteq> None then
        (no_claim\<lparr>cl_epoch := sl_epoch sl, cl_active := True\<rparr>, st(d \<mapsto> sl))
      else if sl_starting sl then
        (no_claim\<lparr>cl_epoch := sl_epoch sl, cl_starting := True\<rparr>, st(d \<mapsto> sl))
      else (no_claim\<lparr>cl_epoch := sl_epoch sl, cl_accepted := True\<rparr>,
            st(d \<mapsto> sl\<lparr>sl_starting := True, sl_err := [], sl_updated := now\<rparr>)))"

definition running_slot :: "int \<Rightarrow> nat option \<Rightarrow> runtime_slot \<Rightarrow> runtime_slot" where
  "running_slot now inst sl =
     sl\<lparr>sl_instance := inst, sl_starting := False, sl_state := empty_state, sl_err := [], sl_updated := now\<rparr>"

definition store_claim_started ::
  "int \<Rightarrow> string \<Rightarrow> u64 \<Rightarrow> nat option \<Rightarrow> runtime_store \<Rightarrow> bool \<times> runtime_store"
where
  "store_claim_started now device ep inst st =
     (let d = trim_space device; sl = ensure_slot st d in
      if d = [] \<or> inst = None then (False, st)
      else if sl_epoch sl \<noteq> ep then (False, st(d \<mapsto> sl))
      else if sl_instance sl \<noteq> None then (False, st(d \<mapsto> sl))
      else (True, st(d \<mapsto> running_slot now inst sl)))"

definition fail_start ::
  "int \<Rightarrow> string \<Rightarrow> u64 \<Rightarrow> runtime_state \<Rightarrow> string option \<Rightarrow> runtime_store \<Rightarrow> runtime_store"
where
  "fail_start now device ep state err st =
     (let d = trim_space device; sl = ensure_slot st d in
      if d = [] then st
      else if sl_epoch sl \<noteq> ep then st(d \<mapsto> sl)
      else
        (let state = (if rt_updated state = go_zero then state\<lparr>rt_updated := now\<rparr> else state)
         in st(d \<mapsto> sl\<lparr>sl_starting := False, sl_state := state,
                sl_err := (case err of None \<Rightarrow> sl_err sl | Some e \<Rightarrow> e), sl_updated := now\<rparr>)))"

definition record_startup_state ::
  "int \<Rightarrow> string \<Rightarrow> runtime_state \<Rightarrow> runtime_store \<Rightarrow> bool \<times> runtime_store"
where
  "record_startup_state now device state st =
     (let d = trim_space device;
          state = (if rt_updated state = go_zero then state\<lparr>rt_updated := now\<rparr> else state);
          sl = ensure_slot st d
      in if d = [] then (False, st)
         else if sl_instance sl \<noteq> None then (False, st(d \<mapsto> sl))
         else if rt_updated (sl_state sl) \<noteq> go_zero \<and> rt_updated state < rt_updated (sl_state sl)
         then (False, st(d \<mapsto> sl))
         else (True, st(d \<mapsto> sl\<lparr>sl_state := state, sl_updated := rt_updated state\<rparr>)))"

definition clear_startup_state :: "int \<Rightarrow> string \<Rightarrow> runtime_store \<Rightarrow> bool \<times> runtime_store" where
  "clear_startup_state now device st =
     (let d = trim_space device in
      if d = [] then (False, st)
      else case st d of
        None \<Rightarrow> (False, st)
      | Some sl \<Rightarrow>
          if rt_updated (sl_state sl) = go_zero then (False, st)
          else
            (let sl = sl\<lparr>sl_state := empty_state, sl_updated := now\<rparr>
             in (True, if sl_instance sl = None \<and> \<not> sl_starting sl \<and> sl_err sl = []
                       then st(d := None) else st(d \<mapsto> sl))))"

definition invalidate_store :: "int \<Rightarrow> string \<Rightarrow> runtime_store \<Rightarrow> (u64 \<times> bool) \<times> runtime_store" where
  "invalidate_store now device st =
     (let d = trim_space device; sl = ensure_slot st d in
      if d = [] then ((0, False), st)
      else ((sl_epoch sl + 1, rt_updated (sl_state sl) \<noteq> go_zero),
            st(d \<mapsto> sl\<lparr>sl_epoch := sl_epoch sl + 1, sl_starting := False, sl_state := empty_state,
                   sl_err := [], sl_updated := now\<rparr>)))"

definition current_epoch :: "string \<Rightarrow> runtime_store \<Rightarrow> u64" where
  "current_epoch device st =
     (let d = trim_space device in
      if d = [] then 0 else case st d of None \<Rightarrow> 0 | Some sl \<Rightarrow> sl_epoch sl)"

definition instance_of :: "string \<Rightarrow> runtime_store \<Rightarrow> nat option" where
  "instance_of device st =
     (let d = trim_space device in
      if d = [] then None else case st d of None \<Rightarrow> None | Some sl \<Rightarrow> sl_instance sl)"

definition store_active :: "string \<Rightarrow> runtime_store \<Rightarrow> bool" where
  "store_active device st \<longleftrightarrow> instance_of device st \<noteq> None"

definition store_starting :: "string \<Rightarrow> runtime_store \<Rightarrow> bool" where
  "store_starting device st =
     (let d = trim_space device in
      if d = [] then False else case st d of None \<Rightarrow> False | Some sl \<Rightarrow> sl_starting sl)"

definition set_instance :: "int \<Rightarrow> string \<Rightarrow> nat option \<Rightarrow> runtime_store \<Rightarrow> runtime_store" where
  "set_instance now device inst st =
     (let d = trim_space device in
      if d = [] then st else st(d \<mapsto> running_slot now inst (ensure_slot st d)))"

definition delete_instance :: "int \<Rightarrow> string \<Rightarrow> nat option \<Rightarrow> runtime_store \<Rightarrow> bool \<times> runtime_store" where
  "delete_instance now device inst st =
     (let d = trim_space device in
      if d = [] then (False, st)
      else case st d of
        None \<Rightarrow> (False, st)
      | Some sl \<Rightarrow>
          if sl_instance sl = None then (False, st)
          else if inst \<noteq> None \<and> sl_instance sl \<noteq> inst then (False, st)
          else (True, if sl_epoch sl = 0 then st(d := None)
                      else st(d \<mapsto> running_slot now None sl)))"

datatype reported = OfInstance nat | OfStartup runtime_state

definition store_state :: "string \<Rightarrow> runtime_store \<Rightarrow> reported option" where
  "store_state device st =
     (let d = trim_space device in
      if d = [] then None
      else case st d of
        None \<Rightarrow> None
      | Some sl \<Rightarrow>
          (case sl_instance sl of
             Some i \<Rightarrow> Some (OfInstance i)
           | None \<Rightarrow>
               if rt_updated (sl_state sl) \<noteq> go_zero \<or> rt_phase (sl_state sl) \<noteq> [] \<or> sl_starting sl
               then Some (OfStartup (sl_state sl)) else None))"

section \<open>The manager's checks\<close>

definition claim_started ::
  "int \<Rightarrow> string \<Rightarrow> u64 \<Rightarrow> nat option \<Rightarrow> runtime_store \<Rightarrow> bool \<times> runtime_store"
where
  "claim_started now device ep inst st =
     (if inst = None then (False, st)
      else if trim_space device = [] then (False, st)
      else if current_epoch device st \<noteq> ep then (False, st)
      else store_claim_started now device ep inst st)"

definition should_run :: "string \<Rightarrow> u64 \<Rightarrow> runtime_store \<Rightarrow> bool" where
  "should_run device ep st \<longleftrightarrow> current_epoch device st = ep"

definition is_current_instance :: "string \<Rightarrow> nat option \<Rightarrow> runtime_store \<Rightarrow> bool" where
  "is_current_instance device inst st \<longleftrightarrow>
     inst \<noteq> None \<and> trim_space device \<noteq> [] \<and> instance_of device st = inst"
section \<open>Runs of the store\<close>

datatype store_op =
    BeginStart int string | ClaimStarted int string u64 "nat option"
  | FailStart int string u64 runtime_state "string option" | RecordState int string runtime_state
  | ClearState int string | InvalidateRuntime int string
  | SetInstance int string "nat option" | DeleteInstance int string "nat option"

fun store_do :: "store_op \<Rightarrow> runtime_store \<Rightarrow> runtime_store" where
  "store_do (BeginStart now d) st = snd (begin_start now d st)"
| "store_do (ClaimStarted now d ep i) st = snd (claim_started now d ep i st)"
| "store_do (FailStart now d ep s err) st = fail_start now d ep s err st"
| "store_do (RecordState now d s) st = snd (record_startup_state now d s st)"
| "store_do (ClearState now d) st = snd (clear_startup_state now d st)"
| "store_do (InvalidateRuntime now d) st = snd (invalidate_store now d st)"
| "store_do (SetInstance now d i) st = set_instance now d i st"
| "store_do (DeleteInstance now d i) st = snd (delete_instance now d i st)"

definition store_run :: "store_op list \<Rightarrow> runtime_store \<Rightarrow> runtime_store" where
  "store_run ops st = foldl (\<lambda>st p. store_do p st) st ops"

lemmas store_defs = begin_start_def claim_started_def store_claim_started_def fail_start_def
  record_startup_state_def clear_startup_state_def invalidate_store_def set_instance_def
  delete_instance_def running_slot_def ensure_slot_def empty_slot_def no_claim_def

text \<open>A device with an instance has no start in progress, and no slot is nameless.\<close>

definition store_ok :: "runtime_store \<Rightarrow> bool" where
  "store_ok st \<longleftrightarrow> st [] = None
     \<and> (\<forall>d sl. st d = Some sl \<longrightarrow> sl_starting sl \<longrightarrow> sl_instance sl = None)"

lemma store_do_ok: "store_ok st \<Longrightarrow> store_ok (store_do p st)"
  by (cases p) (auto simp: store_ok_def store_defs Let_def split: option.splits)

interpretation vowifi_store: safety "\<lambda>st. st = (\<lambda>_. None)" "\<lambda>st st'. \<exists>p. st' = store_do p st" store_ok
  by unfold_locales (auto simp: store_ok_def [of "\<lambda>_. None"] intro: store_do_ok)

section \<open>Epochs\<close>

fun invalidates :: "string \<Rightarrow> store_op \<Rightarrow> bool" where
  "invalidates d (InvalidateRuntime now d') = (trim_space d' = trim_space d)"
| "invalidates d _ = False"

fun clears :: "string \<Rightarrow> store_op \<Rightarrow> bool" where
  "clears d (ClearState now d') = (trim_space d' = trim_space d)"
| "clears d _ = False"

lemma epoch_do:
  assumes "trim_space d \<noteq> []" and "\<not> clears d p"
  shows "current_epoch d (store_do p st) = current_epoch d st + (if invalidates d p then 1 else 0)"
  using assms by (cases p) (auto simp: store_defs current_epoch_def Let_def split: option.splits)

lemma epoch_run:
  assumes "trim_space d \<noteq> []"
  shows "list_all (\<lambda>p. \<not> clears d p) ops \<Longrightarrow>
    current_epoch d (store_run ops st) = current_epoch d st + of_nat (length (filter (invalidates d) ops))"
proof (induction ops arbitrary: st)
  case (Cons p ops)
  then show ?case using epoch_do [OF assms, of p st] by (simp add: store_run_def)
qed (simp add: store_run_def)

text \<open>
  C25. A start that has been disowned never becomes the running instance: once \<open>Invalidate\<close> has
  been called since it read its epoch, fewer than \<open>2 ^ 64\<close> times, its claim is refused and
  changes nothing, whatever else happened in between, as long as nobody cleared the startup
  state of the device.
\<close>

theorem disowned_start_is_refused:
  assumes "trim_space d \<noteq> []" and "list_all (\<lambda>p. \<not> clears d p) ops"
    and "0 < length (filter (invalidates d) ops)" and "length (filter (invalidates d) ops) < 2 ^ 64"
  shows "claim_started now d (current_epoch d st) inst (store_run ops st) = (False, store_run ops st)"
proof -
  let ?n = "length (filter (invalidates d) ops)"
  have "unat (of_nat ?n :: u64) = ?n" using assms(4) by (simp add: unat_of_nat take_bit_eq_mod)
  then have "(of_nat ?n :: u64) \<noteq> 0" using assms(3) by (metis less_not_refl unat_0)
  then have "current_epoch d (store_run ops st) \<noteq> current_epoch d st"
    using epoch_run [OF assms(1,2)] by simp
  then show ?thesis by (simp add: claim_started_def)
qed

theorem disowned_start_is_refused_witness:
  "claim_started 5 ''d'' 0 (Some 7)
     (store_run [BeginStart 1 ''d'', InvalidateRuntime 2 ''d'', RecordState 3 ''d'' empty_state] (\<lambda>_. None)) =
   (False, store_run [BeginStart 1 ''d'', InvalidateRuntime 2 ''d'', RecordState 3 ''d'' empty_state] (\<lambda>_. None))"
proof -
  have d: "trim_space ''d'' = ''d''" by code_simp
  show ?thesis
    using disowned_start_is_refused [of "''d''" "[BeginStart 1 ''d'', InvalidateRuntime 2 ''d'',
        RecordState 3 ''d'' empty_state]" 5 "\<lambda>_. None" "Some 7"]
    by (simp add: d current_epoch_def)
qed

text \<open>
  C26. Clearing the startup state forgets the epochs: when a state has been recorded for a
  device that is neither running nor starting, clearing it removes the slot with its epoch,
  and a start of the epoch 0, disowned any number of times before, is accepted after all.
\<close>

theorem cleared_state_revives_a_start:
  assumes "trim_space d \<noteq> []" and "st (trim_space d) = Some sl" and "sl_instance sl = None"
    and "\<not> sl_starting sl" and "sl_err sl = []" and "rt_updated (sl_state sl) \<noteq> go_zero"
  shows "fst (claim_started later d 0 (Some i) (snd (clear_startup_state now d st)))
    \<and> instance_of d (snd (claim_started later d 0 (Some i) (snd (clear_startup_state now d st)))) = Some i"
  using assms
  by (simp add: clear_startup_state_def claim_started_def store_claim_started_def current_epoch_def
      instance_of_def ensure_slot_def empty_slot_def running_slot_def Let_def)

definition disowned_twice :: runtime_store where
  "disowned_twice = store_run [BeginStart 1 ''d'', InvalidateRuntime 2 ''d'', BeginStart 3 ''d'',
     InvalidateRuntime 4 ''d'', RecordState 5 ''d'' \<lparr>rt_updated = 5, rt_phase = ''tunnel''\<rparr>] (\<lambda>_. None)"

theorem cleared_state_revives_a_start_witness:
  "\<not> fst (claim_started 7 ''d'' 0 (Some 1) disowned_twice)
   \<and> fst (claim_started 7 ''d'' 0 (Some 1) (snd (clear_startup_state 6 ''d'' disowned_twice)))"
proof -
  have d: "trim_space ''d'' = ''d''" by code_simp
  have s: "\<exists>sl. disowned_twice ''d'' = Some sl \<and> sl_instance sl = None \<and> \<not> sl_starting sl \<and> sl_err sl = []
      \<and> rt_updated (sl_state sl) \<noteq> go_zero \<and> sl_epoch sl = 2"
    by (simp add: disowned_twice_def store_run_def store_defs d empty_state_def go_zero_def)
  then obtain sl where sl: "disowned_twice ''d'' = Some sl" "sl_instance sl = None" "\<not> sl_starting sl"
      "sl_err sl = []" "rt_updated (sl_state sl) \<noteq> go_zero" "sl_epoch sl = 2" by blast
  have "fst (claim_started 7 ''d'' 0 (Some 1) (snd (clear_startup_state 6 ''d'' disowned_twice)))"
    using cleared_state_revives_a_start [of "''d''" disowned_twice sl 7 1 6] sl d by simp
  moreover have "\<not> fst (claim_started 7 ''d'' 0 (Some 1) disowned_twice)"
    using sl by (simp add: claim_started_def current_epoch_def d)
  ultimately show ?thesis by simp
qed

section \<open>One start at a time\<close>

text \<open>What ends the start of a device: a claim, a failure, an invalidation, another instance.\<close>

fun ends_start :: "string \<Rightarrow> store_op \<Rightarrow> bool" where
  "ends_start d (ClaimStarted now d' ep i) = (trim_space d' = trim_space d)"
| "ends_start d (FailStart now d' ep s err) = (trim_space d' = trim_space d)"
| "ends_start d (InvalidateRuntime now d') = (trim_space d' = trim_space d)"
| "ends_start d (SetInstance now d' i) = (trim_space d' = trim_space d)"
| "ends_start d (DeleteInstance now d' i) = (trim_space d' = trim_space d)"
| "ends_start d _ = False"

lemma starting_do:
  assumes "\<not> ends_start d p" and "store_starting d st"
  shows "store_starting d (store_do p st)"
  using assms by (cases p) (auto simp: store_defs store_starting_def Let_def split: option.splits if_splits)

lemma starting_run:
  "list_all (\<lambda>p. \<not> ends_start d p) ops \<Longrightarrow> store_starting d st \<Longrightarrow> store_starting d (store_run ops st)"
proof (induction ops arbitrary: st)
  case (Cons p ops)
  then show ?case using starting_do [of d p st] by (simp add: store_run_def)
qed (simp add: store_run_def)

text \<open>
  A device has one start at a time: once a start has been accepted, no other is accepted
  for the device until a claim, a failure, an invalidation or an instance set or removed by
  hand has ended it.
\<close>

theorem one_start_at_a_time:
  assumes "cl_accepted (fst (begin_start now d st))" and "list_all (\<lambda>p. \<not> ends_start d p) ops"
  shows "\<not> cl_accepted (fst (begin_start later d (store_run ops (snd (begin_start now d st)))))"
proof -
  have "store_starting d (snd (begin_start now d st))"
    using assms(1) by (auto simp: begin_start_def store_starting_def no_claim_def Let_def split: if_splits)
  then have "store_starting d (store_run ops (snd (begin_start now d st)))"
    by (rule starting_run [OF assms(2)])
  then show ?thesis
    by (auto simp: begin_start_def store_starting_def no_claim_def ensure_slot_def Let_def
        split: if_splits option.splits)
qed

theorem one_start_at_a_time_witness:
  "cl_accepted (fst (begin_start 1 ''d'' (\<lambda>_. None)))
   \<and> \<not> cl_accepted (fst (begin_start 2 ''d'' (store_run [RecordState 1 ''d'' empty_state, ClearState 1 ''d'']
        (snd (begin_start 1 ''d'' (\<lambda>_. None))))))"
proof -
  have "trim_space ''d'' = ''d''" by code_simp
  then have "cl_accepted (fst (begin_start 1 ''d'' (\<lambda>_. None)))"
    by (simp add: store_defs)
  then show ?thesis
    using one_start_at_a_time [of 1 "''d''" "\<lambda>_. None" "[RecordState 1 ''d'' empty_state, ClearState 1 ''d'']" 2]
    by simp
qed

end
