(* ===== verification/Cs_Audio.thy ===== *)
theory Cs_Audio
  imports Prelude Go_Bytes
begin

text \<open>
  The audio path of a circuit switched call: the G.711 codec of \<open>internal/cscall/g711.go\<close> and
  the RTP packets and the playback buffer of \<open>internal/cscall/audio.go\<close>. Samples are 16-bit
  words read as signed numbers.
\<close>

unbundle bit_operations_syntax

section \<open>The codec\<close>

fun segment :: "u16 \<Rightarrow> u16 \<Rightarrow> nat \<Rightarrow> nat" where
  "segment sample mk 0 = 0"
| "segment sample mk (Suc e) =
     (if sample AND mk = 0 then segment sample (signed_drop_bit 1 mk) e else Suc e)"

definition linear_to_ulaw :: "u16 \<Rightarrow> byte" where
  "linear_to_ulaw sample =
     (let sign = signed_drop_bit 8 sample AND 0x80;
          sample = (if sign \<noteq> 0 then - sample else sample);
          sample = (if 32635 <s sample then 32635 else sample);
          sample = sample + 0x84;
          exponent = segment sample 0x4000 7;
          mantissa = signed_drop_bit (exponent + 3) sample AND 0x0F
      in NOT (ucast sign OR push_bit 4 (of_nat exponent) OR ucast mantissa))"

definition ulaw_to_linear :: "byte \<Rightarrow> u16" where
  "ulaw_to_linear ulaw =
     (let ulaw = NOT ulaw;
          sign = ucast (ulaw AND 0x80);
          exponent = ucast (drop_bit 4 ulaw AND 0x07);
          mantissa = (ucast (ulaw AND 0x0F) :: u16);
          sample = push_bit (unat (exponent + 2 :: u16)) (push_bit 3 mantissa + 0x84);
          sample = sample - push_bit 2 0x84
      in if (sign :: u16) \<noteq> 0 then - sample else sample)"

definition sample_of :: "byte \<Rightarrow> byte \<Rightarrow> u16" where
  "sample_of lo hi = ucast lo OR push_bit 8 (ucast hi)"

fun encode_pcm_to_ulaw :: "bytes \<Rightarrow> bytes" where
  "encode_pcm_to_ulaw (lo # hi # pcm) = linear_to_ulaw (sample_of lo hi) # encode_pcm_to_ulaw pcm"
| "encode_pcm_to_ulaw _ = []"

definition decode_ulaw_to_pcm :: "bytes \<Rightarrow> bytes" where
  "decode_ulaw_to_pcm ulaw =
     concat (map (\<lambda>u. let sample = ulaw_to_linear u in [ucast sample, ucast (signed_drop_bit 8 sample)]) ulaw)"

section \<open>What a code stands for\<close>

text \<open>
  The value of a code at the scale of the encoder, whose samples have 16 bits: sign, segment
  and step within the segment.
\<close>

definition code_segment :: "byte \<Rightarrow> nat" where
  "code_segment u = unat (drop_bit 4 (NOT u) AND 0x07)"

definition code_step :: "byte \<Rightarrow> nat" where
  "code_step u = unat (NOT u AND 0x0F)"

definition code_value :: "byte \<Rightarrow> int" where
  "code_value u =
     (let v = (int (code_step u) * 8 + 132) * 2 ^ code_segment u - 132
      in if NOT u AND 0x80 \<noteq> 0 then - v else v)"

lemma and_low [simp]:
  "(w :: 'a::len word) AND 0x07 = take_bit 3 w" "(w :: 'a::len word) AND 0x0F = take_bit 4 w"
  by (simp_all add: take_bit_eq_mask mask_eq_exp_minus_1)

lemma and_80_cases: "(w :: u16) AND 0x80 = (if bit w 7 then 0x80 else 0)"
proof -
  have "w AND 2 ^ n = (if bit w n then 2 ^ n else 0)" for n
    by (rule bit_word_eqI) (auto simp: bit_and_iff bit_exp_iff)
  from this [of 7] show ?thesis by simp
qed

lemma code_segment_less: "code_segment u < 8" and code_step_less: "code_step u < 16"
  using take_bit_nat_less_exp [of 3 "unat (drop_bit 4 (NOT u))"] take_bit_nat_less_exp [of 4 "unat (NOT u)"]
  by (simp_all add: code_segment_def code_step_def unsigned_take_bit_eq)

lemma and_80: "(w :: 'a::len word) AND 0x80 \<noteq> 0 \<longleftrightarrow> bit w 7"
  using and_exp_eq_0_iff_not_bit [of w 7] by simp

lemma widened_unat: "unat (ucast (w :: byte) :: u16) = unat w"
proof -
  have "unat w < 256" by simp
  then have "unat w < 65536" by linarith
  then show ?thesis by (simp add: unsigned_ucast_eq take_bit_nat_eq_self_iff)
qed

lemma widened_zero: "(ucast (w :: byte) :: u16) \<noteq> 0 \<longleftrightarrow> w \<noteq> 0"
  using widened_unat [of w] by (metis unsigned_eq_0_iff)

lemma decoded_value: "ulaw_to_linear u = word_of_int (4 * code_value u)"
proof -
  have e: "unat (ucast (drop_bit 4 (NOT u) AND 0x07) + 2 :: u16) = code_segment u + 2"
    using code_segment_less [of u] by (simp add: code_segment_def unat_word_ariths unsigned_ucast_eq unsigned_take_bit_eq take_bit_eq_mod)
  have m: "(ucast (NOT u AND 0x0F) :: u16) = word_of_int (int (code_step u))"
    by (simp add: code_step_def)
  have s: "(ucast (NOT u AND 0x80) :: u16) \<noteq> 0 \<longleftrightarrow> NOT u AND 0x80 \<noteq> 0"
    by (rule widened_zero)
  have "push_bit (code_segment u + 2) (push_bit 3 (word_of_int (int (code_step u))) + 0x84) - push_bit 2 0x84
      = (word_of_int (4 * ((int (code_step u) * 8 + 132) * 2 ^ code_segment u - 132)) :: u16)"
    by (simp add: push_bit_eq_mult power_add wi_hom_syms algebra_simps)
  then show ?thesis
    unfolding ulaw_to_linear_def Let_def e m s code_value_def by simp
qed

section \<open>The encoder\<close>

lemma negative_sign: "signed_drop_bit 8 (s :: u16) AND 0x80 \<noteq> 0 \<longleftrightarrow> sint s < 0"
  using bit_last_iff [of s] by (simp add: and_80 bit_signed_drop_bit_iff)

lemma segment_found:
  "e \<le> 7 \<Longrightarrow> 128 \<le> t \<Longrightarrow> t < 2 ^ (8 + e) \<Longrightarrow>
   segment (of_nat t) (2 ^ (7 + e)) e \<le> e
   \<and> 2 ^ (7 + segment (of_nat t) (2 ^ (7 + e)) e) \<le> t \<and> t < 2 ^ (8 + segment (of_nat t) (2 ^ (7 + e)) e)"
proof (induction e)
  case (Suc e)
  have "(of_nat t :: u16) AND 2 ^ (8 + e) = 0 \<longleftrightarrow> \<not> bit t (8 + e)"
    using Suc.prems by (simp add: and_exp_eq_0_iff_not_bit bit_of_nat_iff)
  also have "\<dots> \<longleftrightarrow> t < 2 ^ (8 + e)"
  proof -
    have "t div 2 ^ (8 + e) < 2" using Suc.prems by (intro less_mult_imp_div_less) (simp flip: power_Suc)
    then have "bit t (8 + e) \<longleftrightarrow> t div 2 ^ (8 + e) \<noteq> 0" by (auto simp: bit_iff_odd less_2_cases_iff)
    then show ?thesis by (simp add: div_eq_0_iff)
  qed
  finally have hit: "(of_nat t :: u16) AND 2 ^ (8 + e) = 0 \<longleftrightarrow> t < 2 ^ (8 + e)" .
  have half: "signed_drop_bit (Suc 0) (2 ^ (8 + e) :: u16) = 2 ^ (7 + e)"
  proof -
    have "e \<in> set [0..<7]" using Suc.prems by simp
    moreover have "list_all (\<lambda>e. signed_drop_bit (Suc 0) (2 ^ (8 + e) :: u16) = 2 ^ (7 + e)) [0..<7]" by code_simp
    ultimately show ?thesis by (meson list_all_iff)
  qed
  show ?case
    using Suc.IH Suc.prems by (auto simp: hit half simp del: power_Suc)
qed simp

text \<open>The three fields of a code, packed and complemented.\<close>

definition packed :: "bool \<Rightarrow> nat \<Rightarrow> nat \<Rightarrow> byte" where
  "packed neg k m = NOT ((if neg then 0x80 else 0) OR push_bit 4 (of_nat k) OR of_nat m)"

lemma packed_fields:
  assumes "k < 8" and "m < 16"
  shows "code_segment (packed neg k m) = k" and "code_step (packed neg k m) = m"
    and "NOT (packed neg k m) AND 0x80 \<noteq> 0 \<longleftrightarrow> neg"
proof -
  have "list_all (\<lambda>neg. list_all (\<lambda>k. list_all (\<lambda>m. code_segment (packed neg k m) = k
      \<and> code_step (packed neg k m) = m \<and> (NOT (packed neg k m) AND 0x80 \<noteq> 0 \<longleftrightarrow> neg)) [0..<16]) [0..<8])
    [True, False]" by code_simp
  moreover have "neg \<in> set [True, False]" "k \<in> set [0..<8]" "m \<in> set [0..<16]" using assms by auto
  ultimately show "code_segment (packed neg k m) = k" "code_step (packed neg k m) = m"
    "NOT (packed neg k m) AND 0x80 \<noteq> 0 \<longleftrightarrow> neg" unfolding list_all_iff by blast+
qed

definition magnitude :: "u16 \<Rightarrow> nat" where
  "magnitude s = nat (min \<bar>sint s\<bar> 32635) + 132"

lemma drop_bit_int_of_nat: "drop_bit n (int t) = int (t div 2 ^ n)"
  by (simp add: drop_bit_eq_div zdiv_int)

lemma encoded:
  assumes "sint s \<noteq> - 32768"
  obtains k where "k < 8" and "2 ^ (7 + k) \<le> magnitude s" and "magnitude s < 2 ^ (8 + k)"
    and "linear_to_ulaw s = packed (sint s < 0) k (magnitude s div 2 ^ (k + 3) mod 16)"
proof -
  let ?neg = "signed_drop_bit 8 s AND 0x80 \<noteq> 0"
  let ?abs = "if ?neg then - s else s"
  let ?clip = "if 32635 <s ?abs then 32635 else ?abs"
  let ?t = "magnitude s"
  have range: "- 32768 \<le> sint s" "sint s < 32768"
    using sint_ge [of s] sint_lt [of s] by simp_all
  have "sint (- s) = - sint s"
    using range assms by (simp add: sint_word_ariths signed_take_bit_int_eq_self)
  then have abs: "sint ?abs = \<bar>sint s\<bar>" by (simp add: negative_sign)
  have clip: "sint ?clip = min \<bar>sint s\<bar> 32635" using abs by (simp add: word_sless_alt min_def)
  have t: "128 \<le> ?t" "?t < 2 ^ (8 + 7)" by (auto simp: magnitude_def)
  have "?clip + 0x84 = word_of_int (sint ?clip + 132)" by (simp flip: wi_hom_syms)
  also have "\<dots> = of_nat ?t" by (simp add: clip magnitude_def)
  finally have sample: "?clip + 0x84 = of_nat ?t" .
  let ?k = "segment (of_nat ?t) 0x4000 7"
  have k: "?k \<le> 7" "2 ^ (7 + ?k) \<le> ?t" "?t < 2 ^ (8 + ?k)"
    using segment_found [of 7 ?t] t by simp_all
  show ?thesis
  proof (rule that [of ?k])
    show "linear_to_ulaw s = packed (sint s < 0) ?k (?t div 2 ^ (?k + 3) mod 16)"
    proof -
      have "sint (of_nat ?t :: u16) = int ?t"
        using t by (simp add: signed_of_nat signed_take_bit_int_eq_self)
      moreover have "signed_drop_bit (?k + 3) (of_nat ?t)
          = (word_of_int (sint (signed_drop_bit (?k + 3) (of_nat ?t :: u16))) :: u16)" by simp
      ultimately have "signed_drop_bit (?k + 3) (of_nat ?t :: u16) = word_of_int (drop_bit (?k + 3) (int ?t))"
        by (simp only: sint_signed_drop_bit_eq)
      then have "signed_drop_bit (?k + 3) (of_nat ?t :: u16) = of_nat (?t div 2 ^ (?k + 3))"
        by (simp only: drop_bit_int_of_nat of_int_of_nat_eq)
      then have m: "ucast (signed_drop_bit (?k + 3) (of_nat ?t :: u16) AND 0x0F)
          = (of_nat (?t div 2 ^ (?k + 3) mod 16) :: byte)"
        by (simp add: take_bit_of_nat unsigned_of_nat take_bit_take_bit) (simp add: take_bit_eq_mod)
      have "ucast (signed_drop_bit 8 s AND 0x80) = (if sint s < 0 then 0x80 else 0 :: byte)"
        using negative_sign [of s] unfolding and_80 by (simp add: and_80_cases)
      with m show ?thesis unfolding linear_to_ulaw_def Let_def sample packed_def by simp
    qed
  qed (use k in auto)
qed

lemma packed_value:
  "k < 8 \<Longrightarrow> m < 16 \<Longrightarrow> code_value (packed neg k m)
     = (if neg then - 1 else 1) * ((int m * 8 + 132) * 2 ^ k - 132)"
  by (simp add: code_value_def packed_fields Let_def)

text \<open>The middle of the step that a magnitude lies in.\<close>

lemma half_step:
  assumes "t = q * (8 * p) + r" and "m = q - 16"
  shows "(m * 8 + 132) * p - t = 4 * p - (r :: int)"
  unfolding assms by (simp add: algebra_simps)

lemma middle_of_step:
  assumes "2 ^ (7 + k) \<le> t" and "t < 2 ^ (8 + k)"
  shows "\<bar>(int (t div 2 ^ (k + 3) mod 16) * 8 + 132) * 2 ^ k - int t\<bar> \<le> 4 * 2 ^ k"
proof -
  let ?p = "2 ^ (k + 3) :: nat"
  let ?q = "t div ?p"
  have p: "2 ^ (7 + k) = ?p * 16" "2 ^ (8 + k) = ?p * 32" by (simp_all add: power_add)
  have "16 \<le> ?q" using assms(1) p by (simp add: less_eq_div_iff_mult_less_eq mult.commute)
  moreover have "?q < 32" using assms(2) p by (intro less_mult_imp_div_less) (simp add: mult.commute)
  ultimately have m: "?q mod 16 = ?q - 16" by (simp add: mod_if)
  have "t = ?q * ?p + t mod ?p" by (rule div_mult_mod_eq [symmetric])
  then have t: "int t = int ?q * int ?p + int (t mod ?p)" by (metis of_nat_add of_nat_mult)
  have p: "int ?p = 8 * 2 ^ k" by (simp add: power_add)
  have "int (?q mod 16) = int ?q - 16" using m \<open>16 \<le> ?q\<close> by simp
  then have "(int (?q mod 16) * 8 + 132) * 2 ^ k - int t = 4 * 2 ^ k - int (t mod ?p)"
    using t unfolding p by (intro half_step)
  moreover have "0 \<le> int (t mod ?p)" "int (t mod ?p) < 8 * 2 ^ k" unfolding p [symmetric] by simp_all
  ultimately show ?thesis by (simp only: abs_le_iff) linarith
qed

lemma encoded_value:
  assumes "sint s \<noteq> - 32768"
  defines "u \<equiv> linear_to_ulaw s"
  shows "\<bar>code_value u - (if sint s < 0 then - 1 else 1) * (int (magnitude s) - 132)\<bar> \<le> 4 * 2 ^ code_segment u"
    and "2 ^ (7 + code_segment u) \<le> magnitude s" and "magnitude s < 2 ^ (8 + code_segment u)"
proof -
  obtain k where k: "k < 8" "2 ^ (7 + k) \<le> magnitude s" "magnitude s < 2 ^ (8 + k)"
    and u: "u = packed (sint s < 0) k (magnitude s div 2 ^ (k + 3) mod 16)"
    unfolding u_def by (rule encoded [OF assms(1)])
  have s: "code_segment u = k" using k(1) u by (simp add: packed_fields)
  have "code_value u = (if sint s < 0 then - 1 else 1)
      * ((int (magnitude s div 2 ^ (k + 3) mod 16) * 8 + 132) * 2 ^ k - 132)"
    unfolding u by (rule packed_value [OF k(1)]) simp
  then show "\<bar>code_value u - (if sint s < 0 then - 1 else 1) * (int (magnitude s) - 132)\<bar> \<le> 4 * 2 ^ code_segment u"
    using middle_of_step [OF k(2,3)] s by (auto simp: abs_le_iff)
  show "2 ^ (7 + code_segment u) \<le> magnitude s" "magnitude s < 2 ^ (8 + code_segment u)"
    using k s by simp_all
qed

lemma decoded_fits:
  "sint (ulaw_to_linear u) = 4 * code_value u \<longleftrightarrow> code_segment u < 6"
proof -
  let ?v = "(int (code_step u) * 8 + 132) * 2 ^ code_segment u - 132"
  have step: "int (code_step u) \<le> 15" using code_step_less [of u] by simp
  have v: "\<bar>code_value u\<bar> = ?v"
  proof -
    have "132 \<le> (int (code_step u) * 8 + 132) * 2 ^ code_segment u"
      using mult_mono [of 132 "int (code_step u) * 8 + 132" 1 "2 ^ code_segment u :: int"] by simp
    then show ?thesis by (simp add: code_value_def Let_def)
  qed
  have "sint (ulaw_to_linear u) = signed_take_bit 15 (4 * code_value u)"
    unfolding decoded_value signed_of_int by simp
  then have "sint (ulaw_to_linear u) = 4 * code_value u \<longleftrightarrow> - 32768 \<le> 4 * code_value u \<and> 4 * code_value u < 32768"
    by (simp add: signed_take_bit_int_eq_self_iff)
  also have "\<dots> \<longleftrightarrow> code_segment u < 6"
  proof (cases "code_segment u < 6")
    case True
    then have "(2 :: int) ^ code_segment u \<le> 2 ^ 5" by (intro power_increasing) simp_all
    then have "?v \<le> (15 * 8 + 132) * 2 ^ 5 - 132" using step by (intro diff_right_mono mult_mono) simp_all
    then have "\<bar>code_value u\<bar> \<le> 7932" using v by simp
    then show ?thesis using True by (auto simp: abs_le_iff)
  next
    case False
    then have "(2 :: int) ^ 6 \<le> 2 ^ code_segment u" by (intro power_increasing) simp_all
    then have "132 * 2 ^ 6 - 132 \<le> ?v" by (intro diff_right_mono mult_mono) simp_all
    then have "8316 \<le> \<bar>code_value u\<bar>" using v by simp
    then have "\<not> (- 32768 \<le> 4 * code_value u \<and> 4 * code_value u < 32768)"
      by (cases "0 \<le> code_value u") auto
    then show ?thesis using False by blast
  qed
  finally show ?thesis .
qed

text \<open>
  C39. What is heard of a call is four times too loud: a sample is encoded to the middle of its
  G.711 step, but the code is decoded to four times that value, and in the two loudest segments,
  where four times the value does not fit into a sample, to that value modulo \<open>2 ^ 16\<close>.
\<close>

theorem audio_comes_back_four_times_louder:
  fixes s :: u16
  assumes "\<bar>sint s\<bar> \<le> 32635"
  defines "u \<equiv> linear_to_ulaw s"
  shows "\<exists>v. \<bar>v - sint s\<bar> \<le> 4 * 2 ^ code_segment u \<and> ulaw_to_linear u = word_of_int (4 * v)
    \<and> (sint (ulaw_to_linear u) = 4 * v \<longleftrightarrow> \<bar>sint s\<bar> < 8060)"
proof (intro exI conjI)
  have min: "sint s \<noteq> - 32768" using assms(1) by auto
  have mag: "(if sint s < 0 then - 1 else 1) * (int (magnitude s) - 132) = sint s"
    using assms(1) by (auto simp: magnitude_def)
  have "\<bar>sint s\<bar> = int (magnitude s) - 132" using assms(1) by (auto simp: magnitude_def)
  show "\<bar>code_value u - sint s\<bar> \<le> 4 * 2 ^ code_segment u"
    using encoded_value(1) [OF min] by (simp add: mag u_def)
  show "ulaw_to_linear u = word_of_int (4 * code_value u)" by (rule decoded_value)
  have "code_segment u < 6 \<longleftrightarrow> magnitude s < 8192"
  proof (cases "code_segment u < 6")
    case True
    then have "(2 :: nat) ^ (8 + code_segment u) \<le> 2 ^ 13" by (intro power_increasing) simp_all
    then show ?thesis using encoded_value(3) [OF min] True by (simp add: u_def)
  next
    case False
    then have "(2 :: nat) ^ 13 \<le> 2 ^ (7 + code_segment u)" by (intro power_increasing) simp_all
    then show ?thesis using encoded_value(2) [OF min] False by (simp add: u_def)
  qed
  then show "sint (ulaw_to_linear u) = 4 * code_value u \<longleftrightarrow> \<bar>sint s\<bar> < 8060"
    using \<open>\<bar>sint s\<bar> = int (magnitude s) - 132\<close> by (auto simp: decoded_fits)
qed

theorem audio_comes_back_four_times_louder_witness:
  "\<exists>v. \<bar>v - 1000\<bar> \<le> 4 * 2 ^ code_segment (linear_to_ulaw 1000)
     \<and> ulaw_to_linear (linear_to_ulaw 1000) = word_of_int (4 * v)
     \<and> (sint (ulaw_to_linear (linear_to_ulaw 1000)) = 4 * v \<longleftrightarrow> \<bar>1000 :: int\<bar> < 8060)"
  using audio_comes_back_four_times_louder [of 1000] by simp

text \<open>The most negative sample has no positive counterpart and is encoded as silence.\<close>

lemma loudest_sample_is_silent: "ulaw_to_linear (linear_to_ulaw 0x8000) = 0"
  by code_simp

section \<open>RTP\<close>

definition be16_bytes :: "u16 \<Rightarrow> bytes" where
  "be16_bytes w = [ucast (drop_bit 8 w), ucast w]"

definition be32_bytes :: "u32 \<Rightarrow> bytes" where
  "be32_bytes w = [ucast (drop_bit 24 w), ucast (drop_bit 16 w), ucast (drop_bit 8 w), ucast w]"

record rtp_state =
  rtp_seq :: u16
  rtp_timestamp :: u32
  rtp_ssrc :: u32

definition build_rtp_packet :: "bytes \<Rightarrow> rtp_state \<Rightarrow> bytes \<times> rtp_state" where
  "build_rtp_packet payload st =
     ([0x80, 0x00] @ be16_bytes (rtp_seq st) @ be32_bytes (rtp_timestamp st) @ be32_bytes (rtp_ssrc st) @ payload,
      st\<lparr>rtp_seq := rtp_seq st + 1, rtp_timestamp := rtp_timestamp st + 160\<rparr>)"

text \<open>A buffer of the capture process, cut into at most two frames of 20 ms.\<close>

fun capture_frames :: "nat \<Rightarrow> bytes \<Rightarrow> rtp_state \<Rightarrow> bytes list \<times> rtp_state" where
  "capture_frames 0 pcm st = ([], st)"
| "capture_frames (Suc n) pcm st =
     (if pcm = [] then ([], st)
      else
        (let (p, st) = build_rtp_packet (encode_pcm_to_ulaw (take 320 pcm)) st;
             (ps, st) = capture_frames n (drop 320 pcm) st
         in (p # ps, st)))"

definition capture_buffer :: "bool \<Rightarrow> bytes \<Rightarrow> rtp_state \<Rightarrow> bytes list \<times> rtp_state" where
  "capture_buffer has_client pcm st = (if has_client then capture_frames 2 pcm st else ([], st))"

section \<open>Playback\<close>

text \<open>
  One turn of the loop: nothing came in time, or a datagram. What is written to the playback
  process and what stays in the buffer.
\<close>

datatype playback_event = RtpTimeout | RtpPacket bytes

definition playback_step :: "bool \<Rightarrow> playback_event \<Rightarrow> bytes \<Rightarrow> bytes \<times> bytes" where
  "playback_step pcm_ready ev accum =
     (case ev of
        RtpTimeout \<Rightarrow> (accum, [])
      | RtpPacket d \<Rightarrow>
          if length d \<le> 12 then ([], accum)
          else if \<not> pcm_ready then ([], accum)
          else if d ! 1 AND 0x7F \<noteq> 0 then ([], accum)
          else
            (let accum = accum @ decode_ulaw_to_pcm (drop 12 d) in
             if 1600 \<le> length accum then (take 1600 accum, drop 1600 accum) else ([], accum)))"

fun playback_run :: "(bool \<times> playback_event) list \<Rightarrow> bytes \<Rightarrow> bytes \<times> bytes" where
  "playback_run [] accum = ([], accum)"
| "playback_run ((ready, ev) # evs) accum =
     (let (w, accum) = playback_step ready ev accum; (ws, accum) = playback_run evs accum in (w @ ws, accum))"

text \<open>The audio of the datagrams that the loop takes.\<close>

definition taken_audio :: "bool \<times> playback_event \<Rightarrow> bytes" where
  "taken_audio x =
     (case x of
        (True, RtpPacket d) \<Rightarrow> if length d \<le> 12 \<or> d ! 1 AND 0x7F \<noteq> 0 then [] else drop 12 d
      | _ \<Rightarrow> [])"

lemma decode_append: "decode_ulaw_to_pcm (a @ b) = decode_ulaw_to_pcm a @ decode_ulaw_to_pcm b"
  by (simp add: decode_ulaw_to_pcm_def)

lemma decode_empty [simp]: "decode_ulaw_to_pcm [] = []"
  by (simp add: decode_ulaw_to_pcm_def)

lemma decode_length: "length (decode_ulaw_to_pcm d) = 2 * length d"
  by (induction d) (simp_all add: decode_ulaw_to_pcm_def Let_def)

lemma playback_step_keeps:
  "(\<lambda>(w, rest). w @ rest) (playback_step ready ev accum) = accum @ decode_ulaw_to_pcm (taken_audio (ready, ev))"
  by (cases ready; cases ev)
     (auto simp: playback_step_def taken_audio_def Let_def simp del: take_append drop_append length_append)

lemma playback_run_keeps:
  "(\<lambda>(w, rest). w @ rest) (playback_run evs accum) = accum @ decode_ulaw_to_pcm (concat (map taken_audio evs))"
proof (induction evs arbitrary: accum)
  case (Cons x evs)
  obtain ready ev where x: "x = (ready, ev)" by (cases x)
  obtain w rest where step: "playback_step ready ev accum = (w, rest)" by (cases "playback_step ready ev accum")
  obtain ws final where run: "playback_run evs rest = (ws, final)" by (cases "playback_run evs rest")
  have "w @ rest = accum @ decode_ulaw_to_pcm (taken_audio (ready, ev))"
    using playback_step_keeps [of ready ev accum] step by simp
  moreover have "ws @ final = rest @ decode_ulaw_to_pcm (concat (map taken_audio evs))"
    using Cons.IH [of rest] run by simp
  ultimately show ?case by (simp add: x step run decode_append)
qed simp

lemma playback_buffer_bound:
  assumes "\<forall>x \<in> set evs. length (taken_audio x) \<le> 800" and "length accum < 1600"
  shows "length (snd (playback_run evs accum)) < 1600"
  using assms
proof (induction evs arbitrary: accum)
  case (Cons x evs)
  obtain ready ev where x: "x = (ready, ev)" by (cases x)
  obtain w rest where step: "playback_step ready ev accum = (w, rest)" by (cases "playback_step ready ev accum")
  have "length rest < 1600"
    using Cons.prems step
    by (cases ready; cases ev)
       (auto simp: playback_step_def taken_audio_def x decode_length Let_def split: if_splits)
  then have "length (snd (playback_run evs rest)) < 1600" using Cons.IH [of rest] Cons.prems(1) by simp
  then show ?case by (simp add: x step split_def Let_def)
qed simp

text \<open>
  C40. The playback loop loses and reorders nothing: what it has written, followed by what is
  in its buffer, is the decoded audio of the datagrams it took, in order; and the buffer stays
  below the size of a write as long as no datagram holds more than 100 ms.
\<close>

theorem playback_keeps_every_sample:
  assumes "playback_run evs [] = (written, accum)"
  shows "written @ accum = decode_ulaw_to_pcm (concat (map taken_audio evs))
    \<and> ((\<forall>x \<in> set evs. length (taken_audio x) \<le> 800) \<longrightarrow> length accum < 1600)"
  using playback_run_keeps [of evs "[]"] playback_buffer_bound [of evs "[]"] assms by auto

theorem playback_keeps_every_sample_witness:
  "[] @ [0, 0] = decode_ulaw_to_pcm [0xFF]"
proof -
  let ?ev = "RtpPacket [0x80, 0, 0, 0, 0, 0, 0, 0, 0, 0, 0, 0, 0xFF]"
  have "playback_run [(True, ?ev)] [] = ([], [0, 0])" by code_simp
  then have "[] @ [0, 0] = decode_ulaw_to_pcm (concat (map taken_audio [(True, ?ev)]))"
    using playback_keeps_every_sample [of "[(True, ?ev)]" "[]" "[0, 0]"] by blast
  then show ?thesis by (simp add: taken_audio_def)
qed

text \<open>A packet that the bridge builds is one its peer, running the same loop, takes.\<close>

lemma built_packet_is_taken:
  "payload \<noteq> [] \<Longrightarrow> taken_audio (True, RtpPacket (fst (build_rtp_packet payload st))) = payload"
  by (simp add: build_rtp_packet_def taken_audio_def be16_bytes_def be32_bytes_def)

lemma encode_split_pairs:
  "encode_pcm_to_ulaw (take (2 * k) p) @ encode_pcm_to_ulaw (drop (2 * k) p) = encode_pcm_to_ulaw p"
proof (induction k arbitrary: p)
  case (Suc k)
  then show ?case by (cases p rule: encode_pcm_to_ulaw.cases) simp_all
qed simp

lemma encode_split:
  "even n \<Longrightarrow> encode_pcm_to_ulaw (take n p) @ encode_pcm_to_ulaw (drop n p) = encode_pcm_to_ulaw p"
  using encode_split_pairs [of "n div 2" p] by simp

lemma encode_length: "length (encode_pcm_to_ulaw p) = length p div 2"
  by (induction p rule: encode_pcm_to_ulaw.induct) simp_all

lemma capture_frames_payloads:
  "length pcm \<le> 320 * n \<Longrightarrow> even (length pcm) \<Longrightarrow>
   concat (map (\<lambda>p. taken_audio (True, RtpPacket p)) (fst (capture_frames n pcm st))) = encode_pcm_to_ulaw pcm"
proof (induction n arbitrary: pcm st)
  case (Suc n)
  show ?case
  proof (cases "pcm = []")
    case False
    then have "1 < length pcm" using Suc.prems(2) by (cases pcm; cases "tl pcm") auto
    then have "0 < length (encode_pcm_to_ulaw (take 320 pcm))" by (simp add: encode_length)
    then have "encode_pcm_to_ulaw (take 320 pcm) \<noteq> []" by simp
    moreover have "length (drop 320 pcm) \<le> 320 * n" "even (length (drop 320 pcm))" using Suc.prems by simp_all
    ultimately show ?thesis
      using False Suc.IH [of "drop 320 pcm"]
      by (simp add: split_def Let_def built_packet_is_taken encode_split)
  qed simp
qed simp

text \<open>Packets carry consecutive numbers, modulo their width, and timestamps 160 apart.\<close>

definition packet_numbers :: "rtp_state \<Rightarrow> nat \<Rightarrow> bytes" where
  "packet_numbers st i =
     be16_bytes (rtp_seq st + of_nat i) @ be32_bytes (rtp_timestamp st + of_nat (160 * i)) @ be32_bytes (rtp_ssrc st)"

lemma capture_frames_numbers:
  "i < length (fst (capture_frames n pcm st)) \<Longrightarrow>
   take 10 (drop 2 (fst (capture_frames n pcm st) ! i)) = packet_numbers st i"
proof (induction n arbitrary: pcm st i)
  case (Suc n)
  have first: "take 10 (drop 2 (fst (build_rtp_packet q st))) = packet_numbers st 0" for q
    by (simp add: build_rtp_packet_def packet_numbers_def be16_bytes_def be32_bytes_def)
  have later: "packet_numbers (snd (build_rtp_packet q st)) j = packet_numbers st (Suc j)" for q j
    by (simp add: build_rtp_packet_def packet_numbers_def algebra_simps)
  show ?case
  proof (cases "pcm = []")
    case False
    then show ?thesis using Suc.prems Suc.IH first later by (cases i) (simp_all add: split_def Let_def)
  qed (use Suc.prems in simp)
qed simp

text \<open>
  The audio of a capture buffer reaches a peer that runs the same playback loop: whole
  and in order, in packets with consecutive numbers.
\<close>

theorem captured_audio_reaches_the_peer:
  assumes "length pcm = 640" and "capture_buffer True pcm st = (packets, st')"
    and "playback_run (map (\<lambda>p. (True, RtpPacket p)) packets) [] = (written, accum)"
  shows "written @ accum = decode_ulaw_to_pcm (encode_pcm_to_ulaw pcm)
    \<and> (\<forall>i < length packets. take 10 (drop 2 (packets ! i)) = packet_numbers st i)"
proof
  have p: "packets = fst (capture_frames 2 pcm st)" using assms(2) by (simp add: capture_buffer_def)
  have "concat (map taken_audio (map (\<lambda>p. (True, RtpPacket p)) packets)) = encode_pcm_to_ulaw pcm"
    using capture_frames_payloads [of pcm 2 st] assms(1) by (simp add: p comp_def)
  then show "written @ accum = decode_ulaw_to_pcm (encode_pcm_to_ulaw pcm)"
    using playback_run_keeps [of "map (\<lambda>p. (True, RtpPacket p)) packets" "[]"] assms(3) by simp
  show "\<forall>i < length packets. take 10 (drop 2 (packets ! i)) = packet_numbers st i"
    using capture_frames_numbers [of _ 2 pcm st] by (simp add: p)
qed

theorem captured_audio_reaches_the_peer_witness:
  "\<exists>packets written accum. length packets = 2
     \<and> written @ accum = decode_ulaw_to_pcm (encode_pcm_to_ulaw (replicate 640 0))
     \<and> take 10 (drop 2 (packets ! 1)) = packet_numbers \<lparr>rtp_seq = 0xFFFF, rtp_timestamp = 0, rtp_ssrc = 7\<rparr> 1"
proof -
  let ?st = "\<lparr>rtp_seq = 0xFFFF, rtp_timestamp = 0, rtp_ssrc = 7\<rparr>"
  obtain packets st' where c: "capture_buffer True (replicate 640 0) ?st = (packets, st')"
    by (cases "capture_buffer True (replicate 640 0) ?st")
  then have "length packets = 2"
    by (auto simp: capture_buffer_def numeral_2_eq_2 split_def Let_def)
  moreover obtain written accum
    where r: "playback_run (map (\<lambda>p. (True, RtpPacket p)) packets) [] = (written, accum)"
    by (cases "playback_run (map (\<lambda>p. (True, RtpPacket p)) packets) []")
  ultimately have "length packets = 2 \<and> written @ accum = decode_ulaw_to_pcm (encode_pcm_to_ulaw (replicate 640 0))
      \<and> take 10 (drop 2 (packets ! 1)) = packet_numbers ?st 1"
    using captured_audio_reaches_the_peer [of "replicate 640 0" ?st packets st' written accum] c by simp
  then show ?thesis by blast
qed

end
