(* ===== verification/Mbim_Data.thy ===== *)
theory Mbim_Data
  imports Mbim_Services Mbim_Parsers Go_Strings
begin

text \<open>
  The data connection of an MBIM modem and its recovery: \<open>internal/mbim/dataconn.go\<close>,
  \<open>recovery.go\<close>, \<open>healthprobe.go\<close> and \<open>Close\<close> of \<open>manager.go\<close>. The modem and the network
  interface are a record of calls that thread the outside world; the waiting of a call until
  its deadline is part of its outcome, and so are the polls until the modem is registered. Calls hold
  \<open>dataMu\<close>, so that each runs to its end. The interface has been configured (\<open>SetDataConfig\<close>).
\<close>

section \<open>The outside\<close>

datatype 'e connect_error = ConnectStatus u32 | DeadlineExceeded | OtherFailure 'e

datatype net_op =
    SetIPv4 string u32 | SetIPv6 string u32 | SetMTU u32 | BringUp | AddDefaultRoute string
  | SetDNS "string list" | FlushInterface

record ('e, 's) modem_io =
  io_open :: "'s \<Rightarrow> 'e option \<times> 's"
  io_close :: "'s \<Rightarrow> 's"
  io_registered :: "'s \<Rightarrow> bool \<times> 's"
  io_activate :: "'s \<Rightarrow> ('e connect_error + connect_state) \<times> 's"
  io_deactivate :: "'s \<Rightarrow> 'e option \<times> 's"
  io_ip_config :: "'s \<Rightarrow> ('e + ip_config) \<times> 's"
  io_net :: "net_op \<Rightarrow> 's \<Rightarrow> 'e option \<times> 's"
  io_sleep :: "nat \<Rightarrow> 's \<Rightarrow> bool \<times> 's"
  io_verify :: "'s \<Rightarrow> 'e option \<times> 's"

section \<open>The manager\<close>

datatype health = Unprobed | Healthy | Suspect | Recovering

record data_manager =
  dm_device :: bool
  dm_desired :: bool
  dm_connected :: bool
  dm_ipv4 :: string
  dm_ipv6 :: string
  dm_gate :: bool
  dm_failures :: int
  dm_health :: health
  dm_max_attempts :: nat
  dm_retry_delay :: nat

datatype 'e data_error =
    NotOpened | NotRegistered | TimeoutRecovery 'e | ActivateFailed "'e connect_error"
  | StaleDeactivate 'e | NotActivated u32 u32 | IpConfigFailed 'e | NoIpAssigned | ApplyFailed 'e
  | NotConnected | DeactivateFailed 'e

definition status_busy :: u32 where "status_busy = 0x01"
definition status_max_contexts :: u32 where "status_max_contexts = 0x0d"
definition activated :: u32 where "activated = 1"

text \<open>A delay is in milliseconds.\<close>

fun activate_loop ::
  "nat \<Rightarrow> ('e, 's) modem_io \<Rightarrow> nat \<Rightarrow> 's \<Rightarrow> ('e connect_error + connect_state) \<times> 's"
where
  "activate_loop 0 io delay s = io_activate io s"
| "activate_loop (Suc n) io delay s =
     (case io_activate io s of
        (Inl (ConnectStatus st), s) \<Rightarrow>
          if st \<noteq> status_busy then (Inl (ConnectStatus st), s)
          else
            (case io_sleep io delay s of
               (True, s) \<Rightarrow> (Inl DeadlineExceeded, s)
             | (False, s) \<Rightarrow> activate_loop n io (if delay < 5000 then delay * 2 else delay) s)
      | r \<Rightarrow> r)"

definition activate_with_retry ::
  "('e, 's) modem_io \<Rightarrow> data_manager \<Rightarrow> 's \<Rightarrow> ('e connect_error + connect_state) \<times> 's"
where
  "activate_with_retry io m =
     activate_loop (dm_max_attempts m - 1) io (if dm_retry_delay m = 0 then 1000 else dm_retry_delay m)"

text \<open>\<open>Open\<close> renews the device and forgets what the health probe has counted.\<close>

definition open_manager :: "('e, 's) modem_io \<Rightarrow> data_manager \<Rightarrow> 's \<Rightarrow> 'e option \<times> data_manager \<times> 's" where
  "open_manager io m s =
     (case io_open io s of
        (Some e, s) \<Rightarrow> (Some e, m, s)
      | (None, s) \<Rightarrow> (None, m\<lparr>dm_device := True, dm_failures := 0, dm_health := Unprobed\<rparr>, s))"

definition close_endpoint :: "('e, 's) modem_io \<Rightarrow> data_manager \<Rightarrow> 's \<Rightarrow> 's" where
  "close_endpoint io m s = (if dm_device m then io_close io s else s)"

definition close_manager :: "('e, 's) modem_io \<Rightarrow> data_manager \<Rightarrow> 's \<Rightarrow> data_manager \<times> 's" where
  "close_manager io m s =
     (let s = (if dm_connected m \<and> dm_device m
               then snd (io_net io FlushInterface (snd (io_deactivate io s))) else s)
      in (m\<lparr>dm_device := False, dm_desired := False, dm_connected := False, dm_ipv4 := [],
            dm_ipv6 := [], dm_gate := False\<rparr>, close_endpoint io m s))"

definition reopen_for_connect ::
  "('e, 's) modem_io \<Rightarrow> data_manager \<Rightarrow> 's \<Rightarrow> 'e option \<times> data_manager \<times> 's"
where
  "reopen_for_connect io m s =
     open_manager io (m\<lparr>dm_device := False, dm_connected := False, dm_ipv4 := [], dm_ipv6 := [],
       dm_gate := False\<rparr>) (close_endpoint io m s)"

definition recover_stale ::
  "('e, 's) modem_io \<Rightarrow> 'e connect_error \<Rightarrow> 's \<Rightarrow> ('e option \<times> bool) \<times> 's"
where
  "recover_stale io e s =
     (if e \<noteq> ConnectStatus status_max_contexts then ((None, False), s)
      else case io_deactivate io s of
        (Some e, s) \<Rightarrow> ((Some e, True), s)
      | (None, s) \<Rightarrow> ((None, True), s))"

text \<open>The changes to the interface that an address configuration asks for, in order.\<close>

definition ip_operations :: "ip_config \<Rightarrow> net_op list" where
  "ip_operations c =
     (if ip_v4_address c \<noteq> [] then [SetIPv4 (ip_v4_address c) (ip_v4_prefix c)] else [])
     @ (if ip_v6_address c \<noteq> [] then [SetIPv6 (ip_v6_address c) (ip_v6_prefix c)] else [])
     @ (if ip_v4_mtu c > 0 then [SetMTU (ip_v4_mtu c)] else [])
     @ [BringUp]
     @ (if ip_v4_gateway c \<noteq> [] then [AddDefaultRoute (ip_v4_gateway c)] else [])
     @ (let dns = ip_v4_dns c @ ip_v6_dns c in if dns \<noteq> [] then [SetDNS dns] else [])"

fun net_run :: "('e, 's) modem_io \<Rightarrow> net_op list \<Rightarrow> 's \<Rightarrow> 'e option \<times> 's" where
  "net_run io [] s = (None, s)"
| "net_run io (p # ps) s =
     (case io_net io p s of (Some e, s) \<Rightarrow> (Some e, s) | (None, s) \<Rightarrow> net_run io ps s)"

definition apply_ip_config :: "('e, 's) modem_io \<Rightarrow> ip_config \<Rightarrow> 's \<Rightarrow> 'e option \<times> 's" where
  "apply_ip_config io c = net_run io (ip_operations c)"

section \<open>Connecting\<close>

text \<open>From an activated session to addresses on the interface.\<close>

definition configure_session ::
  "('e, 's) modem_io \<Rightarrow> connect_state \<Rightarrow> data_manager \<Rightarrow> 's
   \<Rightarrow> ('e data_error, unit) result \<times> data_manager \<times> 's"
where
  "configure_session io st m s =
     (if cs_activation st \<noteq> activated
      then (Fail (NotActivated (cs_activation st) (cs_nw_error st)), m, s)
      else case io_ip_config io s of
        (Inl e, s) \<Rightarrow> (Fail (IpConfigFailed e), m, s)
      | (Inr c, s) \<Rightarrow>
          if ip_v4_address c = [] \<and> ip_v6_address c = [] then (Fail NoIpAssigned, m, s)
          else
            (case apply_ip_config io c s of
               (Some e, s) \<Rightarrow>
                 (Fail (ApplyFailed e), m, snd (io_net io FlushInterface (snd (io_deactivate io s))))
             | (None, s) \<Rightarrow>
                 (Ok (), m\<lparr>dm_ipv4 := ip_v4_address c, dm_ipv6 := ip_v6_address c, dm_connected := True\<rparr>, s)))"

text \<open>After the first activation: a session that the modem still holds is given back once.\<close>

definition settle_activation ::
  "('e, 's) modem_io \<Rightarrow> ('e connect_error + connect_state) \<Rightarrow> data_manager \<Rightarrow> 's
   \<Rightarrow> ('e data_error, unit) result \<times> data_manager \<times> 's"
where
  "settle_activation io r m s =
     (case r of
        Inr st \<Rightarrow> configure_session io st m s
      | Inl e \<Rightarrow>
          (case recover_stale io e s of
             ((Some e', _), s) \<Rightarrow> (Fail (StaleDeactivate e'), m, s)
           | ((None, False), s) \<Rightarrow> (Fail (ActivateFailed e), m, s)
           | ((None, True), s) \<Rightarrow>
               (case activate_with_retry io m s of
                  (Inl e, s) \<Rightarrow> (Fail (ActivateFailed e), m, s)
                | (Inr st, s) \<Rightarrow> configure_session io st m s)))"

definition connect_locked ::
  "('e, 's) modem_io \<Rightarrow> data_manager \<Rightarrow> 's \<Rightarrow> ('e data_error, unit) result \<times> data_manager \<times> 's"
where
  "connect_locked io m s =
     (if \<not> dm_device m then (Fail NotOpened, m, s)
      else case io_registered io s of
        (False, s) \<Rightarrow> (Fail NotRegistered, m, s)
      | (True, s) \<Rightarrow>
          (let m = m\<lparr>dm_desired := True\<rparr> in
           case activate_with_retry io m s of
             (Inl DeadlineExceeded, s) \<Rightarrow>
               (case reopen_for_connect io m s of
                  (Some e, m, s) \<Rightarrow> (Fail (TimeoutRecovery e), m, s)
                | (None, m, s) \<Rightarrow>
                    (case io_registered io s of
                       (False, s) \<Rightarrow> (Fail NotRegistered, m, s)
                     | (True, s) \<Rightarrow>
                         (let (r, s) = activate_with_retry io m s in settle_activation io r m s)))
           | (r, s) \<Rightarrow> settle_activation io r m s))"

definition disconnect_locked ::
  "('e, 's) modem_io \<Rightarrow> data_manager \<Rightarrow> 's \<Rightarrow> ('e data_error, unit) result \<times> data_manager \<times> 's"
where
  "disconnect_locked io m s =
     (let was = dm_connected m; m = m\<lparr>dm_desired := False\<rparr> in
      if \<not> was then (Ok (), m, s)
      else if \<not> dm_device m then (Fail NotOpened, m, s)
      else
        (let (e, s) = io_deactivate io s;
             (_, s) = io_net io FlushInterface s;
             m = m\<lparr>dm_connected := False, dm_ipv4 := [], dm_ipv6 := []\<rparr>
         in (case e of None \<Rightarrow> Ok () | Some e \<Rightarrow> Fail (DeactivateFailed e), m, s)))"

definition rotate_ip ::
  "('e, 's) modem_io \<Rightarrow> data_manager \<Rightarrow> 's \<Rightarrow> ('e data_error, unit) result \<times> data_manager \<times> 's"
where
  "rotate_ip io m s =
     (if \<not> dm_connected m then (Fail NotConnected, m, s)
      else case disconnect_locked io m s of
        (Ok _, m, s) \<Rightarrow> connect_locked io m s
      | (bad, m, s) \<Rightarrow> (bad, m, s))"

text \<open>The modem reports that the session has gone: is a reconnection started?\<close>

definition handle_connect_indication :: "connect_state \<Rightarrow> data_manager \<Rightarrow> bool \<times> data_manager" where
  "handle_connect_indication st m =
     (if cs_activation st \<noteq> 3 \<and> cs_activation st \<noteq> 4 then (False, m)
      else (dm_desired m, m\<lparr>dm_connected := False\<rparr>))"

fun reconnect_loop :: "nat \<Rightarrow> nat \<Rightarrow> ('e, 's) modem_io \<Rightarrow> data_manager \<Rightarrow> 's \<Rightarrow> data_manager \<times> 's" where
  "reconnect_loop 0 backoff io m s = (m, s)"
| "reconnect_loop (Suc n) backoff io m s =
     (if \<not> dm_desired m then (m, s)
      else case connect_locked io m s of
        (Ok _, m, s) \<Rightarrow> (m, s)
      | (_, m, s) \<Rightarrow>
          reconnect_loop n (if backoff < 30000 then backoff * 2 else backoff) io m (snd (io_sleep io backoff s)))"

definition reconnect_with_backoff :: "('e, 's) modem_io \<Rightarrow> data_manager \<Rightarrow> 's \<Rightarrow> data_manager \<times> 's" where
  "reconnect_with_backoff = reconnect_loop 6 1000"

section \<open>Recovery of the control channel\<close>

datatype 'e reopen_error = OpenFailed 'e | RestoreFailed "'e data_error" | VerifyFailed 'e

definition do_reopen ::
  "('e, 's) modem_io \<Rightarrow> data_manager \<Rightarrow> 's \<Rightarrow> 'e reopen_error option \<times> data_manager \<times> 's"
where
  "do_reopen io m s =
     (let want_data = dm_desired m; (m, s) = close_manager io m s in
      case open_manager io m s of
        (Some e, m, s) \<Rightarrow> (Some (OpenFailed e), m, s)
      | (None, m, s) \<Rightarrow>
          if want_data then
            (case connect_locked io m s of
               (Fail e, m, s) \<Rightarrow> (Some (RestoreFailed e), m, s)
             | (_, m, s) \<Rightarrow> (None, m, s))
          else (None, m, s))"

definition reopen_attempt ::
  "('e, 's) modem_io \<Rightarrow> data_manager \<Rightarrow> 's \<Rightarrow> 'e reopen_error option \<times> data_manager \<times> 's"
where
  "reopen_attempt io m s =
     (case do_reopen io m s of
        (Some e, m, s) \<Rightarrow> (Some e, m, s)
      | (None, m, s) \<Rightarrow>
          (case io_verify io s of
             (Some e, s) \<Rightarrow> (Some (VerifyFailed e), m, s)
           | (None, s) \<Rightarrow> (None, m, s)))"

definition max_reopen_attempts :: nat where "max_reopen_attempts = 3"

text \<open>None when the channel works again, else the error that goes with the exhausted attempts.\<close>

fun recovery_loop ::
  "nat \<Rightarrow> nat \<Rightarrow> ('e, 's) modem_io \<Rightarrow> data_manager \<Rightarrow> 's \<Rightarrow> 'e reopen_error option \<times> data_manager \<times> 's"
where
  "recovery_loop 0 backoff io m s = (None, m, s)"
| "recovery_loop (Suc n) backoff io m s =
     (case reopen_attempt io m s of
        (None, m, s) \<Rightarrow> (None, m, s)
      | (Some e, m, s) \<Rightarrow>
          if n = 0 then (Some e, m, s) else recovery_loop n backoff io m (snd (io_sleep io backoff s)))"

definition run_recovery ::
  "nat \<Rightarrow> ('e, 's) modem_io \<Rightarrow> data_manager \<Rightarrow> 's \<Rightarrow> 'e reopen_error option \<times> data_manager \<times> 's"
where
  "run_recovery backoff = recovery_loop max_reopen_attempts backoff"

section \<open>What a call may assume and promise\<close>

text \<open>
  A connected manager has its device, wants the connection and has an address.
\<close>

definition data_ok :: "data_manager \<Rightarrow> bool" where
  "data_ok m \<longleftrightarrow> (dm_connected m \<longrightarrow> dm_device m \<and> dm_desired m \<and> (dm_ipv4 m \<noteq> [] \<or> dm_ipv6 m \<noteq> []))"

lemma data_okI: "\<not> dm_connected m \<Longrightarrow> data_ok m"
  by (simp add: data_ok_def)

lemmas data_splits = result.splits option.splits sum.splits prod.splits bool.splits if_splits

lemma configure_ok:
  "configure_session io st m s = (r, m', s') \<Longrightarrow> dm_device m \<Longrightarrow> dm_desired m \<Longrightarrow> data_ok m \<Longrightarrow>
   data_ok m' \<and> dm_device m' \<and> dm_desired m' \<and> (r = Ok () \<longrightarrow> dm_connected m')"
  by (auto simp: configure_session_def data_ok_def split: data_splits)

lemma settle_ok:
  "settle_activation io a m s = (r, m', s') \<Longrightarrow> dm_device m \<Longrightarrow> dm_desired m \<Longrightarrow> data_ok m \<Longrightarrow>
   data_ok m' \<and> dm_device m' \<and> dm_desired m' \<and> (r = Ok () \<longrightarrow> dm_connected m')"
  by (auto simp: settle_activation_def split: data_splits dest: configure_ok)

lemma data_open_ok: "open_manager io m s = (None, m', s') \<Longrightarrow>
   m' = m\<lparr>dm_device := True, dm_failures := 0, dm_health := Unprobed\<rparr>"
  and open_failed: "open_manager io m s = (Some e, m', s') \<Longrightarrow> m' = m"
  by (auto simp: open_manager_def split: data_splits)

lemma data_connect_ok:
  assumes "connect_locked io m s = (r, m', s')" and "data_ok m"
  shows "data_ok m'" and "r = Ok () \<Longrightarrow> dm_connected m'"
proof -
  let ?m = "m\<lparr>dm_desired := True\<rparr>"
  have start: "data_ok ?m" using assms(2) by (simp add: data_ok_def)
  have "data_ok m' \<and> (r = Ok () \<longrightarrow> dm_connected m')"
  proof (cases "dm_device m \<and> fst (io_registered io s)")
    case False
    then show ?thesis using assms by (auto simp: connect_locked_def split: data_splits)
  next
    case True
    then obtain s1 where reg: "io_registered io s = (True, s1)" by (metis prod.collapse)
    obtain a s2 where act: "activate_with_retry io ?m s1 = (a, s2)" by (cases "activate_with_retry io ?m s1")
    show ?thesis
    proof (cases "a = Inl DeadlineExceeded")
      case False
      then have "settle_activation io a ?m s2 = (r, m', s')"
        using assms(1) True reg act by (auto simp: connect_locked_def Let_def split: sum.splits connect_error.splits)
      then show ?thesis using settle_ok start True by fastforce
    next
      case dead: True
      show ?thesis
      proof (cases "fst (reopen_for_connect io ?m s2)")
        case None
        then obtain m3 s3 where re: "reopen_for_connect io ?m s2 = (None, m3, s3)" by (metis prod.collapse)
        then have m3: "dm_device m3" "dm_desired m3" "data_ok m3"
          unfolding reopen_for_connect_def by (auto dest!: data_open_ok simp: data_ok_def)
        then show ?thesis
          using assms(1) True reg act dead re
          by (auto simp: connect_locked_def Let_def intro: m3 dest!: settle_ok split: data_splits)
      next
        case (Some e)
        then obtain m3 s3 where re: "reopen_for_connect io ?m s2 = (Some e, m3, s3)" by (metis prod.collapse)
        then have "\<not> dm_connected m3" unfolding reopen_for_connect_def by (auto dest!: open_failed)
        then show ?thesis
          using assms(1) True reg act dead re by (auto simp: connect_locked_def Let_def intro: data_okI)
      qed
    qed
  qed
  then show "data_ok m'" and "r = Ok () \<Longrightarrow> dm_connected m'" by auto
qed

lemma data_close_ok: "close_manager io m s = (m', s') \<Longrightarrow> \<not> dm_connected m' \<and> \<not> dm_desired m' \<and> \<not> dm_device m'"
  by (auto simp: close_manager_def Let_def)

lemma data_disconnect_ok: "disconnect_locked io m s = (r, m', s') \<Longrightarrow> data_ok m \<Longrightarrow> \<not> dm_connected m'"
  by (auto simp: disconnect_locked_def data_ok_def Let_def split: data_splits)

lemma rotate_ok: "rotate_ip io m s = (r, m', s') \<Longrightarrow> data_ok m \<Longrightarrow> data_ok m'"
  by (auto simp: rotate_ip_def intro: data_okI data_connect_ok(1) dest: data_disconnect_ok split: data_splits)

lemma reconnect_ok: "reconnect_loop n b io m s = (m', s') \<Longrightarrow> data_ok m \<Longrightarrow> data_ok m'"
proof (induction n arbitrary: b m s)
  case (Suc n)
  obtain r m1 s1 where "connect_locked io m s = (r, m1, s1)" by (cases "connect_locked io m s")
  with Suc show ?case using data_connect_ok(1) [of io m s r m1 s1] by (auto split: data_splits)
qed simp

lemma reopen_ok:
  assumes "reopen_attempt io m s = (r, m', s')"
  shows "data_ok m'"
proof -
  obtain m1 s1 where c: "close_manager io m s = (m1, s1)" by (cases "close_manager io m s")
  then have m1: "\<not> dm_connected m1" by (auto dest: data_close_ok)
  show ?thesis
  proof (cases "open_manager io m1 s1")
    case (fields f m2 s2)
    show ?thesis
    proof (cases f)
      case None
      then have m2: "data_ok m2" "dm_device m2"
        using fields m1 by (auto dest!: data_open_ok simp: data_ok_def)
      then show ?thesis
        using assms fields c None data_connect_ok [of io m2 s2]
        by (auto simp: reopen_attempt_def do_reopen_def Let_def data_ok_def split: data_splits)
    next
      case (Some e)
      then show ?thesis
        using assms fields c m1
        by (auto simp: reopen_attempt_def do_reopen_def Let_def data_ok_def dest: open_failed split: data_splits)
    qed
  qed
qed

lemma recovery_ok: "recovery_loop n b io m s = (r, m', s') \<Longrightarrow> data_ok m \<Longrightarrow> data_ok m'"
proof (induction n arbitrary: m s)
  case (Suc n)
  obtain r1 m1 s1 where a: "reopen_attempt io m s = (r1, m1, s1)" by (cases "reopen_attempt io m s")
  then show ?case using Suc reopen_ok [OF a] by (auto split: data_splits)
qed simp

inductive data_step :: "('e, 's) modem_io \<Rightarrow> data_manager \<times> 's \<Rightarrow> data_manager \<times> 's \<Rightarrow> bool" for io where
  step_open: "open_manager io m s = (e, m', s') \<Longrightarrow> data_step io (m, s) (m', s')"
| step_close: "close_manager io m s = (m', s') \<Longrightarrow> data_step io (m, s) (m', s')"
| step_connect: "connect_locked io m s = (r, m', s') \<Longrightarrow> data_step io (m, s) (m', s')"
| step_disconnect: "disconnect_locked io m s = (r, m', s') \<Longrightarrow> data_step io (m, s) (m', s')"
| step_rotate: "rotate_ip io m s = (r, m', s') \<Longrightarrow> data_step io (m, s) (m', s')"
| step_indication: "handle_connect_indication st m = (go, m') \<Longrightarrow> data_step io (m, s) (m', s)"
| step_reconnect: "reconnect_with_backoff io m s = (m', s') \<Longrightarrow> data_step io (m, s) (m', s')"
| step_recovery: "run_recovery b io m s = (e, m', s') \<Longrightarrow> data_step io (m, s) (m', s')"

lemma open_keeps: "open_manager io m s = (e, m', s') \<Longrightarrow> data_ok m \<Longrightarrow> data_ok m'"
  by (cases e) (auto dest!: data_open_ok open_failed simp: data_ok_def)

lemma data_step_ok: "data_step io x y \<Longrightarrow> data_ok (fst x) \<Longrightarrow> data_ok (fst y)"
proof (induction rule: data_step.induct)
  case (step_indication st m go m' s)
  then show ?case by (auto simp: handle_connect_indication_def data_ok_def split: if_splits)
qed (auto intro: data_okI data_connect_ok(1) rotate_ok reconnect_ok recovery_ok open_keeps dest: data_close_ok data_disconnect_ok
  simp: reconnect_with_backoff_def run_recovery_def)

interpretation data: safety "\<lambda>x. \<not> dm_connected (fst x)" "data_step io" "\<lambda>x. data_ok (fst x)" for io
  by unfold_locales (auto intro: data_okI data_step_ok)

text \<open>
  C34. Whatever the modem answers and in whatever order the calls come, a manager that counts
  as connected has its control channel, wants the connection, so that a lost session is
  restored, and holds an address.
\<close>

theorem connected_manager_is_configured:
  assumes "reachable (\<lambda>x. \<not> dm_connected (fst x)) (data_step io) (m, s)" and "dm_connected m"
  shows "dm_device m \<and> dm_desired m \<and> (dm_ipv4 m \<noteq> [] \<or> dm_ipv6 m \<noteq> [])"
  using data.always_good [OF assms(1)] assms(2) by (simp add: data_ok_def)

text \<open>A modem that does what it is asked; the state counts the calls to open.\<close>

definition session_up :: connect_state where
  "session_up = \<lparr>cs_session = 0, cs_activation = 1, cs_ip_type = 1, cs_nw_error = 0\<rparr>"

definition good_modem :: "(nat \<Rightarrow> unit option) \<Rightarrow> (unit, nat) modem_io" where
  "good_modem opens = \<lparr>io_open = (\<lambda>n. (opens n, n + 1)), io_close = (\<lambda>n. n), io_registered = (\<lambda>n. (True, n)),
     io_activate = (\<lambda>n. (Inr session_up, n)), io_deactivate = (\<lambda>n. (None, n)),
     io_ip_config = (\<lambda>n. (Inr (empty_ip_config\<lparr>ip_v4_address := ''10.0.0.2''\<rparr>), n)),
     io_net = (\<lambda>p n. (None, n)), io_sleep = (\<lambda>d n. (False, n)), io_verify = (\<lambda>n. (None, n))\<rparr>"

definition idle_manager :: data_manager where
  "idle_manager = \<lparr>dm_device = True, dm_desired = False, dm_connected = False, dm_ipv4 = [], dm_ipv6 = [],
     dm_gate = False, dm_failures = 0, dm_health = Unprobed, dm_max_attempts = 4, dm_retry_delay = 1000\<rparr>"

definition online_manager :: data_manager where
  "online_manager = idle_manager\<lparr>dm_desired := True, dm_connected := True, dm_ipv4 := ''10.0.0.2''\<rparr>"

lemma good_connect: "connect_locked (good_modem opens) idle_manager n = (Ok (), online_manager, n)"
  by (simp add: connect_locked_def idle_manager_def good_modem_def activate_with_retry_def numeral_3_eq_3
      settle_activation_def configure_session_def session_up_def activated_def apply_ip_config_def
      ip_operations_def empty_ip_config_def online_manager_def Let_def)

theorem connected_manager_is_configured_witness:
  "dm_device online_manager \<and> dm_desired online_manager \<and> dm_ipv4 online_manager = ''10.0.0.2''"
proof -
  let ?io = "good_modem (\<lambda>_. None)"
  have "reachable (\<lambda>x. \<not> dm_connected (fst x)) (data_step ?io) (idle_manager, 0)"
    by (rule reachable_init) (simp add: idle_manager_def)
  then have "reachable (\<lambda>x. \<not> dm_connected (fst x)) (data_step ?io) (online_manager, 0)"
    using step_connect [OF good_connect] by (rule reachable_step)
  then show ?thesis
    using connected_manager_is_configured [of ?io online_manager 0]
    by (simp add: online_manager_def idle_manager_def)
qed

section \<open>The session after a recovery\<close>

text \<open>
  C35. Recovery brings the data session back only if the channel opens at the first attempt:
  closing it forgets that the session was wanted, so that when the first attempt to open fails
  and the second succeeds, recovery reports success and leaves the modem without a session that
  anybody would restore.
\<close>

theorem recovery_forgets_the_session:
  assumes first: "open_manager io (fst (close_manager io m s)) (snd (close_manager io m s)) = (Some e, m1, s1)"
    and close: "close_manager io m1 (snd (io_sleep io b s1)) = (m2, s2)"
    and second: "io_open io s2 = (None, s3)" and verify: "io_verify io s3 = (None, s4)"
  shows "run_recovery b io m s
    = (None, m2\<lparr>dm_device := True, dm_failures := 0, dm_health := Unprobed\<rparr>, s4)
    \<and> \<not> dm_desired m2 \<and> \<not> dm_connected m2"
proof -
  obtain m0 s0 where c: "close_manager io m s = (m0, s0)" by (cases "close_manager io m s")
  have m1: "m1 = m0" using first c by (auto dest: open_failed)
  have "\<not> dm_desired m0" using c by (auto dest: data_close_ok)
  then have "reopen_attempt io m1 (snd (io_sleep io b s1))
      = (None, m2\<lparr>dm_device := True, dm_failures := 0, dm_health := Unprobed\<rparr>, s4)"
    using m1 close second verify by (simp add: reopen_attempt_def do_reopen_def open_manager_def)
  moreover have "reopen_attempt io m s = (Some (OpenFailed e), m1, s1)"
    using first c by (simp add: reopen_attempt_def do_reopen_def)
  ultimately show ?thesis
    using data_close_ok [OF close] by (simp add: run_recovery_def max_reopen_attempts_def numeral_3_eq_3)
qed

definition second_try :: "nat \<Rightarrow> unit option" where
  "second_try n = (if n = 0 then Some () else None)"

theorem recovery_forgets_the_session_witness:
  "dm_connected online_manager \<and> fst (run_recovery 30000 (good_modem second_try) online_manager 0) = None
   \<and> \<not> dm_desired (fst (snd (run_recovery 30000 (good_modem second_try) online_manager 0)))"
proof -
  let ?io = "good_modem second_try"
  let ?m = "fst (close_manager ?io online_manager 0)"
  have c: "snd (close_manager ?io online_manager 0) = 0"
    by (simp add: close_manager_def close_endpoint_def good_modem_def online_manager_def idle_manager_def Let_def)
  have first: "open_manager ?io ?m (snd (close_manager ?io online_manager 0)) = (Some (), ?m, 1)"
    unfolding c by (simp add: open_manager_def good_modem_def second_try_def)
  obtain m2 where "close_manager ?io ?m 1 = (m2, 1)"
    by (simp add: close_manager_def close_endpoint_def good_modem_def Let_def)
  then have second: "close_manager ?io ?m (snd (io_sleep ?io 30000 1)) = (m2, 1)" by (simp add: good_modem_def)
  have rest: "io_open ?io 1 = (None, 2)" "io_verify ?io 2 = (None, 2)"
    by (simp_all add: good_modem_def second_try_def)
  have "dm_connected online_manager" by (simp add: online_manager_def)
  with recovery_forgets_the_session [OF first second rest] show ?thesis by simp
qed

text \<open>At the first attempt the session does come back.\<close>

lemma recovery_restores_the_session:
  assumes "close_manager io m s = (m0, s0)" and "dm_desired m"
    and "open_manager io m0 s0 = (None, m1, s1)" and "connect_locked io m1 s1 = (Ok (), m2, s2)"
    and "io_verify io s2 = (None, s3)"
  shows "run_recovery b io m s = (None, m2, s3)" and "dm_connected m2"
proof -
  show "run_recovery b io m s = (None, m2, s3)"
    using assms by (simp add: run_recovery_def max_reopen_attempts_def numeral_3_eq_3 reopen_attempt_def do_reopen_def)
  have "\<not> dm_connected m1" using assms(1,3) by (auto dest!: data_close_ok data_open_ok)
  then show "dm_connected m2" using data_connect_ok(2) [OF assms(4)] by (simp add: data_okI)
qed

section \<open>The health probe\<close>

definition suspect_threshold :: int where "suspect_threshold = 2"
definition recover_threshold :: int where "recover_threshold = 3"

text \<open>
  One probe: None without a device, else whether the query was answered. The event that is
  reported, if any, and whether a recovery is started.
\<close>

definition health_probe :: "bool option \<Rightarrow> data_manager \<Rightarrow> (health option \<times> bool) \<times> data_manager" where
  "health_probe outcome m =
     (if \<not> dm_device m then ((None, False), m)
      else case outcome of
        None \<Rightarrow> ((None, False), m)
      | Some True \<Rightarrow>
          (let m' = m\<lparr>dm_failures := 0\<rparr> in
           if dm_health m \<noteq> Healthy then ((Some Healthy, False), m'\<lparr>dm_health := Healthy\<rparr>)
           else ((None, False), m'))
      | Some False \<Rightarrow>
          (let m' = m\<lparr>dm_failures := dm_failures m + 1\<rparr> in
           if dm_failures m' \<ge> recover_threshold \<and> dm_health m \<noteq> Recovering then
             ((Some Recovering, True), m'\<lparr>dm_health := Recovering\<rparr>)
           else if dm_failures m' \<ge> suspect_threshold \<and> dm_health m \<noteq> Suspect \<and> dm_health m \<noteq> Recovering then
             ((Some Suspect, False), m'\<lparr>dm_health := Suspect\<rparr>)
           else ((None, False), m')))"

fun probe_run :: "bool list \<Rightarrow> data_manager \<Rightarrow> (health option \<times> bool) list \<times> data_manager" where
  "probe_run [] m = ([], m)"
| "probe_run (ok # oks) m =
     (let (r, m) = health_probe (Some ok) m; (rs, m) = probe_run oks m in (r # rs, m))"

text \<open>The failures since the last answer, counted from the end.\<close>

definition trailing_failures :: "bool list \<Rightarrow> nat" where
  "trailing_failures oks = length (takeWhile Not (rev oks))"

definition health_after :: "bool list \<Rightarrow> health" where
  "health_after oks =
     (let n = trailing_failures oks in
      if n \<ge> 3 then Recovering else if n = 2 then Suspect
      else if True \<in> set oks then Healthy else Unprobed)"

definition probe_answer :: "bool list \<Rightarrow> nat \<Rightarrow> health option \<times> bool" where
  "probe_answer oks i =
     (let new = health_after (take (Suc i) oks) in
      (if new \<noteq> health_after (take i oks) then Some new else None,
       trailing_failures (take (Suc i) oks) = 3))"

lemma trailing_snoc [simp]:
  "trailing_failures [] = 0"
  "trailing_failures (oks @ [ok]) = (if ok then 0 else Suc (trailing_failures oks))"
  by (simp_all add: trailing_failures_def)

lemma probe_run_snoc:
  "probe_run (oks @ [ok]) m =
     (let (rs, m) = probe_run oks m; (r, m) = health_probe (Some ok) m in (rs @ [r], m))"
  by (induction oks arbitrary: m) (simp_all add: split_def Let_def)

definition probed :: "bool list \<Rightarrow> data_manager \<Rightarrow> data_manager" where
  "probed oks m = m\<lparr>dm_failures := int (trailing_failures oks), dm_health := health_after oks\<rparr>"

lemma one_probe:
  assumes "dm_device m"
  shows "health_probe (Some ok) (probed oks m) = (probe_answer (oks @ [ok]) (length oks), probed (oks @ [ok]) m)"
  using assms
  by (auto simp: health_probe_def probed_def probe_answer_def health_after_def Let_def
      suspect_threshold_def recover_threshold_def)

text \<open>
  C36. The health events of a freshly opened channel tell its changes, and only its changes:
  two queries in a row without an answer make it suspect, three make it recovering, an answer
  makes it healthy; and a recovery is started by exactly the third failure of a row, not by the
  ones that follow it.
\<close>

theorem third_failure_starts_recovery:
  assumes "dm_device m" and "dm_failures m = 0" and "dm_health m = Unprobed"
  shows "probe_run oks m = (map (probe_answer oks) [0..<length oks], probed oks m)"
proof (induction oks rule: rev_induct)
  case Nil
  show ?case using assms by (simp add: probed_def health_after_def)
next
  case (snoc ok oks)
  have "map (probe_answer (oks @ [ok])) [0..<length oks] = map (probe_answer oks) [0..<length oks]"
    by (rule map_cong) (auto simp: probe_answer_def)
  then show ?case using snoc by (simp add: probe_run_snoc one_probe [OF assms(1)] probe_answer_def)
qed

theorem third_failure_starts_recovery_witness:
  "map snd (fst (probe_run [True, False, False, False, False] idle_manager)) = [False, False, False, True, False]"
proof -
  have "map (snd \<circ> probe_answer [True, False, False, False, False]) [0..<length [True, False, False, False, False]] = [False, False, False, True, False]"
    by code_simp
  moreover have "probe_run [True, False, False, False, False] idle_manager
      = (map (probe_answer [True, False, False, False, False]) [0..<length [True, False, False, False, False]],
         probed [True, False, False, False, False] idle_manager)"
    by (rule third_failure_starts_recovery) (simp_all add: idle_manager_def)
  ultimately show ?thesis by (simp only: fst_conv map_map)
qed

section \<open>The gate of the recovery\<close>

text \<open>
  \<open>triggerReopen\<close> starts a supervisor when its compare-and-swap on the gate succeeds; each of
  up to three attempts closes the manager, and with \<open>Close\<close> opens the gate; its end does too.
  A supervisor is the number of attempts it has begun.
\<close>

record recovery_gate =
  rg_gate :: bool
  rg_supervisors :: "nat list"

inductive gate_moves :: "recovery_gate \<Rightarrow> recovery_gate \<Rightarrow> bool" where
  trigger_reopen: "\<not> rg_gate g \<Longrightarrow> gate_moves g \<lparr>rg_gate = True, rg_supervisors = rg_supervisors g @ [0]\<rparr>"
| trigger_dropped: "rg_gate g \<Longrightarrow> gate_moves g g"
| supervisor_attempt: "rg_supervisors g = as @ n # bs \<Longrightarrow> n < max_reopen_attempts
    \<Longrightarrow> gate_moves g \<lparr>rg_gate = False, rg_supervisors = as @ Suc n # bs\<rparr>"
| supervisor_ends: "rg_supervisors g = as @ n # bs \<Longrightarrow> 0 < n
    \<Longrightarrow> gate_moves g \<lparr>rg_gate = False, rg_supervisors = as @ bs\<rparr>"

text \<open>
  The recovery is not single-flight: the first attempt of a supervisor opens the gate that
  keeps the next one out, so that two supervisors come to reopen the same channel.
\<close>

theorem two_supervisors_can_run:
  "\<exists>g. reachable (\<lambda>g. g = \<lparr>rg_gate = False, rg_supervisors = []\<rparr>) gate_moves g
     \<and> length (rg_supervisors g) = 2"
proof -
  let ?init = "\<lambda>g. g = \<lparr>rg_gate = False, rg_supervisors = []\<rparr>"
  have "reachable ?init gate_moves \<lparr>rg_gate = False, rg_supervisors = []\<rparr>" by (rule reachable_init) simp
  then have "reachable ?init gate_moves \<lparr>rg_gate = True, rg_supervisors = [0]\<rparr>"
    using trigger_reopen [of "\<lparr>rg_gate = False, rg_supervisors = []\<rparr>"] by (auto intro: reachable_step)
  then have "reachable ?init gate_moves \<lparr>rg_gate = False, rg_supervisors = [1]\<rparr>"
    using supervisor_attempt [of "\<lparr>rg_gate = True, rg_supervisors = [0]\<rparr>" "[]" 0 "[]"]
    by (auto simp: max_reopen_attempts_def intro: reachable_step)
  then have "reachable ?init gate_moves \<lparr>rg_gate = True, rg_supervisors = [1, 0]\<rparr>"
    using trigger_reopen [of "\<lparr>rg_gate = False, rg_supervisors = [1]\<rparr>"] by (auto intro: reachable_step)
  then show ?thesis by force
qed

end
