(* ===== verification/Recovery.thy ===== *)
theory Recovery
  imports Vowifi_Store Rolling_Window
begin

text \<open>
  Two guards against recovering too often: the back-off of \<open>internal/vowifihost/recover_state.go\<close>
  and the controller of \<open>internal/device/transport_recovery_controller.go\<close>, with the health
  record of a worker, \<open>internal/device/health_watchdog.go\<close>. Times are nanoseconds; each operation
  is one critical section, and \<open>wall\<close> is what \<open>time.Now\<close> returns when no time is given.
\<close>

definition seconds :: "int \<Rightarrow> int" where "seconds n = n * 1000000000"

definition given_time :: "int \<Rightarrow> int \<Rightarrow> int" where
  "given_time wall t = (if t = go_zero then wall else t)"

section \<open>The back-off\<close>

record recover_state =
  rc_attempt :: int
  rc_next :: int
  rc_in_flight :: bool
  rc_err :: string

type_synonym recover_store = "string \<rightharpoonup> recover_state"

record recover_snapshot =
  sn_attempt :: int
  sn_next :: int
  sn_in_flight :: bool
  sn_err :: string
  sn_delay :: int

definition desired_recover_delay :: "int \<Rightarrow> int" where
  "desired_recover_delay attempt =
     (if attempt \<le> 0 then seconds 30 else if attempt = 1 then seconds 60 else seconds 120)"

definition ensure_recover :: "recover_store \<Rightarrow> string \<Rightarrow> recover_state" where
  "ensure_recover st d =
     (case st d of
        None \<Rightarrow> \<lparr>rc_attempt = 0, rc_next = go_zero, rc_in_flight = False, rc_err = []\<rparr>
      | Some r \<Rightarrow> r)"

definition snapshot_of :: "recover_state \<Rightarrow> int \<Rightarrow> recover_snapshot" where
  "snapshot_of r delay = \<lparr>sn_attempt = rc_attempt r, sn_next = rc_next r, sn_in_flight = rc_in_flight r,
     sn_err = rc_err r, sn_delay = delay\<rparr>"

definition no_snapshot :: recover_snapshot where
  "no_snapshot = \<lparr>sn_attempt = 0, sn_next = go_zero, sn_in_flight = False, sn_err = [], sn_delay = 0\<rparr>"

definition begin_recover :: "int \<Rightarrow> string \<Rightarrow> int \<Rightarrow> recover_store \<Rightarrow> bool \<times> recover_store" where
  "begin_recover wall device t st =
     (let d = trim_space device; now = given_time wall t; r = ensure_recover st d in
      if d = [] then (False, st)
      else if rc_in_flight r \<or> now < rc_next r then (False, st(d \<mapsto> r))
      else (True, st(d \<mapsto> r\<lparr>rc_in_flight := True\<rparr>)))"

definition mark_recover_failed ::
  "int \<Rightarrow> string \<Rightarrow> int \<Rightarrow> string option \<Rightarrow> recover_store \<Rightarrow> recover_snapshot \<times> recover_store"
where
  "mark_recover_failed wall device t err st =
     (let d = trim_space device; now = given_time wall t; r = ensure_recover st d;
          delay = desired_recover_delay (rc_attempt r);
          r' = r\<lparr>rc_attempt := rc_attempt r + 1, rc_next := now + delay, rc_in_flight := False,
                 rc_err := (case err of None \<Rightarrow> rc_err r | Some e \<Rightarrow> e)\<rparr>
      in if d = [] then (no_snapshot, st) else (snapshot_of r' delay, st(d \<mapsto> r')))"

definition clear_recover :: "string \<Rightarrow> recover_store \<Rightarrow> recover_store" where
  "clear_recover device st =
     (let d = trim_space device in if d = [] then st else st(d := None))"

definition recover_snapshot_of :: "string \<Rightarrow> recover_store \<Rightarrow> recover_snapshot option" where
  "recover_snapshot_of device st =
     (let d = trim_space device in
      if d = [] then None else map_option (\<lambda>r. snapshot_of r 0) (st d))"

text \<open>What a run of calls shows of the devices: recoveries begun, refused, failed and cleared.\<close>

datatype recover_call = CallBegin int string int | CallFailed int string int "string option" | CallClear string

datatype recover_event = Began string int | Refused string int | Failed string int | Cleared string

fun call_recover :: "recover_call \<Rightarrow> recover_store \<Rightarrow> recover_event \<times> recover_store" where
  "call_recover (CallBegin wall d t) st =
     (case begin_recover wall d t st of
        (True, st) \<Rightarrow> (Began (trim_space d) (given_time wall t), st)
      | (False, st) \<Rightarrow> (Refused (trim_space d) (given_time wall t), st))"
| "call_recover (CallFailed wall d t err) st =
     (Failed (trim_space d) (given_time wall t), snd (mark_recover_failed wall d t err st))"
| "call_recover (CallClear d) st = (Cleared (trim_space d), clear_recover d st)"

fun recover_run :: "recover_call list \<Rightarrow> recover_store \<Rightarrow> recover_event list \<times> recover_store" where
  "recover_run [] st = ([], st)"
| "recover_run (c # cs) st =
     (let (e, st) = call_recover c st; (es, st) = recover_run cs st in (e # es, st))"

text \<open>The failures of a device since it was last cleared, the latest first, and whether one runs.\<close>

fun failures :: "string \<Rightarrow> recover_event list \<Rightarrow> int list \<Rightarrow> int list" where
  "failures d [] ts = ts"
| "failures d (e # es) ts =
     failures d es
       (case e of Failed d' t \<Rightarrow> if d' = d then t # ts else ts
                | Cleared d' \<Rightarrow> if d' = d then [] else ts | _ \<Rightarrow> ts)"

fun running :: "string \<Rightarrow> recover_event list \<Rightarrow> bool \<Rightarrow> bool" where
  "running d [] r = r"
| "running d (e # es) r =
     running d es
       (case e of Began d' t \<Rightarrow> d' = d \<or> r | Failed d' t \<Rightarrow> d' \<noteq> d \<and> r | Cleared d' \<Rightarrow> d' \<noteq> d \<and> r | _ \<Rightarrow> r)"

definition next_due :: "int list \<Rightarrow> int" where
  "next_due ts = (case ts of [] \<Rightarrow> go_zero | t # older \<Rightarrow> t + desired_recover_delay (int (length older)))"

definition due :: "int list \<Rightarrow> int \<Rightarrow> bool" where "due ts now \<longleftrightarrow> next_due ts \<le> now"

definition matches :: "string \<Rightarrow> int list \<Rightarrow> bool \<Rightarrow> recover_store \<Rightarrow> bool" where
  "matches d ts r st \<longleftrightarrow>
     (let s = ensure_recover st d in
      rc_attempt s = int (length ts) \<and> rc_in_flight s = r \<and> rc_next s = next_due ts)"

lemma matches_start: "matches d [] False (\<lambda>_. None)"
  by (auto simp: matches_def ensure_recover_def next_due_def Let_def)

lemma ensure_recover_update:
  "ensure_recover (st(x \<mapsto> r)) d = (if d = x then r else ensure_recover st d)"
  "ensure_recover (st(x := None)) d = (if d = x then ensure_recover (\<lambda>_. None) d else ensure_recover st d)"
  by (auto simp: ensure_recover_def)

lemma fresh_recover: "ensure_recover (\<lambda>_. None) d = \<lparr>rc_attempt = 0, rc_next = go_zero, rc_in_flight = False, rc_err = []\<rparr>"
  by (simp add: ensure_recover_def)

lemma matches_call:
  assumes "matches d ts r st" and "d \<noteq> []" and "call_recover c st = (e, st')"
  shows "matches d (failures d [e] ts) (running d [e] r) st'
    \<and> (\<forall>t. e = Began d t \<longrightarrow> \<not> r \<and> due ts t) \<and> (\<forall>t. e = Refused d t \<longrightarrow> r \<or> \<not> due ts t)"
proof (cases c)
  case (CallBegin wall d' t)
  then show ?thesis
    using assms
    by (auto simp: begin_recover_def matches_def ensure_recover_update due_def Let_def split: if_splits)
next
  case (CallFailed wall d' t err)
  then show ?thesis
    using assms
    by (cases "trim_space d' = []")
       (auto simp: mark_recover_failed_def matches_def ensure_recover_update next_due_def Let_def split: if_splits)
next
  case (CallClear d')
  then show ?thesis
    using assms
    by (cases "trim_space d' = []") (auto simp: clear_recover_def matches_def ensure_recover_update fresh_recover next_due_def Let_def
        split: if_splits)
qed

lemma recover_run_matches:
  assumes "recover_run cs st = (es, st')" and "matches d ts r st" and "d \<noteq> []"
    and "es = before @ e # after"
  shows "(\<forall>t. e = Began d t \<longrightarrow> \<not> running d before r \<and> due (failures d before ts) t)
    \<and> (\<forall>t. e = Refused d t \<longrightarrow> running d before r \<or> \<not> due (failures d before ts) t)"
  using assms
proof (induction cs arbitrary: st es ts r before)
  case (Cons c cs)
  obtain e1 st1 where c: "call_recover c st = (e1, st1)" by (cases "call_recover c st")
  obtain es1 where cs: "recover_run cs st1 = (es1, st')"
    using Cons.prems(1) c by (cases "recover_run cs st1") auto
  note m = matches_call [OF Cons.prems(2,3) c]
  have es: "es = e1 # es1" using Cons.prems(1) c cs by simp
  show ?case
  proof (cases before)
    case Nil
    then show ?thesis using m es Cons.prems(4) by auto
  next
    case (Cons e' rest)
    then have "e' = e1" "es1 = rest @ e # after" using es Cons.prems(4) by simp_all
    then show ?thesis
      using Cons.IH [OF cs _ Cons.prems(3), of "failures d [e1] ts" "running d [e1] r" rest] m Cons by simp
  qed
qed simp

text \<open>
  C37. A recovery of a device is begun exactly when none is running and the wait is over: 30
  seconds after the first failure since the device was last cleared, one minute after the
  second, two minutes after every later one.
\<close>

theorem recovery_begins_when_due:
  assumes "recover_run cs (\<lambda>_. None) = (before @ e # after, st)" and "d \<noteq> []"
    and "e \<in> {Began d t, Refused d t}"
  shows "e = Began d t \<longleftrightarrow> \<not> running d before False \<and> due (failures d before []) t"
  using recover_run_matches [OF assms(1) matches_start assms(2) refl] assms(3) by auto

definition two_failures :: "recover_call list" where
  "two_failures = [CallBegin 1 ''d'' go_zero, CallFailed 2 ''d'' go_zero None, CallBegin 3 ''d'' (seconds 31),
     CallFailed 4 ''d'' (seconds 32) None, CallBegin 5 ''d'' (seconds 80)]"

theorem recovery_begins_when_due_witness:
  "\<not> due (failures ''d'' [Began ''d'' 1, Failed ''d'' 2, Began ''d'' (seconds 31), Failed ''d'' (seconds 32)] [])
       (seconds 80)"
proof -
  have d: "trim_space ''d'' = ''d''" by code_simp
  have "\<exists>st. recover_run two_failures (\<lambda>_. None) =
      ([Began ''d'' 1, Failed ''d'' 2, Began ''d'' (seconds 31), Failed ''d'' (seconds 32)]
       @ Refused ''d'' (seconds 80) # [], st)"
    by (simp add: two_failures_def begin_recover_def mark_recover_failed_def d given_time_def ensure_recover_def
        desired_recover_delay_def seconds_def go_zero_def Let_def)
  then show ?thesis
    using recovery_begins_when_due [of two_failures _ "Refused ''d'' (seconds 80)" "[]" _ "''d''" "seconds 80"]
    by auto
qed

section \<open>Rebuilding a worker\<close>

datatype recovery_kind =
    RecoveryExhausted | HealthSuspect | MissingWorker | ManualReboot | UdevWake | OtherKind string

record recovery_signal =
  rv_device :: string
  rv_generation :: u64
  rv_kind :: recovery_kind
  rv_source :: string
  rv_at :: int

record transport_recovery =
  tr_active :: "string \<rightharpoonup> recovery_signal"
  tr_generations :: "string \<Rightarrow> u64"
  tr_rebuilds :: "string \<Rightarrow> int list"

definition rebuild_window :: int where "rebuild_window = seconds 1800"
definition rebuild_max :: nat where "rebuild_max = 5"

definition new_transport_recovery :: transport_recovery where
  "new_transport_recovery = \<lparr>tr_active = Map.empty, tr_generations = (\<lambda>_. 0), tr_rebuilds = (\<lambda>_. [])\<rparr>"

definition starts_recovery :: "recovery_kind \<Rightarrow> bool" where
  "starts_recovery k = (case k of OtherKind _ \<Rightarrow> False | _ \<Rightarrow> True)"

definition observe :: "int \<Rightarrow> recovery_signal \<Rightarrow> transport_recovery \<Rightarrow> bool \<times> transport_recovery" where
  "observe wall ev c =
     (let d = trim_space (rv_device ev); g = tr_generations c d;
          ev = ev\<lparr>rv_device := d, rv_at := given_time wall (rv_at ev)\<rparr>
      in if d = [] \<or> \<not> starts_recovery (rv_kind ev) then (False, c)
         else if g \<noteq> 0 \<and> rv_generation ev \<noteq> 0 \<and> rv_generation ev \<noteq> g then (False, c)
         else if tr_active c d \<noteq> None then (False, c)
         else (True, c\<lparr>tr_active := (tr_active c)(d \<mapsto> ev)\<rparr>))"

definition finish_recovery :: "string \<Rightarrow> transport_recovery \<Rightarrow> transport_recovery" where
  "finish_recovery device c =
     (let d = trim_space device in if d = [] then c else c\<lparr>tr_active := (tr_active c)(d := None)\<rparr>)"

definition set_worker_generation :: "string \<Rightarrow> u64 \<Rightarrow> transport_recovery \<Rightarrow> transport_recovery" where
  "set_worker_generation device g c =
     (let d = trim_space device in
      if d = [] then c
      else
        (let c = (if tr_generations c d \<noteq> g then c\<lparr>tr_rebuilds := (tr_rebuilds c)(d := [])\<rparr> else c)
         in c\<lparr>tr_generations := (tr_generations c)(d := g)\<rparr>))"

definition allow_rebuild_at :: "string \<Rightarrow> int \<Rightarrow> transport_recovery \<Rightarrow> bool \<times> transport_recovery" where
  "allow_rebuild_at d now c =
     (let kept = filter (\<lambda>ts. ts > now - rebuild_window) (tr_rebuilds c d) in
      if d = [] then (False, c)
      else if length kept \<ge> rebuild_max then (False, c\<lparr>tr_rebuilds := (tr_rebuilds c)(d := kept)\<rparr>)
      else (True, c\<lparr>tr_rebuilds := (tr_rebuilds c)(d := kept @ [now])\<rparr>))"

definition allow_rebuild :: "int \<Rightarrow> string \<Rightarrow> transport_recovery \<Rightarrow> bool \<times> transport_recovery" where
  "allow_rebuild now device c = allow_rebuild_at (trim_space device) now c"

text \<open>
  The calls of one run, with a clock that never goes back. What is counted for a device are the
  rebuilds allowed since its worker last changed its generation.
\<close>

record rebuild_history =
  rh_clock :: int
  rh_controller :: transport_recovery
  rh_granted :: "string \<Rightarrow> int list"

inductive rebuild_step :: "rebuild_history \<Rightarrow> rebuild_history \<Rightarrow> bool" where
  step_allow: "rh_clock h \<le> now \<Longrightarrow> allow_rebuild now device (rh_controller h) = (ok, c)
    \<Longrightarrow> rebuild_step h \<lparr>rh_clock = now, rh_controller = c,
          rh_granted = (if ok then (rh_granted h)(trim_space device := rh_granted h (trim_space device) @ [now])
                        else rh_granted h)\<rparr>"
| step_generation: "set_worker_generation device g (rh_controller h) = c
    \<Longrightarrow> rebuild_step h (h\<lparr>rh_controller := c,
          rh_granted := (if trim_space device \<noteq> [] \<and> tr_generations (rh_controller h) (trim_space device) \<noteq> g
                         then (rh_granted h)(trim_space device := []) else rh_granted h)\<rparr>)"
| step_observe: "observe wall ev (rh_controller h) = (ok, c) \<Longrightarrow> rebuild_step h (h\<lparr>rh_controller := c\<rparr>)"
| step_finish: "finish_recovery device (rh_controller h) = c \<Longrightarrow> rebuild_step h (h\<lparr>rh_controller := c\<rparr>)"

definition rebuild_init :: "rebuild_history \<Rightarrow> bool" where
  "rebuild_init h \<longleftrightarrow> rh_controller h = new_transport_recovery \<and> rh_granted h = (\<lambda>_. [])"

text \<open>The times the controller keeps are those it granted, less some that no later window reaches.\<close>

definition rebuild_good :: "rebuild_history \<Rightarrow> bool" where
  "rebuild_good h \<longleftrightarrow> (\<forall>d.
     (\<forall>now \<ge> rh_clock h. filter (\<lambda>ts. ts > now - rebuild_window) (tr_rebuilds (rh_controller h) d)
                         = filter (\<lambda>ts. ts > now - rebuild_window) (rh_granted h d))
     \<and> within_limit id rebuild_window rebuild_max (rh_granted h d))"

lemma rebuild_good_allow:
  assumes "rebuild_good h" and "rh_clock h \<le> now" and "allow_rebuild now device (rh_controller h) = (ok, c)"
  shows "rebuild_good \<lparr>rh_clock = now, rh_controller = c,
    rh_granted = (if ok then (rh_granted h)(trim_space device := rh_granted h (trim_space device) @ [now])
                  else rh_granted h)\<rparr>"
proof -
  let ?d = "trim_space device"
  have kept: "filter (\<lambda>ts. ts > now - rebuild_window) (tr_rebuilds (rh_controller h) ?d)
      = filter (\<lambda>ts. ts > now - rebuild_window) (rh_granted h ?d)"
    and limit: "within_limit id rebuild_window rebuild_max (rh_granted h ?d)"
    using assms(1,2) by (simp_all add: rebuild_good_def)
  have later: "filter (\<lambda>ts. later - rebuild_window < ts) (filter (\<lambda>ts. now - rebuild_window < ts) xs)
      = filter (\<lambda>ts. later - rebuild_window < ts) xs" if "now \<le> later" for later xs
    using that by (auto intro!: filter_cong)
  show ?thesis
  proof (cases "?d = []")
    case True
    then show ?thesis
      using assms by (auto simp: allow_rebuild_def allow_rebuild_at_def rebuild_good_def)
  next
    case d: False
    show ?thesis
    proof (cases "length (filter (\<lambda>ts. now - rebuild_window < ts) (rh_granted h ?d)) < rebuild_max")
      case True
      then have "within_limit id rebuild_window rebuild_max (rh_granted h ?d @ [now])"
        using limit by (intro within_limit_admit) simp_all
      then show ?thesis
        using assms d True kept later
        by (auto simp: allow_rebuild_def allow_rebuild_at_def rebuild_good_def Let_def)
    next
      case False
      then show ?thesis
        using assms d kept later
        by (auto simp: allow_rebuild_def allow_rebuild_at_def rebuild_good_def Let_def)
    qed
  qed
qed

lemma rebuild_good_step:
  assumes "rebuild_good h" and "rebuild_step h h'"
  shows "rebuild_good h'"
  using assms(2)
proof cases
  case (step_allow now device ok c)
  then show ?thesis using rebuild_good_allow [OF assms(1)] by simp
next
  case (step_generation device g c)
  then show ?thesis using assms(1) by (auto simp: rebuild_good_def set_worker_generation_def Let_def)
next
  case (step_observe wall ev ok c)
  then have "tr_rebuilds c = tr_rebuilds (rh_controller h)"
    by (auto simp: observe_def Let_def split: if_splits)
  then show ?thesis using step_observe(1) assms(1) by (simp add: rebuild_good_def)
next
  case (step_finish device c)
  then have "tr_rebuilds c = tr_rebuilds (rh_controller h)" by (auto simp: finish_recovery_def Let_def)
  then show ?thesis using step_finish(1) assms(1) by (simp add: rebuild_good_def)
qed

lemma rebuild_good_init: "rebuild_init h \<Longrightarrow> rebuild_good h"
  by (simp add: rebuild_init_def rebuild_good_def new_transport_recovery_def)

interpretation rebuild: safety rebuild_init rebuild_step rebuild_good
  by unfold_locales (rule rebuild_good_init rebuild_good_step; assumption)+

text \<open>
  C38. While the worker of a device keeps its generation, no thirty minutes, whenever they end,
  contain more than five rebuilds that were allowed, whatever else the pool asks of the
  controller.
\<close>

theorem at_most_five_rebuilds:
  assumes "reachable rebuild_init rebuild_step h"
  shows "length (rolling id rebuild_window t (rh_granted h d)) \<le> 5"
  using rebuild.always_good [OF assms] by (simp add: rebuild_good_def within_limit_def rebuild_max_def)

definition first_rebuild :: rebuild_history where
  "first_rebuild = \<lparr>rh_clock = 7,
     rh_controller = new_transport_recovery\<lparr>tr_rebuilds := (\<lambda>_. [])(''d'' := [7])\<rparr>,
     rh_granted = (\<lambda>_. [])(''d'' := [7])\<rparr>"

theorem at_most_five_rebuilds_witness:
  "rh_granted first_rebuild ''d'' = [7] \<and> length (rolling id rebuild_window 7 [7]) \<le> 5"
proof -
  let ?h = "\<lparr>rh_clock = 0, rh_controller = new_transport_recovery, rh_granted = (\<lambda>_. [])\<rparr>"
  have d: "trim_space ''d'' = ''d''" by code_simp
  have "reachable rebuild_init rebuild_step ?h" by (rule reachable_init) (simp add: rebuild_init_def)
  moreover have "allow_rebuild 7 ''d'' (rh_controller ?h)
      = (True, new_transport_recovery\<lparr>tr_rebuilds := (\<lambda>_. [])(''d'' := [7])\<rparr>)"
    by (simp add: allow_rebuild_def allow_rebuild_at_def d new_transport_recovery_def rebuild_max_def Let_def)
  then have "rebuild_step ?h first_rebuild"
    using step_allow [of ?h 7 "''d''" True] by (simp add: d first_rebuild_def)
  ultimately have "reachable rebuild_init rebuild_step first_rebuild" by (rule reachable_step)
  then show ?thesis
    using at_most_five_rebuilds [of first_rebuild 7 "''d''"] by (simp add: first_rebuild_def)
qed

text \<open>A device has one recovery at a time, and a worker of the past starts none.\<close>

lemma one_recovery_at_a_time:
  assumes "observe wall ev c = (True, c')"
  shows "tr_active c (trim_space (rv_device ev)) = None"
    and "\<not> fst (observe wall' (ev\<lparr>rv_at := t\<rparr>) c')"
    and "fst (observe wall' (ev\<lparr>rv_at := t\<rparr>) (finish_recovery (rv_device ev) c'))"
  using assms by (auto simp: observe_def finish_recovery_def Let_def split: if_splits)

section \<open>The health of a worker\<close>

datatype health_state = HsNone | HsHealthy | HsSuspect | HsRecovering | HsInvalid | HsReprobing | HsFailed

record watchdog_event =
  we_layer :: string
  we_state :: health_state
  we_type :: string
  we_reason :: string
  we_err :: "string option"
  we_failures :: int
  we_threshold :: int
  we_until :: int
  we_at :: int

record health_snapshot =
  hs_state :: health_state
  hs_layer :: string
  hs_type :: string
  hs_reason :: string
  hs_error :: string
  hs_failures :: int
  hs_threshold :: int
  hs_until :: int
  hs_updated :: int

record worker_health =
  wh_snapshot :: health_snapshot
  wh_failures :: int
  wh_grace :: int
  wh_healthy :: bool

definition health_layer_pool :: string where "health_layer_pool = ''pool''"

definition normal_event :: "int \<Rightarrow> watchdog_event \<Rightarrow> watchdog_event" where
  "normal_event wall ev = ev\<lparr>we_at := given_time wall (we_at ev),
     we_layer := (if we_layer ev = [] then health_layer_pool else we_layer ev),
     we_state := (if we_state ev = HsNone then HsSuspect else we_state ev),
     we_reason := (let r = trim_space (we_reason ev) in if r = [] then trim_space (we_type ev) else r)\<rparr>"

definition event_snapshot :: "watchdog_event \<Rightarrow> health_snapshot" where
  "event_snapshot ev = \<lparr>hs_state = we_state ev, hs_layer = we_layer ev, hs_type = trim_space (we_type ev),
     hs_reason = we_reason ev, hs_error = (case we_err ev of None \<Rightarrow> [] | Some e \<Rightarrow> e),
     hs_failures = we_failures ev, hs_threshold = we_threshold ev, hs_until = we_until ev,
     hs_updated = we_at ev\<rparr>"

definition record_watchdog_event :: "int \<Rightarrow> watchdog_event \<Rightarrow> worker_health \<Rightarrow> health_snapshot \<times> worker_health" where
  "record_watchdog_event wall ev w =
     (let ev = normal_event wall ev; sn = event_snapshot ev;
          grace = (\<lambda>sn w. if we_until ev = go_zero then sn\<lparr>hs_until := wh_grace w\<rparr> else sn);
          (sn, w) =
            (case we_state ev of
               HsHealthy \<Rightarrow> (sn, w\<lparr>wh_failures := 0, wh_grace := go_zero, wh_healthy := True\<rparr>)
             | HsRecovering \<Rightarrow>
                 (let w = w\<lparr>wh_failures := 0,
                        wh_grace := (if we_until ev > wh_grace w then we_until ev else wh_grace w)\<rparr>
                  in (sn\<lparr>hs_until := wh_grace w\<rparr>, w))
             | HsSuspect \<Rightarrow>
                 (let w = (if we_failures ev > 0 then w\<lparr>wh_failures := we_failures ev\<rparr> else w)
                  in (grace (sn\<lparr>hs_failures := wh_failures w\<rparr>) w, w))
             | HsInvalid \<Rightarrow>
                 (let w = (if we_failures ev > 0 then w\<lparr>wh_failures := we_failures ev\<rparr> else w)
                  in (grace (sn\<lparr>hs_failures := wh_failures w\<rparr>) w, w\<lparr>wh_healthy := False\<rparr>))
             | HsFailed \<Rightarrow> (grace sn w, w\<lparr>wh_healthy := False\<rparr>)
             | _ \<Rightarrow> (grace sn w, w))
      in (sn, w\<lparr>wh_snapshot := sn\<rparr>))"

definition worker_snapshot :: "worker_health \<Rightarrow> health_snapshot" where
  "worker_snapshot w =
     (let sn = wh_snapshot w;
          sn = (if hs_state sn = HsNone then sn\<lparr>hs_state := HsHealthy\<rparr> else sn);
          sn = (if hs_layer sn = [] then sn\<lparr>hs_layer := health_layer_pool\<rparr> else sn);
          sn = (if hs_until sn = go_zero then sn\<lparr>hs_until := wh_grace w\<rparr> else sn)
      in if hs_failures sn = 0 then sn\<lparr>hs_failures := wh_failures w\<rparr> else sn)"

text \<open>
  The time a recovery is given only grows until the worker is healthy, and what is shown of the
  worker is what the event recorded.
\<close>

lemma grace_grows:
  assumes "record_watchdog_event wall ev w = (sn, w')" and "we_state ev \<noteq> HsHealthy"
  shows "wh_grace w \<le> wh_grace w'"
  using assms by (cases "we_state ev") (auto simp: record_watchdog_event_def normal_event_def Let_def)

lemma recorded_state_is_shown:
  assumes "record_watchdog_event wall ev w = (sn, w')"
  shows "hs_state (worker_snapshot w') = (if we_state ev = HsNone then HsSuspect else we_state ev)"
  using assms
  by (cases "we_state ev")
     (auto simp: record_watchdog_event_def normal_event_def event_snapshot_def worker_snapshot_def Let_def
       split: if_splits)

end
