(* ===== verification/Sip_Digest.thy ===== *)
theory Sip_Digest
  imports Go_Text SMS_Rp
begin

text \<open>
  The \<open>Authorization\<close> header of the SIP gateway, \<open>internal/sipgw/auth.go\<close>: its quoting and its
  parser, a map from lower-case parameter names to values, or None for a header that is no
  digest authorization.
\<close>

definition replace_char :: "char \<Rightarrow> string \<Rightarrow> string \<Rightarrow> string" where
  "replace_char c r s = concat (map (\<lambda>d. if d = c then r else [d]) s)"

definition backslash :: char where "backslash = CHR 0x5C"
definition dquote :: char where "dquote = CHR 0x22"

definition quote_digest_value :: "string \<Rightarrow> string" where
  "quote_digest_value value =
     replace_char dquote [backslash, dquote] (replace_char backslash [backslash, backslash] value)"

text \<open>What is inside the quotes, unescaped, and what follows the closing quote.\<close>

fun quoted_value :: "string \<Rightarrow> (string \<times> string) option" where
  "quoted_value [] = None"
| "quoted_value (c # s) =
     (if c = backslash then
        (case s of [] \<Rightarrow> None | d # s \<Rightarrow> map_option (\<lambda>(v, r). (d # v, r)) (quoted_value s))
      else if c = dquote then Some ([], s)
      else map_option (\<lambda>(v, r). (c # v, r)) (quoted_value s))"

definition blank_chars :: string where "blank_chars = [CHR '' '', CHR 0x09]"
definition digest_gaps :: string where "digest_gaps = blank_chars @ '',''"

definition digest_value :: "string \<Rightarrow> (string \<times> string) option" where
  "digest_value value =
     (if has_prefix value [dquote] then
        (case quoted_value (tl value) of
           None \<Rightarrow> None
         | Some (parsed, r) \<Rightarrow>
             (let r = trim_left_of blank_chars r in
              if r \<noteq> [] \<and> hd r \<noteq> CHR '','' then None else Some (parsed, r)))
      else
        (case index_byte (CHR '','') value of
           None \<Rightarrow> Some (trim_space value, [])
         | Some comma \<Rightarrow> Some (trim_space (take comma value), drop comma value)))"

lemma quoted_shorter: "quoted_value s = Some (v, r) \<Longrightarrow> length r < length s"
proof (induction s arbitrary: v r rule: quoted_value.induct)
  case (2 c s)
  then show ?case by (fastforce split: if_splits list.splits)
qed simp

lemma trim_left_of_length: "length (trim_left_of cs s) \<le> length s"
  by (simp add: trim_left_of_def length_dropWhile_le)

lemma digest_value_length: "digest_value value = Some (v, r) \<Longrightarrow> length r \<le> length value"
proof -
  assume a: "digest_value value = Some (v, r)"
  have "length r \<le> length value" if "quoted_value (tl value) = Some (v, r')" "r = trim_left_of blank_chars r'" for r'
    using quoted_shorter [OF that(1)] trim_left_of_length [of blank_chars r'] that(2) by simp
  then show ?thesis using a by (auto simp: digest_value_def Let_def split: if_splits option.splits)
qed

lemma digest_shorter:
  assumes "trim_left_of digest_gaps val \<noteq> []"
    and "digest_value (trim_left_of blank_chars (drop (Suc i) (trim_left_of digest_gaps val))) = Some (parsed, r)"
  shows "length r < length val"
proof -
  let ?v = "trim_left_of digest_gaps val"
  have "length r \<le> length (trim_left_of blank_chars (drop (Suc i) ?v))" using assms(2) by (rule digest_value_length)
  also have "\<dots> \<le> length (drop (Suc i) ?v)" by (rule trim_left_of_length)
  also have "\<dots> < length ?v" using assms(1) by (simp add: diff_less)
  also have "\<dots> \<le> length val" by (rule trim_left_of_length)
  finally show ?thesis .
qed

function digest_params :: "string \<Rightarrow> (string \<rightharpoonup> string) \<Rightarrow> (string \<rightharpoonup> string) option" where
  "digest_params value m =
     (let value = trim_left_of digest_gaps value in
      if value = [] then Some m
      else case index_byte (CHR ''='') value of
        None \<Rightarrow> None
      | Some eq \<Rightarrow>
          if eq = 0 then None
          else
            (let key = to_lower (trim_space (take eq value)) in
             if key = [] \<or> list_ex (\<lambda>c. c \<in> set digest_gaps) key then None
             else if m key \<noteq> None then None
             else case digest_value (trim_left_of blank_chars (drop (eq + 1) value)) of
               None \<Rightarrow> None
             | Some (parsed, r) \<Rightarrow> if parsed = [] then None else digest_params r (m(key \<mapsto> parsed))))"
  by pat_completeness auto
termination by (relation "measure (\<lambda>(v, m). length v)") (auto dest: digest_shorter)

declare digest_params.simps [simp del]

definition first_blank :: "string \<Rightarrow> nat" where
  "first_blank s = length (takeWhile (\<lambda>c. c \<notin> set blank_chars) s)"

text \<open>\<open>EqualFold\<close> for ASCII.\<close>

definition equal_fold :: "string \<Rightarrow> string \<Rightarrow> bool" where
  "equal_fold a b \<longleftrightarrow> to_lower a = to_lower b"

definition parse_digest_authorization :: "string \<Rightarrow> (string \<rightharpoonup> string) option" where
  "parse_digest_authorization value =
     (let value = trim_space value; space = first_blank value in
      if space = length value \<or> \<not> equal_fold (take space value) ''Digest'' then None
      else digest_params (trim_space (drop (space + 1) value)) Map.empty)"

section \<open>A header is read back\<close>

text \<open>A header as a client writes it: the parameters in some order, each value in quotes.\<close>

definition write_param :: "string \<times> string \<Rightarrow> string" where
  "write_param = (\<lambda>(k, v). k @ ''='' @ [dquote] @ quote_digest_value v @ [dquote])"

fun write_params :: "(string \<times> string) list \<Rightarrow> string" where
  "write_params [] = []"
| "write_params [p] = write_param p"
| "write_params (p # ps) = write_param p @ '', '' @ write_params ps"

definition write_authorization :: "(string \<times> string) list \<Rightarrow> string" where
  "write_authorization ps = ''Digest '' @ write_params ps"

definition name_char :: "char \<Rightarrow> bool" where
  "name_char c \<longleftrightarrow> plain_char c \<and> lower_char c = c \<and> c \<noteq> CHR ''='' \<and> c \<notin> set digest_gaps"

definition param_ok :: "string \<times> string \<Rightarrow> bool" where
  "param_ok = (\<lambda>(k, v). k \<noteq> [] \<and> list_all name_char k \<and> v \<noteq> [])"

lemma quoted_round_trip: "quoted_value (quote_digest_value v @ dquote # r) = Some (v, r)"
  by (induction v) (auto simp: quote_digest_value_def replace_char_def backslash_def dquote_def)

lemma index_byte_append: "c \<notin> set s \<Longrightarrow> index_byte c (s @ c # t) = Some (length s)"
  by (induction s) auto

lemma name_trimmed:
  assumes "k \<noteq> []" and "list_all name_char k"
  shows "trim_space k = k" and "to_lower k = k" and "trim_left_of digest_gaps (k @ s) = k @ s"
    and "CHR ''='' \<notin> set k" and "\<not> list_ex (\<lambda>c. c \<in> set digest_gaps) k"
proof -
  have h: "name_char (hd k)" "name_char (last k)" using assms by (auto simp: list_all_iff)
  show "trim_space k = k" using assms(1) h by (intro trim_space_id) (auto simp: name_char_def)
  show "to_lower k = k" using assms(2) by (induction k) (auto simp: to_lower_def name_char_def)
  show "trim_left_of digest_gaps (k @ s) = k @ s"
    using assms(1) h(1) by (cases k) (auto simp: trim_left_of_def name_char_def)
  show "CHR ''='' \<notin> set k" "\<not> list_ex (\<lambda>c. c \<in> set digest_gaps) k"
    using assms(2) by (auto simp: list_all_iff list_ex_iff name_char_def)
qed

lemma one_param:
  assumes "param_ok (k, v)" and "m k = None" and "r = [] \<or> hd r = CHR '',''"
  shows "digest_params (write_param (k, v) @ r) m = digest_params r (m(k \<mapsto> v))"
proof -
  note n = name_trimmed [of k]
  have k: "k \<noteq> []" "list_all name_char k" "v \<noteq> []" using assms(1) by (auto simp: param_ok_def)
  have rest: "trim_left_of blank_chars r = r"
    using assms(3) by (cases r) (auto simp: trim_left_of_def blank_chars_def)
  have "digest_value (dquote # quote_digest_value v @ dquote # r) = Some (v, r)"
    using assms(3) by (auto simp: digest_value_def quoted_round_trip rest Let_def)
  moreover have "trim_left_of blank_chars (dquote # quote_digest_value v @ dquote # r)
      = dquote # quote_digest_value v @ dquote # r"
    by (simp add: trim_left_of_def blank_chars_def dquote_def)
  ultimately show ?thesis
    using n k assms(2) index_byte_append [of "CHR ''=''" k]
    by (subst digest_params.simps) (simp add: write_param_def Let_def)
qed

lemma gap_skipped: "digest_params ('', '' @ s) m = digest_params s m"
  by (subst (1 2) digest_params.simps) (simp add: trim_left_of_def digest_gaps_def blank_chars_def)

lemma write_params_read:
  "list_all param_ok ps \<Longrightarrow> distinct (map fst ps) \<Longrightarrow> \<forall>k \<in> fst ` set ps. m k = None \<Longrightarrow>
   digest_params (write_params ps) m = Some (\<lambda>k. case map_of ps k of None \<Rightarrow> m k | Some v \<Rightarrow> Some v)"
proof (induction ps arbitrary: m rule: write_params.induct)
  case 1
  then show ?case by (subst digest_params.simps) (simp add: trim_left_of_def)
next
  case (2 p)
  obtain k v where p: "p = (k, v)" by (cases p)
  have "digest_params (write_param (k, v) @ []) m = digest_params [] (m(k \<mapsto> v))"
    using 2 p by (intro one_param) auto
  then show ?case
    by (simp add: p) (subst digest_params.simps, auto simp: trim_left_of_def fun_eq_iff)
next
  case (3 p q ps)
  obtain k v where p: "p = (k, v)" by (cases p)
  have "digest_params (write_params (p # q # ps)) m = digest_params ('', '' @ write_params (q # ps)) (m(k \<mapsto> v))"
    using 3(2-4) p one_param [of k v m "'', '' @ write_params (q # ps)"] by simp
  also have "\<dots> = Some (\<lambda>k'. case map_of (q # ps) k' of None \<Rightarrow> (m(k \<mapsto> v)) k' | Some v \<Rightarrow> Some v)"
    unfolding gap_skipped using 3(2-4) p by (intro 3(1)) auto
  also have "\<dots> = Some (\<lambda>k'. case map_of (p # q # ps) k' of None \<Rightarrow> m k' | Some v \<Rightarrow> Some v)"
  proof -
    have "map_of (q # ps) k = None" using 3(3) p by (simp add: map_of_eq_None_iff)
    then show ?thesis by (auto simp: p fun_eq_iff split: option.splits)
  qed
  finally show ?case .
qed

lemma write_params_ends:
  "ps \<noteq> [] \<Longrightarrow> list_all param_ok ps \<Longrightarrow>
   write_params ps \<noteq> [] \<and> plain_char (hd (write_params ps)) \<and> last (write_params ps) = dquote"
proof (induction ps rule: write_params.induct)
  case (2 p)
  then show ?case by (cases p; cases "fst p") (auto simp: param_ok_def write_param_def name_char_def)
next
  case (3 p q ps)
  then show ?case by (cases p; cases "fst p") (auto simp: param_ok_def write_param_def name_char_def)
qed simp

lemma authorization_read:
  assumes "ps \<noteq> []" and "list_all param_ok ps" and "distinct (map fst ps)"
  shows "parse_digest_authorization (write_authorization ps) = Some (map_of ps)"
proof -
  let ?w = "write_params ps"
  have w: "?w \<noteq> []" "plain_char (hd ?w)" "last ?w = dquote" using write_params_ends [OF assms(1,2)] by auto
  have q: "plain_char dquote" and d: "plain_char (CHR ''D'')" by code_simp+
  have "trim_space (write_authorization ps) = write_authorization ps"
    using w q d by (intro trim_space_id) (auto simp: write_authorization_def)
  moreover have "trim_space ?w = ?w" using w q by (intro trim_space_id) auto
  moreover have "first_blank (write_authorization ps) = 6"
    by (simp add: first_blank_def write_authorization_def blank_chars_def)
  moreover have "digest_params ?w Map.empty = Some (map_of ps)"
    using write_params_read [of ps Map.empty] assms by (auto simp: fun_eq_iff split: option.splits)
  moreover have "equal_fold ''Digest'' ''Digest''" by (simp add: equal_fold_def)
  ultimately show ?thesis
    by (simp add: parse_digest_authorization_def write_authorization_def Let_def)
qed



end
