(* ===== verification/Sip_Registrar.thy ===== *)
theory Sip_Registrar
  imports Sip_Digest Go_Netip SMS_Trim
begin

text \<open>
  The registrar of the SIP gateway: the digest authentication of \<open>internal/sipgw/auth.go\<close> and the
  registrations of \<open>registrar.go\<close>. MD5 is a parameter; nothing is assumed of it. Times are seconds
  of the registrar's clock. A registration is an object that two maps share, so it lives in a heap.
\<close>

section \<open>State\<close>

record sip_nonce =
  sn_username :: string
  sn_method :: string
  sn_uri :: string
  sn_expires :: int

record authenticated_invite =
  ai_username :: string
  ai_source :: string
  ai_transport :: string
  ai_from_tag :: string
  ai_cseq :: nat
  ai_expires :: int

record registered_user =
  ru_username :: string
  ru_device :: string
  ru_display :: string
  ru_contact_uri :: string
  ru_contact_addr :: "string option"
  ru_source :: string
  ru_transport :: string
  ru_expires :: int
  ru_agent :: string
  ru_push :: "string list"

record user_config =
  uc_username :: string
  uc_password :: string
  uc_display :: string
  uc_device :: string

text \<open>Of the configuration, the realm and the users.\<close>

record sip_config =
  sc_realm :: string
  sc_users :: "user_config list"

record registrar =
  rg_heap :: "nat \<Rightarrow> registered_user"
  rg_next :: nat
  rg_users :: "(string \<times> nat) list"
  rg_by_device :: "string \<rightharpoonup> nat"
  rg_nonces :: "string \<rightharpoonup> sip_nonce"
  rg_invites :: "string \<rightharpoonup> authenticated_invite"
  rg_signals :: "string \<rightharpoonup> nat"
  rg_closed :: "nat list"

text \<open>The parts of a request that the registrar looks at; None where a header is missing.\<close>

record sip_request =
  rq_method :: string
  rq_uri :: string
  rq_from :: "string option"
  rq_from_tag :: string
  rq_to_tag :: "string option"
  rq_call_id :: string
  rq_cseq :: "nat option"
  rq_source :: string
  rq_transport :: string
  rq_authorization :: "string option"

definition sip_nonce_ttl :: int where "sip_nonce_ttl = 60"
definition invite_auth_ttl :: int where "invite_auth_ttl = 86400"
definition digest_algorithm :: string where "digest_algorithm = ''MD5''"
definition digest_qop :: string where "digest_qop = ''auth''"

section \<open>Challenge and response\<close>

definition extract_username :: "sip_request \<Rightarrow> string" where
  "extract_username rq = (case rq_from rq of None \<Rightarrow> [] | Some u \<Rightarrow> u)"

definition find_user_config :: "sip_config \<Rightarrow> string \<Rightarrow> user_config option" where
  "find_user_config cfg username = find (\<lambda>u. uc_username u = username) (sc_users cfg)"

definition challenge_state :: "int \<Rightarrow> sip_request \<Rightarrow> string \<Rightarrow> sip_nonce" where
  "challenge_state now rq username = \<lparr>sn_username = username, sn_method = rq_method rq,
     sn_uri = rq_uri rq, sn_expires = now + sip_nonce_ttl\<rparr>"

text \<open>The code of the answer; the nonce is None when no random bytes could be read.\<close>

definition send_auth_challenge ::
  "int \<Rightarrow> string option \<Rightarrow> sip_request \<Rightarrow> string \<Rightarrow> registrar \<Rightarrow> nat \<times> registrar"
where
  "send_auth_challenge now nonce rq username st =
     (case nonce of
        None \<Rightarrow> (500, st)
      | Some n \<Rightarrow> (401, st\<lparr>rg_nonces := (rg_nonces st)(n \<mapsto> challenge_state now rq username)\<rparr>))"

definition param :: "(string \<rightharpoonup> string) \<Rightarrow> string \<Rightarrow> string" where
  "param m k = (case m k of None \<Rightarrow> [] | Some v \<Rightarrow> v)"

text \<open>Eight hexadecimal digits, not all of them zero.\<close>

definition nonce_count_ok :: "string \<Rightarrow> bool" where
  "nonce_count_ok s \<longleftrightarrow> length s = 8 \<and> list_all (\<lambda>c. hex_value c \<noteq> None) s \<and> list_ex (\<lambda>c. c \<noteq> CHR ''0'') s"

definition params_ok :: "sip_config \<Rightarrow> sip_request \<Rightarrow> string \<Rightarrow> (string \<rightharpoonup> string) \<Rightarrow> bool" where
  "params_ok cfg rq username m \<longleftrightarrow>
     param m ''username'' = username \<and> param m ''realm'' = sc_realm cfg \<and> param m ''uri'' = rq_uri rq
     \<and> equal_fold (param m ''algorithm'') digest_algorithm \<and> param m ''qop'' = digest_qop
     \<and> param m ''cnonce'' \<noteq> [] \<and> nonce_count_ok (param m ''nc'')"

definition md5sum :: "(string \<Rightarrow> bytes) \<Rightarrow> string \<Rightarrow> string" where
  "md5sum md5 s = hex_encode (md5 s)"

definition colon :: "string list \<Rightarrow> string" where
  "colon parts = (case parts of [] \<Rightarrow> [] | p # ps \<Rightarrow> p @ concat (map (\<lambda>q. '':'' @ q) ps))"

definition expected_response ::
  "(string \<Rightarrow> bytes) \<Rightarrow> sip_config \<Rightarrow> sip_request \<Rightarrow> string \<Rightarrow> string \<Rightarrow> (string \<rightharpoonup> string) \<Rightarrow> string"
where
  "expected_response md5 cfg rq username password m =
     (let ha1 = md5sum md5 (colon [username, sc_realm cfg, password]);
          ha2 = md5sum md5 (colon [rq_method rq, rq_uri rq])
      in md5sum md5 (colon [ha1, param m ''nonce'', param m ''nc'', param m ''cnonce'', digest_qop, ha2]))"

text \<open>
  The validation has two critical sections. The first finds the state of the nonce and drops it
  when it has expired; between the two the digest is compared; the second takes the nonce away.
\<close>

definition find_nonce :: "int \<Rightarrow> string \<Rightarrow> registrar \<Rightarrow> sip_nonce option \<times> registrar" where
  "find_nonce now nonce st =
     (case rg_nonces st nonce of
        None \<Rightarrow> (None, st)
      | Some ns \<Rightarrow>
          if now < sn_expires ns then (Some ns, st)
          else (None, st\<lparr>rg_nonces := (rg_nonces st)(nonce := None)\<rparr>))"

definition digest_ok ::
  "(string \<Rightarrow> bytes) \<Rightarrow> sip_config \<Rightarrow> sip_request \<Rightarrow> string \<Rightarrow> (string \<rightharpoonup> string) \<Rightarrow> sip_nonce \<Rightarrow> bool"
where
  "digest_ok md5 cfg rq username m ns \<longleftrightarrow>
     sn_username ns = username \<and> sn_method ns = rq_method rq \<and> sn_uri ns = rq_uri rq
     \<and> (case find_user_config cfg username of
          None \<Rightarrow> False
        | Some u \<Rightarrow>
            hex_decode (param m ''response'') \<noteq> None
            \<and> hex_decode (param m ''response'')
              = hex_decode (expected_response md5 cfg rq username (uc_password u) m))"

definition consume_nonce :: "int \<Rightarrow> string \<Rightarrow> sip_nonce \<Rightarrow> registrar \<Rightarrow> bool \<times> registrar" where
  "consume_nonce now nonce ns st =
     (case rg_nonces st nonce of
        None \<Rightarrow> (False, st)
      | Some cur \<Rightarrow>
          if now < sn_expires cur \<and> cur = ns then (True, st\<lparr>rg_nonces := (rg_nonces st)(nonce := None)\<rparr>)
          else (False, st))"

definition begin_validation ::
  "(string \<Rightarrow> bytes) \<Rightarrow> sip_config \<Rightarrow> int \<Rightarrow> sip_request \<Rightarrow> string \<Rightarrow> string \<Rightarrow> registrar
   \<Rightarrow> (string \<times> sip_nonce) option \<times> registrar"
where
  "begin_validation md5 cfg now rq username auth st =
     (case parse_digest_authorization auth of
        None \<Rightarrow> (None, st)
      | Some m \<Rightarrow>
          if \<not> params_ok cfg rq username m then (None, st)
          else
            (case find_nonce now (param m ''nonce'') st of
               (None, st) \<Rightarrow> (None, st)
             | (Some ns, st) \<Rightarrow>
                 (if digest_ok md5 cfg rq username m ns then Some (param m ''nonce'', ns) else None, st)))"

text \<open>Without interleaving: the clock is read once before and once after the comparison.\<close>

definition validate_sip_digest ::
  "(string \<Rightarrow> bytes) \<Rightarrow> sip_config \<Rightarrow> int \<Rightarrow> int \<Rightarrow> sip_request \<Rightarrow> string \<Rightarrow> string \<Rightarrow> registrar
   \<Rightarrow> bool \<times> registrar"
where
  "validate_sip_digest md5 cfg now now' rq username auth st =
     (case begin_validation md5 cfg now rq username auth st of
        (None, st) \<Rightarrow> (False, st)
      | (Some (n, ns), st) \<Rightarrow> consume_nonce now' n ns st)"

text \<open>The user a request is authenticated for, or the code of the answer it gets.\<close>

definition authenticate_initial_request ::
  "(string \<Rightarrow> bytes) \<Rightarrow> sip_config \<Rightarrow> int \<Rightarrow> int \<Rightarrow> string option \<Rightarrow> sip_request \<Rightarrow> registrar
   \<Rightarrow> (nat + string) \<times> registrar"
where
  "authenticate_initial_request md5 cfg now now' nonce rq st =
     (let username = extract_username rq in
      if username = [] then (Inl 400, st)
      else
        (let (ok, st) = (case rq_authorization rq of
               None \<Rightarrow> (False, st)
             | Some auth \<Rightarrow> validate_sip_digest md5 cfg now now' rq username auth st)
         in if ok then (Inr username, st)
            else (let (code, st) = send_auth_challenge now' nonce rq username st in (Inl code, st))))"

section \<open>Registrations\<close>

text \<open>\<open>netip.ParseAddrPort\<close>: brackets are for IPv6 addresses, and for them only.\<close>

definition parse_addr_port :: "string \<Rightarrow> (ip_addr \<times> nat) option" where
  "parse_addr_port s =
     (case last_index (CHR '':'') s of
        None \<Rightarrow> None
      | Some i \<Rightarrow>
          (let ip = take i s; port = drop (i + 1) s in
           if ip = [] \<or> port = [] then None
           else
             (let six = (hd ip = CHR ''['') in
              if six \<and> (length ip < 2 \<or> last ip \<noteq> CHR '']'') then None
              else
                (let ip = (if six then drop 1 (butlast ip) else ip) in
                 case parse_uint 16 port of
                   None \<Rightarrow> None
                 | Some n \<Rightarrow>
                     (case parse_addr ip of
                        None \<Rightarrow> None
                      | Some (V4 w) \<Rightarrow> if six then None else Some (V4 w, n)
                      | Some (V6 w z) \<Rightarrow> if six then Some (V6 w z, n) else None
                      | Some NoAddr \<Rightarrow> None)))))"

definition same_sip_source :: "string \<Rightarrow> string \<Rightarrow> bool" where
  "same_sip_source want got \<longleftrightarrow>
     (case (parse_addr_port (trim_space want), parse_addr_port (trim_space got)) of
        (Some (a, p), Some (b, q)) \<Rightarrow> unmap a = unmap b \<and> p = q
      | _ \<Rightarrow> False)"

definition registered_user_for_request :: "int \<Rightarrow> string \<Rightarrow> sip_request \<Rightarrow> registrar \<Rightarrow> registered_user option" where
  "registered_user_for_request now username rq st =
     (case map_of (rg_users st) username of
        None \<Rightarrow> None
      | Some p \<Rightarrow>
          (let u = rg_heap st p in
           if \<not> now < ru_expires u then None
           else if ru_contact_addr u = None \<or> ru_source u = []
               \<or> \<not> same_sip_source (ru_source u) (rq_source rq)
               \<or> (ru_transport u \<noteq> [] \<and> \<not> equal_fold (ru_transport u) (rq_transport rq)) then None
           else Some u))"

definition has_to_tag :: "sip_request \<Rightarrow> bool" where
  "has_to_tag rq \<longleftrightarrow> (case rq_to_tag rq of None \<Rightarrow> False | Some t \<Rightarrow> trim_space t \<noteq> [])"

definition dialog_user :: "int \<Rightarrow> sip_request \<Rightarrow> registrar \<Rightarrow> registered_user option" where
  "dialog_user now rq st =
     (if has_to_tag rq then registered_user_for_request now (extract_username rq) rq st else None)"

definition invite_auth_key :: "string \<Rightarrow> string \<Rightarrow> string" where
  "invite_auth_key username call_id = username @ [CHR 0x00] @ call_id"

definition request_from_tag :: "sip_request \<Rightarrow> string" where
  "request_from_tag rq = (if rq_from rq = None then [] else trim_space (rq_from_tag rq))"

definition request_call_id :: "sip_request \<Rightarrow> string" where
  "request_call_id rq = trim_space (rq_call_id rq)"

definition remember_authenticated_invite :: "int \<Rightarrow> sip_request \<Rightarrow> string \<Rightarrow> registrar \<Rightarrow> registrar" where
  "remember_authenticated_invite now rq username st =
     (case rq_cseq rq of
        None \<Rightarrow> st
      | Some cseq \<Rightarrow>
          if request_call_id rq = [] \<or> request_from_tag rq = [] then st
          else st\<lparr>rg_invites := (rg_invites st)(invite_auth_key username (request_call_id rq) \<mapsto>
             \<lparr>ai_username = username, ai_source = rq_source rq, ai_transport = rq_transport rq,
              ai_from_tag = request_from_tag rq, ai_cseq = cseq, ai_expires = now + invite_auth_ttl\<rparr>)\<rparr>)"

definition invite_related_user :: "int \<Rightarrow> sip_request \<Rightarrow> registrar \<Rightarrow> registered_user option \<times> registrar" where
  "invite_related_user now rq st =
     (let username = extract_username rq in
      case (registered_user_for_request now username rq st, rq_cseq rq) of
        (Some u, Some cseq) \<Rightarrow>
          if request_call_id rq = [] then (None, st)
          else
            (let key = invite_auth_key username (request_call_id rq) in
             case rg_invites st key of
               None \<Rightarrow> (None, st)
             | Some ai \<Rightarrow>
                 if \<not> now < ai_expires ai then (None, st\<lparr>rg_invites := (rg_invites st)(key := None)\<rparr>)
                 else if ai_username ai \<noteq> username \<or> ai_from_tag ai \<noteq> request_from_tag rq \<or> ai_cseq ai \<noteq> cseq
                     \<or> \<not> same_sip_source (ai_source ai) (rq_source rq)
                     \<or> \<not> equal_fold (ai_transport ai) (rq_transport rq) then (None, st)
                 else (Some u, st))
      | _ \<Rightarrow> (None, st))"

definition forget_authenticated_invite :: "sip_request \<Rightarrow> registrar \<Rightarrow> registrar" where
  "forget_authenticated_invite rq st =
     st\<lparr>rg_invites := (rg_invites st)(invite_auth_key (extract_username rq) (request_call_id rq) := None)\<rparr>"

text \<open>
  The channel of a device that those who wait for it have is closed, and replaced by a fresh one.
  Channels and registrations are numbered together.
\<close>

definition register_user :: "registered_user \<Rightarrow> registrar \<Rightarrow> registrar" where
  "register_user u st =
     (let p = rg_next st;
          st = st\<lparr>rg_heap := (rg_heap st)(p := u), rg_next := p + 2,
                  rg_users := (ru_username u, p) # filter (\<lambda>x. fst x \<noteq> ru_username u) (rg_users st)\<rparr>
      in if ru_device u = [] then st
         else st\<lparr>rg_by_device := (rg_by_device st)(ru_device u \<mapsto> p),
                 rg_closed := (case rg_signals st (ru_device u) of None \<Rightarrow> [] | Some ch \<Rightarrow> [ch]) @ rg_closed st,
                 rg_signals := (rg_signals st)(ru_device u \<mapsto> p + 1)\<rparr>)"

definition subscribe_device_online :: "string \<Rightarrow> registrar \<Rightarrow> nat \<times> registrar" where
  "subscribe_device_online device st =
     (case rg_signals st device of
        Some ch \<Rightarrow> (ch, st)
      | None \<Rightarrow> (rg_next st, st\<lparr>rg_signals := (rg_signals st)(device \<mapsto> rg_next st), rg_next := rg_next st + 1\<rparr>))"

definition unregister_user :: "string \<Rightarrow> registrar \<Rightarrow> registrar" where
  "unregister_user username st =
     (case map_of (rg_users st) username of
        None \<Rightarrow> st
      | Some p \<Rightarrow> st\<lparr>rg_heap := (rg_heap st)(p := (rg_heap st p)\<lparr>ru_contact_addr := None,
          ru_contact_uri := [], ru_source := [], ru_transport := []\<rparr>)\<rparr>)"

definition user_at :: "int \<Rightarrow> registrar \<Rightarrow> nat option \<Rightarrow> registered_user option" where
  "user_at now st p =
     (case p of None \<Rightarrow> None | Some p \<Rightarrow> if now < ru_expires (rg_heap st p) then Some (rg_heap st p) else None)"

definition get_user_by_device :: "int \<Rightarrow> string \<Rightarrow> registrar \<Rightarrow> registered_user option" where
  "get_user_by_device now device st = user_at now st (rg_by_device st device)"

definition get_user_by_username :: "int \<Rightarrow> string \<Rightarrow> registrar \<Rightarrow> registered_user option" where
  "get_user_by_username now username st = user_at now st (map_of (rg_users st) username)"

definition get_client_contact :: "int \<Rightarrow> string \<Rightarrow> registrar \<Rightarrow> (string \<times> string \<times> string) option" where
  "get_client_contact now device st =
     (case get_user_by_device now device st of
        None \<Rightarrow> None
      | Some u \<Rightarrow> Some (ru_contact_uri u, (case ru_contact_addr u of None \<Rightarrow> [] | Some a \<Rightarrow> a), ru_username u))"

definition get_all_users :: "int \<Rightarrow> registrar \<Rightarrow> registered_user list" where
  "get_all_users now st = filter (\<lambda>u. now < ru_expires u) (map (\<lambda>x. rg_heap st (snd x)) (rg_users st))"

definition expired_user :: "int \<Rightarrow> registrar \<Rightarrow> string \<times> nat \<Rightarrow> bool" where
  "expired_user now st x \<longleftrightarrow> now > ru_expires (rg_heap st (snd x))"

definition cleanup :: "int \<Rightarrow> registrar \<Rightarrow> registrar" where
  "cleanup now st =
     st\<lparr>rg_users := filter (\<lambda>x. \<not> expired_user now st x) (rg_users st),
        rg_by_device := foldl (\<lambda>m x. let d = ru_device (rg_heap st (snd x)) in if d \<noteq> [] then m(d := None) else m)
          (rg_by_device st) (filter (expired_user now st) (rg_users st)),
        rg_nonces := (\<lambda>n. case rg_nonces st n of None \<Rightarrow> None
          | Some ns \<Rightarrow> if now < sn_expires ns then Some ns else None),
        rg_invites := (\<lambda>k. case rg_invites st k of None \<Rightarrow> None
          | Some ai \<Rightarrow> if now < ai_expires ai then Some ai else None)\<rparr>"

text \<open>
  The push parameters of a contact: the leftmost \<open>key=\<close> with a value, up to the next semicolon.
  Of the token and the parameter only the part before an ampersand is kept, without the characters
  that the push gateway refuses.
\<close>

fun push_value :: "string \<Rightarrow> string \<Rightarrow> string" where
  "push_value key [] = []"
| "push_value key (c # cs) =
     (let v = takeWhile (\<lambda>x. x \<noteq> CHR '';'') (drop (length key) (c # cs)) in
      if take (length key) (c # cs) = key \<and> v \<noteq> [] then v else push_value key cs)"

definition push_clean :: "string \<Rightarrow> string \<Rightarrow> string" where
  "push_clean extra v =
     filter (\<lambda>c. c \<in> set (''abcdefghijklmnopqrstuvwxyzABCDEFGHIJKLMNOPQRSTUVWXYZ0123456789'' @ extra))
       (takeWhile (\<lambda>x. x \<noteq> CHR ''&'') v)"

definition push_params :: "string option \<Rightarrow> string list" where
  "push_params contact =
     (case contact of
        None \<Rightarrow> [[], [], [], [], []]
      | Some raw \<Rightarrow> [push_clean ''-_:'' (push_value ''pn-prid='' raw), push_value ''pn-provider='' raw,
          push_clean ''._'' (push_value ''pn-param='' raw), push_value ''pn-call-str='' raw,
          push_value ''pn-msg-str='' raw])"

text \<open>
  REGISTER: the code of the answer. The contact is its address and its whole text; the value of
  Expires, the resolved address of the source and the user agent are arguments.
\<close>

definition handle_register ::
  "(string \<Rightarrow> bytes) \<Rightarrow> sip_config \<Rightarrow> int \<Rightarrow> int \<Rightarrow> string option \<Rightarrow> sip_request \<Rightarrow> int
   \<Rightarrow> (string \<times> string) option \<Rightarrow> string option \<Rightarrow> string \<Rightarrow> registrar \<Rightarrow> nat \<times> registrar"
where
  "handle_register md5 cfg now now' nonce rq expires contact addr agent st =
     (case authenticate_initial_request md5 cfg now now' nonce rq st of
        (Inl code, st) \<Rightarrow> (code, st)
      | (Inr username, st) \<Rightarrow>
          (case find_user_config cfg username of
             None \<Rightarrow> (403, st)
           | Some u \<Rightarrow>
               if expires = 0 then (200, unregister_user username st)
               else (200, register_user \<lparr>ru_username = username, ru_device = uc_device u, ru_display = uc_display u,
                   ru_contact_uri = (case contact of None \<Rightarrow> [] | Some c \<Rightarrow> fst c),
                   ru_contact_addr = (if rq_source rq = [] then None else addr), ru_source = rq_source rq,
                   ru_transport = rq_transport rq, ru_expires = now' + expires, ru_agent = agent,
                   ru_push = push_params (map_option snd contact)\<rparr> st)))"

definition handle_publish ::
  "(string \<Rightarrow> bytes) \<Rightarrow> sip_config \<Rightarrow> int \<Rightarrow> int \<Rightarrow> string option \<Rightarrow> sip_request \<Rightarrow> registrar \<Rightarrow> nat \<times> registrar"
where
  "handle_publish md5 cfg now now' nonce rq st =
     (case authenticate_initial_request md5 cfg now now' nonce rq st of
        (Inl code, st) \<Rightarrow> (code, st)
      | (Inr username, st) \<Rightarrow>
          (if registered_user_for_request now' username rq st = None then 403 else 200, st))"

text \<open>
  INVITE: the codes of the answers, and the device whose handler is called. \<open>slot\<close> tells whether
  one of the places for concurrent calls is free.
\<close>

definition handle_invite ::
  "(string \<Rightarrow> bytes) \<Rightarrow> sip_config \<Rightarrow> int \<Rightarrow> int \<Rightarrow> string option \<Rightarrow> bool \<Rightarrow> bool \<Rightarrow> bool \<Rightarrow> sip_request
   \<Rightarrow> registrar \<Rightarrow> nat list \<times> string option \<times> registrar"
where
  "handle_invite md5 cfg now now' nonce has_to has_handler slot rq st =
     (if rq_from rq = None \<or> \<not> has_to \<or> request_call_id rq = [] \<or> rq_cseq rq = None then ([400], None, st)
      else
        (let (found, st) =
           (if has_to_tag rq then
              (case dialog_user now rq st of
                 None \<Rightarrow> (Inl 481, st) | Some u \<Rightarrow> (Inr (ru_username u, u), st))
            else
              (case authenticate_initial_request md5 cfg now now' nonce rq st of
                 (Inl code, st) \<Rightarrow> (Inl code, st)
               | (Inr username, st) \<Rightarrow>
                   (case registered_user_for_request now' username rq st of
                      None \<Rightarrow> (Inl 403, st) | Some u \<Rightarrow> (Inr (username, u), st))))
         in case found of
              Inl code \<Rightarrow> ([code], None, st)
            | Inr (username, u) \<Rightarrow>
                (let st = remember_authenticated_invite now' rq username st in
                 if has_handler \<and> slot then ([100], Some (ru_device u), st)
                 else ([100, 503], None, forget_authenticated_invite rq st))))"

definition handle_bye :: "int \<Rightarrow> sip_request \<Rightarrow> registrar \<Rightarrow> nat \<times> string option \<times> registrar" where
  "handle_bye now rq st =
     (case dialog_user now rq st of
        None \<Rightarrow> (481, None, st)
      | Some u \<Rightarrow> (200, Some (ru_device u), forget_authenticated_invite rq st))"

text \<open>ACK and CANCEL belong to an INVITE that was let in; the requests inside a call to a dialog.\<close>

definition handle_ack :: "int \<Rightarrow> sip_request \<Rightarrow> registrar \<Rightarrow> string option \<times> registrar" where
  "handle_ack now rq st = (case invite_related_user now rq st of (u, st) \<Rightarrow> (map_option ru_device u, st))"

definition handle_cancel :: "int \<Rightarrow> bool \<Rightarrow> sip_request \<Rightarrow> registrar \<Rightarrow> nat option \<times> string option \<times> registrar" where
  "handle_cancel now has_handler rq st =
     (case invite_related_user now rq st of
        (None, st) \<Rightarrow> (Some 481, None, st)
      | (Some u, st) \<Rightarrow> if has_handler then (None, Some (ru_device u), st) else (Some 200, None, st))"

definition handle_in_dialog :: "int \<Rightarrow> bool \<Rightarrow> sip_request \<Rightarrow> registrar \<Rightarrow> nat option \<times> string option" where
  "handle_in_dialog now has_handler rq st =
     (case dialog_user now rq st of
        None \<Rightarrow> (Some 481, None)
      | Some u \<Rightarrow> if has_handler then (None, Some (ru_device u)) else (Some 481, None))"

section \<open>Who is let in\<close>

text \<open>
  Requests of many clients, each validation cut into its two critical sections; the registrar's
  other operations leave the nonces alone. What is recorded: the challenges, and the requests
  that were let in, with the time of their second section.
\<close>

record admission =
  ad_nonce :: string
  ad_request :: sip_request
  ad_user :: string
  ad_auth :: string
  ad_time :: int

record auth_system =
  as_registrar :: registrar
  as_clock :: int
  as_pending :: "(sip_nonce \<times> admission) list"
  as_challenges :: "(string \<times> sip_nonce) list"
  as_admitted :: "admission list"

inductive auth_step :: "(string \<Rightarrow> bytes) \<Rightarrow> sip_config \<Rightarrow> auth_system \<Rightarrow> auth_system \<Rightarrow> bool" for md5 cfg where
  auth_tick: "as_clock s \<le> t \<Longrightarrow> auth_step md5 cfg s (s\<lparr>as_clock := t\<rparr>)"
| auth_challenge: "send_auth_challenge (as_clock s) (Some n) rq u (as_registrar s) = (code, r)
    \<Longrightarrow> auth_step md5 cfg s (s\<lparr>as_registrar := r,
          as_challenges := (n, challenge_state (as_clock s) rq u) # as_challenges s\<rparr>)"
| auth_refused: "begin_validation md5 cfg (as_clock s) rq u auth (as_registrar s) = (None, r)
    \<Longrightarrow> auth_step md5 cfg s (s\<lparr>as_registrar := r\<rparr>)"
| auth_begun: "begin_validation md5 cfg (as_clock s) rq u auth (as_registrar s) = (Some (n, ns), r)
    \<Longrightarrow> auth_step md5 cfg s (s\<lparr>as_registrar := r,
          as_pending := (ns, \<lparr>ad_nonce = n, ad_request = rq, ad_user = u, ad_auth = auth, ad_time = as_clock s\<rparr>)
                        # as_pending s\<rparr>)"
| auth_consumed: "(ns, a) \<in> set (as_pending s)
    \<Longrightarrow> consume_nonce (as_clock s) (ad_nonce a) ns (as_registrar s) = (ok, r)
    \<Longrightarrow> auth_step md5 cfg s (s\<lparr>as_registrar := r, as_pending := remove1 (ns, a) (as_pending s),
          as_admitted := (if ok then [a\<lparr>ad_time := as_clock s\<rparr>] else []) @ as_admitted s\<rparr>)"
| auth_cleanup: "auth_step md5 cfg s (s\<lparr>as_registrar := cleanup (as_clock s) (as_registrar s)\<rparr>)"
| auth_other: "rg_nonces r = rg_nonces (as_registrar s) \<Longrightarrow> auth_step md5 cfg s (s\<lparr>as_registrar := r\<rparr>)"

definition auth_init :: "auth_system \<Rightarrow> bool" where
  "auth_init s \<longleftrightarrow> rg_nonces (as_registrar s) = Map.empty \<and> as_pending s = [] \<and> as_challenges s = []
     \<and> as_admitted s = []"

text \<open>What a request that is let in has shown.\<close>

definition proven :: "(string \<Rightarrow> bytes) \<Rightarrow> sip_config \<Rightarrow> sip_nonce \<Rightarrow> admission \<Rightarrow> bool" where
  "proven md5 cfg ns a \<longleftrightarrow> (\<exists>m. parse_digest_authorization (ad_auth a) = Some m
     \<and> params_ok cfg (ad_request a) (ad_user a) m \<and> param m ''nonce'' = ad_nonce a
     \<and> digest_ok md5 cfg (ad_request a) (ad_user a) m ns)"

definition spent :: "auth_system \<Rightarrow> string \<Rightarrow> nat" where
  "spent s n = length (filter (\<lambda>a. ad_nonce a = n) (as_admitted s))"

definition issued :: "auth_system \<Rightarrow> string \<Rightarrow> nat" where
  "issued s n = length (filter (\<lambda>c. fst c = n) (as_challenges s))"

definition auth_good :: "(string \<Rightarrow> bytes) \<Rightarrow> sip_config \<Rightarrow> auth_system \<Rightarrow> bool" where
  "auth_good md5 cfg s \<longleftrightarrow>
     (\<forall>n. spent s n + (if rg_nonces (as_registrar s) n = None then 0 else 1) \<le> issued s n)
     \<and> (\<forall>n ns. rg_nonces (as_registrar s) n = Some ns \<longrightarrow> (n, ns) \<in> set (as_challenges s))
     \<and> (\<forall>c \<in> set (as_challenges s). sn_expires (snd c) \<le> as_clock s + sip_nonce_ttl)
     \<and> (\<forall>(ns, a) \<in> set (as_pending s). proven md5 cfg ns a)
     \<and> (\<forall>a \<in> set (as_admitted s). \<exists>ns. (ad_nonce a, ns) \<in> set (as_challenges s)
          \<and> proven md5 cfg ns a \<and> ad_time a < sn_expires ns)"

lemma proven_time [simp]: "proven md5 cfg ns (a\<lparr>ad_time := t\<rparr>) = proven md5 cfg ns a"
  by (simp add: proven_def)

lemma begin_validation_nonces:
  assumes "begin_validation md5 cfg now rq u auth r = (x, r')" and "rg_nonces r' n = Some ns"
  shows "rg_nonces r n = Some ns"
  using assms
  by (auto simp: begin_validation_def find_nonce_def split: option.splits if_splits prod.splits)

lemma begin_validation_proven:
  "begin_validation md5 cfg now rq u auth r = (Some (n, ns), r') \<Longrightarrow>
   proven md5 cfg ns \<lparr>ad_nonce = n, ad_request = rq, ad_user = u, ad_auth = auth, ad_time = t\<rparr>"
  by (auto simp: begin_validation_def proven_def split: option.splits if_splits prod.splits)

text \<open>Fewer nonces, the same records.\<close>

lemma auth_good_fewer:
  assumes "auth_good md5 cfg s" and "\<And>n ns. rg_nonces r n = Some ns \<Longrightarrow> rg_nonces (as_registrar s) n = Some ns"
  shows "auth_good md5 cfg (s\<lparr>as_registrar := r\<rparr>)"
proof -
  have "(if rg_nonces r n = None then 0 else 1) \<le> (if rg_nonces (as_registrar s) n = None then 0 else 1 :: nat)" for n
    using assms(2) [of n] by (cases "rg_nonces r n") auto
  moreover have "spent s n + (if rg_nonces (as_registrar s) n = None then 0 else 1) \<le> issued s n" for n
    using assms(1) by (simp add: auth_good_def)
  ultimately have "spent s n + (if rg_nonces r n = None then 0 else 1) \<le> issued s n" for n
    by (meson add_left_mono le_trans)
  then show ?thesis
    using assms by (auto simp: auth_good_def spent_def issued_def)
qed

lemma auth_good_step:
  assumes "auth_good md5 cfg s" and "auth_step md5 cfg s s'"
  shows "auth_good md5 cfg s'"
  using assms(2)
proof cases
  case (auth_tick t)
  then show ?thesis using assms(1) by (fastforce simp: auth_good_def spent_def issued_def)
next
  case (auth_challenge n rq u code r)
  then have "rg_nonces r = (rg_nonces (as_registrar s))(n \<mapsto> challenge_state (as_clock s) rq u)"
    by (auto simp: send_auth_challenge_def)
  moreover have "spent s n + (if rg_nonces (as_registrar s) n = None then 0 else 1) \<le> issued s n"
    using assms(1) by (simp add: auth_good_def)
  then have "spent s n \<le> issued s n" by linarith
  ultimately show ?thesis
    using assms(1) auth_challenge(1)
    by (auto simp: auth_good_def spent_def issued_def challenge_state_def le_SucI split: if_splits)
next
  case (auth_refused rq u auth r)
  then show ?thesis using assms(1) by (auto intro!: auth_good_fewer dest: begin_validation_nonces)
next
  case (auth_begun rq u auth n ns r)
  have "auth_good md5 cfg (s\<lparr>as_registrar := r\<rparr>)"
    using assms(1) auth_begun(2) by (auto intro!: auth_good_fewer dest: begin_validation_nonces)
  then show ?thesis
    using begin_validation_proven [OF auth_begun(2)] auth_begun(1) by (auto simp: auth_good_def spent_def issued_def)
next
  case (auth_consumed ns a ok r)
  show ?thesis
  proof (cases ok)
    case False
    then have "r = as_registrar s" using auth_consumed(3) by (auto simp: consume_nonce_def split: option.splits if_splits)
    then show ?thesis
      using assms(1) auth_consumed(1) False by (auto simp: auth_good_def spent_def issued_def dest: notin_set_remove1 set_mp [OF set_remove1_subset])
  next
    case True
    then have r: "rg_nonces (as_registrar s) (ad_nonce a) = Some ns" "as_clock s < sn_expires ns"
      "rg_nonces r = (rg_nonces (as_registrar s))(ad_nonce a := None)"
      using auth_consumed(3) by (auto simp: consume_nonce_def split: option.splits if_splits)
    have "spent s' k + (if rg_nonces r k = None then 0 else 1) \<le> issued s' k" for k
    proof -
      have "spent s k + (if rg_nonces (as_registrar s) k = None then 0 else 1) \<le> issued s k"
        using assms(1) by (simp add: auth_good_def)
      then show ?thesis
        using auth_consumed(1) True r by (cases "k = ad_nonce a") (auto simp: spent_def issued_def)
    qed
    moreover have "(ad_nonce a, ns) \<in> set (as_challenges s)" "proven md5 cfg ns a"
      using assms(1) r auth_consumed(2) by (auto simp: auth_good_def)
    moreover have "x \<in> set (as_pending s)" if "x \<in> set (remove1 (ns, a) (as_pending s))" for x
      using that set_remove1_subset by fast
    ultimately show ?thesis
      using assms(1) auth_consumed(1) True r by (fastforce simp: auth_good_def)
  qed
next
  case auth_cleanup
  then show ?thesis using assms(1) by (auto intro!: auth_good_fewer simp: cleanup_def split: option.splits if_splits)
next
  case (auth_other r)
  then show ?thesis using assms(1) by (auto intro!: auth_good_fewer)
qed

lemma auth_good_init: "auth_init s \<Longrightarrow> auth_good md5 cfg s"
  by (simp add: auth_init_def auth_good_def spent_def)

interpretation auth: safety auth_init "auth_step md5 cfg" "auth_good md5 cfg" for md5 cfg
  by unfold_locales (blast intro: auth_good_init auth_good_step)+


text \<open>One client that answers its challenge, with a digest of one byte.\<close>

definition alice_params :: "(string \<times> string) list" where
  "alice_params = [(''username'', ''alice''), (''realm'', ''r''), (''uri'', ''sip:r''), (''algorithm'', ''MD5''),
     (''qop'', ''auth''), (''cnonce'', ''c''), (''nc'', ''00000001''), (''nonce'', ''n''), (''response'', ''00'')]"

definition alice_request :: sip_request where
  "alice_request = \<lparr>rq_method = ''REGISTER'', rq_uri = ''sip:r'', rq_from = Some ''alice'', rq_from_tag = ''t'',
     rq_to_tag = None, rq_call_id = ''1'', rq_cseq = Some 1, rq_source = ''10.0.0.1:5060'', rq_transport = ''udp'',
     rq_authorization = Some (write_authorization alice_params)\<rparr>"

definition alice_config :: sip_config where
  "alice_config = \<lparr>sc_realm = ''r'', sc_users = [\<lparr>uc_username = ''alice'', uc_password = ''p'', uc_display = [], uc_device = ''d''\<rparr>]\<rparr>"

definition empty_registrar :: registrar where
  "empty_registrar = \<lparr>rg_heap = (\<lambda>_. undefined), rg_next = 0, rg_users = [], rg_by_device = Map.empty,
     rg_nonces = Map.empty, rg_invites = Map.empty, rg_signals = Map.empty, rg_closed = []\<rparr>"

lemma alice_header: "parse_digest_authorization (write_authorization alice_params) = Some (map_of alice_params)"
  by (rule authorization_read) (simp add: alice_params_def, code_simp, simp add: alice_params_def)

lemma alice_begins:
  assumes "rg_nonces r ''n'' = Some (challenge_state 0 alice_request ''alice'')"
  shows "begin_validation (\<lambda>_. [0]) alice_config 5 alice_request ''alice'' (write_authorization alice_params) r
    = (Some (''n'', challenge_state 0 alice_request ''alice''), r)"
proof -
  have "params_ok alice_config alice_request ''alice'' (map_of alice_params)" by code_simp
  moreover have "digest_ok (\<lambda>_. [0]) alice_config alice_request ''alice'' (map_of alice_params)
      (challenge_state 0 alice_request ''alice'')" by code_simp
  moreover have "param (map_of alice_params) ''nonce'' = ''n''" by code_simp
  ultimately show ?thesis
    using assms by (simp add: begin_validation_def alice_header find_nonce_def challenge_state_def sip_nonce_ttl_def)
qed


section \<open>Registrations that share a device\<close>

lemma dropped_stays:
  "m d = None \<Longrightarrow> foldl (\<lambda>m x. if f x \<noteq> [] then m(f x := None) else m) m xs d = None"
  by (induction xs arbitrary: m) auto

lemma dropped_device:
  "x \<in> set xs \<Longrightarrow> f x \<noteq> [] \<Longrightarrow>
   foldl (\<lambda>m x. if f x \<noteq> [] then m(f x := None) else m) m xs (f x) = None"
proof (induction xs arbitrary: m)
  case (Cons y ys)
  then show ?case by (cases "f x = f y") (auto simp: dropped_stays)
qed simp

text \<open>
  C33. When the registration of a user expires, the cleanup drops its device, also when another
  user has registered for the device since: calls to the device then find nobody, although the
  other user is still registered.
\<close>

theorem expired_user_takes_the_device:
  assumes "ru_username a \<noteq> ru_username b" and "ru_device a = d" and "ru_device b = d" and "d \<noteq> []"
    and "ru_expires a < now" and "now < ru_expires b" and st': "st' = register_user b (register_user a st)"
  shows "get_user_by_device now d st' = Some b
    \<and> get_user_by_username now (ru_username b) (cleanup now st') = Some b
    \<and> get_user_by_device now d (cleanup now st') = None"
proof (intro conjI)
  show "get_user_by_device now d st' = Some b"
    using assms by (simp add: get_user_by_device_def user_at_def register_user_def Let_def)
  show "get_user_by_username now (ru_username b) (cleanup now st') = Some b"
    using assms by (simp add: get_user_by_username_def user_at_def register_user_def cleanup_def expired_user_def Let_def)
  let ?dev = "\<lambda>x. ru_device (rg_heap st' (snd x))"
  have "(ru_username a, rg_next st) \<in> set (rg_users st')" and "rg_heap st' (rg_next st) = a"
    using assms by (auto simp: register_user_def Let_def)
  then have "rg_by_device (cleanup now st') d = None"
    using dropped_device [of "(ru_username a, rg_next st)" "filter (expired_user now st') (rg_users st')" ?dev]
      assms(2,4,5)
    by (simp add: cleanup_def expired_user_def Let_def)
  then show "get_user_by_device now d (cleanup now st') = None" by (simp add: get_user_by_device_def user_at_def)
qed

definition phone :: "string \<Rightarrow> int \<Rightarrow> registered_user" where
  "phone name expires = \<lparr>ru_username = name, ru_device = ''d'', ru_display = [], ru_contact_uri = [], ru_contact_addr = None,
     ru_source = [], ru_transport = [], ru_expires = expires, ru_agent = [], ru_push = []\<rparr>"

theorem expired_user_takes_the_device_witness:
  "get_user_by_device 5 ''d''
     (cleanup 5 (register_user (phone ''b'' 9) (register_user (phone ''a'' 3) empty_registrar))) = None"
  using expired_user_takes_the_device [of "phone ''a'' 3" "phone ''b'' 9" "''d''" 5
      "register_user (phone ''b'' 9) (register_user (phone ''a'' 3) empty_registrar)" empty_registrar]
  by (simp add: phone_def)

end
