(* ===== verification/Spec2Isabelle.thy ===== *)
theory Spec2Isabelle
  imports Prelude Go_Bytes Go_Strings Go_Unicode Go_Net Arbiter_Claims Arbiter_Liveness SimAuth_Ready
    SMS_Rp SMS_Trim SMS_Reassembler Wbxml Wbxml_Document Sim_Aid Mbim_Message Mbim_Device Mbim_Info
    Mbim_Parsers Mbim_Services Mbim_Requests Mbim_Monitor Mbim_Ussd Mbim_Qmi Go_Text Sms_Binary At_Parse
    Sim_Metadata Go_Netip Net_Access Rolling_Window Sms_Rate
    At_Port At_Commands At_Apdu At_Sms Pcsc_Channel Pcsc_Occupancy Sim_Aka Vowifi_Store Cs_Audio Mbim_Data Recovery Sip_Digest Sip_Registrar
begin

text \<open>
  VoDoge runs cellular modems on a host: it reads their cards, sends and receives short
  messages, brings up data connections, authenticates to IMS with the card and lets SIP phones
  place calls through the modems. A pool (\<open>internal/device\<close>) keeps one worker per modem; a worker
  talks to its modem through AT commands, QMI or MBIM; several parts of the program (the SMS
  poller, eSIM management, VoWiFi, identity queries) want the same card at the same time and ask
  an arbiter for it. This development models the parts of that program that decide something:
  who may use the card, what the bytes of the modem mean, when to connect, recover, refuse.
  Every definition is translated from the Go source, every operation with its branches and
  errors; a Go function that returns an error is a function into a result, an option or a sum, a
  run-time panic is the result \<open>Panic\<close>.
\<close>

section \<open>The theories and the code\<close>

text \<open>
  The ground.
  \<^item> Prelude: machine types, results with panics, bounds-checked slices, reachability, and the
    locales \<open>safety\<close> (an inductive invariant) and \<open>simulation\<close> (refinement) that the stateful
    components interpret on their own step relations.
  \<^item> Go_Bytes, Go_Strings, Go_Text, Go_Unicode, Go_Net, Go_Netip: what the source uses of the
    standard library (\<open>encoding/binary\<close>, \<open>strings\<close>, \<open>strconv\<close>, \<open>encoding/hex\<close>, \<open>unicode\<close>,
    \<open>net/netip\<close>), on byte strings. Rolling_Window: limits over a sliding window of time.

  The card (\<open>internal/apduarbiter\<close>, \<open>internal/simaid\<close>, \<open>internal/sim\<close>, \<open>internal/pcsc\<close>).
  \<^item> Arbiter_Model and Arbiter_Ops hold the functions of \<open>arbiter.go\<close> that run under its mutex;
    Arbiter_Threads interleaves its callers, one step per critical section, so that a run of the
    step relation is an execution of the goroutines. Arbiter_Select, Arbiter_Safety,
    Arbiter_Preserve, Arbiter_System and Arbiter_Reach build the invariant, Arbiter_Card is the
    abstract card that the arbiter refines, Arbiter_Claims and Arbiter_Liveness hold the results:
    exclusion, barriers, the selection policy as an equivalence, wake-ups and the watchdog.
  \<^item> SimAuth_Ready: the gate of \<open>simauth_ready.go\<close>, whose callers share one probe of the card.
  \<^item> Sim_Aid: the applications of a card (\<open>internal/simaid\<close>): BER-TLV, EF_DIR and the exchange of
    APDUs over a card that is an argument. Sim_Aka: authentication, \<open>internal/sim\<close>.
  \<^item> Pcsc_Channel and Pcsc_Occupancy: readers without a modem, \<open>internal/pcsc\<close>.

  Short messages (\<open>pkg/smscodec\<close>, \<open>internal/db/sms_rate.go\<close>).
  \<^item> SMS_Rp: the RP layer of \<open>pdu.go\<close>. SMS_Trim: \<open>pdu_trim.go\<close>. SMS_Reassembler: \<open>reassembler.go\<close>.
  \<^item> Wbxml and Wbxml_Document: provisioning documents, \<open>wbxml_omacp.go\<close>. Sms_Binary: the classifier
    of binary messages. Sms_Rate: the hourly limit of outgoing messages.

  The modems (\<open>pkg/mbim\<close>, \<open>internal/mbim\<close>, \<open>internal/modem\<close>).
  \<^item> Mbim_Message: messages, fragments and the stream. Mbim_Device: transactions and the read
    loop. Mbim_Info, Mbim_Parsers, Mbim_Services, Mbim_Requests, Mbim_Ussd: information buffers,
    one operation per request with its parser. Mbim_Monitor: the snapshot kept from indications.
    Mbim_Qmi: QMI frames through MBIM and the life of a client.
  \<^item> Mbim_Data: the data connection of \<open>internal/mbim\<close>, its reconnection, the recovery of the control
    channel and the health probe, over the record \<open>modem_io\<close> of calls to the modem and the
    network interface, which may answer anything.
  \<^item> At_Parse and Sim_Metadata: the answers of AT commands and the files of a card,
    \<open>internal/modem\<close>.

  The services.
  \<^item> Vowifi_Store: the runtime store of the VoWiFi host. Recovery: the back-off of its recoveries,
    the cap on rebuilding a worker and a worker's health record (\<open>internal/vowifihost\<close>,
    \<open>internal/device\<close>).
  \<^item> Sip_Digest and Sip_Registrar: digest authentication and registrations of the SIP gateway,
    \<open>internal/sipgw\<close>; the two critical sections of a validation are steps of their own.
  \<^item> Cs_Audio: codec and loops of the audio bridge, \<open>internal/cscall\<close>.
  \<^item> Net_Access: who reaches the administration pages, \<open>internal/netaccess\<close>.
\<close>

section \<open>State, steps and parameters\<close>

text \<open>
  A struct is a record, a map a function into an option or, where its order or size matters, an
  association list; a \<open>uint16\<close> is a \<open>16 word\<close>. What runs under one lock is one function and one
  step; what happens between two sections of one call is a step of its own wherever the
  interleaving matters (arbiter, readiness gate, SMS reservations, digest validation, start
  claims). Time is an argument or a clock of the state that only goes forward. Code outside the
  repository is a parameter: the card, the modem, the database, the daemon of the readers, MD5,
  the GSM 7-bit alphabet, the TPDU package and the iteration order of a map. A theorem about such
  a parameter either quantifies over it or states what it relies on as a hypothesis, and its
  witness instantiates it.
\<close>

section \<open>What is shown\<close>

text \<open>
  \<^item> Safety and invariants over every interleaving: the holders of the card exclude each other,
    barriers isolate, a readiness answer is fresh, a transaction has one result, no hour exceeds the
    limit of messages, a disowned start is refused, readers and cards keep their holder, only who
    knows the password is let in, a connected manager is configured, rebuilds are capped.
  \<^item> Refinement and equivalence with a reference: the arbiter implements the abstract card, the
    device delivers the response of its caller, the queue scan is the arbitration policy, the RP
    parser is its grammar, callbacks and health events are exactly the changes of the state.
  \<^item> Round trips: RP data, fragments, provisioning documents, answers of the card, the
    \<open>Authorization\<close> header, and audio through the packets of the bridge.
  \<^item> No panics and termination: the parsers of MBIM never panic on any bytes, decoding ends.
  \<^item> Liveness: a caller that could be granted has been signalled.
  \<^item> Some theorems show behaviour that the code does not intend, with a concrete run as the
    witness: an arbiter that stalls when a ticket ages, indications lost after a lost fragment, a
    codec that decodes four times too loud, a recovery that forgets the data session, a
    registration that falls with that of another user, a start that is revived.
\<close>

section \<open>Bounds and fuel\<close>

text \<open>
  The nesting of a WBXML document is not bounded in the code; its decoder takes fuel, one more than
  the length of the input is enough (\<open>fuel_suffices\<close>) and more changes nothing. The loops whose
  bound is in the code keep it: rounds of GET RESPONSE, records of EF_DIR, attempts to activate, six
  attempts to reconnect, three to reopen the channel. The other loops recurse on the bytes or the
  list that is left. The daemon of the readers and the poll for the registration of the modem may
  wait; their outcome is what the parameter returns.
\<close>

section \<open>Not modelled\<close>

text \<open>
  Sockets, serial lines, processes, files, web pages and logging. The HTTP handlers, the chat bots,
  the proxy server, the updater, the extensions' processes and the configuration files pass values
  between such effects and library calls. The eSIM manager drives a third-party LPA library, the QMI
  manager a third-party QMI library, the database a third-party mapper: their effects are those
  libraries'. The device pool and the AT manager are mostly goroutines, timers and commands around
  the parsers that are modelled here; of the pool the recovery guards are modelled. Of the
  components that are partly modelled, the manifest says what is left out.
\<close>

end
